(* ===== verification/Prelude.thy ===== *)
theory Prelude
  imports Complex_Main "HOL-Library.AList" "HOL-Library.Sublist"
begin

section \<open>Shared vocabulary of the development\<close>

text \<open>
  The language and run-time facts every component uses: results of operations that may
  throw, instants, the insertion-ordered JavaScript \<open>Map\<close>, decimal printing of integers,
  the white-space rules of \<open>String.prototype.trim\<close>, and generic facts on lists.

  \<^item> An operation of a class is a function from the object's state to a pair of its outcome
    and the state it leaves behind. The outcome is \<open>Inl e\<close> when the call throws and
    \<open>Inr v\<close> when it returns; the state is given in both cases, because what was assigned
    before a \<open>throw\<close> stays assigned.
  \<^item> A \<open>Date\<close> is the integer number of milliseconds \<open>getTime\<close> returns, and a string made
    by \<open>toISOString\<close> is the instant it denotes (printing and parsing it back is the
    identity, and for years of four digits \<open>localeCompare\<close> orders it chronologically).
  \<^item> Identifiers and keys are strings.
\<close>

type_synonym date = int
type_synonym ident = string
type_synonym ('e, 'a, 's) outcome = "('e + 'a) \<times> 's"

text \<open>Collections of facts the component theories add to.\<close>

named_theorems model_defs \<open>definitions a component proof unfolds together\<close>
named_theorems inv_steps \<open>one-step preservation lemmas of component invariants\<close>

subsection \<open>Outcomes\<close>

definition threw :: "('e, 'a, 's) outcome \<Rightarrow> bool" where
  "threw r \<longleftrightarrow> isl (fst r)"

lemma threw_simps [simp]:
  "threw (Inl e, s)" "\<not> threw (Inr v, s)"
  by (simp_all add: threw_def)

subsection \<open>JavaScript maps with insertion order\<close>

text \<open>
  A \<open>Map\<close> is an association list in insertion order: setting a present key keeps its
  place, setting a new one appends, and iteration follows the list.
\<close>

type_synonym ('k, 'v) js_map = "('k \<times> 'v) list"

definition map_get :: "('k, 'v) js_map \<Rightarrow> 'k \<Rightarrow> 'v option" where
  "map_get m k = map_of m k"

definition map_set :: "('k, 'v) js_map \<Rightarrow> 'k \<Rightarrow> 'v \<Rightarrow> ('k, 'v) js_map" where
  "map_set m k v = AList.update k v m"

definition map_delete :: "('k, 'v) js_map \<Rightarrow> 'k \<Rightarrow> ('k, 'v) js_map" where
  "map_delete m k = AList.delete k m"

definition map_has :: "('k, 'v) js_map \<Rightarrow> 'k \<Rightarrow> bool" where
  "map_has m k = (map_get m k \<noteq> None)"

definition map_keys :: "('k, 'v) js_map \<Rightarrow> 'k list" where
  "map_keys m = map fst m"

definition map_ok :: "('k, 'v) js_map \<Rightarrow> bool" where
  "map_ok m = distinct (map_keys m)"

text \<open>What a client of a map relies on, and what follows from it.\<close>

locale keyed_store =
  fixes get :: "'m \<Rightarrow> 'k \<Rightarrow> 'v option"
    and put :: "'m \<Rightarrow> 'k \<Rightarrow> 'v \<Rightarrow> 'm"
    and del :: "'m \<Rightarrow> 'k \<Rightarrow> 'm"
    and keys :: "'m \<Rightarrow> 'k list"
    and ok :: "'m \<Rightarrow> bool"
  assumes get_put: "get (put m k v) k' = (if k' = k then Some v else get m k')"
    and get_del: "get (del m k) k' = (if k' = k then None else get m k')"
    and keys_get: "k \<in> set (keys m) \<longleftrightarrow> get m k \<noteq> None"
    and keys_put: "keys (put m k v) = (if get m k = None then keys m @ [k] else keys m)"
    and keys_del: "keys (del m k) = filter (\<lambda>k'. k' \<noteq> k) (keys m)"
    and ok_distinct: "ok m \<longleftrightarrow> distinct (keys m)"
begin

lemma ok_put: "ok m \<Longrightarrow> ok (put m k v)"
  using keys_get [of k m] by (auto simp: ok_distinct keys_put)

lemma ok_del: "ok m \<Longrightarrow> ok (del m k)"
  by (simp add: ok_distinct keys_del)

lemma del_put_fresh: "get m k = None \<Longrightarrow> get (del (put m k v) k) = get m"
  by (rule ext) (auto simp: get_put get_del)

end

lemma map_keys_update:
  "map fst (AList.update k v m) = (if map_of m k = None then map fst m @ [k] else map fst m)"
  by (induction m) auto

lemma map_keys_delete:
  "map fst (AList.delete k m) = filter (\<lambda>k'. k' \<noteq> k) (map fst m)"
  by (induction m) (auto simp: AList.delete_eq)

interpretation jm: keyed_store map_get map_set map_delete map_keys map_ok
  by unfold_locales
    (auto simp: map_get_def map_set_def map_delete_def map_keys_def map_ok_def update_conv'
      delete_conv' map_keys_update map_keys_delete map_of_eq_None_iff)

lemma map_get_set [simp]:
  "map_get (map_set m k v) k' = (if k' = k then Some v else map_get m k')"
  by (rule jm.get_put)

lemma map_get_delete [simp]:
  "map_get (map_delete m k) k' = (if k' = k then None else map_get m k')"
  by (rule jm.get_del)

lemma map_get_empty [simp]: "map_get [] k = None"
  by (simp add: map_get_def)

lemma map_has_iff [simp]: "map_has m k \<longleftrightarrow> map_get m k \<noteq> None"
  by (simp add: map_has_def)

lemma map_ok_empty [simp]: "map_ok []"
  by (simp add: map_ok_def map_keys_def)

lemma map_ok_set [simp, intro]: "map_ok m \<Longrightarrow> map_ok (map_set m k v)"
  by (rule jm.ok_put)

lemma map_ok_delete [simp, intro]: "map_ok m \<Longrightarrow> map_ok (map_delete m k)"
  by (rule jm.ok_del)

lemma map_get_mem: "map_ok m \<Longrightarrow> map_get m k = Some v \<longleftrightarrow> (k, v) \<in> set m"
  by (simp add: map_ok_def map_keys_def map_get_def)

lemma map_get_None_notin: "map_get m k = None \<longleftrightarrow> k \<notin> fst ` set m"
  by (simp add: map_get_def map_of_eq_None_iff)

subsection \<open>Strings\<close>

text \<open>
  \<open>trim\<close> removes the white space and line terminators of ECMAScript (those below U+0100:
  tab to carriage return, space, no-break space); \<open>String(n)\<close> of a natural number is its
  decimal notation.
\<close>

definition js_space :: "char \<Rightarrow> bool" where
  "js_space c = (let n = (of_char c :: nat) in (9 \<le> n \<and> n \<le> 13) \<or> n = 32 \<or> n = 160)"

definition js_trim :: "string \<Rightarrow> string" where
  "js_trim s = rev (dropWhile js_space (rev (dropWhile js_space s)))"

definition js_slice :: "string \<Rightarrow> nat \<Rightarrow> string" where
  "js_slice s n = take n s"

definition starts_with :: "string \<Rightarrow> string \<Rightarrow> bool" where
  "starts_with s p = (take (length p) s = p)"

lemma starts_with_iff: "starts_with s p \<longleftrightarrow> (\<exists>t. s = p @ t)"
  unfolding starts_with_def by (metis append_eq_conv_conj append_take_drop_id)

lemma starts_with_append [simp]: "starts_with (p @ t) p"
  by (simp add: starts_with_def)

definition digit_char :: "nat \<Rightarrow> char" where
  "digit_char d = char_of (48 + d)"

fun string_of_nat :: "nat \<Rightarrow> string" where
  "string_of_nat n =
     (if n < 10 then [digit_char n] else string_of_nat (n div 10) @ [digit_char (n mod 10)])"

declare string_of_nat.simps [simp del]

definition nat_of_string :: "string \<Rightarrow> nat" where
  "nat_of_string s = foldl (\<lambda>a c. 10 * a + (of_char c - 48)) 0 s"

lemma of_digit_char: "d < 10 \<Longrightarrow> (of_char (digit_char d) :: nat) = 48 + d"
  by (simp add: digit_char_def)

lemma nat_of_string_snoc: "d < 10 \<Longrightarrow> nat_of_string (s @ [digit_char d]) = 10 * nat_of_string s + d"
  by (simp add: nat_of_string_def of_digit_char)

lemma nat_of_string_of_nat: "nat_of_string (string_of_nat n) = n"
proof (induction n rule: string_of_nat.induct)
  case (1 n)
  show ?case
  proof (cases "n < 10")
    case True
    then show ?thesis
      using nat_of_string_snoc [of n "[]"]
      by (simp add: string_of_nat.simps [of n] nat_of_string_def)
  next
    case False
    then show ?thesis
      using "1.IH" by (simp add: string_of_nat.simps [of n] nat_of_string_snoc)
  qed
qed

lemma string_of_nat_inject [simp]: "string_of_nat m = string_of_nat n \<longleftrightarrow> m = n"
  by (metis nat_of_string_of_nat)

definition string_of_int :: "int \<Rightarrow> string" where
  "string_of_int i = (if i < 0 then CHR ''-'' # string_of_nat (nat (- i)) else string_of_nat (nat i))"

subsection \<open>Lists\<close>

lemma find_in_set: "List.find P xs = Some x \<Longrightarrow> x \<in> set xs \<and> P x"
  by (induction xs) (auto split: if_splits)

lemma find_None: "List.find P xs = None \<longleftrightarrow> (\<forall>x \<in> set xs. \<not> P x)"
  by (auto simp: find_None_iff)

lemma find_key_None: "k \<notin> f ` set xs \<Longrightarrow> List.find (\<lambda>x. f x = k) xs = None"
  by (auto simp: find_None)

lemma find_append:
  "List.find P (xs @ ys) = (case List.find P xs of None \<Rightarrow> List.find P ys | Some x \<Rightarrow> Some x)"
  by (induction xs) auto

lemma find_unique:
  assumes "x \<in> set xs" "P x" "\<And>y. y \<in> set xs \<Longrightarrow> P y \<Longrightarrow> y = x"
  shows "List.find P xs = Some x"
proof (cases "List.find P xs")
  case None
  then show ?thesis using assms(1,2) by (simp add: find_None)
next
  case (Some z)
  then show ?thesis using assms(3) find_in_set by metis
qed

lemma sum_list_map_filter_split:
  "sum_list (map f (filter P xs)) + sum_list (map f (filter (\<lambda>x. \<not> P x) xs)) = (sum_list (map f xs) :: int)"
  by (induction xs) auto

text \<open>Assignment to the object \<open>Array.prototype.find\<close> returns: the first element that fits.\<close>

fun update_first :: "('a \<Rightarrow> bool) \<Rightarrow> ('a \<Rightarrow> 'a) \<Rightarrow> 'a list \<Rightarrow> 'a list" where
  "update_first P f [] = []"
| "update_first P f (x # xs) = (if P x then f x # xs else x # update_first P f xs)"

lemma length_update_first [simp]: "length (update_first P f xs) = length xs"
  by (induction xs) auto

lemma map_update_first: "(\<And>x. P x \<Longrightarrow> g (f x) = g x) \<Longrightarrow> map g (update_first P f xs) = map g xs"
  by (induction xs) auto

lemma update_first_none: "List.find P xs = None \<Longrightarrow> update_first P f xs = xs"
  by (induction xs) (auto split: if_splits)

lemma find_update_first:
  "List.find P xs = Some x \<Longrightarrow> P (f x) \<Longrightarrow> List.find P (update_first P f xs) = Some (f x)"
  by (induction xs) (auto split: if_splits)

lemma filter_update_first_sub:
  "(\<And>x. P x \<Longrightarrow> Q (f x) \<Longrightarrow> Q x \<and> g (f x) = g x) \<Longrightarrow>
   subseq (map g (filter Q (update_first P f xs))) (map g (filter Q xs))"
  by (induction xs) auto

lemma filter_map_sub:
  "(\<And>x. Q (f x) \<Longrightarrow> Q x \<and> g (f x) = g x) \<Longrightarrow>
   subseq (map g (filter Q (map f xs))) (map g (filter Q xs))"
  by (induction xs) auto

lemma filter_list_update_sub:
  "i < length xs \<Longrightarrow> (Q y \<Longrightarrow> Q (xs ! i) \<and> g y = g (xs ! i)) \<Longrightarrow>
   subseq (map g (filter Q (xs[i := y]))) (map g (filter Q xs))"
proof (induction xs arbitrary: i)
  case (Cons x xs)
  then show ?case by (cases i) auto
qed simp

lemma subseq_distinct: "subseq xs ys \<Longrightarrow> distinct ys \<Longrightarrow> distinct xs"
  by (auto simp: subseq_conv_nths)

lemma distinct_map_eq: "distinct (map f xs) \<Longrightarrow> x \<in> set xs \<Longrightarrow> y \<in> set xs \<Longrightarrow> f x = f y \<Longrightarrow> x = y"
  by (simp add: distinct_map inj_on_def)

lemma subseq_set: "subseq xs ys \<Longrightarrow> set xs \<subseteq> set ys"
  by (auto simp: subseq_conv_nths dest: in_set_nthsD)

lemma find_map_same:
  "(\<And>x. P (f x) = P x) \<Longrightarrow> List.find P (map f xs) = map_option f (List.find P xs)"
  by (induction xs) auto

lemma find_update_first_other:
  "(\<And>x. Q x \<Longrightarrow> P (f x) = P x) \<Longrightarrow> List.find P xs = Some x \<Longrightarrow> \<not> Q x \<Longrightarrow>
   List.find P (update_first Q f xs) = Some x"
  by (induction xs) (auto split: if_splits)

lemma find_list_update_other:
  "P y = P (xs ! i) \<Longrightarrow> i < length xs \<Longrightarrow> List.find P xs = Some x \<Longrightarrow> xs ! i \<noteq> x \<Longrightarrow>
   List.find P (xs[i := y]) = Some x"
proof (induction xs arbitrary: i)
  case (Cons z zs)
  then show ?case by (cases i) (auto split: if_splits)
qed simp

text \<open>
  A stable sort of increasing positions is strictly sorted by key and position, so the first
  element of it with some feature is the least such one.
\<close>

definition key_pos_less :: "(nat \<Rightarrow> 'k::linorder) \<Rightarrow> nat \<Rightarrow> nat \<Rightarrow> bool" where
  "key_pos_less f i j = (f i < f j \<or> f i = f j \<and> i < j)"

lemma sorted_wrt_insort_key:
  "sorted_wrt (key_pos_less f) ys \<Longrightarrow> (\<forall>y \<in> set ys. x < y) \<Longrightarrow> sorted_wrt (key_pos_less f) (insort_key f x ys)"
  by (induction ys) (auto simp: key_pos_less_def set_insort_key)

lemma sorted_wrt_sort_key:
  "sorted_wrt (<) xs \<Longrightarrow> sorted_wrt (key_pos_less f) (sort_key f xs)"
  by (induction xs) (auto intro: sorted_wrt_insort_key)

lemma find_sorted_wrt:
  "sorted_wrt R xs \<Longrightarrow> List.find P xs = Some x \<Longrightarrow> y \<in> set xs \<Longrightarrow> P y \<Longrightarrow> y = x \<or> R x y"
  by (induction xs) (auto split: if_splits)

end
