(* ===== verification/JsNumber.thy ===== *)
theory JsNumber
  imports Prelude
begin

section \<open>JavaScript numbers\<close>

text \<open>
  A value of type \<open>number\<close>: a finite rational (every finite double is one), an infinity, or
  \<open>NaN\<close>. Comparisons with \<open>NaN\<close> are false, \<open>Math.min\<close> and \<open>Math.max\<close> propagate it, and
  \<open>Number.isInteger\<close>, \<open>isSafeInteger\<close> and \<open>isFinite\<close> test as the language does. Finite
  arithmetic is exact: the components compute on instants, sequence numbers and second
  counts, integers far below \<open>2 ^ 53\<close>, where doubles do not round. The two zeros are one.
\<close>

datatype jsnum = Fin rat | PosInf | NegInf | NaN

definition js_int :: "int \<Rightarrow> jsnum" where
  "js_int i = Fin (of_int i)"

fun js_le :: "jsnum \<Rightarrow> jsnum \<Rightarrow> bool" where
  "js_le NaN y = False"
| "js_le x NaN = False"
| "js_le NegInf y = True"
| "js_le x PosInf = True"
| "js_le (Fin a) (Fin b) = (a \<le> b)"
| "js_le x y = False"

definition js_lt :: "jsnum \<Rightarrow> jsnum \<Rightarrow> bool" where
  "js_lt x y = (js_le x y \<and> \<not> js_le y x)"

definition js_eq :: "jsnum \<Rightarrow> jsnum \<Rightarrow> bool" where
  "js_eq x y = (x = y \<and> x \<noteq> NaN)"

fun js_neg :: "jsnum \<Rightarrow> jsnum" where
  "js_neg (Fin a) = Fin (- a)"
| "js_neg PosInf = NegInf"
| "js_neg NegInf = PosInf"
| "js_neg NaN = NaN"

fun js_add :: "jsnum \<Rightarrow> jsnum \<Rightarrow> jsnum" where
  "js_add (Fin a) (Fin b) = Fin (a + b)"
| "js_add NaN y = NaN"
| "js_add x NaN = NaN"
| "js_add PosInf NegInf = NaN"
| "js_add NegInf PosInf = NaN"
| "js_add PosInf y = PosInf"
| "js_add x PosInf = PosInf"
| "js_add NegInf y = NegInf"
| "js_add x NegInf = NegInf"

definition js_sub :: "jsnum \<Rightarrow> jsnum \<Rightarrow> jsnum" where
  "js_sub x y = js_add x (js_neg y)"

definition js_min :: "jsnum \<Rightarrow> jsnum \<Rightarrow> jsnum" where
  "js_min x y = (if x = NaN \<or> y = NaN then NaN else if js_le x y then x else y)"

definition js_max :: "jsnum \<Rightarrow> jsnum \<Rightarrow> jsnum" where
  "js_max x y = (if x = NaN \<or> y = NaN then NaN else if js_le x y then y else x)"

fun js_finite :: "jsnum \<Rightarrow> bool" where
  "js_finite (Fin a) = True"
| "js_finite x = False"

fun js_is_integer :: "jsnum \<Rightarrow> bool" where
  "js_is_integer (Fin a) = (of_int \<lfloor>a\<rfloor> = a)"
| "js_is_integer x = False"

fun js_is_safe_integer :: "jsnum \<Rightarrow> bool" where
  "js_is_safe_integer (Fin a) = (of_int \<lfloor>a\<rfloor> = a \<and> \<bar>a\<bar> \<le> 9007199254740991)"
| "js_is_safe_integer x = False"

fun js_ceil :: "jsnum \<Rightarrow> jsnum" where
  "js_ceil (Fin a) = js_int \<lceil>a\<rceil>"
| "js_ceil x = x"

fun js_floor :: "jsnum \<Rightarrow> jsnum" where
  "js_floor (Fin a) = js_int \<lfloor>a\<rfloor>"
| "js_floor x = x"

fun js_round :: "jsnum \<Rightarrow> jsnum" where
  "js_round (Fin a) = js_int \<lfloor>a + 1 / 2\<rfloor>"
| "js_round x = x"

text \<open>The integer a number known to be one stands for.\<close>

fun int_of_js :: "jsnum \<Rightarrow> int" where
  "int_of_js (Fin a) = \<lfloor>a\<rfloor>"
| "int_of_js x = 0"

subsection \<open>Laws\<close>

lemma js_le_Fin_iff [simp]: "js_le (js_int i) (js_int j) \<longleftrightarrow> i \<le> j"
  by (simp add: js_int_def)

lemma js_le_refl_iff: "js_le x x \<longleftrightarrow> x \<noteq> NaN"
  by (cases x) auto

lemma js_le_linear: "x \<noteq> NaN \<Longrightarrow> y \<noteq> NaN \<Longrightarrow> js_le x y \<or> js_le y x"
  by (cases x; cases y) auto

lemma js_le_trans: "js_le x y \<Longrightarrow> js_le y z \<Longrightarrow> js_le x z"
  by (cases x; cases y; cases z) auto

lemma js_le_antisym: "js_le x y \<Longrightarrow> js_le y x \<Longrightarrow> x = y"
  by (cases x; cases y) auto

lemma js_le_not_NaN: "js_le x y \<Longrightarrow> x \<noteq> NaN \<and> y \<noteq> NaN"
  by (cases x; cases y) auto

lemma js_lt_Fin [simp]: "js_lt (Fin a) (Fin b) \<longleftrightarrow> a < b"
  by (auto simp: js_lt_def)

lemma js_lt_int [simp]: "js_lt (js_int i) (js_int j) \<longleftrightarrow> i < j"
  by (simp add: js_int_def)

lemma js_lt_NaN [simp]: "\<not> js_lt NaN y" "\<not> js_lt x NaN"
  by (auto simp: js_lt_def) (cases x; auto)

lemma js_le_NaN [simp]: "\<not> js_le x NaN"
  by (cases x) auto

lemma js_lt_le_trans: "js_lt x y \<Longrightarrow> js_le y z \<Longrightarrow> js_lt x z"
  unfolding js_lt_def by (meson js_le_trans)

lemma js_le_lt_trans: "js_le x y \<Longrightarrow> js_lt y z \<Longrightarrow> js_lt x z"
  unfolding js_lt_def by (meson js_le_trans)

lemma js_lt_trans: "js_lt x y \<Longrightarrow> js_lt y z \<Longrightarrow> js_lt x z"
  using js_lt_le_trans js_lt_def by blast

lemma js_not_le: "x \<noteq> NaN \<Longrightarrow> y \<noteq> NaN \<Longrightarrow> \<not> js_le x y \<longleftrightarrow> js_lt y x"
  unfolding js_lt_def using js_le_linear by blast

lemma js_sub_Fin [simp]: "js_sub (Fin a) (Fin b) = Fin (a - b)"
  by (simp add: js_sub_def)

lemma js_sub_int [simp]: "js_sub (js_int i) (js_int j) = js_int (i - j)"
  by (simp add: js_int_def)

lemma js_sub_NaN [simp]: "js_sub NaN y = NaN" "js_sub x NaN = NaN"
  by (auto simp: js_sub_def) (cases x; auto)

lemma js_min_Fin [simp]: "js_min (Fin a) (Fin b) = Fin (min a b)"
  by (simp add: js_min_def min_def)

lemma js_max_Fin [simp]: "js_max (Fin a) (Fin b) = Fin (max a b)"
  by (simp add: js_max_def max_def)

lemma js_min_NaN [simp]: "js_min NaN y = NaN" "js_min x NaN = NaN"
  by (simp_all add: js_min_def)

lemma js_max_NaN [simp]: "js_max NaN y = NaN" "js_max x NaN = NaN"
  by (simp_all add: js_max_def)

lemma js_safe_is_integer: "js_is_safe_integer x \<Longrightarrow> js_is_integer x"
  by (cases x) auto

lemma js_integer_int: "js_is_integer x \<Longrightarrow> x = js_int (int_of_js x)"
  by (cases x) (auto simp: js_int_def)

lemma int_of_js_int [simp]: "int_of_js (js_int i) = i"
  by (simp add: js_int_def)

lemma js_int_eq [simp]: "js_int i = js_int j \<longleftrightarrow> i = j"
  by (simp add: js_int_def)

lemma js_int_not_NaN [simp]: "js_int i \<noteq> NaN" "NaN \<noteq> js_int i"
  by (simp_all add: js_int_def)

lemma js_is_integer_int [simp]: "js_is_integer (js_int i)"
  by (simp add: js_int_def)

lemma js_safe_int_iff: "js_is_safe_integer (js_int i) \<longleftrightarrow> \<bar>i\<bar> \<le> 9007199254740991"
proof -
  have "\<bar>of_int i :: rat\<bar> \<le> of_int 9007199254740991 \<longleftrightarrow> \<bar>i\<bar> \<le> 9007199254740991"
    by (simp only: of_int_abs [symmetric] of_int_le_iff)
  then show ?thesis by (simp add: js_int_def)
qed

text \<open>\<open>Math.max(lo, Math.min(hi, x))\<close>, the clamping idiom of the code.\<close>

definition js_clamp :: "jsnum \<Rightarrow> jsnum \<Rightarrow> jsnum \<Rightarrow> jsnum" where
  "js_clamp lo hi x = js_max lo (js_min hi x)"

lemma js_clamp_range:
  assumes "x \<noteq> NaN" "js_le lo hi"
  shows "js_le lo (js_clamp lo hi x)" "js_le (js_clamp lo hi x) hi"
  using assms by (cases x; cases lo; cases hi; auto simp: js_clamp_def js_max_def js_min_def)+

lemma js_clamp_id:
  assumes "js_le lo x" "js_le x hi"
  shows "js_clamp lo hi x = x"
  using assms by (cases x; cases lo; cases hi; auto simp: js_clamp_def js_max_def js_min_def)

lemma js_clamp_NaN [simp]: "js_clamp lo hi NaN = NaN"
  by (simp add: js_clamp_def)

subsection \<open>JSON values\<close>

text \<open>A value as \<open>JSON.parse\<close> gives it; a string made by \<open>JSON.stringify\<close> is the value it denotes.\<close>

datatype json =
    JNull
  | JBool bool
  | JNum jsnum
  | JStr string
  | JArr "json list"
  | JObj "(string \<times> json) list"

end
