(* ===== verification/Contracts.thy ===== *)
theory Contracts
  imports JsNumber
begin

section \<open>Shared contracts\<close>

text \<open>
  The vocabulary of \<open>packages/contracts/src/index.ts\<close>: the states of cars and rides, the
  actors, the transition event and the ride snapshot with the checks their schemas make.
  Two states of the enumerations share their spelling (\<open>ACTIVE\<close>, \<open>RECONNECT_GRACE\<close>); they
  are written with their type in front.
\<close>

datatype car_state =
    OFFLINE
  | INITIALIZING
  | AVAILABLE
  | RESERVED
  | CONNECTING
  | ACTIVE
  | RECONNECT_GRACE
  | RETURN_REQUIRED
  | OPERATOR_RECOVERY
  | SAFETY_BLOCKED
  | ADMIN_BLOCKED

datatype ride_state =
    CREATED
  | OFFERED
  | ACCEPTED
  | NEGOTIATING
  | ACTIVE
  | RECONNECT_GRACE
  | PAUSED_SITE_FAILOVER
  | ENDING
  | COMPLETED
  | FAILED
  | PARTIALLY_COMPENSATED
  | FULLY_COMPENSATED

datatype actor_type =
    User_actor
  | System_actor
  | Operator_actor
  | Technical_admin_actor
  | Business_admin_actor
  | Device_actor

text \<open>
  A state transition event. The states are kept as values of the machine's state type
  instead of their names.
\<close>

record 's state_transition =
  tr_entityId :: ident
  tr_from :: 's
  tr_to :: 's
  tr_reason :: string
  tr_initiator :: actor_type
  tr_version :: nat
  tr_occurredAt :: date
  tr_idempotencyKey :: string

record ride_snapshot =
  rs_id :: ident
  rs_userId :: ident
  rs_carId :: ident
  rs_state :: ride_state
  rs_version :: nat
  rs_purchasedSeconds :: jsnum
  rs_usedSeconds :: jsnum
  rs_remainingSeconds :: jsnum
  rs_attemptCount :: nat
  rs_startedAt :: "date option"

text \<open>
  The schema of a ride snapshot; \<open>z.string().uuid()\<close> is the third-party validator, a
  parameter. \<open>z.number().int().nonnegative()\<close> is \<open>nonnegative_int\<close>.
\<close>

definition nonnegative_int :: "jsnum \<Rightarrow> bool" where
  "nonnegative_int x = (js_is_safe_integer x \<and> js_le (js_int 0) x)"

definition RideSnapshotSchema :: "(string \<Rightarrow> bool) \<Rightarrow> ride_snapshot \<Rightarrow> bool" where
  "RideSnapshotSchema uuid s =
     (uuid (rs_id s) \<and> uuid (rs_userId s) \<and> uuid (rs_carId s)
      \<and> 0 < rs_version s
      \<and> nonnegative_int (rs_purchasedSeconds s)
      \<and> nonnegative_int (rs_usedSeconds s)
      \<and> nonnegative_int (rs_remainingSeconds s)
      \<and> rs_attemptCount s \<le> 5)"

text \<open>\<open>assertRideSnapshot\<close> of \<open>packages/domain/src/index.ts\<close>.\<close>

definition assertRideSnapshot :: "ride_snapshot \<Rightarrow> string + ride_snapshot" where
  "assertRideSnapshot s =
     (if js_lt (rs_purchasedSeconds s) (js_add (rs_usedSeconds s) (rs_remainingSeconds s))
      then Inl ''Ride time invariant violated'' else Inr s)"

end
