(* ===== verification/Logs.thy ===== *)
theory Logs
  imports Prelude
begin

section \<open>Idempotent append-only logs\<close>

text \<open>
  Three components keep a log that callers append to under an idempotency key: the state
  machine's history, the time ledger's entries and the edge outbox. They share one contract,
  stated here as a locale: a key that is already logged returns the logged entry and changes
  nothing, a new key either fails and changes nothing or appends one entry that carries it.
  What callers rely on follows for every provider: retries are harmless, the log only grows
  and its keys stay distinct, an entry once logged is what its key answers for ever. A
  provider that also numbers its entries gets a gapless numbering.
\<close>

locale idempotent_log =
  fixes append :: "'st \<Rightarrow> 'i \<Rightarrow> ('e, 'x, 'st) outcome"
    and entries :: "'st \<Rightarrow> 'x list"
    and key_of :: "'x \<Rightarrow> string"
    and input_key :: "'i \<Rightarrow> string"
    and ok :: "'st \<Rightarrow> bool"
  assumes known: "ok s \<Longrightarrow> x \<in> set (entries s) \<Longrightarrow> key_of x = input_key i \<Longrightarrow> append s i = (Inr x, s)"
    and fresh: "ok s \<Longrightarrow> input_key i \<notin> key_of ` set (entries s) \<Longrightarrow> append s i = (r, s') \<Longrightarrow>
       (\<exists>e. r = Inl e \<and> s' = s) \<or> (\<exists>x. r = Inr x \<and> key_of x = input_key i \<and> entries s' = entries s @ [x])"
    and ok_append: "ok s \<Longrightarrow> ok (snd (append s i))"
    and ok_keys: "ok s \<Longrightarrow> distinct (map key_of (entries s))"
begin

definition replay :: "'st \<Rightarrow> 'i list \<Rightarrow> 'st" where
  "replay s is = foldl (\<lambda>s i. snd (append s i)) s is"

lemma replay_simps: "replay s [] = s" "replay s (i # is) = replay (snd (append s i)) is"
  "replay s (is @ js) = replay (replay s is) js"
  by (simp_all add: replay_def)

lemma ok_replay: "ok s \<Longrightarrow> ok (replay s is)"
  by (induction "is" arbitrary: s) (auto simp: replay_simps ok_append)

lemma append_cases:
  assumes "ok s" "append s i = (r, s')"
  obtains (old) x where "x \<in> set (entries s)" "key_of x = input_key i" "r = Inr x" "s' = s"
  | (failed) e where "input_key i \<notin> key_of ` set (entries s)" "r = Inl e" "s' = s"
  | (logged) x where "input_key i \<notin> key_of ` set (entries s)" "r = Inr x" "key_of x = input_key i"
      "entries s' = entries s @ [x]"
proof (cases "input_key i \<in> key_of ` set (entries s)")
  case True
  then obtain x where x: "input_key i = key_of x" "x \<in> set (entries s)" by (rule imageE)
  have "append s i = (Inr x, s)" by (rule known [OF assms(1) x(2) x(1) [symmetric]])
  then have "r = Inr x" "s' = s" using assms(2) by simp_all
  with x show ?thesis by (intro old) simp_all
next
  case False
  from fresh [OF assms(1) this assms(2)] show ?thesis
    by (elim disjE exE conjE) (auto intro: failed [OF False] logged [OF False])
qed

lemma failed_unchanged: "ok s \<Longrightarrow> append s i = (Inl e, s') \<Longrightarrow> s' = s"
  by (erule (1) append_cases) auto

lemma returned_logged: "ok s \<Longrightarrow> append s i = (Inr x, s') \<Longrightarrow> x \<in> set (entries s') \<and> key_of x = input_key i"
  by (erule (1) append_cases) auto

lemma retry:
  assumes "ok s" "append s i = (Inr x, s')" "input_key j = input_key i"
  shows "append s' j = (Inr x, s')"
proof -
  have "ok s'" using ok_append [OF assms(1), of i] assms(2) by simp
  then show ?thesis using returned_logged [OF assms(1,2)] known assms(3) by metis
qed

lemma entries_append_prefix: "ok s \<Longrightarrow> prefix (entries s) (entries (snd (append s i)))"
  by (cases "append s i") (erule append_cases, assumption, auto)

lemma entries_replay_prefix: "ok s \<Longrightarrow> prefix (entries s) (entries (replay s is))"
proof (induction "is" arbitrary: s)
  case (Cons i "is")
  have "prefix (entries s) (entries (snd (append s i)))"
    by (rule entries_append_prefix [OF Cons.prems])
  also have "prefix \<dots> (entries (replay (snd (append s i)) is))"
    by (rule Cons.IH [OF ok_append [OF Cons.prems]])
  finally show ?case by (simp add: replay_simps)
qed (simp add: replay_simps)

lemma answers_for_ever:
  assumes "ok s" "append s i = (Inr x, s')" "input_key j = input_key i"
  shows "append (replay s' is) j = (Inr x, replay s' is)"
proof -
  have s': "ok s'" using ok_append [OF assms(1), of i] assms(2) by simp
  have "x \<in> set (entries (replay s' is))"
    using entries_replay_prefix [OF s', of "is"] returned_logged [OF assms(1,2)] set_mono_prefix by blast
  then show ?thesis
    using known [OF ok_replay [OF s', of "is"]] returned_logged [OF assms(1,2)] assms(3) by simp
qed

lemma growth: "ok s \<Longrightarrow> length (entries (snd (append s i))) \<le> length (entries s) + 1"
  by (cases "append s i") (erule append_cases, assumption, auto)

end

text \<open>A provider that numbers its entries one after the other, from an empty log.\<close>

locale numbered_log = idempotent_log append entries key_of input_key ok
  for append :: "'st \<Rightarrow> 'i \<Rightarrow> ('e, 'x, 'st) outcome"
    and entries :: "'st \<Rightarrow> 'x list"
    and key_of :: "'x \<Rightarrow> string"
    and input_key :: "'i \<Rightarrow> string"
    and ok :: "'st \<Rightarrow> bool" +
  fixes number :: "'x \<Rightarrow> nat"
    and first :: nat
  assumes next_number: "ok s \<Longrightarrow> map number (entries s) = [first..<first + length (entries s)] \<Longrightarrow>
      input_key i \<notin> key_of ` set (entries s) \<Longrightarrow> append s i = (Inr x, s') \<Longrightarrow>
      number x = first + length (entries s)"
begin

definition gapless :: "'st \<Rightarrow> bool" where
  "gapless s = (map number (entries s) = [first..<first + length (entries s)])"

lemma gapless_append:
  assumes "ok s" "gapless s"
  shows "gapless (snd (append s i))"
proof (cases "append s i")
  case (Pair r s')
  show ?thesis
  proof (rule append_cases [OF assms(1) Pair])
    fix x
    assume x: "input_key i \<notin> key_of ` set (entries s)" "r = Inr x" "entries s' = entries s @ [x]"
    have "number x = first + length (entries s)"
      using next_number [OF assms(1) _ x(1)] assms(2) Pair x(2) by (simp add: gapless_def)
    then show ?thesis using assms(2) Pair x(3) by (simp add: gapless_def)
  qed (use assms(2) Pair in auto)
qed

lemma gapless_replay: "ok s \<Longrightarrow> gapless s \<Longrightarrow> gapless (replay s is)"
  by (induction "is" arbitrary: s) (auto simp: replay_simps gapless_append ok_append)

lemma gapless_nth: "gapless s \<Longrightarrow> n < length (entries s) \<Longrightarrow> number (entries s ! n) = first + n"
  unfolding gapless_def by (metis add_less_cancel_left nth_map nth_upt)

end

end
