(* ===== verification/StateMachine.thy ===== *)
theory StateMachine
  imports Contracts Logs
begin

section \<open>Versioned state machines\<close>

text \<open>
  \<open>packages/domain/src/state-machine.ts\<close>: the two transition tables, the class
  \<open>VersionedStateMachine\<close> (its fields as a record, its constructor and its one mutating
  method) and the factories. The method deduplicates by idempotency key, refuses an edge
  that is not in the table, and numbers the accepted events.
\<close>

datatype entity = Car_entity | Ride_entity

datatype 's machine_error =
    Error string
  | InvalidTransitionError entity 's 's

fun carTransitions :: "car_state \<Rightarrow> car_state list" where
  "carTransitions OFFLINE = [INITIALIZING, ADMIN_BLOCKED]"
| "carTransitions INITIALIZING = [AVAILABLE, OFFLINE, SAFETY_BLOCKED, ADMIN_BLOCKED]"
| "carTransitions AVAILABLE = [RESERVED, OFFLINE, SAFETY_BLOCKED, ADMIN_BLOCKED]"
| "carTransitions RESERVED = [CONNECTING, AVAILABLE, OFFLINE, SAFETY_BLOCKED]"
| "carTransitions CONNECTING = [car_state.ACTIVE, AVAILABLE, OFFLINE, SAFETY_BLOCKED]"
| "carTransitions car_state.ACTIVE =
     [car_state.RECONNECT_GRACE, RETURN_REQUIRED, OPERATOR_RECOVERY, SAFETY_BLOCKED]"
| "carTransitions car_state.RECONNECT_GRACE = [car_state.ACTIVE, RETURN_REQUIRED, SAFETY_BLOCKED]"
| "carTransitions RETURN_REQUIRED = [OPERATOR_RECOVERY, AVAILABLE, SAFETY_BLOCKED]"
| "carTransitions OPERATOR_RECOVERY = [AVAILABLE, SAFETY_BLOCKED, ADMIN_BLOCKED]"
| "carTransitions SAFETY_BLOCKED = [INITIALIZING, ADMIN_BLOCKED]"
| "carTransitions ADMIN_BLOCKED = [INITIALIZING]"

fun rideTransitions :: "ride_state \<Rightarrow> ride_state list" where
  "rideTransitions CREATED = [OFFERED, FAILED]"
| "rideTransitions OFFERED = [ACCEPTED, FAILED]"
| "rideTransitions ACCEPTED = [NEGOTIATING, FAILED]"
| "rideTransitions NEGOTIATING = [ride_state.ACTIVE, FAILED, FULLY_COMPENSATED]"
| "rideTransitions ride_state.ACTIVE = [ride_state.RECONNECT_GRACE, PAUSED_SITE_FAILOVER, ENDING]"
| "rideTransitions ride_state.RECONNECT_GRACE = [ride_state.ACTIVE, ENDING, PARTIALLY_COMPENSATED]"
| "rideTransitions PAUSED_SITE_FAILOVER = [ride_state.ACTIVE, ENDING, PARTIALLY_COMPENSATED]"
| "rideTransitions ENDING = [COMPLETED, PARTIALLY_COMPENSATED, FULLY_COMPENSATED]"
| "rideTransitions COMPLETED = []"
| "rideTransitions FAILED = [FULLY_COMPENSATED]"
| "rideTransitions PARTIALLY_COMPENSATED = []"
| "rideTransitions FULLY_COMPENSATED = []"

record 's machine =
  vm_transitions :: "'s \<Rightarrow> 's list"
  vm_entity :: entity
  vm_entityId :: ident
  vm_history :: "'s state_transition list"
  vm_state :: 's
  vm_version :: nat

record 's transition_input =
  ti_to :: 's
  ti_reason :: string
  ti_initiator :: actor_type
  ti_idempotencyKey :: string
  ti_occurredAt :: "date option"

definition new_machine :: "entity \<Rightarrow> ident \<Rightarrow> 's \<Rightarrow> ('s \<Rightarrow> 's list) \<Rightarrow> 's machine" where
  "new_machine entity entityId initialState transitions =
     \<lparr>vm_transitions = transitions, vm_entity = entity, vm_entityId = entityId,
      vm_history = [], vm_state = initialState, vm_version = 1\<rparr>"

definition createCarStateMachine :: "ident \<Rightarrow> car_state \<Rightarrow> car_state machine" where
  "createCarStateMachine carId state = new_machine Car_entity carId state carTransitions"

definition createRideStateMachine :: "ident \<Rightarrow> ride_state \<Rightarrow> ride_state machine" where
  "createRideStateMachine rideId state = new_machine Ride_entity rideId state rideTransitions"

text \<open>The event \<open>transition\<close> builds; \<open>now\<close> is the clock read by \<open>new Date()\<close>.\<close>

definition transition_event :: "'s machine \<Rightarrow> date \<Rightarrow> 's transition_input \<Rightarrow> 's state_transition" where
  "transition_event m now i =
     \<lparr>tr_entityId = vm_entityId m, tr_from = vm_state m, tr_to = ti_to i,
      tr_reason = ti_reason i, tr_initiator = ti_initiator i,
      tr_version = vm_version m + 1,
      tr_occurredAt = (case ti_occurredAt i of Some t \<Rightarrow> t | None \<Rightarrow> now),
      tr_idempotencyKey = ti_idempotencyKey i\<rparr>"

definition transition ::
  "'s machine \<Rightarrow> date \<Rightarrow> 's transition_input \<Rightarrow> ('s machine_error, 's state_transition, 's machine) outcome" where
  "transition m now i =
     (case List.find (\<lambda>ev. tr_idempotencyKey ev = ti_idempotencyKey i) (vm_history m) of
        Some existing \<Rightarrow> (Inr existing, m)
      | None \<Rightarrow>
          if ti_to i \<notin> set (vm_transitions m (vm_state m))
          then (Inl (InvalidTransitionError (vm_entity m) (vm_state m) (ti_to i)), m)
          else let event = transition_event m now i in
            (Inr event,
             m\<lparr>vm_state := ti_to i, vm_version := tr_version event,
               vm_history := vm_history m @ [event]\<rparr>))"

text \<open>A sequence of calls on one machine, each with the clock it sees; errors are caught.\<close>

fun machine_run :: "'s machine \<Rightarrow> (date \<times> 's transition_input) list \<Rightarrow> 's machine" where
  "machine_run m [] = m"
| "machine_run m ((now, i) # is) = machine_run (snd (transition m now i)) is"

lemma new_machine_fields [simp]:
  "vm_transitions (new_machine en eid s0 T) = T" "vm_state (new_machine en eid s0 T) = s0"
  "vm_history (new_machine en eid s0 T) = []" "vm_version (new_machine en eid s0 T) = 1"
  "vm_entityId (new_machine en eid s0 T) = eid"
  by (simp_all add: new_machine_def)

subsection \<open>The history of a machine\<close>

text \<open>The events form a path of the table from one state to another.\<close>

fun history_path :: "('s \<Rightarrow> 's list) \<Rightarrow> 's \<Rightarrow> 's state_transition list \<Rightarrow> 's \<Rightarrow> bool" where
  "history_path T s [] s' = (s = s')"
| "history_path T s (e # es) s' =
     (tr_from e = s \<and> tr_to e \<in> set (T s) \<and> history_path T (tr_to e) es s')"

lemma history_path_append:
  "history_path T s (es @ fs) s' \<longleftrightarrow> (\<exists>u. history_path T s es u \<and> history_path T u fs s')"
  by (induction es arbitrary: s) auto

definition machine_ok :: "'s machine \<Rightarrow> bool" where
  "machine_ok m = (distinct (map tr_idempotencyKey (vm_history m))
     \<and> vm_version m = 1 + length (vm_history m))"

lemma transition_cases:
  obtains (old) ev where "ev \<in> set (vm_history m)" "tr_idempotencyKey ev = ti_idempotencyKey i"
      "transition m now i = (Inr ev, m)"
  | (refused) "ti_idempotencyKey i \<notin> tr_idempotencyKey ` set (vm_history m)"
      "ti_to i \<notin> set (vm_transitions m (vm_state m))"
      "transition m now i = (Inl (InvalidTransitionError (vm_entity m) (vm_state m) (ti_to i)), m)"
  | (moved) "ti_idempotencyKey i \<notin> tr_idempotencyKey ` set (vm_history m)"
      "ti_to i \<in> set (vm_transitions m (vm_state m))"
      "transition m now i = (Inr (transition_event m now i),
        m\<lparr>vm_state := ti_to i, vm_version := vm_version m + 1,
          vm_history := vm_history m @ [transition_event m now i]\<rparr>)"
proof (cases "List.find (\<lambda>ev. tr_idempotencyKey ev = ti_idempotencyKey i) (vm_history m)")
  case None
  then have fresh: "ti_idempotencyKey i \<notin> tr_idempotencyKey ` set (vm_history m)"
    unfolding find_None by force
  show ?thesis
    using refused [OF fresh] moved [OF fresh] None
    by (cases "ti_to i \<in> set (vm_transitions m (vm_state m))")
      (simp_all add: transition_def Let_def transition_event_def)
next
  case (Some ev)
  then show ?thesis using old find_in_set by (fastforce simp: transition_def)
qed

interpretation sm: numbered_log
  "\<lambda>m (now, i). transition m now i" vm_history tr_idempotencyKey "\<lambda>(now, i). ti_idempotencyKey i"
  machine_ok tr_version 2
proof unfold_locales
  fix m :: "'s machine" and ev and i :: "date \<times> 's transition_input"
  assume ok: "machine_ok m" and ev: "ev \<in> set (vm_history m)"
    "tr_idempotencyKey ev = (case i of (now, i) \<Rightarrow> ti_idempotencyKey i)"
  obtain now j where i: "i = (now, j)" by (cases i)
  have "List.find (\<lambda>e. tr_idempotencyKey e = ti_idempotencyKey j) (vm_history m) = Some ev"
    using ev ok by (intro find_unique) (auto simp: i machine_ok_def distinct_map inj_on_def)
  then show "(case i of (now, i) \<Rightarrow> transition m now i) = (Inr ev, m)"
    by (simp add: i transition_def)
next
  fix m :: "'s machine" and i :: "date \<times> 's transition_input" and r m'
  assume "(case i of (now, i) \<Rightarrow> ti_idempotencyKey i) \<notin> tr_idempotencyKey ` set (vm_history m)"
    and "(case i of (now, i) \<Rightarrow> transition m now i) = (r, m')"
  then show "(\<exists>e. r = Inl e \<and> m' = m) \<or> (\<exists>x. r = Inr x \<and>
      tr_idempotencyKey x = (case i of (now, i) \<Rightarrow> ti_idempotencyKey i) \<and> vm_history m' = vm_history m @ [x])"
    by (cases i, cases rule: transition_cases [of m "snd i" "fst i"])
      (auto simp: transition_event_def image_iff)
next
  fix m :: "'s machine" and i :: "date \<times> 's transition_input"
  assume "machine_ok m"
  then show "machine_ok (snd (case i of (now, i) \<Rightarrow> transition m now i))"
    by (cases i, cases rule: transition_cases [of m "snd i" "fst i"])
      (auto simp: machine_ok_def transition_event_def)
next
  fix m :: "'s machine"
  assume "machine_ok m"
  then show "distinct (map tr_idempotencyKey (vm_history m))" by (simp add: machine_ok_def)
next
  fix m :: "'s machine" and i :: "date \<times> 's transition_input" and x m'
  assume "machine_ok m" "(case i of (now, i) \<Rightarrow> ti_idempotencyKey i) \<notin> tr_idempotencyKey ` set (vm_history m)"
    "(case i of (now, i) \<Rightarrow> transition m now i) = (Inr x, m')"
  then show "tr_version x = 2 + length (vm_history m)"
    by (cases i, cases rule: transition_cases [of m "snd i" "fst i"])
      (auto simp: machine_ok_def transition_event_def image_iff)
qed

lemma machine_run_replay: "machine_run m is = sm.replay m is"
  by (induction m "is" rule: machine_run.induct) (auto simp: sm.replay_simps)

lemma machine_run_append: "machine_run m (is @ js) = machine_run (machine_run m is) js"
  by (simp add: machine_run_replay sm.replay_simps)

lemma transition_const [simp]:
  "vm_transitions (snd (transition m now i)) = vm_transitions m"
  "vm_entity (snd (transition m now i)) = vm_entity m"
  "vm_entityId (snd (transition m now i)) = vm_entityId m"
  by (cases rule: transition_cases [of m i now]; simp)+

text \<open>What holds of a machine started in \<open>s0\<close>, at any time.\<close>

definition machine_inv :: "'s \<Rightarrow> 's machine \<Rightarrow> bool" where
  "machine_inv s0 m = (machine_ok m \<and> sm.gapless m
     \<and> history_path (vm_transitions m) s0 (vm_history m) (vm_state m)
     \<and> list_all (\<lambda>ev. tr_entityId ev = vm_entityId m) (vm_history m))"

lemma machine_inv_new: "machine_inv s0 (new_machine en eid s0 T)"
  by (simp add: machine_inv_def machine_ok_def sm.gapless_def new_machine_def)

lemma machine_inv_transition [inv_steps]:
  "machine_inv s0 m \<Longrightarrow> machine_inv s0 (snd (transition m now i))"
  using sm.ok_append [of m "(now, i)"] sm.gapless_append [of m "(now, i)"]
  by (cases rule: transition_cases [of m i now])
    (auto simp: machine_inv_def history_path_append transition_event_def)

lemma machine_inv_run: "machine_inv s0 m \<Longrightarrow> machine_inv s0 (machine_run m is)"
  by (induction m "is" rule: machine_run.induct) (auto intro: machine_inv_transition)

subsection \<open>The lifecycles of rides and cars\<close>

lemma machine_run_table [simp]: "vm_transitions (machine_run m is) = vm_transitions m"
  by (induction m "is" rule: machine_run.induct) auto

lemma ride_run_path:
  "history_path rideTransitions s0 (vm_history (machine_run (createRideStateMachine rid s0) is))
     (vm_state (machine_run (createRideStateMachine rid s0) is))"
  using machine_inv_run [OF machine_inv_new, of s0 Ride_entity rid rideTransitions "is"]
  by (simp add: machine_inv_def createRideStateMachine_def new_machine_def)

lemma car_run_path:
  "history_path carTransitions s0 (vm_history (machine_run (createCarStateMachine cid s0) is))
     (vm_state (machine_run (createCarStateMachine cid s0) is))"
  using machine_inv_run [OF machine_inv_new, of s0 Car_entity cid carTransitions "is"]
  by (simp add: machine_inv_def createCarStateMachine_def new_machine_def)

lemma history_path_stuck: "T s = [] \<Longrightarrow> history_path T s es s' \<Longrightarrow> es = []"
  by (cases es) auto

lemma ride_path_compensated: "history_path rideTransitions FULLY_COMPENSATED es s \<Longrightarrow> es = []"
  by (rule history_path_stuck) auto

lemma ride_path_failed:
  "history_path rideTransitions FAILED es s \<Longrightarrow> e \<in> set es \<Longrightarrow> ride_state.ACTIVE \<noteq> tr_to e"
  by (cases es) (auto dest!: ride_path_compensated)

lemma ride_path_negotiating:
  "history_path rideTransitions NEGOTIATING es s \<Longrightarrow> ride_state.ACTIVE \<in> tr_to ` set es \<Longrightarrow>
   \<exists>e es'. es = e # es' \<and> tr_to e = ride_state.ACTIVE"
  by (cases es) (auto dest: ride_path_failed dest!: ride_path_compensated)

lemma ride_path_accepted:
  "history_path rideTransitions ACCEPTED es s \<Longrightarrow> ride_state.ACTIVE \<in> tr_to ` set es \<Longrightarrow>
   \<exists>e f es'. es = e # f # es' \<and> tr_to e = NEGOTIATING \<and> tr_to f = ride_state.ACTIVE"
  by (cases es) (auto dest: ride_path_failed dest!: ride_path_negotiating)

lemma ride_path_offered:
  "history_path rideTransitions OFFERED es s \<Longrightarrow> ride_state.ACTIVE \<in> tr_to ` set es \<Longrightarrow>
   \<exists>e f g es'. es = e # f # g # es' \<and> map tr_to [e, f, g] = [ACCEPTED, NEGOTIATING, ride_state.ACTIVE]"
  by (cases es) (auto dest: ride_path_failed dest!: ride_path_accepted)

lemma ride_path_created:
  "history_path rideTransitions CREATED es s \<Longrightarrow> ride_state.ACTIVE \<in> tr_to ` set es \<Longrightarrow>
   take 4 (map tr_to es) = [OFFERED, ACCEPTED, NEGOTIATING, ride_state.ACTIVE]"
  by (cases es) (auto dest: ride_path_failed dest!: ride_path_offered)

lemma car_pred_ACTIVE:
  "car_state.ACTIVE \<in> set (carTransitions s) \<Longrightarrow> s = CONNECTING \<or> s = car_state.RECONNECT_GRACE"
  by (cases s) auto

lemma car_pred_CONNECTING: "CONNECTING \<in> set (carTransitions s) \<Longrightarrow> s = RESERVED"
  by (cases s) auto

lemma car_pred_RESERVED: "RESERVED \<in> set (carTransitions s) \<Longrightarrow> s = AVAILABLE"
  by (cases s) auto

text \<open>A path that ends in another state than it began has a last event, which leads there.\<close>

lemma history_path_last:
  assumes "history_path T s es u" "u \<noteq> s"
  obtains fs e where "es = fs @ [e]" "tr_to e = u" "history_path T s fs (tr_from e)" "u \<in> set (T (tr_from e))"
  using assms by (cases es rule: rev_cases) (auto simp: history_path_append)

lemma car_path_connecting:
  assumes "history_path carTransitions OFFLINE es CONNECTING"
  shows "\<exists>pre. map tr_to es = pre @ [AVAILABLE, RESERVED, CONNECTING]"
proof -
  obtain fs e where 1: "es = fs @ [e]" "tr_to e = CONNECTING" "history_path carTransitions OFFLINE fs RESERVED"
    using assms by (rule history_path_last) (auto dest: car_pred_CONNECTING)
  obtain gs f where 2: "fs = gs @ [f]" "tr_to f = RESERVED" "history_path carTransitions OFFLINE gs AVAILABLE"
    using 1(3) by (rule history_path_last) (auto dest: car_pred_RESERVED)
  obtain hs g where 3: "gs = hs @ [g]" "tr_to g = AVAILABLE"
    using 2(3) by (rule history_path_last) auto
  show ?thesis using 1 2 3 by simp
qed

lemma settled_transition:
  assumes "machine_ok m" "vm_transitions m (vm_state m) = []"
  shows "snd (transition m now i) = m"
  using assms by (cases rule: transition_cases [of m i now]) auto

lemma settled_run:
  assumes "machine_ok m" "vm_transitions m (vm_state m) = []"
  shows "machine_run m is = m"
  using assms by (induction m "is" rule: machine_run.induct) (auto simp: settled_transition)

lemma machine_ok_run: "machine_ok m \<Longrightarrow> machine_ok (machine_run m is)"
  using sm.ok_replay [of m "is"] by (simp add: machine_run_replay)

lemma machine_ok_create [simp]:
  "machine_ok (new_machine en eid s0 T)" "machine_ok (createRideStateMachine rid s)"
  "machine_ok (createCarStateMachine rid c)"
  by (simp_all add: machine_ok_def new_machine_def createRideStateMachine_def createCarStateMachine_def)

lemma create_table [simp]:
  "vm_transitions (createRideStateMachine rid s) = rideTransitions"
  "vm_transitions (createCarStateMachine rid c) = carTransitions"
  by (simp_all add: createRideStateMachine_def createCarStateMachine_def)

definition sample_call :: "'s \<Rightarrow> string \<Rightarrow> date \<times> 's transition_input" where
  "sample_call s key = (0, \<lparr>ti_to = s, ti_reason = ''sample'', ti_initiator = System_actor,
     ti_idempotencyKey = key, ti_occurredAt = None\<rparr>)"

lemmas machine_eval = Let_def sample_call_def transition_def transition_event_def new_machine_def
  createRideStateMachine_def createCarStateMachine_def

subsection \<open>Properties\<close>

text \<open>
  Property C26: whatever calls are made on a machine, in whatever order and with whatever
  keys, its history is a path of its transition table from the initial state to the current
  one, its versions run 2, 3, 4, \<dots> without a gap up to the current version, no idempotency
  key occurs twice, and every event carries the machine's entity.
\<close>

theorem machine_history_sound:
  "let m = machine_run (new_machine en eid s0 T) is in
     history_path T s0 (vm_history m) (vm_state m)
     \<and> map tr_version (vm_history m) = [2..<2 + length (vm_history m)]
     \<and> vm_version m = 1 + length (vm_history m)
     \<and> distinct (map tr_idempotencyKey (vm_history m))
     \<and> list_all (\<lambda>ev. tr_entityId ev = vm_entityId m) (vm_history m)"
  using machine_inv_run [OF machine_inv_new, of s0 en eid T "is"]
  by (simp add: machine_inv_def machine_ok_def sm.gapless_def Let_def)

text \<open>
  a transition that was accepted is answered for ever: any later call with the
  same idempotency key, whatever its target and reason and after whatever other calls,
  returns the event logged the first time and leaves the machine as it is.
\<close>

theorem transition_retry_is_noop:
  assumes "transition (machine_run (new_machine en eid s0 T) before) now i = (Inr ev, m)"
    and "ti_idempotencyKey j = ti_idempotencyKey i"
  shows "transition (machine_run m between) now' j = (Inr ev, machine_run m between)"
  using sm.answers_for_ever [of "machine_run (new_machine en eid s0 T) before" "(now, i)" ev m
      "(now', j)" between] assms machine_ok_run [OF machine_ok_create(1), of en eid s0 T before]
  by (simp add: machine_run_replay)

theorem transition_retry_is_noop_witness:
  "transition (machine_run (createCarStateMachine ''c'' OFFLINE) [sample_call INITIALIZING ''a'', sample_call AVAILABLE ''b''])
     0 (snd (sample_call RESERVED ''a''))
   = (Inr (transition_event (createCarStateMachine ''c'' OFFLINE) 0 (snd (sample_call INITIALIZING ''a''))),
      machine_run (createCarStateMachine ''c'' OFFLINE) [sample_call INITIALIZING ''a'', sample_call AVAILABLE ''b''])"
  using transition_retry_is_noop [of Car_entity "''c''" OFFLINE carTransitions "[]" 0
      "snd (sample_call INITIALIZING ''a'')"
      "transition_event (createCarStateMachine ''c'' OFFLINE) 0 (snd (sample_call INITIALIZING ''a''))"
      "machine_run (createCarStateMachine ''c'' OFFLINE) [sample_call INITIALIZING ''a'']"
      "snd (sample_call RESERVED ''a'')" "[sample_call AVAILABLE ''b'']" 0]
  by (simp add: machine_eval)

text \<open>
  a ride that was ever active was offered, accepted and negotiated first, in
  that order and with nothing between: its first four events lead to \<open>OFFERED\<close>, \<open>ACCEPTED\<close>,
  \<open>NEGOTIATING\<close> and \<open>ACTIVE\<close>.
\<close>

theorem ride_active_only_after_negotiation:
  assumes "ride_state.ACTIVE \<in> tr_to ` set (vm_history (machine_run (createRideStateMachine rid CREATED) is))"
  shows "take 4 (map tr_to (vm_history (machine_run (createRideStateMachine rid CREATED) is)))
     = [OFFERED, ACCEPTED, NEGOTIATING, ride_state.ACTIVE]"
  by (rule ride_path_created [OF ride_run_path assms])

theorem ride_active_only_after_negotiation_witness:
  "take 4 (map tr_to (vm_history (machine_run (createRideStateMachine ''r'' CREATED)
     [sample_call OFFERED ''a'', sample_call ACCEPTED ''b'', sample_call NEGOTIATING ''c'',
      sample_call ride_state.ACTIVE ''d'', sample_call ENDING ''e''])))
   = [OFFERED, ACCEPTED, NEGOTIATING, ride_state.ACTIVE]"
  by (rule ride_active_only_after_negotiation) (simp add: machine_eval)

text \<open>
  a settled ride is final: once a ride is completed or compensated, no sequence
  of transition calls changes anything about its machine.
\<close>

theorem settled_ride_is_final:
  assumes "vm_state (machine_run (createRideStateMachine rid s0) before)
     \<in> {COMPLETED, PARTIALLY_COMPENSATED, FULLY_COMPENSATED}"
  shows "machine_run (machine_run (createRideStateMachine rid s0) before) is
     = machine_run (createRideStateMachine rid s0) before"
  using assms by (intro settled_run machine_ok_run) auto

theorem settled_ride_is_final_witness:
  "machine_run (machine_run (createRideStateMachine ''r'' CREATED)
      [sample_call FAILED ''a'', sample_call FULLY_COMPENSATED ''b'']) [sample_call ENDING ''c'']
   = machine_run (createRideStateMachine ''r'' CREATED)
      [sample_call FAILED ''a'', sample_call FULLY_COMPENSATED ''b'']"
  by (rule settled_ride_is_final) (simp add: machine_eval)

text \<open>
  a car starts to be driven only after it was available, reserved and connected,
  in that order: an event of a car's history that makes it active, other than the return from
  a reconnect grace period, is immediately preceded by the events that made it \<open>AVAILABLE\<close>,
  \<open>RESERVED\<close> and \<open>CONNECTING\<close>.
\<close>

theorem car_drive_needs_reservation:
  assumes "vm_history (machine_run (createCarStateMachine cid OFFLINE) is) = before @ ev # after"
    and "tr_to ev = car_state.ACTIVE" and "tr_from ev \<noteq> car_state.RECONNECT_GRACE"
  shows "\<exists>pre. map tr_to before = pre @ [AVAILABLE, RESERVED, CONNECTING]"
proof (rule car_path_connecting)
  show "history_path carTransitions OFFLINE before CONNECTING"
    using car_run_path [of OFFLINE cid "is"] assms
    by (auto simp: history_path_append dest: car_pred_ACTIVE)
qed

theorem car_drive_needs_reservation_witness:
  "\<exists>pre. map tr_to (take 4 (vm_history (machine_run (createCarStateMachine ''c'' OFFLINE)
      [sample_call INITIALIZING ''a'', sample_call AVAILABLE ''b'', sample_call RESERVED ''c'',
       sample_call CONNECTING ''d'', sample_call car_state.ACTIVE ''e''])))
    = pre @ [AVAILABLE, RESERVED, CONNECTING]"
  by (rule car_drive_needs_reservation [of "''c''" "[sample_call INITIALIZING ''a'',
        sample_call AVAILABLE ''b'', sample_call RESERVED ''c'', sample_call CONNECTING ''d'',
        sample_call car_state.ACTIVE ''e'']" _ _ "[]"], (simp add: machine_eval)+)

end
