(* ===== verification/Rides.thy ===== *)
theory Rides
  imports StateMachine
begin

section \<open>The ride orchestrator\<close>

text \<open>
  \<open>packages/domain/src/rides.ts\<close>: the class \<open>RideOrchestrator\<close> drives a ride machine through
  offer, acceptance, up to five negotiation attempts, connection and end, and accounts for the
  seconds used. The record holds the class's fields; a method that throws leaves what it had
  assigned.
\<close>

record ride_input =
  ri_id :: ident
  ri_userId :: ident
  ri_carId :: ident
  ri_purchasedSeconds :: jsnum

record ride =
  rd_machine :: "ride_state machine"
  rd_input :: ride_input
  rd_attemptCount :: nat
  rd_usedSeconds :: jsnum
  rd_startedAt :: "date option"

type_synonym 'a ride_result = "(ride_state machine_error, 'a, ride) outcome"

definition new_ride :: "ride_input \<Rightarrow> ride_state machine_error + ride" where
  "new_ride input =
     (if js_lt (ri_purchasedSeconds input) (js_int 300)
      then Inl (Error ''A ride requires at least five minutes'')
      else Inr \<lparr>rd_machine = createRideStateMachine (ri_id input) CREATED, rd_input = input,
        rd_attemptCount = 0, rd_usedSeconds = js_int 0, rd_startedAt = None\<rparr>)"

text \<open>The call \<open>this.#machine.transition({...})\<close>, whose result the methods discard.\<close>

definition ride_transition ::
  "ride \<Rightarrow> ride_state \<Rightarrow> string \<Rightarrow> actor_type \<Rightarrow> string \<Rightarrow> date \<Rightarrow> unit ride_result" where
  "ride_transition r to reason initiator key t =
     (case transition (rd_machine r) t
        \<lparr>ti_to = to, ti_reason = reason, ti_initiator = initiator, ti_idempotencyKey = key,
         ti_occurredAt = Some t\<rparr> of
        (Inl e, m) \<Rightarrow> (Inl e, r\<lparr>rd_machine := m\<rparr>)
      | (Inr ev, m) \<Rightarrow> (Inr (), r\<lparr>rd_machine := m\<rparr>))"

definition ride_offer :: "ride \<Rightarrow> string \<Rightarrow> date \<Rightarrow> unit ride_result" where
  "ride_offer r key t = ride_transition r OFFERED ''fifo_offer'' System_actor key t"

definition ride_accept :: "ride \<Rightarrow> string \<Rightarrow> date \<Rightarrow> unit ride_result" where
  "ride_accept r key t = ride_transition r ACCEPTED ''user_accepted_offer'' User_actor key t"

definition negotiationStarted :: "ride \<Rightarrow> string \<Rightarrow> date \<Rightarrow> unit ride_result" where
  "negotiationStarted r key t =
     (case (if vm_state (rd_machine r) = ACCEPTED
            then case ride_transition r NEGOTIATING ''webrtc_negotiation_started'' System_actor key t of
                (Inl e, r') \<Rightarrow> (Inl e, r')
              | (Inr u, r') \<Rightarrow> (Inr u, r'\<lparr>rd_startedAt := Some t\<rparr>)
            else (Inr (), r)) of
        (Inl e, r') \<Rightarrow> (Inl e, r')
      | (Inr u, r') \<Rightarrow>
          if vm_state (rd_machine r') \<noteq> NEGOTIATING
          then (Inl (Error ''Ride is not ready for WebRTC negotiation''), r')
          else if 5 \<le> rd_attemptCount r'
          then (Inl (Error ''Maximum WebRTC attempts reached''), r')
          else (Inr (), r'\<lparr>rd_attemptCount := rd_attemptCount r' + 1\<rparr>))"

definition connected :: "ride \<Rightarrow> string \<Rightarrow> date \<Rightarrow> unit ride_result" where
  "connected r key t = ride_transition r ride_state.ACTIVE ''webrtc_connected'' System_actor key t"

definition failAllAttempts :: "ride \<Rightarrow> string \<Rightarrow> date \<Rightarrow> unit ride_result" where
  "failAllAttempts r key t =
     (if rd_attemptCount r \<noteq> 5 \<or> vm_state (rd_machine r) \<noteq> NEGOTIATING
      then (Inl (Error ''Full connection failure requires exactly five failed attempts''), r)
      else case ride_transition r FULLY_COMPENSATED ''all_webrtc_attempts_failed'' System_actor key t of
          (Inl e, r') \<Rightarrow> (Inl e, r')
        | (Inr u, r') \<Rightarrow> (Inr u, r'\<lparr>rd_usedSeconds := js_int 0\<rparr>))"

definition elapsed_seconds :: "date option \<Rightarrow> date \<Rightarrow> jsnum" where
  "elapsed_seconds startedAt t =
     (case startedAt of
        Some start \<Rightarrow> js_max (js_int 0) (js_ceil (Fin (of_int (t - start) / 1000)))
      | None \<Rightarrow> js_int 0)"

definition ride_end :: "ride \<Rightarrow> string \<Rightarrow> date \<Rightarrow> unit ride_result" where
  "ride_end r key t =
     (if vm_state (rd_machine r) \<noteq> ride_state.ACTIVE
      then (Inl (Error ''Only an active ride can end normally''), r)
      else case ride_transition r ENDING ''user_ended'' User_actor (key @ '':ending'') t of
          (Inl e, r1) \<Rightarrow> (Inl e, r1)
        | (Inr u, r1) \<Rightarrow>
            let r2 = r1\<lparr>rd_usedSeconds :=
              js_min (ri_purchasedSeconds (rd_input r1)) (elapsed_seconds (rd_startedAt r1) t)\<rparr>
            in ride_transition r2 COMPLETED ''time_settled'' System_actor (key @ '':completed'') t)"

definition snapshot :: "ride \<Rightarrow> ride_snapshot" where
  "snapshot r =
     \<lparr>rs_id = ri_id (rd_input r), rs_userId = ri_userId (rd_input r), rs_carId = ri_carId (rd_input r),
      rs_state = vm_state (rd_machine r), rs_version = vm_version (rd_machine r),
      rs_purchasedSeconds = ri_purchasedSeconds (rd_input r), rs_usedSeconds = rd_usedSeconds r,
      rs_remainingSeconds =
        js_max (js_int 0) (js_sub (ri_purchasedSeconds (rd_input r)) (rd_usedSeconds r)),
      rs_attemptCount = rd_attemptCount r, rs_startedAt = rd_startedAt r\<rparr>"

text \<open>The methods as calls, and a client that makes calls and catches what they throw.\<close>

datatype ride_call =
    Offer string date
  | Accept string date
  | NegotiationStarted string date
  | Connected string date
  | FailAllAttempts string date
  | End string date

fun ride_step :: "ride \<Rightarrow> ride_call \<Rightarrow> unit ride_result" where
  "ride_step r (Offer key t) = ride_offer r key t"
| "ride_step r (Accept key t) = ride_accept r key t"
| "ride_step r (NegotiationStarted key t) = negotiationStarted r key t"
| "ride_step r (Connected key t) = connected r key t"
| "ride_step r (FailAllAttempts key t) = failAllAttempts r key t"
| "ride_step r (End key t) = ride_end r key t"

fun ride_run :: "ride \<Rightarrow> ride_call list \<Rightarrow> ride" where
  "ride_run r [] = r"
| "ride_run r (c # cs) = ride_run (snd (ride_step r c)) cs"

subsection \<open>What every sequence of calls keeps\<close>

text \<open>
  The phases of an orchestrated ride, with what is known of attempts, used seconds and start
  in each; a ride never gets to the states the orchestrator does not lead to.
\<close>

fun phase_ok :: "int \<Rightarrow> ride_state \<Rightarrow> nat \<Rightarrow> int \<Rightarrow> bool \<Rightarrow> bool" where
  "phase_ok P CREATED attempts used started = (attempts = 0 \<and> used = 0)"
| "phase_ok P OFFERED attempts used started = (attempts = 0 \<and> used = 0)"
| "phase_ok P ACCEPTED attempts used started = (attempts = 0 \<and> used = 0)"
| "phase_ok P NEGOTIATING attempts used started = (1 \<le> attempts \<and> attempts \<le> 5 \<and> used = 0 \<and> started)"
| "phase_ok P FULLY_COMPENSATED attempts used started = (attempts = 5 \<and> used = 0 \<and> started)"
| "phase_ok P FAILED attempts used started = False"
| "phase_ok P PARTIALLY_COMPENSATED attempts used started = False"
| "phase_ok P PAUSED_SITE_FAILOVER attempts used started = False"
| "phase_ok P ride_state.RECONNECT_GRACE attempts used started = False"
| "phase_ok P s attempts used started = (1 \<le> attempts \<and> attempts \<le> 5 \<and> 0 \<le> used \<and> used \<le> P \<and> started)"

definition ride_inv :: "int \<Rightarrow> ride \<Rightarrow> bool" where
  "ride_inv P r =
     (300 \<le> P \<and> ri_purchasedSeconds (rd_input r) = js_int P
      \<and> machine_inv CREATED (rd_machine r) \<and> vm_transitions (rd_machine r) = rideTransitions
      \<and> rd_usedSeconds r = js_int (int_of_js (rd_usedSeconds r))
      \<and> phase_ok P (vm_state (rd_machine r)) (rd_attemptCount r) (int_of_js (rd_usedSeconds r))
          (rd_startedAt r \<noteq> None))"

lemma ride_predecessors:
  "OFFERED \<in> set (rideTransitions s) \<longleftrightarrow> s = CREATED"
  "ACCEPTED \<in> set (rideTransitions s) \<longleftrightarrow> s = OFFERED"
  "NEGOTIATING \<in> set (rideTransitions s) \<longleftrightarrow> s = ACCEPTED"
  "ride_state.ACTIVE \<in> set (rideTransitions s)
     \<longleftrightarrow> s \<in> {NEGOTIATING, ride_state.RECONNECT_GRACE, PAUSED_SITE_FAILOVER}"
  "ENDING \<in> set (rideTransitions s)
     \<longleftrightarrow> s \<in> {ride_state.ACTIVE, ride_state.RECONNECT_GRACE, PAUSED_SITE_FAILOVER}"
  "COMPLETED \<in> set (rideTransitions s) \<longleftrightarrow> s = ENDING"
  "FULLY_COMPENSATED \<in> set (rideTransitions s) \<longleftrightarrow> s \<in> {NEGOTIATING, ENDING, FAILED}"
  by (cases s; simp)+

lemma ride_transition_cases:
  obtains (same) x where "ride_transition r to reason who key t = (x, r)"
  | (moved) m where "ride_transition r to reason who key t = (Inr (), r\<lparr>rd_machine := m\<rparr>)"
      "vm_state m = to" "to \<in> set (vm_transitions (rd_machine r) (vm_state (rd_machine r)))"
      "vm_transitions m = vm_transitions (rd_machine r)"
      "machine_inv CREATED (rd_machine r) \<Longrightarrow> machine_inv CREATED m"
proof -
  let ?i = "\<lparr>ti_to = to, ti_reason = reason, ti_initiator = who, ti_idempotencyKey = key, ti_occurredAt = Some t\<rparr>"
  show ?thesis
    using same moved machine_inv_transition [of CREATED "rd_machine r" t ?i]
    by (cases rule: transition_cases [of "rd_machine r" ?i t])
      (auto simp: ride_transition_def)
qed

lemma ride_transition_keeps [simp]:
  "rd_input (snd (ride_transition r to reason who key t)) = rd_input r"
  by (cases rule: ride_transition_cases [of r to reason who key t]) auto

lemma ride_step_input: "rd_input (snd (ride_step r c)) = rd_input r"
  by (cases c)
    (auto simp: ride_offer_def ride_accept_def negotiationStarted_def connected_def failAllAttempts_def
      ride_end_def Let_def split: prod.splits sum.splits dest: arg_cong [where f = "\<lambda>x. rd_input (snd x)"])

lemma ride_run_input: "rd_input (ride_run r cs) = rd_input r"
  by (induction cs arbitrary: r) (auto simp: ride_step_input)

lemma ride_transition_fresh:
  assumes "key \<notin> tr_idempotencyKey ` set (vm_history (rd_machine r))"
    and "to \<in> set (vm_transitions (rd_machine r) (vm_state (rd_machine r)))"
  shows "ride_transition r to reason who key t =
    (let i = \<lparr>ti_to = to, ti_reason = reason, ti_initiator = who, ti_idempotencyKey = key, ti_occurredAt = Some t\<rparr>;
         m = rd_machine r
     in (Inr (), r\<lparr>rd_machine := m\<lparr>vm_state := to, vm_version := vm_version m + 1,
           vm_history := vm_history m @ [transition_event m t i]\<rparr>\<rparr>))"
  using assms
  by (cases rule: transition_cases [of "rd_machine r" "\<lparr>ti_to = to, ti_reason = reason, ti_initiator = who,
        ti_idempotencyKey = key, ti_occurredAt = Some t\<rparr>" t])
    (auto simp: ride_transition_def Let_def)

lemma elapsed_seconds_int: "\<exists>e\<ge>0. elapsed_seconds s t = js_int e"
proof (cases s)
  case (Some start)
  define c where "c = \<lceil>(of_int (t - start) / 1000 :: rat)\<rceil>"
  have "elapsed_seconds s t = js_int (max 0 c)"
    unfolding c_def elapsed_seconds_def Some js_ceil.simps option.case js_int_def js_max_Fin
    by (simp only: of_int_max of_int_0)
  then show ?thesis by auto
qed (auto simp: elapsed_seconds_def)

lemma used_after_end:
  assumes "300 \<le> P"
  shows "\<exists>u. 0 \<le> u \<and> u \<le> P \<and> js_min (js_int P) (elapsed_seconds s t) = js_int u"
proof -
  obtain e where e: "0 \<le> e" "elapsed_seconds s t = js_int e" using elapsed_seconds_int by blast
  have "js_min (js_int P) (js_int e) = js_int (min P e)"
    by (simp add: js_int_def of_int_min)
  then show ?thesis using assms e by (intro exI [of _ "min P e"]) simp
qed

lemma ride_inv_offer [inv_steps]: "ride_inv P r \<Longrightarrow> ride_inv P (snd (ride_offer r key t))"
  unfolding ride_offer_def
  by (cases rule: ride_transition_cases [of r OFFERED "''fifo_offer''" System_actor key t])
    (auto simp: ride_inv_def ride_predecessors)

lemma ride_inv_accept [inv_steps]: "ride_inv P r \<Longrightarrow> ride_inv P (snd (ride_accept r key t))"
  unfolding ride_accept_def
  by (cases rule: ride_transition_cases [of r ACCEPTED "''user_accepted_offer''" User_actor key t])
    (auto simp: ride_inv_def ride_predecessors)

lemma ride_inv_connected [inv_steps]: "ride_inv P r \<Longrightarrow> ride_inv P (snd (connected r key t))"
  unfolding connected_def
  by (cases rule: ride_transition_cases [of r ride_state.ACTIVE "''webrtc_connected''" System_actor key t])
    (auto simp: ride_inv_def ride_predecessors)

lemma ride_inv_negotiationStarted [inv_steps]:
  "ride_inv P r \<Longrightarrow> ride_inv P (snd (negotiationStarted r key t))"
  unfolding negotiationStarted_def
  by (cases rule: ride_transition_cases [of r NEGOTIATING "''webrtc_negotiation_started''" System_actor key t])
    (auto simp: ride_inv_def ride_predecessors split: sum.splits)

lemma ride_inv_failAllAttempts [inv_steps]:
  "ride_inv P r \<Longrightarrow> ride_inv P (snd (failAllAttempts r key t))"
  unfolding failAllAttempts_def
  by (cases rule: ride_transition_cases [of r FULLY_COMPENSATED "''all_webrtc_attempts_failed''" System_actor key t])
    (auto simp: ride_inv_def ride_predecessors split: sum.splits)

lemma ride_inv_purchased: "ride_inv P r \<Longrightarrow> ri_purchasedSeconds (rd_input r) = js_int P"
  by (simp add: ride_inv_def)

lemma ride_inv_end [inv_steps]: "ride_inv P r \<Longrightarrow> ride_inv P (snd (ride_end r key t))"
proof -
  assume inv: "ride_inv P r"
  obtain u where u: "0 \<le> u" "u \<le> P" "js_min (js_int P) (elapsed_seconds (rd_startedAt r) t) = js_int u"
    using used_after_end [of P "rd_startedAt r" t] inv unfolding ride_inv_def by blast
  have settle: "ride_inv P (r1\<lparr>rd_usedSeconds := js_int u\<rparr>)"
    if "ride_inv P r1" "vm_state (rd_machine r1) \<in> {ride_state.ACTIVE, ENDING}" for r1
    using that u by (auto simp: ride_inv_def)
  have finish: "ride_inv P (snd (ride_transition r2 COMPLETED ''time_settled'' System_actor k t))"
    if "ride_inv P r2" for r2 k
    using that
    by (cases rule: ride_transition_cases [of r2 COMPLETED "''time_settled''" System_actor k t])
      (auto simp: ride_inv_def ride_predecessors)
  show ?thesis
  proof (cases "vm_state (rd_machine r) = ride_state.ACTIVE")
    case True
    define r1 where "r1 = snd (ride_transition r ENDING ''user_ended'' User_actor (key @ '':ending'') t)"
    have r1: "ride_inv P r1 \<and> vm_state (rd_machine r1) \<in> {ride_state.ACTIVE, ENDING}
      \<and> rd_startedAt r1 = rd_startedAt r \<and> rd_input r1 = rd_input r"
      using inv True unfolding r1_def
      by (cases rule: ride_transition_cases [of r ENDING "''user_ended''" User_actor "key @ '':ending''" t])
        (auto simp: ride_inv_def ride_predecessors)
    show ?thesis
      using True r1 u(3) finish [OF settle, of r1] unfolding ride_end_def r1_def
      by (auto simp: Let_def ride_inv_purchased split: prod.splits sum.splits)
  qed (simp add: ride_end_def inv)
qed

lemma ride_inv_step: "ride_inv P r \<Longrightarrow> ride_inv P (snd (ride_step r c))"
  by (cases c) (simp_all add: inv_steps)

lemma ride_inv_run: "ride_inv P r \<Longrightarrow> ride_inv P (ride_run r cs)"
  by (induction cs arbitrary: r) (auto simp: ride_inv_step)

lemma ride_inv_new:
  assumes "new_ride i = Inr r" "ri_purchasedSeconds i = js_int P"
  shows "ride_inv P r"
  using assms
  by (auto simp: new_ride_def ride_inv_def createRideStateMachine_def machine_inv_new split: if_splits)

subsection \<open>A sample ride\<close>

definition sample_input :: ride_input where
  "sample_input = \<lparr>ri_id = ''r'', ri_userId = ''u'', ri_carId = ''c'', ri_purchasedSeconds = js_int 300\<rparr>"

definition sample_ride :: ride where
  "sample_ride = \<lparr>rd_machine = createRideStateMachine ''r'' CREATED, rd_input = sample_input,
     rd_attemptCount = 0, rd_usedSeconds = js_int 0, rd_startedAt = None\<rparr>"

lemma sample_ride_new: "new_ride sample_input = Inr sample_ride"
  by (simp add: new_ride_def sample_ride_def sample_input_def)

lemmas ride_eval = sample_ride_def sample_input_def ride_transition_def ride_offer_def ride_accept_def
  negotiationStarted_def connected_def failAllAttempts_def machine_eval

subsection \<open>Properties\<close>

lemma js_safe_between: "300 \<le> P \<Longrightarrow> js_is_safe_integer (js_int P) \<Longrightarrow> 0 \<le> u \<Longrightarrow> u \<le> P \<Longrightarrow>
   nonnegative_int (js_int u)"
  by (simp add: nonnegative_int_def js_safe_int_iff)

lemma safe_integer_int: "js_is_safe_integer x \<Longrightarrow> (\<And>P. x = js_int P \<Longrightarrow> thesis) \<Longrightarrow> thesis"
  using js_integer_int [OF js_safe_is_integer] by blast

lemma phase_used: "phase_ok P st n u b \<Longrightarrow> 300 \<le> P \<Longrightarrow> 0 \<le> u \<and> u \<le> P \<and> n \<le> 5"
  by (cases st) auto

lemma ride_inv_used:
  assumes "ride_inv P r"
  obtains u where "0 \<le> u" "u \<le> P" "rd_usedSeconds r = js_int u" "rd_attemptCount r \<le> 5"
    "rs_remainingSeconds (snapshot r) = js_int (P - u)"
proof -
  define u where "u = int_of_js (rd_usedSeconds r)"
  have u: "0 \<le> u \<and> u \<le> P \<and> rd_attemptCount r \<le> 5" "rd_usedSeconds r = js_int u"
    "ri_purchasedSeconds (rd_input r) = js_int P"
    using assms phase_used unfolding ride_inv_def u_def by blast+
  have "js_max (js_int 0) (js_int (P - u)) = js_int (P - u)"
    using u(1) by (simp add: js_int_def max_def)
  then show ?thesis using u that by (simp add: snapshot_def)
qed

text \<open>
  Property C27: a ride's snapshots fit the published schema exactly when they should. Whatever a
  ride was created with and however it is driven (any calls, in any order, with any keys and
  times, errors caught), its snapshot satisfies the schema if and only if the seconds bought are a
  safe whole number and its three identifiers are UUIDs; and for such seconds the snapshot
  passes \<open>assertRideSnapshot\<close> and its used and remaining seconds add up to what was bought.
\<close>

theorem ride_snapshot_always_valid:
  assumes "new_ride i = Inr r"
  shows "let s = snapshot (ride_run r cs) in
     (RideSnapshotSchema uuid s \<longleftrightarrow>
        js_is_safe_integer (ri_purchasedSeconds i) \<and> uuid (ri_id i) \<and> uuid (ri_userId i) \<and> uuid (ri_carId i))
     \<and> (js_is_safe_integer (ri_purchasedSeconds i) \<longrightarrow>
          assertRideSnapshot s = Inr s
          \<and> js_add (rs_usedSeconds s) (rs_remainingSeconds s) = ri_purchasedSeconds i)"
proof -
  have input: "rd_input (ride_run r cs) = i"
    using assms(1) ride_run_input [of r cs] by (auto simp: new_ride_def split: if_splits)
  show ?thesis
  proof (cases "js_is_safe_integer (ri_purchasedSeconds i)")
    case False
    then show ?thesis using input by (simp add: Let_def RideSnapshotSchema_def nonnegative_int_def snapshot_def)
  next
    case True
    then obtain P where bought: "ri_purchasedSeconds i = js_int P" by (rule safe_integer_int)
    have inv: "ride_inv P (ride_run r cs)" by (intro ride_inv_run ride_inv_new [OF assms bought])
    obtain u where u: "0 \<le> u" "u \<le> P" "rd_usedSeconds (ride_run r cs) = js_int u"
      "rd_attemptCount (ride_run r cs) \<le> 5" "rs_remainingSeconds (snapshot (ride_run r cs)) = js_int (P - u)"
      using inv by (rule ride_inv_used)
    have sum: "js_add (js_int u) (js_int (P - u)) = js_int P" by (simp add: js_int_def)
    have P: "300 \<le> P" "vm_version (rd_machine (ride_run r cs)) \<ge> 1"
      using inv by (auto simp: ride_inv_def machine_inv_def machine_ok_def)
    show ?thesis
      using u P input bought sum js_safe_between [OF P(1) True [unfolded bought]] True
      by (simp add: Let_def assertRideSnapshot_def RideSnapshotSchema_def snapshot_def)
  qed
qed

theorem ride_snapshot_always_valid_witness:
  "let s = snapshot (ride_run sample_ride [Offer ''a'' 0, Connected ''x'' 0, Accept ''b'' 0]) in
     assertRideSnapshot s = Inr s
     \<and> js_add (rs_usedSeconds s) (rs_remainingSeconds s) = js_int 300
     \<and> RideSnapshotSchema (\<lambda>s. s \<noteq> []) s \<and> \<not> RideSnapshotSchema (\<lambda>s. length s = 36) s"
  using ride_snapshot_always_valid [OF sample_ride_new, of "[Offer ''a'' 0, Connected ''x'' 0, Accept ''b'' 0]" "\<lambda>s. s \<noteq> []"]
    ride_snapshot_always_valid [OF sample_ride_new, of "[Offer ''a'' 0, Connected ''x'' 0, Accept ''b'' 0]" "\<lambda>s. length s = 36"]
  unfolding Let_def by (simp add: sample_input_def js_safe_int_iff)

text \<open>
  the money-relevant outcomes of an orchestrated ride. A ride is fully
  compensated only after exactly five negotiation attempts, and then it has used nothing and
  keeps all its seconds; a completed ride had a start and at least one attempt; and no ride
  ever gets to the failed or partially compensated states.
\<close>

theorem ride_compensation_needs_five_attempts:
  assumes "new_ride i = Inr r" and "ri_purchasedSeconds i = js_int P"
  shows "let s = snapshot (ride_run r cs) in
     (rs_state s = FULLY_COMPENSATED \<longrightarrow>
        rs_attemptCount s = 5 \<and> rs_usedSeconds s = js_int 0 \<and> rs_remainingSeconds s = js_int P)
     \<and> (rs_state s = COMPLETED \<longrightarrow> 1 \<le> rs_attemptCount s \<and> rs_startedAt s \<noteq> None)
     \<and> rs_state s \<noteq> FAILED \<and> rs_state s \<noteq> PARTIALLY_COMPENSATED"
proof -
  have inv: "ride_inv P (ride_run r cs)" by (intro ride_inv_run ride_inv_new [OF assms])
  obtain u where u: "rd_usedSeconds (ride_run r cs) = js_int u"
    "rs_remainingSeconds (snapshot (ride_run r cs)) = js_int (P - u)"
    using inv by (rule ride_inv_used)
  show ?thesis
    using inv u by (cases "vm_state (rd_machine (ride_run r cs))")
      (auto simp: Let_def ride_inv_def snapshot_def)
qed

theorem ride_compensation_needs_five_attempts_witness:
  "rs_usedSeconds (snapshot (ride_run sample_ride
     [Offer ''a'' 0, Accept ''b'' 0, NegotiationStarted ''n1'' 5, NegotiationStarted ''n2'' 6,
      NegotiationStarted ''n3'' 7, NegotiationStarted ''n4'' 8, NegotiationStarted ''n5'' 9,
      FailAllAttempts ''f'' 10])) = js_int 0"
  using ride_compensation_needs_five_attempts [OF sample_ride_new, of 300
      "[Offer ''a'' 0, Accept ''b'' 0, NegotiationStarted ''n1'' 5, NegotiationStarted ''n2'' 6,
        NegotiationStarted ''n3'' 7, NegotiationStarted ''n4'' 8, NegotiationStarted ''n5'' 9,
        FailAllAttempts ''f'' 10]"]
  by (simp add: ride_eval snapshot_def)

text \<open>
  what ending an active ride charges. With the two keys of the call still unused,
  \<open>end\<close> succeeds, completes the ride and charges the seconds since the first negotiation,
  rounded up, not below zero and not above what was bought.
\<close>

theorem ride_end_charges_elapsed_time:
  assumes "vm_state (rd_machine r) = ride_state.ACTIVE" and "vm_transitions (rd_machine r) = rideTransitions"
    and "ri_purchasedSeconds (rd_input r) = js_int P" and "rd_startedAt r = Some start"
    and "key @ '':ending'' \<notin> tr_idempotencyKey ` set (vm_history (rd_machine r))"
    and "key @ '':completed'' \<notin> tr_idempotencyKey ` set (vm_history (rd_machine r))"
  shows "\<exists>r'. ride_end r key t = (Inr (), r') \<and> rs_state (snapshot r') = COMPLETED
     \<and> rs_usedSeconds (snapshot r') = js_int (min P (max 0 \<lceil>(of_int (t - start) / 1000 :: rat)\<rceil>))"
proof -
  define c where "c = \<lceil>(of_int (t - start) / 1000 :: rat)\<rceil>"
  have used: "js_min (js_int P) (elapsed_seconds (Some start) t) = js_int (min P (max 0 c))"
    unfolding c_def elapsed_seconds_def js_ceil.simps option.case js_int_def js_max_Fin js_min_Fin
    by (simp only: of_int_max of_int_min of_int_0)
  show ?thesis
    using assms used
    unfolding c_def [symmetric] ride_end_def
    by (simp add: ride_transition_fresh snapshot_def transition_event_def Let_def)
qed

theorem ride_end_charges_elapsed_time_witness:
  "\<exists>r'. ride_end (ride_run sample_ride
       [Offer ''a'' 0, Accept ''b'' 0, NegotiationStarted ''n'' 1000, Connected ''d'' 2000]) ''e'' 62500
     = (Inr (), r') \<and> rs_state (snapshot r') = COMPLETED \<and> rs_usedSeconds (snapshot r') = js_int 62"
  using ride_end_charges_elapsed_time [of "ride_run sample_ride
      [Offer ''a'' 0, Accept ''b'' 0, NegotiationStarted ''n'' 1000, Connected ''d'' 2000]" 300 1000 "''e''" 62500]
    ceiling_unique [of 62 "123 / 2 :: rat"]
  by (simp add: ride_eval)

end
