(* ===== verification/RideQueue.thy ===== *)
theory RideQueue
  imports Contracts
begin

section \<open>The fair ride queue\<close>

text \<open>
  \<open>packages/domain/src/queue.ts\<close>: the class \<open>FairRideQueue\<close>, a list of member objects in
  order of arrival and a map of offers. \<open>snapshot\<close> hands out the member objects themselves,
  so what \<open>offer\<close> picks from it is a position of the member list; \<open>find\<close> picks the first
  member that fits. Objects passed in or handed out are not changed by others. The time an offer
  stays open is a whole number of seconds that keeps the dates in range, as the only caller under
  \<open>src\<close> passes it; for other numbers \<open>toISOString\<close> may throw after the member was marked as offered,
  which is not modelled.
\<close>

datatype member_status = Waiting | Offered | Accepted | Left | Expired

record queue_member =
  qm_id :: ident
  qm_userId :: ident
  qm_joinedAt :: date
  qm_expiresAt :: date
  qm_status :: member_status

record queue_offer =
  qo_id :: ident
  qo_queueEntryId :: ident
  qo_userId :: ident
  qo_carIds :: "ident list"
  qo_offeredAt :: date
  qo_expiresAt :: date
  qo_acceptedCarId :: "ident option"

record fair_queue =
  fq_members :: "queue_member list"
  fq_offers :: "(ident, queue_offer) js_map"

type_synonym 'a queue_result = "(string, 'a, fair_queue) outcome"

definition new_queue :: fair_queue where
  "new_queue = \<lparr>fq_members = [], fq_offers = []\<rparr>"

definition active_member :: "queue_member \<Rightarrow> bool" where
  "active_member m = (qm_status m = Waiting \<or> qm_status m = Offered \<or> qm_status m = Accepted)"

definition live_member :: "queue_member \<Rightarrow> bool" where
  "live_member m = (qm_status m = Waiting \<or> qm_status m = Offered)"

definition queue_join :: "fair_queue \<Rightarrow> queue_member \<Rightarrow> queue_member \<times> fair_queue" where
  "queue_join q member =
     (case List.find (\<lambda>item. qm_userId item = qm_userId member \<and> active_member item) (fq_members q) of
        Some active \<Rightarrow> (active, q)
      | None \<Rightarrow> (member, q\<lparr>fq_members := fq_members q @ [member]\<rparr>))"

definition expire_member :: "date \<Rightarrow> queue_member \<Rightarrow> queue_member" where
  "expire_member t m = (if live_member m \<and> qm_expiresAt m \<le> t then m\<lparr>qm_status := Expired\<rparr> else m)"

definition queue_expire :: "fair_queue \<Rightarrow> date \<Rightarrow> fair_queue" where
  "queue_expire q t = q\<lparr>fq_members := map (expire_member t) (fq_members q)\<rparr>"

text \<open>The positions of the members in a snapshot: a stable sort by joining time.\<close>

definition snapshot_positions :: "queue_member list \<Rightarrow> nat list" where
  "snapshot_positions ms =
     sort_key (\<lambda>i. qm_joinedAt (ms ! i)) (filter (\<lambda>i. live_member (ms ! i)) [0..<length ms])"

definition queue_snapshot :: "fair_queue \<Rightarrow> date \<Rightarrow> queue_member list \<times> fair_queue" where
  "queue_snapshot q t =
     (let q' = queue_expire q t
      in (map ((!) (fq_members q')) (snapshot_positions (fq_members q')), q'))"

definition queue_leave :: "fair_queue \<Rightarrow> ident \<Rightarrow> fair_queue" where
  "queue_leave q userId =
     q\<lparr>fq_members := update_first (\<lambda>item. qm_userId item = userId \<and> qm_status item = Waiting)
        (\<lambda>m. m\<lparr>qm_status := Left\<rparr>) (fq_members q)\<rparr>"

definition queue_offer_next ::
  "fair_queue \<Rightarrow> ident \<Rightarrow> ident list \<Rightarrow> date \<Rightarrow> int option \<Rightarrow> queue_offer queue_result" where
  "queue_offer_next q oid carIds offeredAt ttl =
     (let q' = queue_expire q offeredAt; ms = fq_members q' in
      case List.find (\<lambda>i. qm_status (ms ! i) = Waiting) (snapshot_positions ms) of
        None \<Rightarrow> (Inl ''Queue is empty'', q')
      | Some i \<Rightarrow>
          let ttlSeconds = (case ttl of Some s \<Rightarrow> s | None \<Rightarrow> 30);
              member = (ms ! i)\<lparr>qm_status := Offered\<rparr>;
              offer = \<lparr>qo_id = oid, qo_queueEntryId = qm_id member, qo_userId = qm_userId member,
                qo_carIds = carIds, qo_offeredAt = offeredAt,
                qo_expiresAt = offeredAt + ttlSeconds * 1000, qo_acceptedCarId = None\<rparr>
          in (Inr offer, q'\<lparr>fq_members := ms[i := member], fq_offers := map_set (fq_offers q') oid offer\<rparr>))"

definition queue_accept :: "fair_queue \<Rightarrow> ident \<Rightarrow> ident \<Rightarrow> date \<Rightarrow> queue_offer queue_result" where
  "queue_accept q offerId carId t =
     (case map_get (fq_offers q) offerId of
        None \<Rightarrow> (Inl ''Ride offer not found'', q)
      | Some offer \<Rightarrow>
          if qo_expiresAt offer \<le> t then (Inl ''Ride offer expired'', q)
          else if carId \<notin> set (qo_carIds offer) then (Inl ''Car is not part of this offer'', q)
          else
            (case List.find (\<lambda>item. qm_id item = qo_queueEntryId offer) (fq_members q) of
               None \<Rightarrow> (Inl ''Queue entry cannot accept this offer'', q)
             | Some member \<Rightarrow>
                 if qm_status member \<noteq> Offered then (Inl ''Queue entry cannot accept this offer'', q)
                 else
                   let offer' = offer\<lparr>qo_acceptedCarId := Some carId\<rparr> in
                   (Inr offer',
                    q\<lparr>fq_members := update_first (\<lambda>item. qm_id item = qo_queueEntryId offer)
                        (\<lambda>m. m\<lparr>qm_status := Accepted\<rparr>) (fq_members q),
                      fq_offers := map_set (fq_offers q) offerId offer'\<rparr>)))"

datatype queue_call =
    Join queue_member
  | Snapshot date
  | Leave ident
  | MakeOffer ident "ident list" date "int option"
  | AcceptOffer ident ident date

fun queue_step :: "fair_queue \<Rightarrow> queue_call \<Rightarrow> fair_queue" where
  "queue_step q (Join m) = snd (queue_join q m)"
| "queue_step q (Snapshot t) = snd (queue_snapshot q t)"
| "queue_step q (Leave u) = queue_leave q u"
| "queue_step q (MakeOffer i cars t ttl) = snd (queue_offer_next q i cars t ttl)"
| "queue_step q (AcceptOffer i car t) = snd (queue_accept q i car t)"

definition queue_run :: "fair_queue \<Rightarrow> queue_call list \<Rightarrow> fair_queue" where
  "queue_run q cs = foldl queue_step q cs"

subsection \<open>One active place per user\<close>

definition one_place :: "fair_queue \<Rightarrow> bool" where
  "one_place q = distinct (map qm_userId (filter active_member (fq_members q)))"

lemma one_place_sub:
  "one_place q \<Longrightarrow> subseq (map qm_userId (filter active_member ms)) (map qm_userId (filter active_member (fq_members q)))
   \<Longrightarrow> one_place (q\<lparr>fq_members := ms\<rparr>)"
  by (simp add: one_place_def subseq_distinct)

lemma one_place_offers [simp]: "one_place (q\<lparr>fq_offers := os\<rparr>) = one_place q"
  by (simp add: one_place_def)

lemma one_place_join [inv_steps]: "one_place q \<Longrightarrow> one_place (snd (queue_join q m))"
  by (auto simp: one_place_def queue_join_def find_None split: option.splits)

lemma one_place_expire [inv_steps]: "one_place q \<Longrightarrow> one_place (queue_expire q t)"
  unfolding queue_expire_def
  by (erule one_place_sub, rule filter_map_sub)
    (auto simp: expire_member_def active_member_def live_member_def split: if_splits)

lemma one_place_snapshot [inv_steps]: "one_place q \<Longrightarrow> one_place (snd (queue_snapshot q t))"
  by (simp add: queue_snapshot_def Let_def one_place_expire)

lemma one_place_leave [inv_steps]: "one_place q \<Longrightarrow> one_place (queue_leave q u)"
  unfolding queue_leave_def
  by (erule one_place_sub, rule filter_update_first_sub) (auto simp: active_member_def)

lemma snapshot_positions_mem:
  "i \<in> set (snapshot_positions ms) \<longleftrightarrow> i < length ms \<and> live_member (ms ! i)"
  by (auto simp: snapshot_positions_def)

lemma one_place_offer [inv_steps]: "one_place q \<Longrightarrow> one_place (snd (queue_offer_next q i cars t ttl))"
proof -
  assume "one_place q"
  then have q: "one_place (queue_expire q t)" by (rule one_place_expire)
  have "one_place (queue_expire q t\<lparr>fq_members := (fq_members (queue_expire q t))
        [k := (fq_members (queue_expire q t) ! k)\<lparr>qm_status := Offered\<rparr>]\<rparr>)"
    if "k \<in> set (snapshot_positions (fq_members (queue_expire q t)))" for k
    using that by (intro one_place_sub [OF q] filter_list_update_sub)
      (auto simp: snapshot_positions_mem live_member_def active_member_def)
  then show ?thesis
    using q by (auto simp: queue_offer_next_def Let_def dest: find_in_set split: option.splits)
qed

lemma accept_first_sub:
  "List.find (\<lambda>item. qm_id item = e) ms = Some m \<Longrightarrow> qm_status m = Offered \<Longrightarrow>
   subseq (map qm_userId (filter active_member (update_first (\<lambda>item. qm_id item = e)
     (\<lambda>m. m\<lparr>qm_status := Accepted\<rparr>) ms))) (map qm_userId (filter active_member ms))"
  by (induction ms) (auto simp: active_member_def split: if_splits)

lemma one_place_accept [inv_steps]: "one_place q \<Longrightarrow> one_place (snd (queue_accept q i car t))"
proof -
  assume q: "one_place q"
  have "one_place (q\<lparr>fq_members := update_first (\<lambda>item. qm_id item = e)
      (\<lambda>m. m\<lparr>qm_status := Accepted\<rparr>) (fq_members q)\<rparr>)"
    if "List.find (\<lambda>item. qm_id item = e) (fq_members q) = Some m" "qm_status m = Offered" for e m
    using that by (intro one_place_sub [OF q]) (rule accept_first_sub)
  then show ?thesis
    using q by (auto simp: queue_accept_def Let_def split: option.splits)
qed

lemma one_place_step: "one_place q \<Longrightarrow> one_place (queue_step q c)"
  by (cases c) (simp_all add: inv_steps)

lemma one_place_run: "one_place q \<Longrightarrow> one_place (queue_run q cs)"
  unfolding queue_run_def by (induction cs arbitrary: q) (auto simp: one_place_step)

subsection \<open>Which member an offer goes to\<close>

lemma snapshot_positions_sorted:
  "sorted_wrt (key_pos_less (\<lambda>i. qm_joinedAt (ms ! i))) (snapshot_positions ms)"
  unfolding snapshot_positions_def
  by (intro sorted_wrt_sort_key sorted_wrt_filter) simp

lemma queue_offer_next_cases:
  obtains (none) "\<forall>m \<in> set (fq_members (queue_expire q t)). qm_status m \<noteq> Waiting"
      "queue_offer_next q oid cars t ttl = (Inl ''Queue is empty'', queue_expire q t)"
  | (some) i offer where
      "i < length (fq_members (queue_expire q t))" "qm_status (fq_members (queue_expire q t) ! i) = Waiting"
      "\<And>j. j < length (fq_members (queue_expire q t)) \<Longrightarrow>
         qm_status (fq_members (queue_expire q t) ! j) = Waiting \<Longrightarrow>
         j = i \<or> key_pos_less (\<lambda>k. qm_joinedAt (fq_members (queue_expire q t) ! k)) i j"
      "offer = \<lparr>qo_id = oid, qo_queueEntryId = qm_id (fq_members (queue_expire q t) ! i),
         qo_userId = qm_userId (fq_members (queue_expire q t) ! i), qo_carIds = cars, qo_offeredAt = t,
         qo_expiresAt = t + (case ttl of Some s \<Rightarrow> s | None \<Rightarrow> 30) * 1000, qo_acceptedCarId = None\<rparr>"
      "queue_offer_next q oid cars t ttl = (Inr offer,
         queue_expire q t\<lparr>fq_members := (fq_members (queue_expire q t))
             [i := (fq_members (queue_expire q t) ! i)\<lparr>qm_status := Offered\<rparr>],
           fq_offers := map_set (fq_offers (queue_expire q t)) oid offer\<rparr>)"
proof -
  let ?ms = "fq_members (queue_expire q t)"
  show ?thesis
  proof (cases "List.find (\<lambda>i. qm_status (?ms ! i) = Waiting) (snapshot_positions ?ms)")
    case None
    then have "qm_status (?ms ! i) \<noteq> Waiting" if "i < length ?ms" for i
      using that snapshot_positions_mem [of i ?ms] by (fastforce simp: find_None live_member_def)
    then have "\<forall>m \<in> set ?ms. qm_status m \<noteq> Waiting"
      by (metis in_set_conv_nth)
    then show ?thesis using none None by (simp add: queue_offer_next_def Let_def)
  next
    case (Some i)
    have least: "j = i \<or> key_pos_less (\<lambda>k. qm_joinedAt (?ms ! k)) i j"
      if "j < length ?ms" "qm_status (?ms ! j) = Waiting" for j
      using find_sorted_wrt [OF snapshot_positions_sorted Some] that
      by (auto simp: snapshot_positions_mem live_member_def)
    have "i < length ?ms" "qm_status (?ms ! i) = Waiting"
      using find_in_set [OF Some] by (auto simp: snapshot_positions_mem)
    then show ?thesis using some least Some by (simp add: queue_offer_next_def Let_def)
  qed
qed

subsection \<open>An accepted place stays accepted\<close>

definition accepted_first :: "ident \<Rightarrow> queue_member list \<Rightarrow> bool" where
  "accepted_first e ms = (\<exists>m. List.find (\<lambda>item. qm_id item = e) ms = Some m \<and> qm_status m = Accepted)"

definition spent_offer :: "ident \<Rightarrow> fair_queue \<Rightarrow> bool" where
  "spent_offer oid q = (\<exists>offer. map_get (fq_offers q) oid = Some offer \<and>
     accepted_first (qo_queueEntryId offer) (fq_members q))"

lemma expire_member_id [simp]: "qm_id (expire_member t m) = qm_id m"
  by (simp add: expire_member_def)

lemma expire_accepted [simp]: "qm_status m = Accepted \<Longrightarrow> expire_member t m = m"
  by (simp add: expire_member_def live_member_def)

lemma find_expire:
  "List.find (\<lambda>item. qm_id item = e) (map (expire_member t) ms) =
     map_option (expire_member t) (List.find (\<lambda>item. qm_id item = e) ms)"
  by (rule find_map_same) simp

lemma accepted_first_expire: "accepted_first e ms \<Longrightarrow> accepted_first e (map (expire_member t) ms)"
  unfolding accepted_first_def find_expire by fastforce

lemma accepted_first_update:
  "accepted_first e ms \<Longrightarrow> i < length ms \<Longrightarrow> qm_status (ms ! i) = Waiting \<Longrightarrow>
   accepted_first e (ms[i := (ms ! i)\<lparr>qm_status := Offered\<rparr>])"
  unfolding accepted_first_def by (auto intro!: find_list_update_other)

lemma accepted_first_offer:
  "accepted_first e ms \<Longrightarrow> i < length ms \<Longrightarrow> qm_status (expire_member t (ms ! i)) = Waiting \<Longrightarrow>
   accepted_first e ((map (expire_member t) ms)[i := (expire_member t (ms ! i))\<lparr>qm_status := Offered\<rparr>])"
  using accepted_first_update [OF accepted_first_expire, of e ms i t] by simp

lemma accepted_first_leave:
  "accepted_first e ms \<Longrightarrow> accepted_first e
     (update_first (\<lambda>item. qm_userId item = u \<and> qm_status item = Waiting) (\<lambda>m. m\<lparr>qm_status := Left\<rparr>) ms)"
  unfolding accepted_first_def by (auto intro!: find_update_first_other)

lemma accepted_first_accept:
  "accepted_first e ms \<Longrightarrow> accepted_first e
     (update_first (\<lambda>item. qm_id item = e') (\<lambda>m. m\<lparr>qm_status := Accepted\<rparr>) ms)"
  unfolding accepted_first_def by (induction ms) (auto split: if_splits)

lemma spent_offer_step:
  assumes "spent_offer oid q" "\<forall>cars t ttl. c \<noteq> MakeOffer oid cars t ttl"
  shows "spent_offer oid (queue_step q c)"
proof (cases c)
  case (MakeOffer i cars t ttl)
  then show ?thesis
    using assms by (cases rule: queue_offer_next_cases [of q t i cars ttl])
      (auto simp: spent_offer_def queue_expire_def accepted_first_offer accepted_first_expire)
next
  case (AcceptOffer i car t)
  then show ?thesis
    using assms by (auto simp: spent_offer_def queue_accept_def Let_def accepted_first_accept split: option.splits)
next
  case (Join m)
  then show ?thesis
    using assms by (auto simp: spent_offer_def queue_join_def accepted_first_def find_append split: option.splits)
next
  case (Snapshot t)
  then show ?thesis
    using assms by (auto simp: spent_offer_def queue_snapshot_def Let_def queue_expire_def accepted_first_expire)
next
  case (Leave u)
  then show ?thesis using assms by (auto simp: spent_offer_def queue_leave_def accepted_first_leave)
qed

lemma spent_offer_run:
  "spent_offer oid q \<Longrightarrow> list_all (\<lambda>c. \<forall>cars t ttl. c \<noteq> MakeOffer oid cars t ttl) cs \<Longrightarrow>
   spent_offer oid (queue_run q cs)"
  unfolding queue_run_def by (induction cs arbitrary: q) (auto simp: spent_offer_step)

lemma spent_offer_refused:
  "spent_offer oid q \<Longrightarrow> \<exists>e. queue_accept q oid car t = (Inl e, q)"
  by (auto simp: spent_offer_def accepted_first_def queue_accept_def)

lemma accepted_first_here:
  "List.find (\<lambda>item. qm_id item = e) ms = Some m \<Longrightarrow>
   accepted_first e (update_first (\<lambda>item. qm_id item = e) (\<lambda>m. m\<lparr>qm_status := Accepted\<rparr>) ms)"
  unfolding accepted_first_def by (induction ms) (auto split: if_splits)

lemma queue_accept_spends:
  "queue_accept q oid car t = (Inr offer, q') \<Longrightarrow> spent_offer oid q'"
  by (auto simp: queue_accept_def spent_offer_def Let_def accepted_first_here
      split: option.splits if_splits)

subsection \<open>An accepted user stays active\<close>

definition accepted_user :: "ident \<Rightarrow> queue_member list \<Rightarrow> bool" where
  "accepted_user u ms = (\<exists>m \<in> set ms. qm_userId m = u \<and> qm_status m = Accepted)"

lemma accepted_user_expire: "accepted_user u ms \<Longrightarrow> accepted_user u (map (expire_member t) ms)"
  unfolding accepted_user_def by force

lemma accepted_user_update:
  "accepted_user u ms \<Longrightarrow> i < length ms \<Longrightarrow> qm_status (ms ! i) = Waiting \<Longrightarrow> accepted_user u (ms[i := m])"
proof -
  assume a: "accepted_user u ms" and i: "i < length ms" "qm_status (ms ! i) = Waiting"
  then obtain k where k: "k < length ms" "qm_userId (ms ! k) = u" "qm_status (ms ! k) = Accepted"
    by (auto simp: accepted_user_def in_set_conv_nth)
  then have "ms[i := m] ! k = ms ! k" using i by (cases "i = k") auto
  then show ?thesis using k by (auto simp: accepted_user_def in_set_conv_nth intro!: bexI [of _ "ms ! k"])
qed

lemma accepted_user_offer:
  "accepted_user u ms \<Longrightarrow> i < length ms \<Longrightarrow> qm_status (expire_member t (ms ! i)) = Waiting \<Longrightarrow>
   accepted_user u ((map (expire_member t) ms)[i := m])"
  using accepted_user_update [OF accepted_user_expire, of u ms i t m] by simp

lemma accepted_user_leave:
  "accepted_user u ms \<Longrightarrow> accepted_user u
     (update_first (\<lambda>item. qm_userId item = v \<and> qm_status item = Waiting) (\<lambda>m. m\<lparr>qm_status := Left\<rparr>) ms)"
  unfolding accepted_user_def by (induction ms) auto

lemma accepted_user_accept:
  "accepted_user u ms \<Longrightarrow> accepted_user u
     (update_first (\<lambda>item. qm_id item = e) (\<lambda>m. m\<lparr>qm_status := Accepted\<rparr>) ms)"
  unfolding accepted_user_def by (induction ms) auto

lemma accepted_user_step:
  assumes "accepted_user u (fq_members q)"
  shows "accepted_user u (fq_members (queue_step q c))"
proof (cases c)
  case (MakeOffer i cars t ttl)
  then show ?thesis
    using assms by (cases rule: queue_offer_next_cases [of q t i cars ttl])
      (auto simp: queue_expire_def accepted_user_offer accepted_user_expire)
next
  case (AcceptOffer i car t)
  then show ?thesis
    using assms by (auto simp: queue_accept_def Let_def accepted_user_accept split: option.splits)
next
  case (Join m)
  then show ?thesis
    using assms by (auto simp: queue_join_def accepted_user_def split: option.splits)
qed (use assms in \<open>auto simp: queue_snapshot_def Let_def queue_expire_def accepted_user_expire
    queue_leave_def accepted_user_leave\<close>)

lemma accepted_user_run:
  "accepted_user u (fq_members q) \<Longrightarrow> accepted_user u (fq_members (queue_run q cs))"
  unfolding queue_run_def by (induction cs arbitrary: q) (auto simp: accepted_user_step)

lemma accepted_user_joins:
  assumes "accepted_user (qm_userId m) (fq_members q)"
  obtains m' where "queue_join q m = (m', q)" "qm_userId m' = qm_userId m" "active_member m'"
proof -
  have "List.find (\<lambda>item. qm_userId item = qm_userId m \<and> active_member item) (fq_members q) \<noteq> None"
    using assms by (auto simp: find_None accepted_user_def active_member_def)
  then obtain m' where m': "List.find (\<lambda>item. qm_userId item = qm_userId m \<and> active_member item)
      (fq_members q) = Some m'" by auto
  show ?thesis
    using that [of m'] find_in_set [OF m'] m' by (simp add: queue_join_def)
qed

lemma queue_accept_user:
  "queue_accept q oid car t = (Inr offer, q') \<Longrightarrow>
   \<exists>m \<in> set (fq_members q'). qm_id m = qo_queueEntryId offer \<and> qm_status m = Accepted \<and>
     accepted_user (qm_userId m) (fq_members q')"
proof -
  assume *: "queue_accept q oid car t = (Inr offer, q')"
  have "accepted_first (qo_queueEntryId offer) (fq_members q')"
    using * by (auto simp: queue_accept_def Let_def accepted_first_here split: option.splits if_splits)
  then obtain m where m: "List.find (\<lambda>item. qm_id item = qo_queueEntryId offer) (fq_members q') = Some m"
      "qm_status m = Accepted" by (auto simp: accepted_first_def)
  show ?thesis
    using find_in_set [OF m(1)] m(2) by (auto simp: accepted_user_def intro!: bexI [of _ m])
qed

lemma waiting_after_expire:
  "qm_status (expire_member t m) = Waiting \<longleftrightarrow> qm_status m = Waiting \<and> t < qm_expiresAt m"
  by (auto simp: expire_member_def live_member_def)

subsection \<open>Properties\<close>

text \<open>
  whatever calls the queue receives, in whatever order, no user holds two active
  places (waiting, offered or accepted).
\<close>

theorem queue_one_place_per_user:
  "distinct (map qm_userId (filter active_member (fq_members (queue_run new_queue cs))))"
  using one_place_run [of new_queue cs] by (simp add: one_place_def new_queue_def)

text \<open>
  Property C25: an offer goes to the waiting, unexpired member that joined first (the earlier
  arrival when the joining times are equal), becomes that member's offer for the given time to
  live, marks only that member as offered and expires the places that are over; the queue is
  reported empty exactly when no such member waits.
\<close>

theorem queue_offer_is_fair:
  "case queue_offer_next q oid cars t ttl of
     (Inl e, q') \<Rightarrow> e = ''Queue is empty'' \<and> q' = queue_expire q t \<and>
       (\<forall>m \<in> set (fq_members q). qm_status m = Waiting \<longrightarrow> qm_expiresAt m \<le> t)
   | (Inr offer, q') \<Rightarrow>
       (\<exists>i < length (fq_members q).
          qm_status (fq_members q ! i) = Waiting \<and> t < qm_expiresAt (fq_members q ! i) \<and>
          (\<forall>j < length (fq_members q).
             qm_status (fq_members q ! j) = Waiting \<and> t < qm_expiresAt (fq_members q ! j) \<longrightarrow>
             qm_joinedAt (fq_members q ! i) < qm_joinedAt (fq_members q ! j) \<or>
             qm_joinedAt (fq_members q ! i) = qm_joinedAt (fq_members q ! j) \<and> i \<le> j) \<and>
          qo_queueEntryId offer = qm_id (fq_members q ! i) \<and>
          qo_userId offer = qm_userId (fq_members q ! i) \<and> qo_id offer = oid \<and> qo_carIds offer = cars \<and>
          qo_expiresAt offer = t + (case ttl of Some s \<Rightarrow> s | None \<Rightarrow> 30) * 1000 \<and>
          qo_acceptedCarId offer = None \<and>
          fq_members q' = (map (expire_member t) (fq_members q))
            [i := (fq_members q ! i)\<lparr>qm_status := Offered\<rparr>]) \<and>
       fq_offers q' = map_set (fq_offers q) oid offer"
proof (cases rule: queue_offer_next_cases [of q t oid cars ttl])
  case none
  then show ?thesis by (auto simp: queue_expire_def waiting_after_expire)
next
  case (some i offer)
  have inst: "t < qm_expiresAt (fq_members q ! i)"
    using some(1,2) by (simp add: queue_expire_def waiting_after_expire)
  then have same: "expire_member t (fq_members q ! i) = fq_members q ! i"
    by (simp add: expire_member_def)
  have joined: "qm_joinedAt (expire_member t m) = qm_joinedAt m" for m by (simp add: expire_member_def)
  show ?thesis
    unfolding some(5) prod.case sum.case
  proof (intro conjI exI [of _ i])
    show "\<forall>j < length (fq_members q).
        qm_status (fq_members q ! j) = Waiting \<and> t < qm_expiresAt (fq_members q ! j) \<longrightarrow>
        qm_joinedAt (fq_members q ! i) < qm_joinedAt (fq_members q ! j) \<or>
        qm_joinedAt (fq_members q ! i) = qm_joinedAt (fq_members q ! j) \<and> i \<le> j"
      using some(1,3) by (fastforce simp: queue_expire_def waiting_after_expire key_pos_less_def joined)
  qed (use some(1,2,4) same inst in \<open>simp_all add: queue_expire_def waiting_after_expire\<close>)
qed

text \<open>
  an offer is accepted at most once. After a successful acceptance, whatever the
  queue is asked next (short of making a new offer under the same id), accepting that offer
  again is refused and changes nothing.
\<close>

theorem queue_offer_accepted_once:
  assumes "queue_accept q oid car t = (Inr offer, q')"
    and "list_all (\<lambda>c. case c of MakeOffer i cars t' ttl \<Rightarrow> i \<noteq> oid | _ \<Rightarrow> True) cs"
  shows "\<exists>e. queue_accept (queue_run q' cs) oid car' t' = (Inl e, queue_run q' cs)"
proof (rule spent_offer_refused [OF spent_offer_run [OF queue_accept_spends [OF assms(1)]]])
  show "list_all (\<lambda>c. \<forall>cars t ttl. c \<noteq> MakeOffer oid cars t ttl) cs"
    by (rule list.pred_mono_strong [OF assms(2)]) auto
qed

text \<open>
  once a user has accepted an offer, the queue answers every later request of
  that user to join with the old place and stays as it is: no call ever frees the place.
\<close>

theorem accepted_user_never_rejoins:
  assumes "queue_accept q oid car t = (Inr offer, q')"
  shows "\<exists>m \<in> set (fq_members q'). qm_id m = qo_queueEntryId offer \<and> qm_status m = Accepted \<and>
    (\<forall>cs new. qm_userId new = qm_userId m \<longrightarrow>
       (\<exists>old. queue_join (queue_run q' cs) new = (old, queue_run q' cs) \<and>
          qm_userId old = qm_userId m \<and> active_member old))"
proof -
  obtain m where m: "m \<in> set (fq_members q')" "qm_id m = qo_queueEntryId offer" "qm_status m = Accepted"
      "accepted_user (qm_userId m) (fq_members q')"
    using queue_accept_user [OF assms] by auto
  have "\<exists>old. queue_join (queue_run q' cs) new = (old, queue_run q' cs) \<and>
      qm_userId old = qm_userId m \<and> active_member old" if "qm_userId new = qm_userId m" for cs new
    using accepted_user_joins [of new "queue_run q' cs"] accepted_user_run [OF m(4), of cs] that by metis
  then show ?thesis using m by blast
qed

subsection \<open>Concrete runs\<close>

text \<open>Two users wait; the one who joined first is offered two cars and takes one.\<close>

definition sample_member :: "ident \<Rightarrow> ident \<Rightarrow> date \<Rightarrow> queue_member" where
  "sample_member i u t = \<lparr>qm_id = i, qm_userId = u, qm_joinedAt = t, qm_expiresAt = t + 600000, qm_status = Waiting\<rparr>"

definition sample_queue :: fair_queue where
  "sample_queue = snd (queue_offer_next (queue_run new_queue
     [Join (sample_member ''e1'' ''alice'' 200), Join (sample_member ''e2'' ''bob'' 100)])
     ''o1'' [''car-1'', ''car-2''] 1000 None)"

definition sample_offer :: queue_offer where
  "sample_offer = \<lparr>qo_id = ''o1'', qo_queueEntryId = ''e2'', qo_userId = ''bob'',
     qo_carIds = [''car-1'', ''car-2''], qo_offeredAt = 1000, qo_expiresAt = 31000, qo_acceptedCarId = None\<rparr>"

lemma sample_joined:
  "queue_run new_queue [Join (sample_member ''e1'' ''alice'' 200), Join (sample_member ''e2'' ''bob'' 100)] =
   \<lparr>fq_members = [sample_member ''e1'' ''alice'' 200, sample_member ''e2'' ''bob'' 100], fq_offers = []\<rparr>"
  by (simp add: queue_run_def queue_join_def new_queue_def active_member_def sample_member_def)

lemma sample_positions:
  "snapshot_positions [sample_member ''e1'' ''alice'' 200, sample_member ''e2'' ''bob'' 100] = [1, 0]"
  by (simp add: snapshot_positions_def live_member_def sample_member_def upt_rec)

lemma sample_expire [simp]: "t < u + 600000 \<Longrightarrow> expire_member t (sample_member i v u) = sample_member i v u"
  by (simp add: expire_member_def sample_member_def)

lemma sample_queue_value:
  "sample_queue = \<lparr>fq_members = [sample_member ''e1'' ''alice'' 200,
      (sample_member ''e2'' ''bob'' 100)\<lparr>qm_status := Offered\<rparr>], fq_offers = [(''o1'', sample_offer)]\<rparr>"
  unfolding sample_queue_def sample_joined
  by (simp add: queue_offer_next_def queue_expire_def sample_positions Let_def map_set_def sample_offer_def)
    (simp add: sample_member_def)

lemma sample_accept_value:
  "queue_accept sample_queue ''o1'' ''car-2'' 2000 =
     (Inr (sample_offer\<lparr>qo_acceptedCarId := Some ''car-2''\<rparr>),
      \<lparr>fq_members = [sample_member ''e1'' ''alice'' 200,
         (sample_member ''e2'' ''bob'' 100)\<lparr>qm_status := Accepted\<rparr>],
       fq_offers = [(''o1'', sample_offer\<lparr>qo_acceptedCarId := Some ''car-2''\<rparr>)]\<rparr>)"
  unfolding sample_queue_value
  by (simp add: queue_accept_def Let_def map_get_def map_set_def sample_member_def sample_offer_def)

theorem queue_offer_is_fair_witness:
  "\<exists>offer q'. queue_offer_next sample_queue ''o2'' [''car-3''] 3000 None = (Inr offer, q') \<and>
     map_get (fq_offers q') ''o2'' = Some offer"
proof (cases "queue_offer_next sample_queue ''o2'' [''car-3''] 3000 None")
  case (Pair r q')
  then show ?thesis
    using queue_offer_is_fair [where q = sample_queue and oid = "''o2''" and cars = "[''car-3'']" and
        t = 3000 and ttl = None]
    by (cases r) (auto simp: sample_queue_value, auto simp: sample_member_def)
qed

theorem queue_offer_accepted_once_witness:
  "\<exists>e. queue_accept (queue_run (snd (queue_accept sample_queue ''o1'' ''car-2'' 2000))
        [Leave ''bob'', MakeOffer ''o2'' [''car-3''] 3000 None, Snapshot 3500]) ''o1'' ''car-1'' 4000 =
     (Inl e, queue_run (snd (queue_accept sample_queue ''o1'' ''car-2'' 2000))
        [Leave ''bob'', MakeOffer ''o2'' [''car-3''] 3000 None, Snapshot 3500])"
  by (rule queue_offer_accepted_once [of sample_queue "''o1''" "''car-2''" 2000
      "sample_offer\<lparr>qo_acceptedCarId := Some ''car-2''\<rparr>"])
    (simp_all add: sample_accept_value)

theorem accepted_user_never_rejoins_witness:
  "\<exists>m \<in> set (fq_members (snd (queue_accept sample_queue ''o1'' ''car-2'' 2000))).
     qm_id m = ''e2'' \<and> qm_status m = Accepted"
  using accepted_user_never_rejoins [of sample_queue "''o1''" "''car-2''" 2000
      "sample_offer\<lparr>qo_acceptedCarId := Some ''car-2''\<rparr>"
      "snd (queue_accept sample_queue ''o1'' ''car-2'' 2000)"]
  by (auto simp: sample_accept_value sample_offer_def)

end
