(* ===== verification/Ledger.thy ===== *)
theory Ledger
  imports Logs JsNumber "HOL-Library.Product_Lexorder"
begin

section \<open>The time ledger\<close>

text \<open>
  \<open>packages/domain/src/ledger.ts\<close>: the class \<open>TimeLedger\<close> with its log of entries, its lots of
  seconds and the index of entries by idempotency key. The seconds asked for are JavaScript
  numbers, those of a logged entry integers (only safe integers are logged). Sums are exact.
  \<open>new Date()\<close> is the argument \<open>now\<close>; the n-th call of \<open>idFactory\<close> in a debit is \<open>ids n\<close>.
\<close>

datatype ledger_kind = Purchase | Subscription_credit | Promotion | Ride_debit | Compensation
  | Admin_adjustment | Expiry

datatype meta_value = MString string | MNumber jsnum | MBoolean bool

type_synonym metadata = "(string, meta_value) js_map"

record ledger_entry =
  le_id :: ident
  le_walletId :: ident
  le_lotId :: "ident option"
  le_kind :: ledger_kind
  le_seconds :: int
  le_idempotencyKey :: string
  le_reason :: string
  le_occurredAt :: date
  le_metadata :: metadata

record wallet_lot =
  wl_id :: ident
  wl_walletId :: ident
  wl_grantedSeconds :: jsnum
  wl_expiresAt :: "date option"
  wl_createdAt :: date

record ledger_input =
  la_id :: ident
  la_walletId :: ident
  la_lotId :: "ident option"
  la_kind :: ledger_kind
  la_seconds :: jsnum
  la_idempotencyKey :: string
  la_reason :: string
  la_occurredAt :: "date option"
  la_metadata :: "metadata option"

record debit_input =
  di_ids :: "nat \<Rightarrow> ident"
  di_walletId :: ident
  di_seconds :: jsnum
  di_idempotencyKey :: string
  di_reason :: string
  di_at :: "date option"

record ledger =
  lg_entries :: "ledger_entry list"
  lg_lots :: "wallet_lot list"
  lg_byKey :: "(string, ledger_entry) js_map"

type_synonym 'a ledger_result = "(string, 'a, ledger) outcome"

definition new_ledger :: ledger where
  "new_ledger = \<lparr>lg_entries = [], lg_lots = [], lg_byKey = []\<rparr>"

definition addLot :: "ledger \<Rightarrow> wallet_lot \<Rightarrow> wallet_lot ledger_result" where
  "addLot l lot =
     (if js_le (wl_grantedSeconds lot) (js_int 0) then (Inl ''Wallet lot must grant positive seconds'', l)
      else if list_ex (\<lambda>existing. wl_id existing = wl_id lot) (lg_lots l)
      then (Inl (''Wallet lot already exists: '' @ wl_id lot), l)
      else (Inr lot, l\<lparr>lg_lots := lg_lots l @ [lot]\<rparr>))"

definition entry_of :: "date \<Rightarrow> ledger_input \<Rightarrow> ledger_entry" where
  "entry_of now i =
     \<lparr>le_id = la_id i, le_walletId = la_walletId i, le_lotId = la_lotId i, le_kind = la_kind i,
      le_seconds = int_of_js (la_seconds i), le_idempotencyKey = la_idempotencyKey i,
      le_reason = la_reason i,
      le_occurredAt = (case la_occurredAt i of Some t \<Rightarrow> t | None \<Rightarrow> now),
      le_metadata = (case la_metadata i of Some m \<Rightarrow> m | None \<Rightarrow> [])\<rparr>"

definition ledger_append :: "date \<Rightarrow> ledger \<Rightarrow> ledger_input \<Rightarrow> ledger_entry ledger_result" where
  "ledger_append now l i =
     (case map_get (lg_byKey l) (la_idempotencyKey i) of
        Some duplicate \<Rightarrow> (Inr duplicate, l)
      | None \<Rightarrow>
          if \<not> js_is_safe_integer (la_seconds i) \<or> js_eq (la_seconds i) (js_int 0)
          then (Inl ''Ledger seconds must be a non-zero safe integer'', l)
          else if la_kind i = Admin_adjustment \<and> length (js_trim (la_reason i)) < 8
          then (Inl ''Admin adjustments require a meaningful reason'', l)
          else let e = entry_of now i in
            (Inr e, l\<lparr>lg_entries := lg_entries l @ [e], lg_byKey := map_set (lg_byKey l) (le_idempotencyKey e) e\<rparr>))"

definition lot_expired :: "date \<Rightarrow> wallet_lot \<Rightarrow> bool" where
  "lot_expired t lot = (case wl_expiresAt lot of None \<Rightarrow> False | Some e \<Rightarrow> e \<le> t)"

definition balance :: "ledger \<Rightarrow> ident \<Rightarrow> date \<Rightarrow> int" where
  "balance l w t =
     (let expiredLots = map wl_id (filter (\<lambda>lot. wl_walletId lot = w \<and> lot_expired t lot) (lg_lots l))
      in sum_list (map le_seconds (filter (\<lambda>e. le_walletId e = w \<and>
           (case le_lotId e of None \<Rightarrow> True | Some lot \<Rightarrow> lot \<notin> set expiredLots)) (lg_entries l))))"

definition lot_available :: "ledger \<Rightarrow> ident \<Rightarrow> ident \<Rightarrow> int" where
  "lot_available l w lot =
     sum_list (map le_seconds (filter (\<lambda>e. le_walletId e = w \<and> le_lotId e = Some lot) (lg_entries l)))"

text \<open>The order of the comparator: by expiry, lots without one last, then by creation.\<close>

definition lot_order :: "wallet_lot \<Rightarrow> int \<times> int \<times> int" where
  "lot_order lot = (case wl_expiresAt lot of Some e \<Rightarrow> (0, e, wl_createdAt lot) | None \<Rightarrow> (1, 0, wl_createdAt lot))"

definition debit_lots_of :: "ledger \<Rightarrow> ident \<Rightarrow> date \<Rightarrow> wallet_lot list" where
  "debit_lots_of l w t =
     sort_key lot_order (filter (\<lambda>lot. wl_walletId lot = w \<and> \<not> lot_expired t lot) (lg_lots l))"

fun debit_loop ::
  "debit_input \<Rightarrow> date \<Rightarrow> wallet_lot list \<Rightarrow> ledger \<Rightarrow> int \<Rightarrow> ledger_entry list
   \<Rightarrow> (int \<times> ledger_entry list) ledger_result" where
  "debit_loop i t [] l remaining result = (Inr (remaining, result), l)"
| "debit_loop i t (lot # lots) l remaining result =
     (if remaining = 0 then (Inr (remaining, result), l)
      else let available = lot_available l (di_walletId i) (wl_id lot) in
        if available \<le> 0 then debit_loop i t lots l remaining result
        else let taken = min available remaining in
          (case ledger_append t l
             \<lparr>la_id = di_ids i (length result), la_walletId = di_walletId i, la_lotId = Some (wl_id lot),
              la_kind = Ride_debit, la_seconds = js_int (- taken),
              la_idempotencyKey = di_idempotencyKey i @ '':'' @ string_of_nat (length result),
              la_reason = di_reason i, la_occurredAt = Some t, la_metadata = None\<rparr> of
             (Inl e, l') \<Rightarrow> (Inl e, l')
           | (Inr e, l') \<Rightarrow> debit_loop i t lots l' (remaining - taken) (result @ [e])))"

definition debit_existing :: "ledger \<Rightarrow> string \<Rightarrow> ledger_entry list" where
  "debit_existing l key = filter (\<lambda>e. starts_with (le_idempotencyKey e) (key @ '':'')) (lg_entries l)"

definition debitFifo :: "date \<Rightarrow> ledger \<Rightarrow> debit_input \<Rightarrow> ledger_entry list ledger_result" where
  "debitFifo now l i =
     (let existing = debit_existing l (di_idempotencyKey i) in
      if length existing > 0 then (Inr existing, l)
      else let t = (case di_at i of Some t \<Rightarrow> t | None \<Rightarrow> now) in
        if js_le (di_seconds i) (js_int 0) \<or> \<not> js_is_safe_integer (di_seconds i)
        then (Inl ''Debit seconds must be a positive safe integer'', l)
        else if js_lt (js_int (balance l (di_walletId i) t)) (di_seconds i)
        then (Inl ''Insufficient time balance'', l)
        else case debit_loop i t (debit_lots_of l (di_walletId i) t) l (int_of_js (di_seconds i)) [] of
            (Inl e, l') \<Rightarrow> (Inl e, l')
          | (Inr (remaining, result), l') \<Rightarrow>
              if remaining \<noteq> 0 then (Inl ''Ledger lot invariant violated'', l') else (Inr result, l'))"

datatype ledger_call =
    AddLot wallet_lot
  | Append date ledger_input
  | Debit date debit_input

fun ledger_step :: "ledger \<Rightarrow> ledger_call \<Rightarrow> ledger" where
  "ledger_step l (AddLot lot) = snd (addLot l lot)"
| "ledger_step l (Append now i) = snd (ledger_append now l i)"
| "ledger_step l (Debit now i) = snd (debitFifo now l i)"

definition ledger_run :: "ledger \<Rightarrow> ledger_call list \<Rightarrow> ledger" where
  "ledger_run l cs = foldl ledger_step l cs"

subsection \<open>The log of entries\<close>

definition ledger_ok :: "ledger \<Rightarrow> bool" where
  "ledger_ok l = (distinct (map le_idempotencyKey (lg_entries l))
     \<and> (\<forall>k. map_get (lg_byKey l) k = List.find (\<lambda>e. le_idempotencyKey e = k) (lg_entries l))
     \<and> distinct (map wl_id (lg_lots l))
     \<and> (\<forall>e \<in> set (lg_entries l). le_seconds e \<noteq> 0))"

lemma ledger_ok_new: "ledger_ok new_ledger"
  by (simp add: ledger_ok_def new_ledger_def)

lemma entry_key [simp]: "le_idempotencyKey (entry_of now i) = la_idempotencyKey i"
  by (simp add: entry_of_def)

lemma ledger_known:
  assumes "ledger_ok l" "e \<in> set (lg_entries l)" "le_idempotencyKey e = la_idempotencyKey i"
  shows "ledger_append now l i = (Inr e, l)"
proof -
  have "List.find (\<lambda>x. le_idempotencyKey x = la_idempotencyKey i) (lg_entries l) = Some e"
    using assms by (intro find_unique) (auto simp: ledger_ok_def distinct_map inj_on_def)
  then show ?thesis using assms(1) by (simp add: ledger_append_def ledger_ok_def)
qed

lemma ledger_fresh_get:
  assumes "ledger_ok l" "k \<notin> le_idempotencyKey ` set (lg_entries l)"
  shows "map_get (lg_byKey l) k = None"
  using assms(1) find_key_None [OF assms(2)] by (simp add: ledger_ok_def)

lemma ledger_append_fresh:
  assumes "ledger_ok l" "la_idempotencyKey i \<notin> le_idempotencyKey ` set (lg_entries l)"
    "js_is_safe_integer (la_seconds i)" "la_seconds i \<noteq> js_int 0" "la_kind i \<noteq> Admin_adjustment"
  shows "ledger_append now l i = (Inr (entry_of now i),
     l\<lparr>lg_entries := lg_entries l @ [entry_of now i],
       lg_byKey := map_set (lg_byKey l) (la_idempotencyKey i) (entry_of now i)\<rparr>)"
  using assms by (simp add: ledger_append_def ledger_fresh_get js_eq_def Let_def)

lemma safe_nonzero: "js_is_safe_integer x \<Longrightarrow> \<not> js_eq x (js_int 0) \<Longrightarrow> int_of_js x \<noteq> 0"
  by (cases x) (auto simp: js_eq_def js_int_def)

lemma ledger_ok_snoc:
  assumes "ledger_ok l" "le_idempotencyKey e \<notin> le_idempotencyKey ` set (lg_entries l)" "le_seconds e \<noteq> 0"
  shows "ledger_ok (l\<lparr>lg_entries := lg_entries l @ [e], lg_byKey := map_set (lg_byKey l) (le_idempotencyKey e) e\<rparr>)"
  using assms find_key_None [OF assms(2)]
  by (auto simp: ledger_ok_def find_append split: option.splits)

lemma ledger_ok_append:
  assumes "ledger_ok l"
  shows "ledger_ok (snd (ledger_append now l i))"
proof (cases "la_idempotencyKey i \<in> le_idempotencyKey ` set (lg_entries l)")
  case True
  then obtain e where "e \<in> set (lg_entries l)" "le_idempotencyKey e = la_idempotencyKey i" by force
  then show ?thesis using assms by (simp add: ledger_known)
next
  case False
  then show ?thesis
    using assms ledger_ok_snoc [OF assms, of "entry_of now i"]
    by (auto simp: ledger_append_def ledger_fresh_get Let_def entry_of_def dest: safe_nonzero)
qed

interpretation la: idempotent_log "ledger_append now" lg_entries le_idempotencyKey la_idempotencyKey ledger_ok
  for now
proof unfold_locales
  fix l :: ledger and i r l'
  assume "ledger_ok l" "la_idempotencyKey i \<notin> le_idempotencyKey ` set (lg_entries l)"
    "ledger_append now l i = (r, l')"
  then show "(\<exists>e. r = Inl e \<and> l' = l) \<or>
      (\<exists>x. r = Inr x \<and> le_idempotencyKey x = la_idempotencyKey i \<and> lg_entries l' = lg_entries l @ [x])"
    by (auto simp: ledger_append_def ledger_fresh_get Let_def split: if_splits)
qed (simp_all add: ledger_known ledger_ok_append, simp add: ledger_ok_def)

subsection \<open>The plan a debit follows\<close>

text \<open>
  The reference: what to take from which lot, read off the balances before the debit. The
  loop of the code reads the log again at every lot.
\<close>

fun fifo_plan :: "(ident \<times> int) list \<Rightarrow> int \<Rightarrow> (ident \<times> int) list" where
  "fifo_plan [] r = []"
| "fifo_plan ((lot, a) # xs) r =
     (if r = 0 then [] else if a \<le> 0 then fifo_plan xs r
      else (lot, min a r) # fifo_plan xs (r - min a r))"

definition lot_funds :: "(ident \<times> int) list \<Rightarrow> int" where
  "lot_funds xs = sum_list (map (\<lambda>(lot, a). max 0 a) xs)"

lemma lot_funds_simps [simp]:
  "lot_funds [] = 0" "lot_funds ((lot, a) # xs) = max 0 a + lot_funds xs"
  by (simp_all add: lot_funds_def)

lemma lot_funds_nonneg [simp]: "0 \<le> lot_funds xs"
  by (induction xs) auto

lemma fifo_plan_zero [simp]: "fifo_plan xs 0 = []"
  by (cases xs) auto

lemma fifo_plan_sum: "0 \<le> r \<Longrightarrow> sum_list (map snd (fifo_plan xs r)) = min r (lot_funds xs)"
proof (induction xs arbitrary: r)
  case (Cons x xs)
  obtain lot a where x: "x = (lot, a)" by (cases x)
  show ?case
    using Cons.IH [of r] Cons.IH [of "r - min a r"] Cons.prems lot_funds_nonneg [of xs]
    by (auto simp: x min_def max_def simp del: lot_funds_nonneg)
qed simp

lemma fifo_plan_bounds:
  "0 \<le> r \<Longrightarrow> (lot, s) \<in> set (fifo_plan xs r) \<Longrightarrow> 0 < s \<and> s \<le> r \<and> (\<exists>a. (lot, a) \<in> set xs \<and> s \<le> a)"
proof (induction xs arbitrary: r)
  case (Cons x xs)
  obtain lot' a where x: "x = (lot', a)" by (cases x)
  show ?case
    using Cons.IH [of r] Cons.IH [of "r - min a r"] Cons.prems
    by (fastforce simp: x min_def split: if_splits)
qed simp

lemma fifo_plan_subset: "fst ` set (fifo_plan xs r) \<subseteq> fst ` set xs"
proof (induction xs arbitrary: r)
  case (Cons x xs)
  then show ?case by (cases x) (auto split: if_splits)
qed simp

lemma fifo_plan_distinct: "distinct (map fst xs) \<Longrightarrow> distinct (map fst (fifo_plan xs r))"
proof (induction xs arbitrary: r)
  case (Cons x xs)
  then show ?case using fifo_plan_subset [of xs] by (cases x) (auto simp: subset_iff image_iff)
qed simp

lemma fifo_plan_append:
  "0 \<le> r \<Longrightarrow> fifo_plan (xs @ ys) r = fifo_plan xs r @ fifo_plan ys (r - min r (lot_funds xs))"
proof (induction xs arbitrary: r)
  case (Cons x xs)
  obtain lot a where x: "x = (lot, a)" by (cases x)
  show ?case
    using Cons.prems Cons.IH [of r] Cons.IH [of "r - min a r"] lot_funds_nonneg [of xs]
    by (auto simp: x min_def max_def diff_diff_eq simp del: lot_funds_nonneg)
qed simp

text \<open>A lot is touched only when everything before it is used up.\<close>

lemma fifo_plan_exhausts:
  assumes "0 \<le> r" "(lot', s) \<in> set (fifo_plan (ys @ (lot, a) # zs) r)" "lot' \<in> fst ` set zs"
    "distinct (map fst (ys @ (lot, a) # zs))" "0 < a"
  shows "(lot, a) \<in> set (fifo_plan (ys @ (lot, a) # zs) r)"
proof -
  define r' where "r' = r - min r (lot_funds ys)"
  have "lot' \<notin> fst ` set ys" "lot' \<noteq> lot" using assms(3,4) by auto
  then have "(lot', s) \<notin> set (fifo_plan ys r)" using fifo_plan_subset [of ys r] by force
  then have "(lot', s) \<in> set (fifo_plan zs (r' - min a r'))" "r' \<noteq> 0"
    using assms(2,5) \<open>lot' \<noteq> lot\<close>
    by (auto simp: fifo_plan_append [OF assms(1)] r'_def [symmetric] split: if_splits)
  then have "r' - min a r' \<noteq> 0" by auto
  then have "min a r' = a" by (auto simp: min_def split: if_splits)
  then show ?thesis
    using assms(5) \<open>r' \<noteq> 0\<close> by (auto simp: fifo_plan_append [OF assms(1)] r'_def [symmetric])
qed

subsection \<open>The loop of a debit\<close>

lemma lot_available_snoc [simp]:
  "lot_available (l\<lparr>lg_entries := lg_entries l @ es, lg_byKey := k\<rparr>) w lot =
     lot_available l w lot + sum_list (map le_seconds (filter (\<lambda>e. le_walletId e = w \<and> le_lotId e = Some lot) es))"
  by (simp add: lot_available_def)

text \<open>The entries a debit logs for a plan, the first one numbered \<open>n\<close>.\<close>

fun plan_entries :: "debit_input \<Rightarrow> date \<Rightarrow> nat \<Rightarrow> (ident \<times> int) list \<Rightarrow> ledger_entry list" where
  "plan_entries i t n [] = []"
| "plan_entries i t n ((lot, s) # xs) =
     \<lparr>le_id = di_ids i n, le_walletId = di_walletId i, le_lotId = Some lot, le_kind = Ride_debit,
      le_seconds = - s, le_idempotencyKey = di_idempotencyKey i @ '':'' @ string_of_nat n,
      le_reason = di_reason i, le_occurredAt = t, le_metadata = []\<rparr> # plan_entries i t (Suc n) xs"

definition debit_keys_fresh :: "ledger \<Rightarrow> debit_input \<Rightarrow> nat \<Rightarrow> bool" where
  "debit_keys_fresh l i n = (\<forall>m \<ge> n. di_idempotencyKey i @ '':'' @ string_of_nat m
     \<notin> le_idempotencyKey ` set (lg_entries l))"

lemma debit_loop_plan:
  assumes "ledger_ok l" "debit_keys_fresh l i (length res)" "distinct (map wl_id lots)"
    "0 \<le> r" "r \<le> 9007199254740991"
  defines "plan \<equiv> fifo_plan (map (\<lambda>lot. (wl_id lot, lot_available l (di_walletId i) (wl_id lot))) lots) r"
  shows "\<exists>l'. debit_loop i t lots l r res =
       (Inr (r - sum_list (map snd plan), res @ plan_entries i t (length res) plan), l')
     \<and> lg_entries l' = lg_entries l @ plan_entries i t (length res) plan
     \<and> lg_lots l' = lg_lots l \<and> ledger_ok l'"
  using assms(1-5) unfolding plan_def
proof (induction lots arbitrary: l r res)
  case (Cons lot lots)
  define a where "a = lot_available l (di_walletId i) (wl_id lot)"
  consider "r = 0" | "r \<noteq> 0" "a \<le> 0" | "r \<noteq> 0" "0 < a" by linarith
  then show ?case
  proof cases
    case 1
    then show ?thesis using Cons.prems by auto
  next
    case 2
    then show ?thesis using Cons by (simp add: a_def)
  next
    case 3
    define e where "e = hd (plan_entries i t (length res) [(wl_id lot, min a r)])"
    define l1 where "l1 = l\<lparr>lg_entries := lg_entries l @ [e], lg_byKey := map_set (lg_byKey l) (le_idempotencyKey e) e\<rparr>"
    let ?inp = "\<lparr>la_id = di_ids i (length res), la_walletId = di_walletId i, la_lotId = Some (wl_id lot),
      la_kind = Ride_debit, la_seconds = js_int (- min a r),
      la_idempotencyKey = di_idempotencyKey i @ '':'' @ string_of_nat (length res),
      la_reason = di_reason i, la_occurredAt = Some t, la_metadata = None\<rparr>"
    have app: "ledger_append t l ?inp = (Inr e, l1)"
      using Cons.prems 3 ledger_append_fresh [of l ?inp t]
      by (simp add: debit_keys_fresh_def js_safe_int_iff e_def l1_def entry_of_def)
    have ok: "ledger_ok l1" using ledger_ok_append [OF Cons.prems(1), of t ?inp] app by simp
    have fresh: "debit_keys_fresh l1 i (length (res @ [e]))"
      using Cons.prems(2) by (auto simp: debit_keys_fresh_def l1_def e_def)
    have same: "map (\<lambda>x. (wl_id x, lot_available l1 (di_walletId i) (wl_id x))) lots =
        map (\<lambda>x. (wl_id x, lot_available l (di_walletId i) (wl_id x))) lots"
      using Cons.prems(3) by (auto simp: l1_def e_def)
    have r: "0 \<le> r - min a r" "r - min a r \<le> 9007199254740991" "distinct (map wl_id lots)"
      using Cons.prems(3,4,5) 3 by auto
    show ?thesis
      using Cons.IH [OF ok fresh r(3,1,2)] 3 app
      by (auto simp: a_def [symmetric] same, auto simp: e_def l1_def)
  qed
qed simp

subsection \<open>A debit as a whole\<close>

text \<open>The unexpired lots of a wallet with what is left in them, in the order they are used.\<close>

definition lot_state :: "ledger \<Rightarrow> ident \<Rightarrow> date \<Rightarrow> (ident \<times> int) list" where
  "lot_state l w t = map (\<lambda>lot. (wl_id lot, lot_available l w (wl_id lot))) (debit_lots_of l w t)"

definition debit_plan :: "ledger \<Rightarrow> debit_input \<Rightarrow> date \<Rightarrow> int \<Rightarrow> ledger_entry list" where
  "debit_plan l i t n = plan_entries i t 0 (fifo_plan (lot_state l (di_walletId i) t) n)"

lemma debit_lots_mem:
  "lot \<in> set (debit_lots_of l w t) \<longleftrightarrow> lot \<in> set (lg_lots l) \<and> wl_walletId lot = w \<and> \<not> lot_expired t lot"
  by (auto simp: debit_lots_of_def)

lemma distinct_map_sort_filter:
  "distinct (map f xs) \<Longrightarrow> distinct (map f (sort_key k (filter P xs)))"
  by (auto simp: distinct_map distinct_filter inj_on_def)

lemma lot_state_distinct: "ledger_ok l \<Longrightarrow> distinct (map fst (lot_state l w t))"
  by (simp add: lot_state_def debit_lots_of_def ledger_ok_def comp_def distinct_map_sort_filter)

lemma plan_entries_set:
  "e \<in> set (plan_entries i t n xs) \<Longrightarrow>
   le_walletId e = di_walletId i \<and> le_kind e = Ride_debit \<and> le_occurredAt e = t \<and>
   starts_with (le_idempotencyKey e) (di_idempotencyKey i @ '':'') \<and>
   (\<exists>lot s. (lot, s) \<in> set xs \<and> le_lotId e = Some lot \<and> le_seconds e = - s)"
proof (induction xs arbitrary: n)
  case (Cons x xs)
  then show ?case
    by (cases x) (fastforce simp: starts_with_iff)
qed simp

lemma plan_entries_complete:
  "(lot, s) \<in> set xs \<Longrightarrow> \<exists>e \<in> set (plan_entries i t n xs). le_lotId e = Some lot \<and> le_seconds e = - s"
proof (induction xs arbitrary: n)
  case (Cons x xs)
  then show ?case by (cases x) auto
qed simp

lemma plan_entries_sum: "sum_list (map le_seconds (plan_entries i t n xs)) = - sum_list (map snd xs)"
  by (induction i t n xs rule: plan_entries.induct) auto

lemma plan_entries_nil [simp]: "plan_entries i t n xs = [] \<longleftrightarrow> xs = []"
  by (cases xs) auto

lemma plan_entries_lot:
  "distinct (map fst xs) \<Longrightarrow> (lot, s) \<in> set xs \<Longrightarrow> di_walletId i = w \<Longrightarrow>
   sum_list (map le_seconds (filter (\<lambda>e. le_walletId e = w \<and> le_lotId e = Some lot) (plan_entries i t n xs))) = - s"
proof (induction xs arbitrary: n)
  case (Cons x xs)
  have none: "sum_list (map le_seconds (filter (\<lambda>e. le_walletId e = w \<and> le_lotId e = Some k)
      (plan_entries i t n xs))) = 0" if "k \<notin> fst ` set xs" for n k
  proof -
    have "filter (\<lambda>e. le_walletId e = w \<and> le_lotId e = Some k) (plan_entries i t n xs) = []"
      using that plan_entries_set by (force simp: filter_empty_conv)
    then show ?thesis by simp
  qed
  show ?case using Cons none by (cases x) force
qed simp

lemma debit_keys_fresh_new: "debit_existing l (di_idempotencyKey i) = [] \<Longrightarrow> debit_keys_fresh l i 0"
  unfolding debit_keys_fresh_def debit_existing_def filter_empty_conv starts_with_iff
  by (metis append_assoc imageE)

lemma debit_loop_new:
  assumes "ledger_ok l" "debit_existing l (di_idempotencyKey i) = []" "0 \<le> n" "n \<le> 9007199254740991"
  shows "\<exists>l'. debit_loop i t (debit_lots_of l (di_walletId i) t) l n [] =
       (Inr (n - min n (lot_funds (lot_state l (di_walletId i) t)), debit_plan l i t n), l')
     \<and> lg_entries l' = lg_entries l @ debit_plan l i t n \<and> lg_lots l' = lg_lots l \<and> ledger_ok l'"
proof -
  have "distinct (map wl_id (debit_lots_of l (di_walletId i) t))"
    using assms(1) by (simp add: debit_lots_of_def ledger_ok_def distinct_map_sort_filter)
  from debit_loop_plan [OF assms(1) _ this assms(3,4), of i "[]" t] debit_keys_fresh_new [OF assms(2)]
  show ?thesis
    by (simp add: debit_plan_def lot_state_def fifo_plan_sum [OF assms(3)])
qed

lemma positive_safe:
  assumes "\<not> js_le x (js_int 0)" "js_is_safe_integer x"
  obtains n where "x = js_int n" "0 < n" "n \<le> 9007199254740991"
proof -
  obtain n where x: "x = js_int n" using js_integer_int js_safe_is_integer assms(2) by blast
  show ?thesis using that [OF x] assms x js_safe_int_iff [of n] by simp
qed

lemma debit_cases:
  assumes "ledger_ok l"
  obtains (again) "debit_existing l (di_idempotencyKey i) \<noteq> []"
      "debitFifo now l i = (Inr (debit_existing l (di_idempotencyKey i)), l)"
  | (refused) e where "debit_existing l (di_idempotencyKey i) = []" "debitFifo now l i = (Inl e, l)"
      "\<And>n. di_seconds i = js_int n \<Longrightarrow> 0 < n \<Longrightarrow> n \<le> 9007199254740991 \<Longrightarrow>
         balance l (di_walletId i) (case di_at i of Some t \<Rightarrow> t | None \<Rightarrow> now) < n"
  | (ran) n t l' where "debit_existing l (di_idempotencyKey i) = []" "di_seconds i = js_int n" "0 < n"
      "t = (case di_at i of Some t \<Rightarrow> t | None \<Rightarrow> now)" "n \<le> balance l (di_walletId i) t"
      "lg_entries l' = lg_entries l @ debit_plan l i t n" "lg_lots l' = lg_lots l" "ledger_ok l'"
      "debitFifo now l i = ((if n \<le> lot_funds (lot_state l (di_walletId i) t) then Inr (debit_plan l i t n)
         else Inl ''Ledger lot invariant violated''), l')"
proof -
  define t where "t = (case di_at i of Some t \<Rightarrow> t | None \<Rightarrow> now)"
  consider "debit_existing l (di_idempotencyKey i) \<noteq> []"
    | "debit_existing l (di_idempotencyKey i) = []"
      "js_le (di_seconds i) (js_int 0) \<or> \<not> js_is_safe_integer (di_seconds i)"
    | n where "debit_existing l (di_idempotencyKey i) = []" "di_seconds i = js_int n" "0 < n"
      "n \<le> 9007199254740991"
    by (metis positive_safe)
  then show ?thesis
  proof cases
    case 3
    show ?thesis
    proof (cases "balance l (di_walletId i) t < n")
      case True
      then show ?thesis using 3 by (intro refused) (auto simp: debitFifo_def Let_def t_def js_safe_int_iff)
    next
      case False
      from debit_loop_new [OF assms 3(1) _ 3(4), of t] 3 obtain l' where
        l': "debit_loop i t (debit_lots_of l (di_walletId i) t) l n [] =
            (Inr (n - min n (lot_funds (lot_state l (di_walletId i) t)), debit_plan l i t n), l')"
          "lg_entries l' = lg_entries l @ debit_plan l i t n" "lg_lots l' = lg_lots l" "ledger_ok l'"
        by auto
      have "debitFifo now l i = ((if n \<le> lot_funds (lot_state l (di_walletId i) t)
          then Inr (debit_plan l i t n) else Inl ''Ledger lot invariant violated''), l')"
        using 3 False l'(1) by (simp add: debitFifo_def Let_def t_def [symmetric] js_safe_int_iff)
      then show ?thesis using ran [OF 3(1,2,3) t_def _ l'(2-4)] False by simp
    qed
  next
    case 1
    then show ?thesis by (intro again) (auto simp: debitFifo_def Let_def)
  next
    case 2
    then show ?thesis by (intro refused) (auto simp: debitFifo_def Let_def js_safe_int_iff)
  qed
qed

lemma debit_balance:
  assumes "ledger_ok l" "lg_entries l' = lg_entries l @ debit_plan l i t n" "lg_lots l' = lg_lots l" "0 \<le> n"
  shows "balance l' (di_walletId i) t =
     balance l (di_walletId i) t - min n (lot_funds (lot_state l (di_walletId i) t))"
proof -
  let ?w = "di_walletId i"
  let ?ex = "map wl_id (filter (\<lambda>lot. wl_walletId lot = ?w \<and> lot_expired t lot) (lg_lots l))"
  have "k \<notin> set ?ex" if "(k, s) \<in> set (fifo_plan (lot_state l ?w t) n)" for k s
  proof -
    have "k \<in> fst ` set (lot_state l ?w t)" using that fifo_plan_subset [of "lot_state l ?w t" n] by force
    then obtain lot where lot: "lot \<in> set (lg_lots l)" "\<not> lot_expired t lot" "k = wl_id lot"
      by (auto simp: lot_state_def debit_lots_mem)
    then show ?thesis
      using assms(1) by (auto simp: ledger_ok_def distinct_map inj_on_def)
  qed
  then have "filter (\<lambda>e. le_walletId e = ?w \<and> (case le_lotId e of None \<Rightarrow> True | Some lot \<Rightarrow> lot \<notin> set ?ex))
      (debit_plan l i t n) = debit_plan l i t n"
    unfolding debit_plan_def by (intro filter_True) (fastforce dest: plan_entries_set)
  moreover have "sum_list (map le_seconds (debit_plan l i t n)) = - min n (lot_funds (lot_state l ?w t))"
    unfolding debit_plan_def plan_entries_sum fifo_plan_sum [OF assms(4)] ..
  ultimately show ?thesis using assms(2,3) by (simp add: balance_def Let_def)
qed

subsection \<open>Any sequence of calls\<close>

lemma ledger_step_grows:
  assumes "ledger_ok l"
  shows "ledger_ok (ledger_step l c) \<and> prefix (lg_entries l) (lg_entries (ledger_step l c))"
proof (cases c)
  case (AddLot lot)
  then show ?thesis using assms by (auto simp: addLot_def ledger_ok_def list_ex_iff)
next
  case (Append now i)
  then show ?thesis using assms la.entries_append_prefix [OF assms] by (simp add: ledger_ok_append)
next
  case (Debit now i)
  from assms show ?thesis
    by (cases rule: debit_cases [where i = i and now = now]) (use Debit assms in auto)
qed

lemma ledger_run_grows:
  "ledger_ok l \<Longrightarrow> ledger_ok (ledger_run l cs) \<and> prefix (lg_entries l) (lg_entries (ledger_run l cs))"
proof (induction cs arbitrary: l)
  case (Cons c cs)
  have step: "ledger_run l (c # cs) = ledger_run (ledger_step l c) cs" by (simp add: ledger_run_def)
  show ?case
    using Cons.IH [of "ledger_step l c"] ledger_step_grows [OF Cons.prems, of c] prefix_order.trans
    unfolding step by blast
qed (simp add: ledger_run_def)

lemma ledger_ok_reachable: "ledger_ok (ledger_run new_ledger cs)"
  using ledger_run_grows [OF ledger_ok_new] by blast

lemma prefix_filter: "prefix xs ys \<Longrightarrow> prefix (filter P xs) (filter P ys)"
  by (auto simp: prefix_def)

lemma debit_existing_plan: "debit_existing l (di_idempotencyKey i) = [] \<Longrightarrow>
   lg_entries l' = lg_entries l @ debit_plan l i t n \<Longrightarrow>
   debit_existing l' (di_idempotencyKey i) = debit_plan l i t n"
  unfolding debit_existing_def debit_plan_def
  by (auto intro!: filter_True dest: plan_entries_set)

lemma debit_answered:
  "debit_existing l (di_idempotencyKey i) \<noteq> [] \<Longrightarrow>
   debitFifo now l i = (Inr (debit_existing l (di_idempotencyKey i)), l)"
  by (simp add: debitFifo_def Let_def)

lemma debit_existing_run:
  "ledger_ok l \<Longrightarrow> prefix (debit_existing l k) (debit_existing (ledger_run l cs) k)"
  unfolding debit_existing_def using ledger_run_grows by (intro prefix_filter) blast

lemma lot_available_plan:
  assumes "ledger_ok l" "lg_entries l' = lg_entries l @ debit_plan l i t n"
    "(lot, s) \<in> set (fifo_plan (lot_state l (di_walletId i) t) n)"
  shows "lot_available l' (di_walletId i) lot = lot_available l (di_walletId i) lot - s"
  using plan_entries_lot [OF fifo_plan_distinct [OF lot_state_distinct [OF assms(1)]] assms(3) refl] assms(2)
  by (simp add: lot_available_def debit_plan_def)

lemma debit_lots_split:
  assumes "A \<in> set (debit_lots_of l w t)" "B \<in> set (debit_lots_of l w t)" "lot_order A < lot_order B"
  obtains ys zs where "debit_lots_of l w t = ys @ A # zs" "B \<in> set zs"
proof -
  obtain ys zs where split: "debit_lots_of l w t = ys @ A # zs" using split_list [OF assms(1)] by blast
  have "sorted (map lot_order (debit_lots_of l w t))" by (simp add: debit_lots_of_def)
  then have "B \<notin> set ys" using split assms(3) by (auto simp: sorted_append not_le)
  then show ?thesis using that split assms(2,3) by auto
qed

lemma debit_plan_uses_up:
  assumes ok: "ledger_ok l" and n: "0 \<le> n"
    and A: "A \<in> set (debit_lots_of l w t)" and B: "B \<in> set (lg_lots l)" and less: "lot_order A < lot_order B"
    and avail: "0 < lot_available l w (wl_id A)" and w: "w = di_walletId i"
    and e: "e \<in> set (debit_plan l i t n)" "le_lotId e = Some (wl_id B)"
  shows "(wl_id A, lot_available l w (wl_id A)) \<in> set (fifo_plan (lot_state l w t) n)"
proof -
  obtain s where s: "(wl_id B, s) \<in> set (fifo_plan (lot_state l w t) n)"
    using plan_entries_set e w unfolding debit_plan_def by fastforce
  have "wl_id B \<in> fst ` set (lot_state l w t)" using s fifo_plan_subset [of "lot_state l w t" n] by force
  then obtain B' where B': "B' \<in> set (debit_lots_of l w t)" "wl_id B' = wl_id B"
    by (auto simp: lot_state_def)
  have "B' = B"
    using B' B ok by (auto simp: ledger_ok_def distinct_map inj_on_def debit_lots_mem)
  then obtain ys zs where split: "debit_lots_of l w t = ys @ A # zs" "B \<in> set zs"
    using debit_lots_split [OF A _ less] B' by blast
  let ?f = "\<lambda>lot. (wl_id lot, lot_available l w (wl_id lot))"
  have st: "lot_state l w t = map ?f ys @ (wl_id A, lot_available l w (wl_id A)) # map ?f zs"
    by (simp add: lot_state_def split(1))
  have "wl_id B \<in> fst ` set (map ?f zs)" using split(2) by force
  from fifo_plan_exhausts [OF n s [unfolded st] this lot_state_distinct [OF ok, of w t, unfolded st] avail]
  show ?thesis by (simp add: st)
qed

lemma debit_plan_nonempty:
  "0 < n \<Longrightarrow> 0 < lot_funds (lot_state l (di_walletId i) t) \<Longrightarrow> debit_plan l i t n \<noteq> []"
  using fifo_plan_sum [of n "lot_state l (di_walletId i) t"] by (auto simp: debit_plan_def)

subsection \<open>Properties\<close>

text \<open>
  appends are idempotent for ever. After any calls, an append that returned an
  entry is answered with that very entry whenever its key comes back, whatever appends, debits
  and lots came in between and whatever else the repeated call says, and nothing is logged.
\<close>

theorem ledger_append_answers_for_ever:
  assumes "ledger_append now (ledger_run new_ledger cs) i = (Inr e, l)"
    and "la_idempotencyKey j = la_idempotencyKey i"
  shows "ledger_append now' (ledger_run l ds) j = (Inr e, ledger_run l ds)"
proof -
  note ok = ledger_ok_reachable [of cs]
  have l: "ledger_ok l" using ledger_ok_append [OF ok, of now i] assms(1) by simp
  have e: "e \<in> set (lg_entries l) \<and> le_idempotencyKey e = la_idempotencyKey i"
    by (rule la.returned_logged [OF ok assms(1)])
  have "e \<in> set (lg_entries (ledger_run l ds))"
    using ledger_run_grows [OF l, of ds] e set_mono_prefix by blast
  then show ?thesis using ledger_run_grows [OF l, of ds] e assms(2) by (simp add: ledger_known)
qed

text \<open>
  Property C15: a debit under an unused key for a valid number of seconds succeeds exactly when
  the balance and the unexpired lots cover it. Then it logs the planned entries, which add up
  to the seconds asked for, lowers the balance by exactly that much and overdraws no lot it
  takes from; otherwise it throws.
\<close>

theorem ledger_debit_exact:
  assumes "l = ledger_run new_ledger cs" and "debit_existing l (di_idempotencyKey i) = []"
    and "di_seconds i = js_int n" and "0 < n" and "n \<le> 9007199254740991" and "di_at i = Some t"
  shows "if n \<le> balance l (di_walletId i) t \<and> n \<le> lot_funds (lot_state l (di_walletId i) t)
     then \<exists>l'. debitFifo now l i = (Inr (debit_plan l i t n), l')
       \<and> lg_entries l' = lg_entries l @ debit_plan l i t n \<and> lg_lots l' = lg_lots l
       \<and> sum_list (map le_seconds (debit_plan l i t n)) = - n
       \<and> balance l' (di_walletId i) t = balance l (di_walletId i) t - n
       \<and> (\<forall>e \<in> set (debit_plan l i t n). \<exists>lot. le_lotId e = Some lot \<and> 0 \<le> lot_available l' (di_walletId i) lot)
     else isl (fst (debitFifo now l i))"
proof -
  have ok: "ledger_ok l" by (simp add: assms(1) ledger_ok_reachable)
  have sum: "sum_list (map le_seconds (debit_plan l i t n)) = - min n (lot_funds (lot_state l (di_walletId i) t))"
    unfolding debit_plan_def plan_entries_sum using assms(4) by (simp add: fifo_plan_sum)
  from ok show ?thesis
  proof (cases rule: debit_cases [where i = i and now = now])
    case (ran n' t' l')
    then have n: "n' = n" "t' = t" using assms(3,6) by simp_all
    have "\<exists>lot. le_lotId e = Some lot \<and> 0 \<le> lot_available l' (di_walletId i) lot"
      if e: "e \<in> set (debit_plan l i t n)" for e
    proof -
      obtain lot s where lot: "(lot, s) \<in> set (fifo_plan (lot_state l (di_walletId i) t) n)" "le_lotId e = Some lot"
        using plan_entries_set e unfolding debit_plan_def by blast
      have "s \<le> lot_available l (di_walletId i) lot"
        using fifo_plan_bounds [OF _ lot(1)] assms(4) by (auto simp: lot_state_def)
      then show ?thesis using lot_available_plan [OF ok ran(6) [unfolded n] lot(1)] lot(2) by simp
    qed
    then show ?thesis
      using ran debit_balance [OF ok ran(6) [unfolded n] ran(7)] assms(4) sum by (auto simp: n)
  next
    case (refused e)
    then show ?thesis using assms(3-6) by simp
  qed (use assms(2) in simp)
qed

text \<open>
  a debit takes from a lot only after every unexpired lot of the wallet that
  expires earlier (or expires with it and is older) is used up.
\<close>

theorem ledger_debit_soonest_expiry_first:
  assumes "l = ledger_run new_ledger cs" and "debit_existing l (di_idempotencyKey i) = []"
    and "debitFifo now l i = (Inr es, l')" and "di_at i = Some t" and "w = di_walletId i"
    and "A \<in> set (lg_lots l)" and "wl_walletId A = w" and "\<not> lot_expired t A"
    and "B \<in> set (lg_lots l)" and "lot_order A < lot_order B"
    and "e \<in> set es" and "le_lotId e = Some (wl_id B)"
  shows "lot_available l' w (wl_id A) \<le> 0"
proof -
  have ok: "ledger_ok l" by (simp add: assms(1) ledger_ok_reachable)
  have A: "A \<in> set (debit_lots_of l w t)" using assms(6-8) by (simp add: debit_lots_mem)
  from ok show ?thesis
  proof (cases rule: debit_cases [where i = i and now = now])
    case (ran n t' l2)
    then have n: "t' = t" "l2 = l'" "es = debit_plan l i t n"
      using assms(3,4) by (auto split: if_splits)
    show ?thesis
    proof (cases "0 < lot_available l w (wl_id A)")
      case True
      have "(wl_id A, lot_available l w (wl_id A)) \<in> set (fifo_plan (lot_state l w t) n)"
        using debit_plan_uses_up [OF ok _ A assms(9,10) True assms(5)] assms(11,12) ran(3) n by simp
      then show ?thesis
        using lot_available_plan [OF ok ran(6) [unfolded n]] assms(5) by simp
    next
      case False
      have "filter (\<lambda>e. le_walletId e = w \<and> le_lotId e = Some (wl_id A)) es = []"
        using fifo_plan_bounds [of n "wl_id A" _ "lot_state l w t"] False ran(3) assms(5)
          lot_state_distinct [OF ok, of w t]
        by (auto simp: filter_empty_conv n(3) debit_plan_def lot_state_def dest!: plan_entries_set) fastforce
      then show ?thesis using False ran(6) by (simp add: n lot_available_def)
    qed
  qed (use assms(2,3) in auto)
qed

text \<open>
  a debit that succeeded is never made twice. Whatever happens in between, a
  repeated debit under the same key returns the entries of the first one (and only entries
  whose keys extend the same key after them) and logs nothing.
\<close>

theorem ledger_debit_retry:
  assumes "l = ledger_run new_ledger cs" and "debit_existing l (di_idempotencyKey i) = []"
    and "debitFifo now l i = (Inr es, l')" and "di_idempotencyKey j = di_idempotencyKey i"
  shows "\<exists>more. debitFifo now' (ledger_run l' ds) j = (Inr (es @ more), ledger_run l' ds)"
proof -
  have ok: "ledger_ok l" by (simp add: assms(1) ledger_ok_reachable)
  then show ?thesis
  proof (cases rule: debit_cases [where i = i and now = now])
    case (ran n t l2)
    then have n: "l2 = l'" "es = debit_plan l i t n" "n \<le> lot_funds (lot_state l (di_walletId i) t)"
      using assms(3) by (auto split: if_splits)
    have "debit_existing l' (di_idempotencyKey i) = es"
      using debit_existing_plan [OF assms(2) ran(6)] n by simp
    then obtain more where more: "debit_existing (ledger_run l' ds) (di_idempotencyKey i) = es @ more"
      using debit_existing_run [of l'] ran(8) n(1) by (metis prefix_def)
    have "es \<noteq> []"
      unfolding n(2) using n(3) ran(3) by (intro debit_plan_nonempty) auto
    then show ?thesis using more debit_answered [of "ledger_run l' ds" j now'] assms(4) by simp
  qed (use assms(2,3) in auto)
qed

text \<open>
  what a debit leaves behind when the balance covers it but the lots do not
  (entries without a lot count in the balance and are never taken from). It throws after it
  has logged everything the lots had, and when that was anything, repeating the same call
  returns those entries as a success, for less than the seconds asked for.
\<close>

theorem ledger_failed_debit_is_partial:
  assumes "l = ledger_run new_ledger cs" and "di_at i = Some t" and "di_seconds i = js_int n"
    and "debitFifo now l i = (Inl ''Ledger lot invariant violated'', l')"
    and "0 < lot_funds (lot_state l (di_walletId i) t)"
  shows "\<exists>es. lg_entries l' = lg_entries l @ es
     \<and> balance l' (di_walletId i) t = balance l (di_walletId i) t - lot_funds (lot_state l (di_walletId i) t)
     \<and> debitFifo now' l' i = (Inr es, l') \<and> - n < sum_list (map le_seconds es)"
proof -
  have ok: "ledger_ok l" by (simp add: assms(1) ledger_ok_reachable)
  then show ?thesis
  proof (cases rule: debit_cases [where i = i and now = now])
    case (refused e)
    have "debitFifo now l i \<noteq> (Inl ''Ledger lot invariant violated'', l)"
    proof
      assume *: "debitFifo now l i = (Inl ''Ledger lot invariant violated'', l)"
      then have "\<not> js_le (di_seconds i) (js_int 0) \<and> js_is_safe_integer (di_seconds i)"
        using refused(1) by (auto simp: debitFifo_def Let_def split: if_splits)
      then have "0 < n \<and> n \<le> 9007199254740991" by (auto simp: assms(3) js_safe_int_iff)
      then have "balance l (di_walletId i) t < n" using refused(3) [OF assms(3)] assms(2) by simp
      then show False
        using * refused(1) assms(2,3) by (auto simp: debitFifo_def Let_def split: if_splits)
    qed
    then show ?thesis using refused(2) assms(4) by simp
  next
    case (ran n' t' l2)
    then have n: "n' = n" "t' = t" "l2 = l'" "lot_funds (lot_state l (di_walletId i) t) < n"
      using assms(2-4) by (auto split: if_splits)
    let ?es = "debit_plan l i t n"
    have sum: "sum_list (map le_seconds ?es) = - lot_funds (lot_state l (di_walletId i) t)"
      unfolding debit_plan_def plan_entries_sum using n(4) ran(3) by (simp add: fifo_plan_sum n)
    have "?es \<noteq> []" by (rule debit_plan_nonempty) (use ran(3) n(1) assms(5) in simp_all)
    moreover have "debit_existing l' (di_idempotencyKey i) = ?es"
      using debit_existing_plan [OF ran(1,6)] by (simp add: n)
    ultimately have "debitFifo now' l' i = (Inr ?es, l')" using debit_answered by metis
    then show ?thesis
      using sum ran(6) debit_balance [OF ok ran(6) [unfolded n] ran(7) [unfolded n]] ran(3) n(1,4)
      by (intro exI [of _ ?es]) (simp add: n)
  qed (use assms(4) in auto)
qed

text \<open>
  keys that extend one another share their debits. After a debit under the key
  \<open>k:x\<close> succeeded, every debit under the key \<open>k\<close>, of any wallet and any number of seconds, is
  answered with entries already logged and takes nothing.
\<close>

theorem ledger_debit_keys_collide:
  assumes "l = ledger_run new_ledger cs" and "debit_existing l (di_idempotencyKey i) = []"
    and "debitFifo now l i = (Inr es, l')"
    and "di_idempotencyKey i = di_idempotencyKey j @ '':'' @ x"
  shows "\<exists>old. debitFifo now' l' j = (Inr old, l') \<and> set es \<subseteq> set old"
proof -
  have ok: "ledger_ok l" by (simp add: assms(1) ledger_ok_reachable)
  then show ?thesis
  proof (cases rule: debit_cases [where i = i and now = now])
    case (ran n t l2)
    then have n: "l2 = l'" "es = debit_plan l i t n" "n \<le> lot_funds (lot_state l (di_walletId i) t)"
      using assms(3) by (auto split: if_splits)
    have "starts_with (le_idempotencyKey e) (di_idempotencyKey j @ '':'')" if "e \<in> set es" for e
      using that assms(4) unfolding n(2) debit_plan_def by (auto simp: starts_with_iff dest!: plan_entries_set)
    then have sub: "set es \<subseteq> set (debit_existing l' (di_idempotencyKey j))"
      using ran(6) by (auto simp: debit_existing_def n)
    have "es \<noteq> []"
      unfolding n(2) using n(3) ran(3) by (intro debit_plan_nonempty) auto
    then have "debit_existing l' (di_idempotencyKey j) \<noteq> []" using sub by auto
    then show ?thesis using debit_answered [of l' j now'] sub by blast
  qed (use assms(2,3) in auto)
qed

subsection \<open>Concrete runs\<close>

text \<open>A wallet with a lot of 100 seconds that expires, one of 50 that does not, and 60 seconds without a lot.\<close>

definition sample_credit :: "string \<Rightarrow> ident option \<Rightarrow> int \<Rightarrow> ledger_call" where
  "sample_credit k lot n = Append 0 \<lparr>la_id = k, la_walletId = ''w'', la_lotId = lot, la_kind = Purchase,
     la_seconds = js_int n, la_idempotencyKey = k, la_reason = ''pack'', la_occurredAt = Some 0,
     la_metadata = None\<rparr>"

definition sample_lots :: "ledger_call list" where
  "sample_lots =
     [AddLot \<lparr>wl_id = ''B'', wl_walletId = ''w'', wl_grantedSeconds = js_int 50, wl_expiresAt = None, wl_createdAt = 0\<rparr>,
      AddLot \<lparr>wl_id = ''A'', wl_walletId = ''w'', wl_grantedSeconds = js_int 100, wl_expiresAt = Some 9000, wl_createdAt = 1\<rparr>,
      sample_credit ''c1'' (Some ''B'') 50, sample_credit ''c2'' (Some ''A'') 100, sample_credit ''c3'' None 60]"

definition sample_ledger :: ledger where
  "sample_ledger = ledger_run new_ledger sample_lots"

definition sample_debit :: "string \<Rightarrow> int \<Rightarrow> debit_input" where
  "sample_debit k n = \<lparr>di_ids = (\<lambda>m. ''d'' @ string_of_nat m), di_walletId = ''w'', di_seconds = js_int n,
     di_idempotencyKey = k, di_reason = ''ride'', di_at = Some 5000\<rparr>"

lemmas ledger_eval = ledger_run_def sample_lots_def sample_credit_def addLot_def ledger_append_def
  entry_of_def new_ledger_def js_safe_int_iff js_eq_def map_set_def map_get_def Let_def

definition sample_entry :: "string \<Rightarrow> ident option \<Rightarrow> int \<Rightarrow> ledger_entry" where
  "sample_entry k lot n = \<lparr>le_id = k, le_walletId = ''w'', le_lotId = lot, le_kind = Purchase, le_seconds = n,
     le_idempotencyKey = k, le_reason = ''pack'', le_occurredAt = 0, le_metadata = []\<rparr>"

lemma sample_ledger_value:
  "lg_entries sample_ledger = [sample_entry ''c1'' (Some ''B'') 50, sample_entry ''c2'' (Some ''A'') 100,
     sample_entry ''c3'' None 60]"
  "lg_lots sample_ledger =
     [\<lparr>wl_id = ''B'', wl_walletId = ''w'', wl_grantedSeconds = js_int 50, wl_expiresAt = None, wl_createdAt = 0\<rparr>,
      \<lparr>wl_id = ''A'', wl_walletId = ''w'', wl_grantedSeconds = js_int 100, wl_expiresAt = Some 9000, wl_createdAt = 1\<rparr>]"
  by (simp_all add: sample_ledger_def ledger_eval sample_entry_def)

lemma sample_lot_state: "lot_state sample_ledger ''w'' 5000 = [(''A'', 100), (''B'', 50)]"
  by (simp add: lot_state_def debit_lots_of_def sample_ledger_value lot_expired_def lot_order_def
      lot_available_def sample_entry_def less_prod_def less_eq_prod_def)

lemma sample_existing: "debit_existing sample_ledger ''k'' = []" "debit_existing sample_ledger ''k:x'' = []"
  by (simp_all add: debit_existing_def sample_ledger_value sample_entry_def starts_with_def)

lemma sample_balance: "balance sample_ledger ''w'' 5000 = 210"
  by (simp add: balance_def sample_ledger_value sample_entry_def lot_expired_def)

lemma sample_debit_fields [simp]:
  "di_walletId (sample_debit k n) = ''w''" "di_seconds (sample_debit k n) = js_int n"
  "di_idempotencyKey (sample_debit k n) = k" "di_at (sample_debit k n) = Some 5000"
  by (simp_all add: sample_debit_def)

text \<open>Debits of the sample wallet that the lots cover, and one that only the balance covers.\<close>

lemma sample_debit_run:
  assumes "k \<in> {''k'', ''k:x''}" "0 < n" "n \<le> 210"
  shows "\<exists>l'. debitFifo 0 sample_ledger (sample_debit k n) =
     (if n \<le> 150 then Inr (debit_plan sample_ledger (sample_debit k n) 5000 n)
      else Inl ''Ledger lot invariant violated'', l')"
proof -
  have ok: "ledger_ok sample_ledger" by (simp add: sample_ledger_def ledger_ok_reachable)
  have old: "debit_existing sample_ledger k = []" using assms(1) sample_existing by auto
  from ok show ?thesis
  proof (cases rule: debit_cases [where i = "sample_debit k n" and now = 0])
    case (refused e)
    then show ?thesis using assms(2,3) by (simp add: sample_balance)
  next
    case (ran n' t l')
    then show ?thesis by (auto simp: sample_lot_state)
  qed (use old in simp)
qed

lemma sample_plan:
  "debit_plan sample_ledger (sample_debit k 120) 5000 120 = plan_entries (sample_debit k 120) 5000 0 [(''A'', 100), (''B'', 20)]"
  by (simp add: debit_plan_def sample_lot_state)

theorem ledger_append_answers_for_ever_witness:
  "\<exists>e. ledger_append 9 sample_ledger
     \<lparr>la_id = ''z'', la_walletId = ''v'', la_lotId = None, la_kind = Expiry, la_seconds = NaN,
      la_idempotencyKey = ''c1'', la_reason = '''', la_occurredAt = None, la_metadata = None\<rparr> = (Inr e, sample_ledger)"
proof -
  let ?i = "\<lparr>la_id = ''c1'', la_walletId = ''w'', la_lotId = Some ''B'', la_kind = Purchase,
     la_seconds = js_int 50, la_idempotencyKey = ''c1'', la_reason = ''pack'', la_occurredAt = Some 0,
     la_metadata = None\<rparr>"
  have first: "ledger_append 0 (ledger_run new_ledger (take 2 sample_lots)) ?i =
      (Inr (sample_entry ''c1'' (Some ''B'') 50), ledger_run new_ledger (take 3 sample_lots))"
    by (simp add: ledger_eval sample_entry_def)
  have rest: "ledger_run (ledger_run new_ledger (take 3 sample_lots)) (drop 3 sample_lots) = sample_ledger"
    by (simp add: ledger_run_def sample_ledger_def foldl_append [symmetric])
  show ?thesis
    using ledger_append_answers_for_ever [OF first, of
        "\<lparr>la_id = ''z'', la_walletId = ''v'', la_lotId = None, la_kind = Expiry, la_seconds = NaN,
          la_idempotencyKey = ''c1'', la_reason = '''', la_occurredAt = None, la_metadata = None\<rparr>"
        9 "drop 3 sample_lots"] rest by auto
qed

theorem ledger_debit_exact_witness:
  "\<exists>l'. debitFifo 0 sample_ledger (sample_debit ''k'' 120) =
       (Inr (debit_plan sample_ledger (sample_debit ''k'' 120) 5000 120), l')
     \<and> balance l' ''w'' 5000 = 90"
  using ledger_debit_exact [of sample_ledger sample_lots "sample_debit ''k'' 120" 120 5000 0]
  by (auto simp: sample_ledger_def [symmetric] sample_existing sample_balance sample_lot_state)

theorem ledger_debit_soonest_expiry_first_witness:
  "lot_available (snd (debitFifo 0 sample_ledger (sample_debit ''k'' 120))) ''w''
     (wl_id (lg_lots sample_ledger ! 1)) \<le> 0"
proof -
  obtain l' where l': "debitFifo 0 sample_ledger (sample_debit ''k'' 120) =
      (Inr (debit_plan sample_ledger (sample_debit ''k'' 120) 5000 120), l')"
    using sample_debit_run [of "''k''" 120] by auto
  show ?thesis
    unfolding l' snd_conv
  proof (rule ledger_debit_soonest_expiry_first [OF sample_ledger_def _ l', where t = 5000])
    show "lg_lots sample_ledger ! 1 \<in> set (lg_lots sample_ledger)"
      "lg_lots sample_ledger ! 0 \<in> set (lg_lots sample_ledger)"
      by (simp_all add: sample_ledger_value)
    show "last (debit_plan sample_ledger (sample_debit ''k'' 120) 5000 120)
      \<in> set (debit_plan sample_ledger (sample_debit ''k'' 120) 5000 120)"
      by (simp add: sample_plan)
  qed (simp_all add: sample_existing sample_ledger_value lot_expired_def lot_order_def less_prod_def sample_plan)
qed

theorem ledger_debit_retry_witness:
  "\<exists>more. debitFifo 7 (ledger_run (snd (debitFifo 0 sample_ledger (sample_debit ''k'' 120)))
        [Debit 1 (sample_debit ''k:x'' 30)]) (sample_debit ''k'' 999) =
     (Inr (plan_entries (sample_debit ''k'' 120) 5000 0 [(''A'', 100), (''B'', 20)] @ more),
      ledger_run (snd (debitFifo 0 sample_ledger (sample_debit ''k'' 120))) [Debit 1 (sample_debit ''k:x'' 30)])"
proof -
  obtain l' where l': "debitFifo 0 sample_ledger (sample_debit ''k'' 120) =
      (Inr (debit_plan sample_ledger (sample_debit ''k'' 120) 5000 120), l')"
    using sample_debit_run [of "''k''" 120] by auto
  show ?thesis
    using ledger_debit_retry [OF sample_ledger_def _ l', of "sample_debit ''k'' 999" 7] l'
    by (simp add: sample_existing sample_plan)
qed

theorem ledger_failed_debit_is_partial_witness:
  "\<exists>es l'. fst (debitFifo 0 sample_ledger (sample_debit ''k'' 200)) = Inl ''Ledger lot invariant violated''
     \<and> debitFifo 1 l' (sample_debit ''k'' 200) = (Inr es, l') \<and> - 200 < sum_list (map le_seconds es)"
proof -
  obtain l' where l': "debitFifo 0 sample_ledger (sample_debit ''k'' 200) =
      (Inl ''Ledger lot invariant violated'', l')"
    using sample_debit_run [of "''k''" 200] by auto
  show ?thesis
    using ledger_failed_debit_is_partial [OF sample_ledger_def _ _ l', of 5000 200 1] l'
    by (auto simp: sample_lot_state)
qed

theorem ledger_debit_keys_collide_witness:
  "\<exists>old l'. debitFifo 3 l' (sample_debit ''k'' 60) = (Inr old, l')
     \<and> set (plan_entries (sample_debit ''k:x'' 120) 5000 0 [(''A'', 100), (''B'', 20)]) \<subseteq> set old"
proof -
  obtain l' where l': "debitFifo 0 sample_ledger (sample_debit ''k:x'' 120) =
      (Inr (debit_plan sample_ledger (sample_debit ''k:x'' 120) 5000 120), l')"
    using sample_debit_run [of "''k:x''" 120] by auto
  show ?thesis
    using ledger_debit_keys_collide [OF sample_ledger_def _ l', of "sample_debit ''k'' 60" "''x''" 3]
    by (auto simp: sample_existing sample_plan)
qed

end
