(* ===== verification/EdgeSafety.thy ===== *)
theory EdgeSafety
  imports JsNumber
begin

section \<open>The safety gate of the edge\<close>

text \<open>
  \<open>apps/edge/src/safety.ts\<close>: the class \<open>EdgeSafetyGate\<close> every driving command goes through
  before it reaches the actuators. Its three fields are a record, its methods functions on
  it. The fields of a command are JavaScript numbers; a field the request body lacks behaves
  in every expression of the code as \<open>NaN\<close> does.
\<close>

record control_input =
  ci_rideId :: ident
  ci_sequence :: jsnum
  ci_steering :: jsnum
  ci_throttle :: jsnum
  ci_brake :: jsnum
  ci_receivedMonotonicMs :: jsnum

record safety_decision =
  sd_accepted :: bool
  sd_steering :: jsnum
  sd_throttle :: jsnum
  sd_brake :: jsnum
  sd_reason :: string

record safety_gate =
  sg_operatorStop :: bool
  sg_activeRideId :: "ident option"
  sg_lastSequence :: jsnum

definition new_gate :: safety_gate where
  "new_gate = \<lparr>sg_operatorStop = False, sg_activeRideId = None, sg_lastSequence = js_int (- 1)\<rparr>"

definition activateRide :: "safety_gate \<Rightarrow> ident \<Rightarrow> safety_gate" where
  "activateRide g rideId =
     g\<lparr>sg_activeRideId := Some rideId, sg_lastSequence := js_int (- 1), sg_operatorStop := False\<rparr>"

definition gate_stop :: "safety_gate \<Rightarrow> string \<Rightarrow> safety_decision \<times> safety_gate" where
  "gate_stop g reason =
     (\<lparr>sd_accepted = False, sd_steering = js_int 0, sd_throttle = js_int 0, sd_brake = js_int 1000,
       sd_reason = ''operator_stop:'' @ reason\<rparr>,
      g\<lparr>sg_operatorStop := True\<rparr>)"

definition neutral :: "string \<Rightarrow> safety_decision" where
  "neutral reason =
     \<lparr>sd_accepted = False, sd_steering = js_int 0, sd_throttle = js_int 0, sd_brake = js_int 1000,
      sd_reason = reason\<rparr>"

definition gate_apply :: "safety_gate \<Rightarrow> control_input \<Rightarrow> jsnum \<Rightarrow> safety_decision \<times> safety_gate" where
  "gate_apply g i now =
     (if sg_operatorStop g then gate_stop g ''latched''
      else if Some (ci_rideId i) \<noteq> sg_activeRideId g then (neutral ''ride_mismatch'', g)
      else if js_le (ci_sequence i) (sg_lastSequence g) then (neutral ''stale_or_replayed_sequence'', g)
      else if js_lt (js_int 100) (js_sub now (ci_receivedMonotonicMs i)) then (neutral ''stale_command'', g)
      else
        (\<lparr>sd_accepted = True,
          sd_steering = js_max (js_int (- 1000)) (js_min (js_int 1000) (ci_steering i)),
          sd_throttle = js_max (js_int 0) (js_min (js_int 1000) (ci_throttle i)),
          sd_brake = js_max (js_int 0) (js_min (js_int 1000) (ci_brake i)),
          sd_reason = ''accepted''\<rparr>,
         g\<lparr>sg_lastSequence := ci_sequence i\<rparr>))"

datatype gate_call =
    Activate ident
  | Stop string
  | Control control_input jsnum

text \<open>
  Runs of the gate. The log collects the accepted commands since the last activation, with the
  decision and the time each was accepted at.
\<close>

type_synonym gate_log = "(control_input \<times> jsnum \<times> safety_decision) list"

fun gate_step :: "safety_gate \<times> gate_log \<Rightarrow> gate_call \<Rightarrow> safety_gate \<times> gate_log" where
  "gate_step (g, lg) (Activate r) = (activateRide g r, [])"
| "gate_step (g, lg) (Stop reason) = (snd (gate_stop g reason), lg)"
| "gate_step (g, lg) (Control i now) =
     (let (d, g') = gate_apply g i now in (g', if sd_accepted d then lg @ [(i, now, d)] else lg))"

definition gate_run :: "safety_gate \<times> gate_log \<Rightarrow> gate_call list \<Rightarrow> safety_gate \<times> gate_log" where
  "gate_run = foldl gate_step"

lemma gate_run_simps [simp]:
  "gate_run s [] = s" "gate_run s (c # cs) = gate_run (gate_step s c) cs"
  "gate_run s (cs @ ds) = gate_run (gate_run s cs) ds"
  by (simp_all add: gate_run_def)

subsection \<open>What a decision says\<close>

lemma gate_apply_cases:
  obtains (rejected) d where "gate_apply g i now = (d, g)" "\<not> sd_accepted d"
      "sd_steering d = js_int 0" "sd_throttle d = js_int 0" "sd_brake d = js_int 1000"
  | (accepted) d where "gate_apply g i now = (d, g\<lparr>sg_lastSequence := ci_sequence i\<rparr>)" "sd_accepted d"
      "\<not> sg_operatorStop g" "sg_activeRideId g = Some (ci_rideId i)"
      "\<not> js_le (ci_sequence i) (sg_lastSequence g)"
      "\<not> js_lt (js_int 100) (js_sub now (ci_receivedMonotonicMs i))"
      "sd_steering d = js_clamp (js_int (- 1000)) (js_int 1000) (ci_steering i)"
      "sd_throttle d = js_clamp (js_int 0) (js_int 1000) (ci_throttle i)"
      "sd_brake d = js_clamp (js_int 0) (js_int 1000) (ci_brake i)"
proof (cases "sd_accepted (fst (gate_apply g i now))")
  case True
  then show ?thesis
    by (intro accepted [of "fst (gate_apply g i now)"])
      (auto simp: gate_apply_def gate_stop_def neutral_def js_clamp_def split: if_splits)
next
  case False
  then show ?thesis
    by (intro rejected [of "fst (gate_apply g i now)"])
      (auto simp: gate_apply_def gate_stop_def neutral_def split: if_splits)
qed

text \<open>
  An accepted command is for the active ride and was not measured to be more than 100 milliseconds
  old, and every field of it that is a number was brought into its range.
\<close>

definition in_range :: "int \<Rightarrow> int \<Rightarrow> jsnum \<Rightarrow> jsnum \<Rightarrow> bool" where
  "in_range lo hi given sent = (if given = NaN then sent = NaN else js_le (js_int lo) sent \<and> js_le sent (js_int hi))"

fun command_ok :: "ident option \<Rightarrow> control_input \<times> jsnum \<times> safety_decision \<Rightarrow> bool" where
  "command_ok ride (i, now, d) =
     (ride = Some (ci_rideId i)
      \<and> in_range (- 1000) 1000 (ci_steering i) (sd_steering d)
      \<and> in_range 0 1000 (ci_throttle i) (sd_throttle d)
      \<and> in_range 0 1000 (ci_brake i) (sd_brake d)
      \<and> \<not> js_lt (js_int 100) (js_sub now (ci_receivedMonotonicMs i)))"

definition log_sequences :: "gate_log \<Rightarrow> jsnum list" where
  "log_sequences lg = map (ci_sequence \<circ> fst) lg"

text \<open>
  The sequence numbers strictly increase, from above \<open>- 1\<close> on, as long as no command without a
  sequence number comes between: of any two commands the later has the larger number unless
  one of them, or one between them, has none.
\<close>

definition increasing_between_gaps :: "jsnum list \<Rightarrow> bool" where
  "increasing_between_gaps xs \<longleftrightarrow> (\<forall>i j. i < j \<longrightarrow> j < length xs \<longrightarrow>
     (\<forall>k. i \<le> k \<longrightarrow> k \<le> j \<longrightarrow> xs ! k \<noteq> NaN) \<longrightarrow> js_lt (xs ! i) (xs ! j))"

lemma increasing_snoc:
  assumes inc: "increasing_between_gaps xs" and ne: "xs \<noteq> []"
    and y: "last xs \<noteq> NaN \<Longrightarrow> y \<noteq> NaN \<Longrightarrow> js_lt (last xs) y"
  shows "increasing_between_gaps (xs @ [y])"
  unfolding increasing_between_gaps_def
proof (intro allI impI)
  fix i j
  assume ij: "i < j" "j < length (xs @ [y])" and num: "\<forall>k. i \<le> k \<longrightarrow> k \<le> j \<longrightarrow> (xs @ [y]) ! k \<noteq> NaN"
  have old: "xs ! k \<noteq> NaN" if "i \<le> k" "k \<le> j" "k < length xs" for k
    using num [rule_format, OF that(1,2)] that(3) by (simp add: nth_append)
  have before: "js_lt (xs ! i) (xs ! n)" if "i < n" "n \<le> j" "n < length xs" for n
    using inc that old unfolding increasing_between_gaps_def by simp
  show "js_lt ((xs @ [y]) ! i) ((xs @ [y]) ! j)"
  proof (cases "j < length xs")
    case True
    then show ?thesis using before [of j] ij by (simp add: nth_append)
  next
    case False
    define n where "n = length xs - 1"
    have j: "j = length xs" using False ij(2) by simp
    have n: "n < length xs" "i \<le> n" "n \<le> j" using ne ij(1) j by (simp_all add: n_def less_eq_Suc_le)
    have "last xs = xs ! n" unfolding n_def by (rule last_conv_nth [OF ne])
    moreover have "y \<noteq> NaN" using num [rule_format, of j] ij(1) j by simp
    ultimately have step: "js_lt (xs ! n) y" using y old [OF n(2,3,1)] by simp
    show ?thesis
    proof (cases "i = n")
      case True
      then show ?thesis using step n(1) j by (simp add: nth_append)
    next
      case False
      then have "js_lt (xs ! i) (xs ! n)" using before [of n] n by simp
      from js_lt_trans [OF this step] show ?thesis using n j by (simp add: nth_append)
    qed
  qed
qed

definition gate_inv :: "safety_gate \<times> gate_log \<Rightarrow> bool" where
  "gate_inv = (\<lambda>(g, lg). list_all (command_ok (sg_activeRideId g)) lg
     \<and> increasing_between_gaps (js_int (- 1) # log_sequences lg)
     \<and> sg_lastSequence g = last (js_int (- 1) # log_sequences lg))"

lemma gate_inv_new: "gate_inv (new_gate, [])"
  by (simp add: gate_inv_def new_gate_def log_sequences_def increasing_between_gaps_def)

lemma clamp_in_range: "lo \<le> hi \<Longrightarrow> in_range lo hi x (js_clamp (js_int lo) (js_int hi) x)"
  using js_clamp_range [of x "js_int lo" "js_int hi"] by (cases "x = NaN") (simp_all add: in_range_def js_int_def)

lemma gate_inv_step: "gate_inv s \<Longrightarrow> gate_inv (gate_step s c)"
proof -
  assume inv: "gate_inv s"
  obtain g lg where s: "s = (g, lg)" by (cases s)
  show ?thesis
  proof (cases c)
    case (Control i now)
    show ?thesis
    proof (cases rule: gate_apply_cases [of g i now])
      case (rejected d)
      then show ?thesis using inv by (simp add: s Control)
    next
      case (accepted d)
      have "increasing_between_gaps ((js_int (- 1) # log_sequences lg) @ [ci_sequence i])"
        using inv accepted(5) js_not_le by (intro increasing_snoc) (auto simp: s gate_inv_def)
      then show ?thesis
        using inv accepted by (simp add: s Control gate_inv_def log_sequences_def clamp_in_range)
    qed
  qed (use inv in \<open>auto simp: s gate_inv_def activateRide_def gate_stop_def log_sequences_def increasing_between_gaps_def\<close>)
qed

lemma gate_inv_run: "gate_inv s \<Longrightarrow> gate_inv (gate_run s cs)"
  by (induction cs arbitrary: s) (auto simp: gate_inv_step)

text \<open>While the operator stop is set, and no ride is activated, nothing is accepted.\<close>

fun activates :: "gate_call \<Rightarrow> bool" where
  "activates (Activate r) = True"
| "activates c = False"

lemma stop_latched_step:
  "sg_operatorStop g \<Longrightarrow> \<not> activates c \<Longrightarrow>
   gate_step (g, lg) c = (g, lg)"
  by (cases c) (simp_all add: gate_apply_def gate_stop_def)

lemma stop_latched_run:
  "sg_operatorStop g \<Longrightarrow> list_all (\<lambda>c. \<not> activates c) cs \<Longrightarrow> gate_run (g, lg) cs = (g, lg)"
  by (induction cs) (auto simp: stop_latched_step)

subsection \<open>Properties\<close>

text \<open>
  Property C11: whatever calls the gate receives, with whatever numbers or none, the commands it
  accepted since the ride was activated are all for the active ride and not measured to be more
  than 100 milliseconds old; each of steering, throttle and brake that was a number is within the
  actuator's range; and of two of them the later has the larger sequence number, and the first
  one above \<open>- 1\<close>, unless one that carries no sequence number (which is accepted) is among
  them or between them.
\<close>

theorem edge_commands_bounded_and_ordered:
  "case gate_run (new_gate, []) cs of (g, lg) \<Rightarrow>
     list_all (command_ok (sg_activeRideId g)) lg \<and> increasing_between_gaps (js_int (- 1) # log_sequences lg)"
  using gate_inv_run [OF gate_inv_new, of cs] by (auto simp: gate_inv_def split: prod.split)

text \<open>
  the replay guard needs the sequence number to be a number. One accepted
  command without one (its field behaves as \<open>NaN\<close>) leaves a gate that takes every later
  command of the ride that is not too old, whatever its sequence number, until the sequence
  number of an accepted one is a number again.
\<close>

theorem missing_sequence_disables_replay_guard:
  assumes "gate_apply g i now = (d, g')" and "sd_accepted d" and "ci_sequence i = NaN"
    and "ci_rideId j = ci_rideId i" and "\<not> js_lt (js_int 100) (js_sub now' (ci_receivedMonotonicMs j))"
  shows "sd_accepted (fst (gate_apply g' j now'))
    \<and> (ci_sequence j = NaN \<longrightarrow> snd (gate_apply g' j now') = g')"
proof (cases rule: gate_apply_cases [of g i now])
  case (accepted d')
  have "g' = g\<lparr>sg_lastSequence := NaN\<rparr>" using accepted(1) assms(1,3) by simp
  then show ?thesis using accepted(3,4) assms(4,5) by (simp add: gate_apply_def)
qed (use assms(1,2) in simp)

subsection \<open>Concrete runs\<close>

definition sample_command :: "ident \<Rightarrow> jsnum \<Rightarrow> int \<Rightarrow> int \<Rightarrow> control_input" where
  "sample_command r n throttle received = \<lparr>ci_rideId = r, ci_sequence = n, ci_steering = js_int 0,
     ci_throttle = js_int throttle, ci_brake = js_int 0, ci_receivedMonotonicMs = js_int received\<rparr>"

lemmas gate_eval = sample_command_def new_gate_def activateRide_def gate_apply_def gate_stop_def neutral_def

theorem missing_sequence_disables_replay_guard_witness:
  "sd_accepted (fst (gate_apply (snd (gate_apply (activateRide new_gate ''r'') (sample_command ''r'' NaN 700 10) (js_int 20)))
      (sample_command ''r'' (js_int 0) 700 10) (js_int 30)))"
  using missing_sequence_disables_replay_guard [of "activateRide new_gate ''r''" "sample_command ''r'' NaN 700 10" "js_int 20"
      _ _ "sample_command ''r'' (js_int 0) 700 10" "js_int 30"]
  by (auto simp: gate_eval)

end
