(* ===== verification/EdgeOutbox.thy ===== *)
theory EdgeOutbox
  imports Logs JsNumber
begin

section \<open>The outbox of the edge\<close>

text \<open>
  \<open>apps/edge/src/outbox.ts\<close>: the class \<open>EdgeOutbox\<close> over one SQLite table, whose rows are a
  list in insertion order. \<open>randomUUID\<close>, \<open>process.hrtime\<close> and \<open>new Date()\<close> are arguments. The
  payload column holds the value its JSON text denotes. The insert fails when one of the
  table's unique constraints does; SQLite reads a negative limit as none.
\<close>

datatype outbox_status = Pending | Acknowledged

record outbox_event =
  oe_id :: ident
  oe_producer :: string
  oe_producerSequence :: nat
  oe_topic :: string
  oe_payload :: json
  oe_idempotencyKey :: string
  oe_createdMonotonicNs :: int
  oe_status :: outbox_status

record outbox_row =
  or_id :: ident
  or_producer :: string
  or_producer_sequence :: nat
  or_topic :: string
  or_payload :: json
  or_idempotency_key :: string
  or_created_monotonic_ns :: int
  or_status :: outbox_status
  or_acknowledged_at :: "date option"

definition mapRow :: "outbox_row \<Rightarrow> outbox_event" where
  "mapRow row = \<lparr>oe_id = or_id row, oe_producer = or_producer row,
     oe_producerSequence = or_producer_sequence row, oe_topic = or_topic row,
     oe_payload = or_payload row, oe_idempotencyKey = or_idempotency_key row,
     oe_createdMonotonicNs = or_created_monotonic_ns row, oe_status = or_status row\<rparr>"

record outbox =
  ob_rows :: "outbox_row list"
  ob_producer :: string

record outbox_input =
  oi_topic :: string
  oi_payload :: json
  oi_idempotencyKey :: string
  oi_uuid :: ident
  oi_hrtime :: int

text \<open>\<open>select coalesce(max(producer_sequence), 0) + 1 from edge_outbox where producer = ?\<close>\<close>

definition next_sequence :: "outbox \<Rightarrow> nat" where
  "next_sequence b = foldr max (map or_producer_sequence
     (filter (\<lambda>row. or_producer row = ob_producer b) (ob_rows b))) 0 + 1"

definition new_row :: "outbox \<Rightarrow> outbox_input \<Rightarrow> outbox_row" where
  "new_row b i = \<lparr>or_id = oi_uuid i, or_producer = ob_producer b, or_producer_sequence = next_sequence b,
     or_topic = oi_topic i, or_payload = oi_payload i, or_idempotency_key = oi_idempotencyKey i,
     or_created_monotonic_ns = oi_hrtime i, or_status = Pending, or_acknowledged_at = None\<rparr>"

text \<open>The unique constraints of the table: a new row against the stored ones.\<close>

definition violates_unique :: "outbox_row list \<Rightarrow> outbox_row \<Rightarrow> bool" where
  "violates_unique rows r = list_ex (\<lambda>row. or_id row = or_id r \<or> or_idempotency_key row = or_idempotency_key r
     \<or> (or_producer row = or_producer r \<and> or_producer_sequence row = or_producer_sequence r)) rows"

definition outbox_append :: "outbox \<Rightarrow> outbox_input \<Rightarrow> (string, outbox_event, outbox) outcome" where
  "outbox_append b i =
     (case List.find (\<lambda>row. or_idempotency_key row = oi_idempotencyKey i) (ob_rows b) of
        Some existing \<Rightarrow> (Inr (mapRow existing), b)
      | None \<Rightarrow> let row = new_row b i in
          if violates_unique (ob_rows b) row then (Inl ''UNIQUE constraint failed'', b)
          else (Inr (mapRow row), b\<lparr>ob_rows := ob_rows b @ [row]\<rparr>))"

definition outbox_pending :: "outbox \<Rightarrow> int \<Rightarrow> outbox_event list" where
  "outbox_pending b limit =
     (let rows = sort_key or_producer_sequence (filter (\<lambda>row. or_status row = Pending) (ob_rows b))
      in map mapRow (if limit < 0 then rows else take (nat limit) rows))"

definition outbox_acknowledge :: "outbox \<Rightarrow> ident \<Rightarrow> date \<Rightarrow> outbox" where
  "outbox_acknowledge b eventId now =
     b\<lparr>ob_rows := map (\<lambda>row. if or_id row = eventId
         then row\<lparr>or_status := Acknowledged, or_acknowledged_at := Some now\<rparr> else row) (ob_rows b)\<rparr>"

definition open_outbox :: "outbox_row list \<Rightarrow> string \<Rightarrow> outbox" where
  "open_outbox rows producer = \<lparr>ob_rows = rows, ob_producer = producer\<rparr>"

datatype outbox_call = Put outbox_input | Ack ident date

fun outbox_step :: "outbox \<Rightarrow> outbox_call \<Rightarrow> outbox" where
  "outbox_step b (Put i) = snd (outbox_append b i)"
| "outbox_step b (Ack e now) = outbox_acknowledge b e now"

definition outbox_run :: "outbox \<Rightarrow> outbox_call list \<Rightarrow> outbox" where
  "outbox_run b cs = foldl outbox_step b cs"

subsection \<open>The outbox is a numbered log\<close>

definition outbox_events :: "outbox \<Rightarrow> outbox_event list" where
  "outbox_events b = map mapRow (ob_rows b)"

definition outbox_ok :: "outbox \<Rightarrow> bool" where
  "outbox_ok b = (distinct (map or_idempotency_key (ob_rows b)) \<and> distinct (map or_id (ob_rows b))
     \<and> list_all (\<lambda>row. or_producer row = ob_producer b) (ob_rows b))"

lemma mapRow_fields [simp]:
  "oe_idempotencyKey (mapRow row) = or_idempotency_key row" "oe_id (mapRow row) = or_id row"
  "oe_producerSequence (mapRow row) = or_producer_sequence row" "oe_status (mapRow row) = or_status row"
  by (simp_all add: mapRow_def)

lemma event_keys: "oe_idempotencyKey ` set (outbox_events b) = or_idempotency_key ` set (ob_rows b)"
  by (simp add: outbox_events_def image_image)

lemma outbox_append_cases:
  obtains (old) row where "row \<in> set (ob_rows b)" "or_idempotency_key row = oi_idempotencyKey i"
      "outbox_append b i = (Inr (mapRow row), b)"
  | (failed) "oi_idempotencyKey i \<notin> or_idempotency_key ` set (ob_rows b)"
      "outbox_append b i = (Inl ''UNIQUE constraint failed'', b)"
  | (stored) "oi_idempotencyKey i \<notin> or_idempotency_key ` set (ob_rows b)"
      "\<not> violates_unique (ob_rows b) (new_row b i)"
      "outbox_append b i = (Inr (mapRow (new_row b i)), b\<lparr>ob_rows := ob_rows b @ [new_row b i]\<rparr>)"
proof (cases "List.find (\<lambda>row. or_idempotency_key row = oi_idempotencyKey i) (ob_rows b)")
  case None
  then have "oi_idempotencyKey i \<notin> or_idempotency_key ` set (ob_rows b)"
    unfolding find_None by force
  then show ?thesis
    using None failed stored by (cases "violates_unique (ob_rows b) (new_row b i)")
      (simp_all add: outbox_append_def Let_def)
next
  case (Some row)
  then show ?thesis using find_in_set [OF Some] by (intro old [of row]) (simp_all add: outbox_append_def)
qed

lemma outbox_known:
  assumes "outbox_ok b" "row \<in> set (ob_rows b)" "or_idempotency_key row = oi_idempotencyKey i"
  shows "outbox_append b i = (Inr (mapRow row), b)"
proof -
  have "List.find (\<lambda>r. or_idempotency_key r = oi_idempotencyKey i) (ob_rows b) = Some row"
    using assms by (intro find_unique) (auto simp: outbox_ok_def distinct_map inj_on_def)
  then show ?thesis by (simp add: outbox_append_def)
qed

lemma outbox_ok_append: "outbox_ok b \<Longrightarrow> outbox_ok (snd (outbox_append b i))"
  by (cases rule: outbox_append_cases [of b i])
    (auto simp: outbox_ok_def violates_unique_def new_row_def list_ex_iff)

lemma foldr_max_upt: "foldr max [Suc 0..<Suc n] 0 = n"
proof -
  have "foldr max [Suc 0..<Suc n] k = max n k" for k
    by (induction n arbitrary: k) auto
  then show ?thesis by simp
qed

interpretation ob: numbered_log outbox_append outbox_events oe_idempotencyKey oi_idempotencyKey outbox_ok
  oe_producerSequence "Suc 0"
proof unfold_locales
  fix b :: outbox and i :: outbox_input and x
  assume "outbox_ok b" "x \<in> set (outbox_events b)" "oe_idempotencyKey x = oi_idempotencyKey i"
  then show "outbox_append b i = (Inr x, b)" by (auto simp: outbox_events_def outbox_known)
next
  fix b b' :: outbox and i :: outbox_input and r
  assume "oi_idempotencyKey i \<notin> oe_idempotencyKey ` set (outbox_events b)" "outbox_append b i = (r, b')"
  then show "(\<exists>e. r = Inl e \<and> b' = b) \<or>
      (\<exists>x. r = Inr x \<and> oe_idempotencyKey x = oi_idempotencyKey i \<and> outbox_events b' = outbox_events b @ [x])"
    unfolding event_keys by (cases rule: outbox_append_cases [of b i])
      (auto simp: outbox_events_def new_row_def image_iff)
next
  fix b :: outbox and i :: outbox_input
  assume "outbox_ok b"
  then show "outbox_ok (snd (outbox_append b i))" by (rule outbox_ok_append)
next
  fix b :: outbox
  assume "outbox_ok b"
  then show "distinct (map oe_idempotencyKey (outbox_events b))"
    by (simp add: outbox_ok_def outbox_events_def comp_def)
next
  fix b b' :: outbox and i :: outbox_input and x
  assume ok: "outbox_ok b" and "oi_idempotencyKey i \<notin> oe_idempotencyKey ` set (outbox_events b)"
    and run: "outbox_append b i = (Inr x, b')"
    and num: "map oe_producerSequence (outbox_events b) = [Suc 0..<Suc 0 + length (outbox_events b)]"
  have "filter (\<lambda>row. or_producer row = ob_producer b) (ob_rows b) = ob_rows b"
    using ok by (simp add: outbox_ok_def list_all_iff)
  then have "next_sequence b = Suc 0 + length (outbox_events b)"
    using num foldr_max_upt [of "length (ob_rows b)"]
    by (simp add: next_sequence_def outbox_events_def comp_def del: upt_Suc)
  then show "oe_producerSequence x = Suc 0 + length (outbox_events b)"
    using run \<open>oi_idempotencyKey i \<notin> _\<close> unfolding event_keys
    by (cases rule: outbox_append_cases [of b i]) (auto simp: new_row_def image_iff)
qed

subsection \<open>Any sequence of calls\<close>

definition outbox_good :: "outbox \<Rightarrow> bool" where
  "outbox_good b = (outbox_ok b \<and> ob.gapless b)"

lemma outbox_good_open: "outbox_good (open_outbox [] producer)"
  by (simp add: outbox_good_def outbox_ok_def open_outbox_def ob.gapless_def outbox_events_def)

lemma ack_same [simp]:
  "map or_idempotency_key (ob_rows (outbox_acknowledge b e now)) = map or_idempotency_key (ob_rows b)"
  "map or_id (ob_rows (outbox_acknowledge b e now)) = map or_id (ob_rows b)"
  "map or_producer_sequence (ob_rows (outbox_acknowledge b e now)) = map or_producer_sequence (ob_rows b)"
  "length (ob_rows (outbox_acknowledge b e now)) = length (ob_rows b)"
  by (simp_all add: outbox_acknowledge_def)

lemma ack_producers:
  "list_all (\<lambda>row. or_producer row = p) (ob_rows (outbox_acknowledge b e now)) =
     list_all (\<lambda>row. or_producer row = p) (ob_rows b)"
  "ob_producer (outbox_acknowledge b e now) = ob_producer b"
  by (simp_all add: outbox_acknowledge_def list_all_length)

lemma gapless_iff:
  "ob.gapless b \<longleftrightarrow> map or_producer_sequence (ob_rows b) = [Suc 0..<Suc (length (ob_rows b))]"
  by (simp add: ob.gapless_def outbox_events_def comp_def del: upt_Suc)

lemma outbox_good_step: "outbox_good b \<Longrightarrow> outbox_good (outbox_step b c)"
proof (cases c)
  case (Put i)
  then show "outbox_good b \<Longrightarrow> ?thesis"
    using ob.gapless_append [of b i] by (simp add: outbox_good_def outbox_ok_append)
next
  case (Ack e now)
  then show "outbox_good b \<Longrightarrow> ?thesis"
    using ack_producers by (simp add: outbox_good_def gapless_iff outbox_ok_def del: upt_Suc)
qed

lemma outbox_run_simps [simp]:
  "outbox_run b [] = b" "outbox_run b (c # cs) = outbox_run (outbox_step b c) cs"
  by (simp_all add: outbox_run_def)

lemma outbox_good_run: "outbox_good b \<Longrightarrow> outbox_good (outbox_run b cs)"
  by (induction cs arbitrary: b) (auto simp: outbox_good_step)

lemma outbox_pending_eq:
  assumes "outbox_good b"
  shows "outbox_pending b limit = (let es = filter (\<lambda>e. oe_status e = Pending) (outbox_events b)
     in if limit < 0 then es else take (nat limit) es)"
proof -
  have "sorted (map or_producer_sequence (filter P (ob_rows b)))" for P
    using assms by (intro sorted_filter) (simp add: outbox_good_def gapless_iff del: upt_Suc)
  then show ?thesis
    by (simp add: outbox_pending_def sort_key_id_if_sorted outbox_events_def filter_map comp_def take_map Let_def)
qed

lemma event_stays:
  assumes "e \<in> set (outbox_events b)" "list_all (\<lambda>c. \<forall>now. c \<noteq> Ack (oe_id e) now) cs"
  shows "e \<in> set (outbox_events (outbox_run b cs))"
  using assms
proof (induction cs arbitrary: b)
  case (Cons c cs)
  have "e \<in> set (outbox_events (outbox_step b c))"
  proof (cases c)
    case (Put i)
    then show ?thesis
      using Cons.prems(1) by (cases rule: outbox_append_cases [of b i]) (auto simp: outbox_events_def)
  next
    case (Ack x now)
    then show ?thesis
      using Cons.prems by (force simp: outbox_events_def outbox_acknowledge_def)
  qed
  then show ?case using Cons by simp
qed simp

subsection \<open>Properties\<close>

text \<open>
  after any appends and acknowledgements on a new database the stored events are
  numbered 1, 2, 3 and so on without a gap, no two share an identifier or an idempotency key,
  and \<open>pending\<close> lists exactly the events not yet acknowledged, in the order they were stored,
  up to the limit.
\<close>

theorem outbox_numbers_without_gaps:
  "let b = outbox_run (open_outbox [] producer) cs; es = outbox_events b;
       waiting = filter (\<lambda>e. oe_status e = Pending) es in
   map oe_producerSequence es = [1..<1 + length es]
   \<and> distinct (map oe_id es) \<and> distinct (map oe_idempotencyKey es)
   \<and> outbox_pending b limit = (if limit < 0 then waiting else take (nat limit) waiting)"
proof -
  define b where "b = outbox_run (open_outbox [] producer) cs"
  have "outbox_good b" unfolding b_def by (intro outbox_good_run outbox_good_open)
  then show ?thesis
    using outbox_pending_eq [of b limit]
    by (simp add: b_def [symmetric] Let_def outbox_good_def gapless_iff outbox_ok_def outbox_events_def
        comp_def del: upt_Suc)
qed

text \<open>
  Property C28: delivery is at least once and appending is idempotent. An event that was
  appended stays pending, unchanged, through any further appends and acknowledgements of
  other events, and appending under its key again returns it and stores nothing.
\<close>

theorem outbox_keeps_until_acknowledged:
  assumes "outbox_append (outbox_run (open_outbox [] producer) cs) i = (Inr e, b)" and "oe_status e = Pending"
    and "list_all (\<lambda>c. \<forall>now. c \<noteq> Ack (oe_id e) now) ds" and "oi_idempotencyKey j = oi_idempotencyKey i"
  shows "e \<in> set (outbox_pending (outbox_run b ds) (- 1))
    \<and> outbox_append (outbox_run b ds) j = (Inr e, outbox_run b ds)"
proof -
  have good: "outbox_good (outbox_run (open_outbox [] producer) cs)"
    by (intro outbox_good_run outbox_good_open)
  then have b: "outbox_good b" using outbox_good_step [of _ "Put i"] assms(1) by fastforce
  have e: "e \<in> set (outbox_events b) \<and> oe_idempotencyKey e = oi_idempotencyKey i"
    by (rule ob.returned_logged [OF _ assms(1)]) (use good in \<open>simp add: outbox_good_def\<close>)
  have here: "e \<in> set (outbox_events (outbox_run b ds))" using e assms(3) by (blast intro: event_stays)
  have later: "outbox_good (outbox_run b ds)" by (rule outbox_good_run [OF b])
  have "outbox_append (outbox_run b ds) j = (Inr e, outbox_run b ds)"
    by (rule ob.known) (use later here e assms(4) in \<open>simp_all add: outbox_good_def\<close>)
  then show ?thesis using outbox_pending_eq [OF later, of "- 1"] here assms(2) by simp
qed

subsection \<open>A concrete run\<close>

definition sample_event :: "string \<Rightarrow> ident \<Rightarrow> outbox_input" where
  "sample_event k u = \<lparr>oi_topic = ''edge.ride.activated'', oi_payload = JObj [], oi_idempotencyKey = k,
     oi_uuid = u, oi_hrtime = 5\<rparr>"

theorem outbox_keeps_until_acknowledged_witness:
  "\<exists>e b. outbox_append (open_outbox [] ''edge'') (sample_event ''k'' ''u1'') = (Inr e, b)
     \<and> e \<in> set (outbox_pending (outbox_run b [Put (sample_event ''m'' ''u2''), Ack ''u2'' 9]) (- 1))"
proof -
  have run: "outbox_append (outbox_run (open_outbox [] ''edge'') []) (sample_event ''k'' ''u1'') =
      (Inr (mapRow (new_row (open_outbox [] ''edge'') (sample_event ''k'' ''u1''))),
       open_outbox [new_row (open_outbox [] ''edge'') (sample_event ''k'' ''u1'')] ''edge'')"
    by (simp add: outbox_append_def open_outbox_def violates_unique_def Let_def)
  then show ?thesis
    using outbox_keeps_until_acknowledged [OF run, of "[Put (sample_event ''m'' ''u2''), Ack ''u2'' 9]"
        "sample_event ''k'' ''u1''"]
    by (simp add: new_row_def sample_event_def)
qed

end
