(* ===== verification/EdgeApp.thy ===== *)
theory EdgeApp
  imports EdgeSafety EdgeOutbox
begin

section \<open>The HTTP handlers of the edge\<close>

text \<open>
  \<open>apps/edge/src/main.ts\<close>: each route is a function on the process state, which is the safety
  gate and the outbox. A handler that throws (the outbox insert) leaves the gate as it was
  changed before. Random identifiers and clock readings are arguments, in the order they are
  read; \<open>show_num\<close> is how a template string renders the sequence field of a request body.
\<close>

record edge =
  ed_safety :: safety_gate
  ed_outbox :: outbox

definition edge_start :: "outbox_row list \<Rightarrow> edge" where
  "edge_start rows = \<lparr>ed_safety = new_gate, ed_outbox = open_outbox rows ''edge-prague-neon''\<rparr>"

type_synonym 'a edge_result = "(string, 'a, edge) outcome"

definition edge_log :: "edge \<Rightarrow> string \<Rightarrow> json \<Rightarrow> string \<Rightarrow> ident \<Rightarrow> int \<Rightarrow> outbox_event edge_result" where
  "edge_log s topic payload key uuid ns =
     (case outbox_append (ed_outbox s) \<lparr>oi_topic = topic, oi_payload = payload, oi_idempotencyKey = key,
          oi_uuid = uuid, oi_hrtime = ns\<rparr> of
        (r, b) \<Rightarrow> (r, s\<lparr>ed_outbox := b\<rparr>))"

definition edge_activate :: "edge \<Rightarrow> ident \<Rightarrow> ident \<Rightarrow> int \<Rightarrow> (string \<times> outbox_event) edge_result" where
  "edge_activate s rideId uuid ns =
     (let s' = s\<lparr>ed_safety := activateRide (ed_safety s) rideId\<rparr> in
      case edge_log s' ''edge.ride.activated'' (JObj [(''rideId'', JStr rideId)])
          (''ride:'' @ rideId @ '':activated'') uuid ns of
        (Inl e, s'') \<Rightarrow> (Inl e, s'')
      | (Inr event, s'') \<Rightarrow> (Inr (''active'', event), s''))"

definition edge_control ::
  "(jsnum \<Rightarrow> string) \<Rightarrow> edge \<Rightarrow> control_input \<Rightarrow> int \<Rightarrow> ident \<Rightarrow> int \<Rightarrow> safety_decision edge_result" where
  "edge_control show_num s body ns1 uuid ns2 =
     (case gate_apply (ed_safety s) body (js_int (ns1 div 1000000)) of
        (decision, g) \<Rightarrow>
          let s' = s\<lparr>ed_safety := g\<rparr> in
          if \<not> sd_accepted decision then
            (case edge_log s' ''edge.control.rejected''
                (JObj [(''rideId'', JStr (ci_rideId body)), (''reason'', JStr (sd_reason decision))])
                (''control:'' @ ci_rideId body @ '':'' @ show_num (ci_sequence body) @ '':'' @ sd_reason decision)
                uuid ns2 of
               (Inl e, s'') \<Rightarrow> (Inl e, s'')
             | (Inr event, s'') \<Rightarrow> (Inr decision, s''))
          else (Inr decision, s'))"

definition decision_json :: "safety_decision \<Rightarrow> json" where
  "decision_json d = JObj [(''accepted'', JBool (sd_accepted d)), (''steering'', JNum (sd_steering d)),
     (''throttle'', JNum (sd_throttle d)), (''brake'', JNum (sd_brake d)), (''reason'', JStr (sd_reason d))]"

definition edge_stop_all ::
  "edge \<Rightarrow> string \<Rightarrow> string \<Rightarrow> ident \<Rightarrow> ident \<Rightarrow> int \<Rightarrow> (string \<times> safety_decision \<times> outbox_event) edge_result" where
  "edge_stop_all s reason actorId uuid1 uuid2 ns =
     (case gate_stop (ed_safety s) reason of
        (decision, g) \<Rightarrow>
          (case edge_log (s\<lparr>ed_safety := g\<rparr>) ''operator.stop_all''
              (JObj [(''actorId'', JStr actorId), (''reason'', JStr reason), (''decision'', decision_json decision)])
              (''operator-stop:'' @ uuid1) uuid2 ns of
             (Inl e, s') \<Rightarrow> (Inl e, s')
           | (Inr event, s') \<Rightarrow> (Inr (''stopped'', decision, event), s')))"

definition edge_get_outbox :: "edge \<Rightarrow> outbox_event list" where
  "edge_get_outbox s = outbox_pending (ed_outbox s) 100"

definition edge_health_ready :: "edge \<Rightarrow> string option \<Rightarrow> (string \<times> (bool \<times> bool) \<times> nat)" where
  "edge_health_ready s databaseUrl =
     (''ready'', (True, case databaseUrl of Some u \<Rightarrow> u \<noteq> [] | None \<Rightarrow> False),
      length (outbox_pending (ed_outbox s) 100))"

datatype edge_request =
    PostActivate ident ident int
  | PostControl control_input int ident int
  | PostStopAll string string ident ident int

fun edge_step :: "(jsnum \<Rightarrow> string) \<Rightarrow> edge \<Rightarrow> edge_request \<Rightarrow> edge" where
  "edge_step show_num s (PostActivate r uuid ns) = snd (edge_activate s r uuid ns)"
| "edge_step show_num s (PostControl body ns1 uuid ns2) = snd (edge_control show_num s body ns1 uuid ns2)"
| "edge_step show_num s (PostStopAll reason actor uuid1 uuid2 ns) = snd (edge_stop_all s reason actor uuid1 uuid2 ns)"

definition edge_run :: "(jsnum \<Rightarrow> string) \<Rightarrow> edge \<Rightarrow> edge_request list \<Rightarrow> edge" where
  "edge_run show_num s rs = foldl (edge_step show_num) s rs"

lemma edge_run_simps [simp]:
  "edge_run f s [] = s" "edge_run f s (r # rs) = edge_run f (edge_step f s r) rs"
  by (simp_all add: edge_run_def)

subsection \<open>What a request does to the gate and the outbox\<close>

lemma edge_log_gate [simp]: "ed_safety (snd (edge_log s topic payload key uuid ns)) = ed_safety s"
  by (simp add: edge_log_def split: prod.splits)

lemma edge_log_outbox:
  "ed_outbox (snd (edge_log s topic payload key uuid ns)) = outbox_step (ed_outbox s)
     (Put \<lparr>oi_topic = topic, oi_payload = payload, oi_idempotencyKey = key, oi_uuid = uuid, oi_hrtime = ns\<rparr>)"
  by (simp add: edge_log_def split: prod.splits)

lemma edge_activate_gate [simp]:
  "ed_safety (snd (edge_activate s r uuid ns)) = activateRide (ed_safety s) r"
  by (auto simp: edge_activate_def Let_def edge_log_def split: prod.splits sum.splits)

lemma edge_control_gate [simp]:
  "ed_safety (snd (edge_control f s body ns1 uuid ns2)) =
     snd (gate_apply (ed_safety s) body (js_int (ns1 div 1000000)))"
  by (auto simp: edge_control_def Let_def edge_log_def split: prod.splits sum.splits)

lemma edge_stop_all_gate [simp]:
  "ed_safety (snd (edge_stop_all s reason actor uuid1 uuid2 ns)) = snd (gate_stop (ed_safety s) reason)"
  by (auto simp: edge_stop_all_def edge_log_def split: prod.splits sum.splits)

text \<open>The gate of the process runs as the gate on its own does, with one call per request.\<close>

fun gate_call_of :: "edge_request \<Rightarrow> gate_call" where
  "gate_call_of (PostActivate r uuid ns) = Activate r"
| "gate_call_of (PostControl body ns1 uuid ns2) = Control body (js_int (ns1 div 1000000))"
| "gate_call_of (PostStopAll reason actor uuid1 uuid2 ns) = Stop reason"

lemma edge_step_gate: "ed_safety (edge_step f s r) = fst (gate_step (ed_safety s, lg) (gate_call_of r))"
  by (cases r) (simp_all add: case_prod_beta Let_def)

lemma edge_run_gate: "ed_safety (edge_run f s rs) = fst (gate_run (ed_safety s, lg) (map gate_call_of rs))"
proof (induction rs arbitrary: s lg)
  case (Cons r rs)
  obtain g lg' where g: "gate_step (ed_safety s, lg) (gate_call_of r) = (g, lg')" by fastforce
  then have "ed_safety (edge_step f s r) = g" using edge_step_gate [of f s r lg] by simp
  then show ?case using Cons.IH [of "edge_step f s r" lg'] g by simp
qed simp

text \<open>A request appends at most once to the outbox and acknowledges nothing.\<close>

fun is_put :: "outbox_call \<Rightarrow> bool" where
  "is_put (Put i) = True"
| "is_put (Ack e now) = False"

lemma edge_step_outbox: "\<exists>cs. list_all is_put cs \<and> ed_outbox (edge_step f s r) = outbox_run (ed_outbox s) cs"
proof -
  have put: "list_all is_put [Put i] \<and> outbox_step b (Put i) = outbox_run b [Put i]" for b i by simp
  show ?thesis
  proof (cases r)
    case (PostActivate x uuid ns)
    then show ?thesis
      by (intro exI [of _ "[Put \<lparr>oi_topic = ''edge.ride.activated'', oi_payload = JObj [(''rideId'', JStr x)],
          oi_idempotencyKey = ''ride:'' @ x @ '':activated'', oi_uuid = uuid, oi_hrtime = ns\<rparr>]"])
        (auto simp: edge_activate_def Let_def edge_log_def split: prod.splits sum.splits)
  next
    case (PostControl body ns1 uuid ns2)
    obtain d g where d: "gate_apply (ed_safety s) body (js_int (ns1 div 1000000)) = (d, g)" by fastforce
    show ?thesis
    proof (cases "sd_accepted d")
      case True
      then show ?thesis using PostControl d by (intro exI [of _ "[]"]) (simp add: edge_control_def)
    next
      case False
      then show ?thesis
        using PostControl d by (intro exI [of _ "[Put \<lparr>oi_topic = ''edge.control.rejected'',
            oi_payload = JObj [(''rideId'', JStr (ci_rideId body)), (''reason'', JStr (sd_reason d))],
            oi_idempotencyKey = ''control:'' @ ci_rideId body @ '':'' @ f (ci_sequence body) @ '':'' @ sd_reason d,
            oi_uuid = uuid, oi_hrtime = ns2\<rparr>]"])
          (auto simp: edge_control_def Let_def edge_log_def split: prod.splits sum.splits)
    qed
  next
    case (PostStopAll reason actor uuid1 uuid2 ns)
    then show ?thesis
      by (intro exI [of _ "[Put \<lparr>oi_topic = ''operator.stop_all'',
          oi_payload = JObj [(''actorId'', JStr actor), (''reason'', JStr reason),
            (''decision'', decision_json (fst (gate_stop (ed_safety s) reason)))],
          oi_idempotencyKey = ''operator-stop:'' @ uuid1, oi_uuid = uuid2, oi_hrtime = ns\<rparr>]"])
        (auto simp: edge_stop_all_def edge_log_def split: prod.splits sum.splits)
  qed
qed

lemma outbox_run_append: "outbox_run b (cs @ ds) = outbox_run (outbox_run b cs) ds"
  by (simp add: outbox_run_def)

lemma edge_run_outbox: "\<exists>cs. list_all is_put cs \<and> ed_outbox (edge_run f s rs) = outbox_run (ed_outbox s) cs"
proof (induction rs arbitrary: s)
  case (Cons r rs)
  obtain cs where cs: "list_all is_put cs" "ed_outbox (edge_step f s r) = outbox_run (ed_outbox s) cs"
    using edge_step_outbox by blast
  obtain ds where ds: "list_all is_put ds" "ed_outbox (edge_run f (edge_step f s r) rs) =
      outbox_run (ed_outbox (edge_step f s r)) ds"
    using Cons.IH by blast
  show ?case using cs ds by (intro exI [of _ "cs @ ds"]) (simp add: outbox_run_append)
qed (auto intro: exI [of _ "[]"])

lemma edge_good: "outbox_good (ed_outbox s) \<Longrightarrow> outbox_good (ed_outbox (edge_run f s rs))"
  using edge_run_outbox outbox_good_run by metis

lemma edge_good_start: "outbox_good (ed_outbox (edge_start []))"
  by (simp add: edge_start_def outbox_good_open)

lemma edge_event_stays:
  "e \<in> set (outbox_events (ed_outbox s)) \<Longrightarrow> e \<in> set (outbox_events (ed_outbox (edge_run f s rs)))"
proof -
  assume e: "e \<in> set (outbox_events (ed_outbox s))"
  obtain cs where cs: "list_all is_put cs" "ed_outbox (edge_run f s rs) = outbox_run (ed_outbox s) cs"
    using edge_run_outbox by blast
  have "list_all (\<lambda>c. \<forall>now. c \<noteq> Ack (oe_id e) now) cs" using cs(1) by (auto simp: list_all_iff)
  then show ?thesis using event_stays e cs(2) by metis
qed

subsection \<open>Properties\<close>

text \<open>
  Property C24: the stop button of the operator works for the whole process. After a stop-all
  request, even one whose outbox insert failed, and until a ride is activated again, every
  control request that is answered is answered with a refusal: full brake, no throttle.
\<close>

theorem stop_all_holds_until_activation:
  assumes "list_all (\<lambda>r. \<not> activates (gate_call_of r)) rs"
  shows "case edge_control f (edge_run f (snd (edge_stop_all s reason actor u1 u2 ns)) rs) body t u t' of
    (Inl e, s') \<Rightarrow> sg_operatorStop (ed_safety s')
  | (Inr d, s') \<Rightarrow> \<not> sd_accepted d \<and> sd_throttle d = js_int 0 \<and> sd_brake d = js_int 1000
      \<and> sg_operatorStop (ed_safety s')"
proof -
  let ?s = "edge_run f (snd (edge_stop_all s reason actor u1 u2 ns)) rs"
  have calls: "list_all (\<lambda>c. \<not> activates c) (map gate_call_of rs)"
    using assms by (simp add: list_all_iff)
  have "ed_safety ?s = snd (gate_stop (ed_safety s) reason)"
    using stop_latched_run [OF _ calls, of "snd (gate_stop (ed_safety s) reason)" "[]"]
    by (simp add: edge_run_gate [where lg = "[]"] gate_stop_def)
  then have "gate_apply (ed_safety ?s) body (js_int (t div 1000000)) =
      gate_stop (snd (gate_stop (ed_safety s) reason)) ''latched''"
    by (simp add: gate_apply_def gate_stop_def)
  then show ?thesis
    by (auto simp: edge_control_def gate_stop_def edge_log_def Let_def split: prod.splits sum.splits)
qed

text \<open>
  activating a ride again is never recorded. After an activation was answered,
  whatever requests come between (an operator's stop among them), the second activation of the
  same ride clears the stop and the replay guard, and leaves the outbox exactly as it was: it
  returns the event of the first one.
\<close>

theorem reactivation_leaves_no_trace:
  assumes "edge_activate (edge_run f (edge_start []) rs) r u ns = (Inr (status, event), s)"
  shows "\<exists>s'. edge_activate (edge_run f s qs) r u' ns' = (Inr (''active'', event), s')
     \<and> ed_outbox s' = ed_outbox (edge_run f s qs) \<and> \<not> sg_operatorStop (ed_safety s')
     \<and> sg_lastSequence (ed_safety s') = js_int (- 1) \<and> sg_activeRideId (ed_safety s') = Some r"
proof -
  let ?i = "\<lambda>u ns. \<lparr>oi_topic = ''edge.ride.activated'', oi_payload = JObj [(''rideId'', JStr r)],
    oi_idempotencyKey = ''ride:'' @ r @ '':activated'', oi_uuid = u, oi_hrtime = ns\<rparr>"
  have good: "outbox_good (ed_outbox (edge_run f (edge_start []) rs))" by (intro edge_good edge_good_start)
  have app: "outbox_append (ed_outbox (edge_run f (edge_start []) rs)) (?i u ns) = (Inr event, ed_outbox s)"
    using assms by (auto simp: edge_activate_def Let_def edge_log_def split: prod.splits sum.splits)
  have e: "event \<in> set (outbox_events (ed_outbox s)) \<and> oe_idempotencyKey event = ''ride:'' @ r @ '':activated''"
    using ob.returned_logged [OF _ app] good by (simp add: outbox_good_def)
  have s: "outbox_good (ed_outbox s)" using outbox_good_step [OF good, of "Put (?i u ns)"] app by simp
  have here: "event \<in> set (outbox_events (ed_outbox (edge_run f s qs)))" using e by (blast intro: edge_event_stays)
  have "outbox_append (ed_outbox (edge_run f s qs)) (?i u' ns') = (Inr event, ed_outbox (edge_run f s qs))"
    by (rule ob.known) (use edge_good [OF s, of f qs] here e in \<open>simp_all add: outbox_good_def\<close>)
  then show ?thesis
    by (simp add: edge_activate_def Let_def edge_log_def activateRide_def)
qed

subsection \<open>Concrete runs\<close>

definition sample_edge :: edge where
  "sample_edge = snd (edge_activate (edge_start []) ''r'' ''u1'' 1)"

theorem stop_all_holds_until_activation_witness:
  "case edge_control (\<lambda>n. ''1'') (edge_run (\<lambda>n. ''1'') (snd (edge_stop_all sample_edge ''people'' ''op'' ''u2'' ''u3'' 2))
      [PostControl (sample_command ''r'' (js_int 1) 700 10) 20000000 ''u4'' 3])
      (sample_command ''r'' (js_int 2) 700 10) 20000000 ''u5'' 4 of
    (Inl e, s') \<Rightarrow> sg_operatorStop (ed_safety s')
  | (Inr d, s') \<Rightarrow> \<not> sd_accepted d \<and> sd_throttle d = js_int 0 \<and> sd_brake d = js_int 1000
      \<and> sg_operatorStop (ed_safety s')"
  by (rule stop_all_holds_until_activation) simp

theorem reactivation_leaves_no_trace_witness:
  "\<exists>event s'. edge_activate (edge_run (\<lambda>n. ''1'') sample_edge [PostStopAll ''people'' ''op'' ''u2'' ''u3'' 2]) ''r'' ''u4'' 9 =
       (Inr (''active'', event), s') \<and> \<not> sg_operatorStop (ed_safety s')"
proof -
  have first: "edge_activate (edge_run (\<lambda>n. ''1'') (edge_start []) []) ''r'' ''u1'' 1 =
     (Inr (''active'', mapRow (new_row (open_outbox [] ''edge-prague-neon'')
        \<lparr>oi_topic = ''edge.ride.activated'', oi_payload = JObj [(''rideId'', JStr ''r'')],
         oi_idempotencyKey = ''ride:r:activated'', oi_uuid = ''u1'', oi_hrtime = 1\<rparr>)), sample_edge)"
    by (simp add: sample_edge_def edge_activate_def edge_start_def edge_log_def outbox_append_def open_outbox_def
        violates_unique_def Let_def)
  from reactivation_leaves_no_trace [OF first] show ?thesis by blast
qed

end
