(* ===== verification/DeviceGateway.thy ===== *)
theory DeviceGateway
  imports JsNumber "HOL-Library.Monad_Syntax"
begin

section \<open>The message contracts of the device gateway\<close>

text \<open>
  \<open>packages/contracts/src/device-gateway.ts\<close>: the messages of devices and browsers to the
  gateway and back, and the schemas the gateway parses what it receives with. The four
  messages both directions share, which the gateway passes on, are a datatype of their own,
  as the type \<open>RelayMessage\<close> of the gateway is. A schema is a function from a JSON value to
  the value it accepts. \<open>uuid\<close> is the validation library's test for identifiers.
\<close>

datatype relay_message =
    SignalOffer ident string
  | SignalAnswer ident string
  | SignalIce ident "string option" "string option" "int option"
  | SessionEnd ident string

record device_capabilities =
  dc_controlProtocolVersion :: "int option"
  dc_otaRuntimeGeneration :: "int option"

record device_health =
  dh_cameraReady :: bool
  dh_gpioReady :: bool
  dh_watchdogReady :: bool
  dh_width :: int
  dh_height :: int
  dh_fps :: int
  dh_cpuTemperatureC :: "rat option"
  dh_wifiSignalDbm :: "int option"
  dh_batteryVoltage :: "rat option option"
  dh_batteryPercent :: "int option option"

datatype ice_urls = Url string | Urls "string list"

record ice_server =
  is_urls :: ice_urls
  is_username :: "string option"
  is_credential :: "string option"

datatype update_progress = Downloading | Applying | Failed

datatype client_message =
    DeviceAuthenticate ident string string "device_capabilities option"
  | DeviceHeartbeat device_health
  | BrowserAuthenticate string
  | SessionConnected ident
  | Relay relay_message
  | DeviceUpdateStatus ident update_progress "string option"

datatype peer_kind = Device_peer | Browser_peer

record update_offer =
  uo_updateId :: ident
  uo_version :: string
  uo_runtimeGeneration :: int
  uo_artifactUrl :: string
  uo_artifactSizeBytes :: int
  uo_digestSha256 :: string
  uo_signature :: string

datatype server_message =
    AuthAccepted peer_kind
  | AuthRejected string
  | SessionStart ident ident date "ice_server list"
  | Relayed relay_message
  | UpdateAvailable update_offer
  | Telemetry ident "rat option" "int option"
  | ErrorMessage string string

fun relay_sessionId :: "relay_message \<Rightarrow> ident" where
  "relay_sessionId (SignalOffer s sdp) = s"
| "relay_sessionId (SignalAnswer s sdp) = s"
| "relay_sessionId (SignalIce s c m i) = s"
| "relay_sessionId (SessionEnd s r) = s"

subsection \<open>Schemas\<close>

text \<open>The combinators the schemas are written with, on an optional property of an object.\<close>

type_synonym 'a schema = "json option \<Rightarrow> 'a option"

fun z_string :: "nat \<Rightarrow> nat \<Rightarrow> string schema" where
  "z_string lo hi (Some (JStr s)) = (if lo \<le> length s \<and> length s \<le> hi then Some s else None)"
| "z_string lo hi j = None"

fun z_test :: "(string \<Rightarrow> bool) \<Rightarrow> string schema" where
  "z_test p (Some (JStr s)) = (if p s then Some s else None)"
| "z_test p j = None"

fun z_boolean :: "bool schema" where
  "z_boolean (Some (JBool b)) = Some b"
| "z_boolean j = None"

fun z_int :: "int \<Rightarrow> int \<Rightarrow> int schema" where
  "z_int lo hi (Some (JNum (Fin q))) =
     (if of_int \<lfloor>q\<rfloor> = q \<and> lo \<le> \<lfloor>q\<rfloor> \<and> \<lfloor>q\<rfloor> \<le> hi then Some \<lfloor>q\<rfloor> else None)"
| "z_int lo hi j = None"

fun z_number :: "rat \<Rightarrow> rat \<Rightarrow> rat schema" where
  "z_number lo hi (Some (JNum (Fin q))) = (if lo \<le> q \<and> q \<le> hi then Some q else None)"
| "z_number lo hi j = None"

fun z_nullable :: "'a schema \<Rightarrow> 'a option schema" where
  "z_nullable p (Some JNull) = Some None"
| "z_nullable p j = map_option Some (p j)"

fun z_optional :: "'a schema \<Rightarrow> 'a option schema" where
  "z_optional p None = Some None"
| "z_optional p j = map_option Some (p j)"

text \<open>A strict object: no property but those named.\<close>

definition z_strict :: "string list \<Rightarrow> (string \<times> json) list \<Rightarrow> unit option" where
  "z_strict names fs = (if list_all (\<lambda>(k, v). k \<in> set names) fs then Some () else None)"

definition shortText :: "string schema" where
  "shortText = z_string 1 256"

fun DeviceCapabilitiesSchema :: "device_capabilities schema" where
  "DeviceCapabilitiesSchema (Some (JObj fs)) = do {
     z_strict [''controlProtocolVersion'', ''otaRuntimeGeneration''] fs;
     v \<leftarrow> z_optional (z_int 4 5) (map_of fs ''controlProtocolVersion'');
     g \<leftarrow> z_optional (z_int 1 32767) (map_of fs ''otaRuntimeGeneration'');
     Some \<lparr>dc_controlProtocolVersion = v, dc_otaRuntimeGeneration = g\<rparr>
   }"
| "DeviceCapabilitiesSchema j = None"

fun DeviceHealthSchema :: "device_health schema" where
  "DeviceHealthSchema (Some (JObj fs)) = do {
     z_strict [''cameraReady'', ''gpioReady'', ''watchdogReady'', ''width'', ''height'', ''fps'',
       ''cpuTemperatureC'', ''wifiSignalDbm'', ''batteryVoltage'', ''batteryPercent''] fs;
     camera \<leftarrow> z_boolean (map_of fs ''cameraReady'');
     gpio \<leftarrow> z_boolean (map_of fs ''gpioReady'');
     watchdog \<leftarrow> z_boolean (map_of fs ''watchdogReady'');
     width \<leftarrow> z_int 1 4096 (map_of fs ''width'');
     height \<leftarrow> z_int 1 2160 (map_of fs ''height'');
     fps \<leftarrow> z_int 1 120 (map_of fs ''fps'');
     cpu \<leftarrow> z_nullable (z_number (- 20) 120) (map_of fs ''cpuTemperatureC'');
     wifi \<leftarrow> z_nullable (z_int (- 120) 0) (map_of fs ''wifiSignalDbm'');
     voltage \<leftarrow> z_optional (z_nullable (z_number 0 16)) (map_of fs ''batteryVoltage'');
     percent \<leftarrow> z_optional (z_nullable (z_int 0 100)) (map_of fs ''batteryPercent'');
     Some \<lparr>dh_cameraReady = camera, dh_gpioReady = gpio, dh_watchdogReady = watchdog,
       dh_width = width, dh_height = height, dh_fps = fps, dh_cpuTemperatureC = cpu,
       dh_wifiSignalDbm = wifi, dh_batteryVoltage = voltage, dh_batteryPercent = percent\<rparr>
   }"
| "DeviceHealthSchema j = None"

definition progress_of_string :: "string \<Rightarrow> update_progress option" where
  "progress_of_string s = (if s = ''downloading'' then Some Downloading
     else if s = ''applying'' then Some Applying else if s = ''failed'' then Some Failed else None)"

text \<open>The union is discriminated by the property \<open>type\<close>; every member is strict and of version 1.\<close>

fun GatewayClientMessageSchema :: "(string \<Rightarrow> bool) \<Rightarrow> json \<Rightarrow> client_message option" where
  "GatewayClientMessageSchema uuid (JObj fs) = do {
     z_int 1 1 (map_of fs ''v'');
     kind \<leftarrow> z_test (\<lambda>s. True) (map_of fs ''type'');
     if kind = ''device.authenticate'' then do {
       z_strict [''v'', ''type'', ''deviceId'', ''secret'', ''agentVersion'', ''capabilities''] fs;
       d \<leftarrow> z_test uuid (map_of fs ''deviceId'');
       s \<leftarrow> z_string 32 256 (map_of fs ''secret'');
       a \<leftarrow> z_string 1 64 (map_of fs ''agentVersion'');
       c \<leftarrow> z_optional DeviceCapabilitiesSchema (map_of fs ''capabilities'');
       Some (DeviceAuthenticate d s a c) }
     else if kind = ''device.heartbeat'' then do {
       z_strict [''v'', ''type'', ''health''] fs;
       h \<leftarrow> DeviceHealthSchema (map_of fs ''health'');
       Some (DeviceHeartbeat h) }
     else if kind = ''browser.authenticate'' then do {
       z_strict [''v'', ''type'', ''ticket''] fs;
       t \<leftarrow> z_string 32 4096 (map_of fs ''ticket'');
       Some (BrowserAuthenticate t) }
     else if kind = ''session.connected'' then do {
       z_strict [''v'', ''type'', ''sessionId''] fs;
       s \<leftarrow> z_test uuid (map_of fs ''sessionId'');
       Some (SessionConnected s) }
     else if kind = ''signal.offer'' then do {
       z_strict [''v'', ''type'', ''sessionId'', ''sdp''] fs;
       s \<leftarrow> z_test uuid (map_of fs ''sessionId'');
       d \<leftarrow> z_string 1 1000000 (map_of fs ''sdp'');
       Some (Relay (SignalOffer s d)) }
     else if kind = ''signal.answer'' then do {
       z_strict [''v'', ''type'', ''sessionId'', ''sdp''] fs;
       s \<leftarrow> z_test uuid (map_of fs ''sessionId'');
       d \<leftarrow> z_string 1 1000000 (map_of fs ''sdp'');
       Some (Relay (SignalAnswer s d)) }
     else if kind = ''signal.ice'' then do {
       z_strict [''v'', ''type'', ''sessionId'', ''candidate'', ''sdpMid'', ''sdpMLineIndex''] fs;
       s \<leftarrow> z_test uuid (map_of fs ''sessionId'');
       c \<leftarrow> z_nullable (z_string 0 4096) (map_of fs ''candidate'');
       m \<leftarrow> z_nullable (z_string 0 256) (map_of fs ''sdpMid'');
       i \<leftarrow> z_nullable (z_int 0 128) (map_of fs ''sdpMLineIndex'');
       Some (Relay (SignalIce s c m i)) }
     else if kind = ''session.end'' then do {
       z_strict [''v'', ''type'', ''sessionId'', ''reason''] fs;
       s \<leftarrow> z_test uuid (map_of fs ''sessionId'');
       r \<leftarrow> shortText (map_of fs ''reason'');
       Some (Relay (SessionEnd s r)) }
     else if kind = ''device.update.status'' then do {
       z_strict [''v'', ''type'', ''updateId'', ''status'', ''reason''] fs;
       u \<leftarrow> z_test uuid (map_of fs ''updateId'');
       t \<leftarrow> z_test (\<lambda>s. True) (map_of fs ''status'');
       p \<leftarrow> progress_of_string t;
       r \<leftarrow> z_optional (z_string 1 256) (map_of fs ''reason'');
       Some (DeviceUpdateStatus u p r) }
     else None
   }"
| "GatewayClientMessageSchema uuid j = None"

subsection \<open>What a sender writes\<close>

text \<open>The JSON value of a typed message: absent properties are left out, null ones written.\<close>

definition j_opt :: "string \<Rightarrow> ('a \<Rightarrow> json) \<Rightarrow> 'a option \<Rightarrow> (string \<times> json) list" where
  "j_opt k f v = (case v of None \<Rightarrow> [] | Some x \<Rightarrow> [(k, f x)])"

definition j_null :: "('a \<Rightarrow> json) \<Rightarrow> 'a option \<Rightarrow> json" where
  "j_null f v = (case v of None \<Rightarrow> JNull | Some x \<Rightarrow> f x)"

definition j_int :: "int \<Rightarrow> json" where
  "j_int i = JNum (js_int i)"

definition j_rat :: "rat \<Rightarrow> json" where
  "j_rat q = JNum (Fin q)"

definition capabilities_json :: "device_capabilities \<Rightarrow> json" where
  "capabilities_json c = JObj (j_opt ''controlProtocolVersion'' j_int (dc_controlProtocolVersion c)
     @ j_opt ''otaRuntimeGeneration'' j_int (dc_otaRuntimeGeneration c))"

definition health_json :: "device_health \<Rightarrow> json" where
  "health_json h = JObj ([(''cameraReady'', JBool (dh_cameraReady h)), (''gpioReady'', JBool (dh_gpioReady h)),
     (''watchdogReady'', JBool (dh_watchdogReady h)), (''width'', j_int (dh_width h)),
     (''height'', j_int (dh_height h)), (''fps'', j_int (dh_fps h)),
     (''cpuTemperatureC'', j_null j_rat (dh_cpuTemperatureC h)),
     (''wifiSignalDbm'', j_null j_int (dh_wifiSignalDbm h))]
     @ j_opt ''batteryVoltage'' (j_null j_rat) (dh_batteryVoltage h)
     @ j_opt ''batteryPercent'' (j_null j_int) (dh_batteryPercent h))"

fun progress_string :: "update_progress \<Rightarrow> string" where
  "progress_string Downloading = ''downloading''"
| "progress_string Applying = ''applying''"
| "progress_string Failed = ''failed''"

definition j_message :: "string \<Rightarrow> (string \<times> json) list \<Rightarrow> json" where
  "j_message kind fs = JObj ([(''v'', j_int 1), (''type'', JStr kind)] @ fs)"

fun relay_json :: "relay_message \<Rightarrow> json" where
  "relay_json (SignalOffer s d) = j_message ''signal.offer'' [(''sessionId'', JStr s), (''sdp'', JStr d)]"
| "relay_json (SignalAnswer s d) = j_message ''signal.answer'' [(''sessionId'', JStr s), (''sdp'', JStr d)]"
| "relay_json (SignalIce s c m i) = j_message ''signal.ice''
     [(''sessionId'', JStr s), (''candidate'', j_null JStr c), (''sdpMid'', j_null JStr m), (''sdpMLineIndex'', j_null j_int i)]"
| "relay_json (SessionEnd s r) = j_message ''session.end'' [(''sessionId'', JStr s), (''reason'', JStr r)]"

fun client_json :: "client_message \<Rightarrow> json" where
  "client_json (DeviceAuthenticate d s a c) = j_message ''device.authenticate''
     ([(''deviceId'', JStr d), (''secret'', JStr s), (''agentVersion'', JStr a)] @ j_opt ''capabilities'' capabilities_json c)"
| "client_json (DeviceHeartbeat h) = j_message ''device.heartbeat'' [(''health'', health_json h)]"
| "client_json (BrowserAuthenticate t) = j_message ''browser.authenticate'' [(''ticket'', JStr t)]"
| "client_json (SessionConnected s) = j_message ''session.connected'' [(''sessionId'', JStr s)]"
| "client_json (Relay r) = relay_json r"
| "client_json (DeviceUpdateStatus u p r) = j_message ''device.update.status''
     ([(''updateId'', JStr u), (''status'', JStr (progress_string p))] @ j_opt ''reason'' JStr r)"

subsection \<open>The messages the contract allows\<close>

definition len_ok :: "nat \<Rightarrow> nat \<Rightarrow> string \<Rightarrow> bool" where
  "len_ok lo hi s = (lo \<le> length s \<and> length s \<le> hi)"

definition int_ok :: "int \<Rightarrow> int \<Rightarrow> int \<Rightarrow> bool" where
  "int_ok lo hi i = (lo \<le> i \<and> i \<le> hi)"

definition rat_ok :: "rat \<Rightarrow> rat \<Rightarrow> rat \<Rightarrow> bool" where
  "rat_ok lo hi q = (lo \<le> q \<and> q \<le> hi)"

definition capabilities_ok :: "device_capabilities \<Rightarrow> bool" where
  "capabilities_ok c = (pred_option (int_ok 4 5) (dc_controlProtocolVersion c)
     \<and> pred_option (int_ok 1 32767) (dc_otaRuntimeGeneration c))"

definition health_ok :: "device_health \<Rightarrow> bool" where
  "health_ok h = (int_ok 1 4096 (dh_width h) \<and> int_ok 1 2160 (dh_height h) \<and> int_ok 1 120 (dh_fps h)
     \<and> pred_option (rat_ok (- 20) 120) (dh_cpuTemperatureC h)
     \<and> pred_option (int_ok (- 120) 0) (dh_wifiSignalDbm h)
     \<and> pred_option (pred_option (rat_ok 0 16)) (dh_batteryVoltage h)
     \<and> pred_option (pred_option (int_ok 0 100)) (dh_batteryPercent h))"

fun relay_ok :: "(string \<Rightarrow> bool) \<Rightarrow> relay_message \<Rightarrow> bool" where
  "relay_ok uuid (SignalOffer s d) = (uuid s \<and> len_ok 1 1000000 d)"
| "relay_ok uuid (SignalAnswer s d) = (uuid s \<and> len_ok 1 1000000 d)"
| "relay_ok uuid (SignalIce s c m i) = (uuid s \<and> pred_option (len_ok 0 4096) c
     \<and> pred_option (len_ok 0 256) m \<and> pred_option (int_ok 0 128) i)"
| "relay_ok uuid (SessionEnd s r) = (uuid s \<and> len_ok 1 256 r)"

fun client_ok :: "(string \<Rightarrow> bool) \<Rightarrow> client_message \<Rightarrow> bool" where
  "client_ok uuid (DeviceAuthenticate d s a c) =
     (uuid d \<and> len_ok 32 256 s \<and> len_ok 1 64 a \<and> pred_option capabilities_ok c)"
| "client_ok uuid (DeviceHeartbeat h) = health_ok h"
| "client_ok uuid (BrowserAuthenticate t) = len_ok 32 4096 t"
| "client_ok uuid (SessionConnected s) = uuid s"
| "client_ok uuid (Relay r) = relay_ok uuid r"
| "client_ok uuid (DeviceUpdateStatus u p r) = (uuid u \<and> pred_option (len_ok 1 256) r)"

subsection \<open>Schemas accept what is allowed and nothing else\<close>

lemma z_string_JStr [simp]: "z_string lo hi (Some (JStr s)) = (if len_ok lo hi s then Some s else None)"
  by (simp add: len_ok_def)

declare z_string.simps(1) [simp del]

lemma int_ok_refl [simp]: "int_ok i i i"
  by (simp add: int_ok_def)

lemma z_int_j_int [simp]: "z_int lo hi (Some (j_int i)) = (if int_ok lo hi i then Some i else None)"
  by (simp add: j_int_def js_int_def int_ok_def)

lemma z_number_j_rat [simp]: "z_number lo hi (Some (j_rat q)) = (if rat_ok lo hi q then Some q else None)"
  by (simp add: j_rat_def rat_ok_def)

lemma not_null [simp]: "j_int i \<noteq> JNull" "j_rat q \<noteq> JNull" "JNull \<noteq> j_int i" "JNull \<noteq> j_rat q"
  by (simp_all add: j_int_def j_rat_def)

lemma z_nullable_j_null:
  assumes "\<And>x. f x \<noteq> JNull" "\<And>x. p (Some (f x)) = (if ok x then Some x else None)"
  shows "z_nullable p (Some (j_null f v)) = (if pred_option ok v then Some v else None)"
proof (cases v)
  case (Some x)
  show ?thesis using assms(1) [of x] assms(2) [of x] Some
    by (cases "f x") (auto simp: j_null_def)
qed (simp add: j_null_def)

lemmas z_nullable_simps [simp] =
  z_nullable_j_null [where f = j_int and p = "z_int lo hi" and ok = "int_ok lo hi" for lo hi, OF not_null(1) z_int_j_int]
  z_nullable_j_null [where f = j_rat and p = "z_number lo hi" and ok = "rat_ok lo hi" for lo hi, OF not_null(2) z_number_j_rat]
  z_nullable_j_null [where f = JStr and p = "z_string lo hi" and ok = "len_ok lo hi" for lo hi, OF json.distinct(5) [symmetric] z_string_JStr]

lemma map_of_j_opt [simp]:
  "map_of (j_opt k f v) k' = (if k' = k then map_option f v else None)"
  by (cases v) (auto simp: j_opt_def)

lemma map_of_j_opt_append [simp]:
  "m k = None \<Longrightarrow> (m ++ map_of (j_opt k f v)) k' = (if k' = k then map_option f v else m k')"
  by (cases v) (auto simp: j_opt_def map_add_def)

lemma z_strict_steps [simp]:
  "z_strict names [] = Some ()"
  "k \<in> set names \<Longrightarrow> z_strict names ((k, v) # fs) = z_strict names fs"
  "k \<in> set names \<Longrightarrow> z_strict names (j_opt k f w @ fs) = z_strict names fs"
  "k \<in> set names \<Longrightarrow> z_strict names (j_opt k f w) = Some ()"
  by (auto simp: z_strict_def j_opt_def split: option.splits)

lemma z_optional_j_opt:
  assumes "\<And>x. p (Some (f x)) = (if ok x then Some x else None)"
  shows "z_optional p (map_option f v) = (if pred_option ok v then Some v else None)"
  using assms by (cases v) auto

lemmas z_optional_int [simp] = z_optional_j_opt [where f = j_int and p = "z_int lo hi" and ok = "int_ok lo hi" for lo hi, OF z_int_j_int]
lemmas z_optional_string [simp] = z_optional_j_opt [where f = JStr and p = "z_string lo hi" and ok = "len_ok lo hi" for lo hi, OF z_string_JStr]
lemmas z_optional_nullable [simp] =
  z_optional_j_opt [where f = "j_null j_int" and p = "z_nullable (z_int lo hi)" and ok = "pred_option (int_ok lo hi)" for lo hi, OF z_nullable_simps(1)]
  z_optional_j_opt [where f = "j_null j_rat" and p = "z_nullable (z_number lo hi)" and ok = "pred_option (rat_ok lo hi)" for lo hi, OF z_nullable_simps(2)]

lemma capabilities_roundtrip [simp]:
  "DeviceCapabilitiesSchema (Some (capabilities_json c)) = (if capabilities_ok c then Some c else None)"
  by (simp add: capabilities_json_def capabilities_ok_def)

lemmas z_optional_capabilities [simp] = z_optional_j_opt [OF capabilities_roundtrip]

lemma health_roundtrip [simp]:
  "DeviceHealthSchema (Some (health_json h)) = (if health_ok h then Some h else None)"
  by (simp add: health_json_def health_ok_def)

lemma progress_roundtrip [simp]: "progress_of_string (progress_string p) = Some p"
  by (cases p) (simp_all add: progress_of_string_def)

lemma relay_roundtrip:
  "GatewayClientMessageSchema uuid (relay_json r) = (if relay_ok uuid r then Some (Relay r) else None)"
  by (cases r) (simp_all add: j_message_def shortText_def)

lemma client_roundtrip:
  "GatewayClientMessageSchema uuid (client_json m) = (if client_ok uuid m then Some m else None)"
proof (cases m)
  case (Relay r)
  then show ?thesis by (simp add: relay_roundtrip)
qed (simp_all add: j_message_def)

lemma z_string_Some [dest!]: "z_string lo hi j = Some s \<Longrightarrow> len_ok lo hi s"
  by (cases "(lo, hi, j)" rule: z_string.cases) (auto split: if_splits)

lemma z_test_Some [dest!]: "z_test p j = Some s \<Longrightarrow> p s"
  by (cases "(p, j)" rule: z_test.cases) (auto split: if_splits)

lemma z_int_Some [dest!]: "z_int lo hi j = Some i \<Longrightarrow> int_ok lo hi i"
  by (cases "(lo, hi, j)" rule: z_int.cases) (auto simp: int_ok_def split: if_splits)

lemma z_number_Some [dest!]: "z_number lo hi j = Some q \<Longrightarrow> rat_ok lo hi q"
  by (cases "(lo, hi, j)" rule: z_number.cases) (auto simp: rat_ok_def split: if_splits)

lemma z_nullable_Some:
  "z_nullable p j = Some v \<Longrightarrow> (\<And>x. p j = Some x \<Longrightarrow> ok x) \<Longrightarrow> pred_option ok v"
  by (cases "(p, j)" rule: z_nullable.cases) auto

lemma z_optional_Some:
  "z_optional p j = Some v \<Longrightarrow> (\<And>x. p j = Some x \<Longrightarrow> ok x) \<Longrightarrow> pred_option ok v"
  by (cases "(p, j)" rule: z_optional.cases) auto

lemma z_bounds:
  "z_nullable (z_string l h) j = Some v \<Longrightarrow> pred_option (len_ok l h) v"
  "z_nullable (z_int a b) j = Some w \<Longrightarrow> pred_option (int_ok a b) w"
  "z_nullable (z_number c d) j = Some q \<Longrightarrow> pred_option (rat_ok c d) q"
  "z_optional (z_string l h) j = Some v \<Longrightarrow> pred_option (len_ok l h) v"
  "z_optional (z_int a b) j = Some w \<Longrightarrow> pred_option (int_ok a b) w"
  by (auto elim!: z_nullable_Some z_optional_Some)

lemma z_bounds2:
  "z_optional (z_nullable (z_int a b)) j = Some w' \<Longrightarrow> pred_option (pred_option (int_ok a b)) w'"
  "z_optional (z_nullable (z_number c d)) j = Some q' \<Longrightarrow> pred_option (pred_option (rat_ok c d)) q'"
  by (auto elim!: z_optional_Some intro: z_bounds)

lemma capabilities_sound: "DeviceCapabilitiesSchema j = Some c \<Longrightarrow> capabilities_ok c"
  by (cases j rule: DeviceCapabilitiesSchema.cases)
    (auto simp: bind_eq_Some_conv capabilities_ok_def intro: z_bounds z_bounds2)

lemma health_sound: "DeviceHealthSchema j = Some h \<Longrightarrow> health_ok h"
  by (cases j rule: DeviceHealthSchema.cases)
    (auto simp: bind_eq_Some_conv health_ok_def intro: z_bounds z_bounds2)

lemma z_optional_capabilities_sound:
  "z_optional DeviceCapabilitiesSchema j = Some c \<Longrightarrow> pred_option capabilities_ok c"
  by (auto elim!: z_optional_Some intro: capabilities_sound)

lemma client_sound: "GatewayClientMessageSchema uuid j = Some m \<Longrightarrow> client_ok uuid m"
proof (cases "(uuid, j)" rule: GatewayClientMessageSchema.cases)
  case (1 uuid' fs)
  assume "GatewayClientMessageSchema uuid j = Some m"
  then show ?thesis
    using 1 by (auto simp: bind_eq_Some_conv shortText_def split: if_splits
        intro: z_bounds z_optional_capabilities_sound health_sound)
qed simp_all

subsection \<open>The protocol as a table\<close>

text \<open>
  What the value of a property has to be for a message to carry a given piece of data: the
  property's value, or the absence of the property.
\<close>

definition is_str :: "string \<Rightarrow> json option \<Rightarrow> bool" where
  "is_str s j = (j = Some (JStr s))"

definition is_bool :: "bool \<Rightarrow> json option \<Rightarrow> bool" where
  "is_bool b j = (j = Some (JBool b))"

definition is_int :: "int \<Rightarrow> json option \<Rightarrow> bool" where
  "is_int i j = (j = Some (JNum (js_int i)))"

definition is_rat :: "rat \<Rightarrow> json option \<Rightarrow> bool" where
  "is_rat q j = (j = Some (JNum (Fin q)))"

definition or_null :: "('a \<Rightarrow> json option \<Rightarrow> bool) \<Rightarrow> 'a option \<Rightarrow> json option \<Rightarrow> bool" where
  "or_null R v j = (case v of None \<Rightarrow> j = Some JNull | Some x \<Rightarrow> R x j)"

definition or_absent :: "('a \<Rightarrow> json option \<Rightarrow> bool) \<Rightarrow> 'a option \<Rightarrow> json option \<Rightarrow> bool" where
  "or_absent R v j = (case v of None \<Rightarrow> j = None | Some x \<Rightarrow> R x j)"

text \<open>An object with exactly the properties of a table, each as the table says.\<close>

definition object_of :: "(string \<times> (json option \<Rightarrow> bool)) list \<Rightarrow> json option \<Rightarrow> bool" where
  "object_of table j = (case j of
       Some (JObj fs) \<Rightarrow> list_all (\<lambda>(k, v). k \<in> set (map fst table)) fs \<and> list_all (\<lambda>(k, P). P (map_of fs k)) table
     | _ \<Rightarrow> False)"

definition carries_capabilities :: "device_capabilities \<Rightarrow> json option \<Rightarrow> bool" where
  "carries_capabilities c = object_of
     [(''controlProtocolVersion'', or_absent is_int (dc_controlProtocolVersion c)),
      (''otaRuntimeGeneration'', or_absent is_int (dc_otaRuntimeGeneration c))]"

definition carries_health :: "device_health \<Rightarrow> json option \<Rightarrow> bool" where
  "carries_health h = object_of
     [(''cameraReady'', is_bool (dh_cameraReady h)), (''gpioReady'', is_bool (dh_gpioReady h)),
      (''watchdogReady'', is_bool (dh_watchdogReady h)), (''width'', is_int (dh_width h)),
      (''height'', is_int (dh_height h)), (''fps'', is_int (dh_fps h)),
      (''cpuTemperatureC'', or_null is_rat (dh_cpuTemperatureC h)),
      (''wifiSignalDbm'', or_null is_int (dh_wifiSignalDbm h)),
      (''batteryVoltage'', or_absent (or_null is_rat) (dh_batteryVoltage h)),
      (''batteryPercent'', or_absent (or_null is_int) (dh_batteryPercent h))]"

definition carries_message :: "string \<Rightarrow> (string \<times> (json option \<Rightarrow> bool)) list \<Rightarrow> json \<Rightarrow> bool" where
  "carries_message kind table j = object_of ([(''v'', is_int 1), (''type'', is_str kind)] @ table) (Some j)"

fun carries_relay :: "relay_message \<Rightarrow> json \<Rightarrow> bool" where
  "carries_relay (SignalOffer s d) = carries_message ''signal.offer'' [(''sessionId'', is_str s), (''sdp'', is_str d)]"
| "carries_relay (SignalAnswer s d) = carries_message ''signal.answer'' [(''sessionId'', is_str s), (''sdp'', is_str d)]"
| "carries_relay (SignalIce s c m i) = carries_message ''signal.ice'' [(''sessionId'', is_str s),
     (''candidate'', or_null is_str c), (''sdpMid'', or_null is_str m), (''sdpMLineIndex'', or_null is_int i)]"
| "carries_relay (SessionEnd s r) = carries_message ''session.end'' [(''sessionId'', is_str s), (''reason'', is_str r)]"

fun carries :: "client_message \<Rightarrow> json \<Rightarrow> bool" where
  "carries (DeviceAuthenticate d s a c) = carries_message ''device.authenticate''
     [(''deviceId'', is_str d), (''secret'', is_str s), (''agentVersion'', is_str a),
      (''capabilities'', or_absent carries_capabilities c)]"
| "carries (DeviceHeartbeat h) = carries_message ''device.heartbeat'' [(''health'', carries_health h)]"
| "carries (BrowserAuthenticate t) = carries_message ''browser.authenticate'' [(''ticket'', is_str t)]"
| "carries (SessionConnected s) = carries_message ''session.connected'' [(''sessionId'', is_str s)]"
| "carries (Relay r) = carries_relay r"
| "carries (DeviceUpdateStatus u p r) = carries_message ''device.update.status''
     [(''updateId'', is_str u), (''status'', is_str (progress_string p)), (''reason'', or_absent is_str r)]"

text \<open>Each combinator accepts a value exactly when the property carries it and it is in bounds.\<close>

lemma z_string_iff: "z_string lo hi j = Some s \<longleftrightarrow> is_str s j \<and> len_ok lo hi s"
  by (cases "(lo, hi, j)" rule: z_string.cases) (auto simp: is_str_def)

lemma z_test_iff: "z_test p j = Some s \<longleftrightarrow> is_str s j \<and> p s"
  by (cases "(p, j)" rule: z_test.cases) (auto simp: is_str_def)

lemma z_boolean_iff: "z_boolean j = Some b \<longleftrightarrow> is_bool b j"
  by (cases j rule: z_boolean.cases) (auto simp: is_bool_def)

lemma z_int_iff: "z_int lo hi j = Some i \<longleftrightarrow> is_int i j \<and> int_ok lo hi i"
  by (cases "(lo, hi, j)" rule: z_int.cases) (auto simp: is_int_def int_ok_def js_int_def)

lemma z_number_iff: "z_number lo hi j = Some q \<longleftrightarrow> is_rat q j \<and> rat_ok lo hi q"
  by (cases "(lo, hi, j)" rule: z_number.cases) (auto simp: is_rat_def rat_ok_def)

lemma z_nullable_iff:
  assumes "\<And>x. p j = Some x \<longleftrightarrow> R x j \<and> ok x" and "\<And>x. \<not> R x (Some JNull)"
  shows "z_nullable p j = Some v \<longleftrightarrow> or_null R v j \<and> pred_option ok v"
  using assms by (cases "(p, j)" rule: z_nullable.cases; cases v) (auto simp: or_null_def)

lemma z_optional_iff:
  assumes "\<And>x. p j = Some x \<longleftrightarrow> R x j \<and> ok x" and "\<And>x. \<not> R x None"
  shows "z_optional p j = Some v \<longleftrightarrow> or_absent R v j \<and> pred_option ok v"
  using assms by (cases "(p, j)" rule: z_optional.cases; cases v) (auto simp: or_absent_def)

lemma never_null [simp]:
  "\<not> is_str s (Some JNull)" "\<not> is_int i (Some JNull)" "\<not> is_rat q (Some JNull)"
  by (simp_all add: is_str_def is_int_def is_rat_def)

lemma never_absent [simp]:
  "\<not> is_str s None" "\<not> is_int i None" "\<not> object_of t None"
  "\<not> or_null is_int v None" "\<not> or_null is_rat w None"
  by (auto simp: is_str_def is_int_def is_rat_def object_of_def or_null_def split: option.split)

lemmas z_iff = z_string_iff z_test_iff z_boolean_iff z_int_iff z_number_iff
  z_nullable_iff [where p = "z_string lo hi" and R = is_str and ok = "len_ok lo hi" for lo hi, OF z_string_iff never_null(1)]
  z_nullable_iff [where p = "z_int lo hi" and R = is_int and ok = "int_ok lo hi" for lo hi, OF z_int_iff never_null(2)]
  z_nullable_iff [where p = "z_number lo hi" and R = is_rat and ok = "rat_ok lo hi" for lo hi, OF z_number_iff never_null(3)]
  z_optional_iff [where p = "z_string lo hi" and R = is_str and ok = "len_ok lo hi" for lo hi, OF z_string_iff never_absent(1)]
  z_optional_iff [where p = "z_int lo hi" and R = is_int and ok = "int_ok lo hi" for lo hi, OF z_int_iff never_absent(2)]

lemma z_strict_iff: "z_strict names fs = Some u \<longleftrightarrow> list_all (\<lambda>(k, v). k \<in> set names) fs"
  by (simp add: z_strict_def)

lemma capabilities_exact: "DeviceCapabilitiesSchema j = Some c \<longleftrightarrow> carries_capabilities c j \<and> capabilities_ok c"
proof (cases j rule: DeviceCapabilitiesSchema.cases)
  case (1 fs)
  then show ?thesis
    by (cases c) (simp add: bind_eq_Some_conv z_iff z_strict_iff carries_capabilities_def object_of_def capabilities_ok_def conj_ac)
qed (simp_all add: carries_capabilities_def object_of_def)

lemmas z_iff2 =
  z_optional_iff [where p = "z_nullable (z_int lo hi)" and R = "or_null is_int" and ok = "pred_option (int_ok lo hi)" for lo hi,
    OF z_iff(7) never_absent(4)]
  z_optional_iff [where p = "z_nullable (z_number lo hi)" and R = "or_null is_rat" and ok = "pred_option (rat_ok lo hi)" for lo hi,
    OF z_iff(8) never_absent(5)]

lemma health_exact: "DeviceHealthSchema j = Some h \<longleftrightarrow> carries_health h j \<and> health_ok h"
proof (cases j rule: DeviceHealthSchema.cases)
  case (1 fs)
  then show ?thesis
    by (cases h) (simp add: bind_eq_Some_conv z_iff z_iff2 z_strict_iff carries_health_def object_of_def health_ok_def conj_ac)
qed (simp_all add: carries_health_def object_of_def)

lemma z_iff3:
  "z_optional DeviceCapabilitiesSchema j = Some c \<longleftrightarrow> or_absent carries_capabilities c j \<and> pred_option capabilities_ok c"
  by (rule z_optional_iff) (simp_all only: capabilities_exact carries_capabilities_def never_absent simp_thms)

text \<open>The nine types of messages.\<close>

fun message_type :: "client_message \<Rightarrow> string" where
  "message_type (DeviceAuthenticate d s a c) = ''device.authenticate''"
| "message_type (DeviceHeartbeat h) = ''device.heartbeat''"
| "message_type (BrowserAuthenticate t) = ''browser.authenticate''"
| "message_type (SessionConnected s) = ''session.connected''"
| "message_type (Relay (SignalOffer s d)) = ''signal.offer''"
| "message_type (Relay (SignalAnswer s d)) = ''signal.answer''"
| "message_type (Relay (SignalIce s c m i)) = ''signal.ice''"
| "message_type (Relay (SessionEnd s r)) = ''session.end''"
| "message_type (DeviceUpdateStatus u p r) = ''device.update.status''"

lemma parsed_type:
  assumes "GatewayClientMessageSchema uuid (JObj fs) = Some m"
  shows "is_int 1 (map_of fs ''v'') \<and> is_str (message_type m) (map_of fs ''type'')"
  using assms by (auto simp: bind_eq_Some_conv z_test_iff z_int_iff int_ok_def is_str_def split: if_splits)

lemma carried_type:
  "carries m (JObj fs) \<Longrightarrow> is_int 1 (map_of fs ''v'') \<and> is_str (message_type m) (map_of fs ''type'')"
  by (induction m rule: message_type.induct) (simp_all add: carries_message_def object_of_def)

lemma progress_exact: "progress_of_string t = Some p \<longleftrightarrow> t = progress_string p"
  by (cases p) (auto simp: progress_of_string_def)

lemma evident [simp]: "is_int 1 (Some (JNum (Fin 1)))" "is_str s (Some (JStr s))"
  by (simp_all add: is_int_def is_str_def js_int_def)

lemma client_exact_typed:
  assumes "is_int 1 (map_of fs ''v'')" "is_str (message_type m) (map_of fs ''type'')"
  shows "GatewayClientMessageSchema uuid (JObj fs) = Some m \<longleftrightarrow> client_ok uuid m \<and> carries m (JObj fs)"
  using assms
  by (induction m rule: message_type.induct)
    (simp_all add: bind_eq_Some_conv z_iff z_iff3 z_strict_iff health_exact shortText_def progress_exact is_str_def [of _ "map_of fs ''type''"]
       is_int_def [of _ "map_of fs ''v''"] carries_message_def object_of_def js_int_def, blast+)

subsection \<open>What the browser writes\<close>

text \<open>
  The five messages \<open>RideSessionClient\<close> of \<open>apps/web/app/ride-session-client.ts\<close> gives to
  \<open>JSON.stringify\<close>, for the ticket and the session it was made with.
\<close>

definition browser_authenticate :: "string \<Rightarrow> json" where
  "browser_authenticate ticket = JObj [(''v'', JNum (js_int 1)), (''type'', JStr ''browser.authenticate''), (''ticket'', JStr ticket)]"

definition browser_connected :: "ident \<Rightarrow> json" where
  "browser_connected sessionId = JObj [(''v'', JNum (js_int 1)), (''type'', JStr ''session.connected''), (''sessionId'', JStr sessionId)]"

definition browser_offer :: "ident \<Rightarrow> string \<Rightarrow> json" where
  "browser_offer sessionId sdp =
     JObj [(''v'', JNum (js_int 1)), (''type'', JStr ''signal.offer''), (''sessionId'', JStr sessionId), (''sdp'', JStr sdp)]"

definition browser_candidate :: "ident \<Rightarrow> string \<Rightarrow> string option \<Rightarrow> int option \<Rightarrow> json" where
  "browser_candidate sessionId candidate sdpMid sdpMLineIndex =
     JObj [(''v'', JNum (js_int 1)), (''type'', JStr ''signal.ice''), (''sessionId'', JStr sessionId),
       (''candidate'', JStr candidate), (''sdpMid'', case sdpMid of None \<Rightarrow> JNull | Some m \<Rightarrow> JStr m),
       (''sdpMLineIndex'', case sdpMLineIndex of None \<Rightarrow> JNull | Some i \<Rightarrow> JNum (js_int i))]"

definition browser_end :: "ident \<Rightarrow> string \<Rightarrow> json" where
  "browser_end sessionId reason =
     JObj [(''v'', JNum (js_int 1)), (''type'', JStr ''session.end''), (''sessionId'', JStr sessionId), (''reason'', JStr reason)]"

lemma carries_object: "carries m j \<Longrightarrow> \<exists>fs. j = JObj fs"
  by (induction m rule: message_type.induct) (auto simp: carries_message_def object_of_def split: json.splits)

lemma client_exact: "GatewayClientMessageSchema uuid j = Some m \<longleftrightarrow> client_ok uuid m \<and> carries m j"
proof (cases j)
  case (JObj fs)
  then show ?thesis using client_exact_typed parsed_type carried_type by blast
qed (auto dest: carries_object)

lemma browser_written:
  "carries (BrowserAuthenticate ticket) (browser_authenticate ticket)"
  "carries (SessionConnected s) (browser_connected s)"
  "carries (Relay (SignalOffer s sdp)) (browser_offer s sdp)"
  "carries (Relay (SignalIce s (Some candidate) mid line)) (browser_candidate s candidate mid line)"
  "carries (Relay (SessionEnd s reason)) (browser_end s reason)"
  by (simp_all add: carries_message_def object_of_def is_str_def is_int_def or_null_def browser_authenticate_def
      browser_connected_def browser_offer_def browser_candidate_def browser_end_def split: option.split)

lemma browser_parsed:
  "len_ok 32 4096 ticket \<Longrightarrow> GatewayClientMessageSchema uuid (browser_authenticate ticket) = Some (BrowserAuthenticate ticket)"
  "uuid s \<Longrightarrow> GatewayClientMessageSchema uuid (browser_connected s) = Some (SessionConnected s)"
  "uuid s \<Longrightarrow> len_ok 1 1000000 sdp \<Longrightarrow> GatewayClientMessageSchema uuid (browser_offer s sdp) = Some (Relay (SignalOffer s sdp))"
  "uuid s \<Longrightarrow> len_ok 0 4096 candidate \<Longrightarrow> pred_option (len_ok 0 256) mid \<Longrightarrow> pred_option (int_ok 0 128) line \<Longrightarrow>
     GatewayClientMessageSchema uuid (browser_candidate s candidate mid line) = Some (Relay (SignalIce s (Some candidate) mid line))"
  "uuid s \<Longrightarrow> len_ok 1 256 reason \<Longrightarrow> GatewayClientMessageSchema uuid (browser_end s reason) = Some (Relay (SessionEnd s reason))"
  using browser_written by (simp_all only: client_exact client_ok.simps relay_ok.simps option.pred_inject simp_thms)

subsection \<open>Property\<close>

text \<open>
  Property C29: the gateway accepts exactly the messages of the protocol. From any JSON value
  whatever, the parser reads a message if and only if the data of the message is within the
  bounds of the contract and the value is an object that has the properties of the table of its
  type, each with the message's datum, version 1 and the type's name among them, and no
  others, in nested objects too.
\<close>

theorem client_messages_exact:
  "GatewayClientMessageSchema uuid j = Some m \<longleftrightarrow> client_ok uuid m \<and> carries m j"
  by (rule client_exact)

end
