(* ===== verification/SessionRegistry.thy ===== *)
theory SessionRegistry
  imports DeviceGateway
begin

section \<open>The session registry of the gateway\<close>

text \<open>
  \<open>apps/gateway/src/sessions.ts\<close>: the class \<open>SessionRegistry\<close> with its three maps. A peer (an
  object with \<open>send\<close> and \<open>close\<close>) is a number, compared as the code compares references; what a
  method sends and closes is the list of its effects, in order, returned beside its value.
\<close>

type_synonym peer = nat

datatype peer_effect = Send peer server_message | Close peer int string

record browser_session =
  bs_sessionId :: ident
  bs_carId :: ident
  bs_userId :: ident
  bs_expiresAt :: date
  bs_iceServers :: "ice_server list"

record device_connection =
  cn_deviceId :: ident
  cn_peer :: peer

record active_session = browser_session +
  as_browser :: peer
  as_device :: peer
  as_attachedAt :: date
  as_connectedAt :: "date option"

record registry =
  sr_devicesByCar :: "(ident, device_connection) js_map"
  sr_sessions :: "(ident, active_session) js_map"
  sr_sessionsByCar :: "(ident, ident) js_map"

definition CONNECTION_TIMEOUT_MS :: int where
  "CONNECTION_TIMEOUT_MS = 20000"

definition new_registry :: registry where
  "new_registry = \<lparr>sr_devicesByCar = [], sr_sessions = [], sr_sessionsByCar = []\<rparr>"

definition attachDevice :: "registry \<Rightarrow> ident \<Rightarrow> ident \<Rightarrow> peer \<Rightarrow> peer_effect list \<times> registry" where
  "attachDevice r carId deviceId peer =
     ((case map_get (sr_devicesByCar r) carId of
         Some prior \<Rightarrow> if cn_peer prior \<noteq> peer
           then [Close (cn_peer prior) 4409 ''replaced by a new device connection''] else []
       | None \<Rightarrow> []),
      r\<lparr>sr_devicesByCar := map_set (sr_devicesByCar r) carId \<lparr>cn_deviceId = deviceId, cn_peer = peer\<rparr>\<rparr>)"

definition session_end :: "registry \<Rightarrow> ident \<Rightarrow> string \<Rightarrow> bool \<Rightarrow> peer_effect list \<times> registry" where
  "session_end r sessionId reason notifyDevice =
     (case map_get (sr_sessions r) sessionId of
        None \<Rightarrow> ([], r)
      | Some session \<Rightarrow>
          let msg = Relayed (SessionEnd sessionId reason) in
          ((if notifyDevice then [Send (as_device session) msg] else []) @ [Send (as_browser session) msg],
           r\<lparr>sr_sessions := map_delete (sr_sessions r) sessionId,
             sr_sessionsByCar := map_delete (sr_sessionsByCar r) (bs_carId session)\<rparr>))"

definition detachDevice :: "registry \<Rightarrow> ident \<Rightarrow> peer \<Rightarrow> ident option \<times> peer_effect list \<times> registry" where
  "detachDevice r carId peer =
     (case map_get (sr_devicesByCar r) carId of
        None \<Rightarrow> (None, [], r)
      | Some device \<Rightarrow>
          if cn_peer device \<noteq> peer then (None, [], r)
          else let r' = r\<lparr>sr_devicesByCar := map_delete (sr_devicesByCar r) carId\<rparr>;
                   sessionId = map_get (sr_sessionsByCar r') carId in
            (sessionId,
             (case sessionId of
                Some s \<Rightarrow> if s \<noteq> [] then session_end r' s ''device disconnected'' False else ([], r')
              | None \<Rightarrow> ([], r'))))"

definition attachBrowser ::
  "registry \<Rightarrow> browser_session \<Rightarrow> peer \<Rightarrow> date \<Rightarrow> bool \<times> peer_effect list \<times> registry" where
  "attachBrowser r session browser now =
     (if map_has (sr_sessions r) (bs_sessionId session) \<or> map_has (sr_sessionsByCar r) (bs_carId session)
      then (False, [], r)
      else case map_get (sr_devicesByCar r) (bs_carId session) of
        None \<Rightarrow> (False, [], r)
      | Some device \<Rightarrow>
          let active = browser_session.extend session
                \<lparr>as_browser = browser, as_device = cn_peer device, as_attachedAt = now, as_connectedAt = None\<rparr>;
              start = SessionStart (bs_sessionId session) (bs_carId session) (bs_expiresAt session) (bs_iceServers session)
          in (True, [Send (cn_peer device) start, Send browser start],
              r\<lparr>sr_sessions := map_set (sr_sessions r) (bs_sessionId session) active,
                sr_sessionsByCar := map_set (sr_sessionsByCar r) (bs_carId session) (bs_sessionId session)\<rparr>))"

fun is_answer :: "relay_message \<Rightarrow> bool" where
  "is_answer (SignalAnswer s d) = True"
| "is_answer m = False"

fun is_offer :: "relay_message \<Rightarrow> bool" where
  "is_offer (SignalOffer s d) = True"
| "is_offer m = False"

text \<open>After a relayed message, \<open>session.end\<close> ends the session with the reason it carries.\<close>

definition end_if_ended :: "registry \<Rightarrow> ident \<Rightarrow> relay_message \<Rightarrow> peer_effect list \<times> registry" where
  "end_if_ended r sessionId m =
     (case m of SessionEnd s reason \<Rightarrow> session_end r sessionId reason False | _ \<Rightarrow> ([], r))"

definition relayFromBrowser :: "registry \<Rightarrow> ident \<Rightarrow> relay_message \<Rightarrow> bool \<times> peer_effect list \<times> registry" where
  "relayFromBrowser r sessionId m =
     (case map_get (sr_sessions r) sessionId of
        None \<Rightarrow> (False, [], r)
      | Some session \<Rightarrow>
          if relay_sessionId m \<noteq> sessionId \<or> is_answer m then (False, [], r)
          else (case end_if_ended r sessionId m of
                  (es, r') \<Rightarrow> (True, Send (as_device session) (Relayed m) # es, r')))"

text \<open>The session of a car, as the code looks it up (an empty identifier is no identifier).\<close>

definition session_of_car :: "registry \<Rightarrow> ident \<Rightarrow> (ident \<times> active_session) option" where
  "session_of_car r carId =
     (case map_get (sr_sessionsByCar r) carId of
        None \<Rightarrow> None
      | Some s \<Rightarrow> if s = [] then None else map_option (Pair s) (map_get (sr_sessions r) s))"

definition relayFromDevice :: "registry \<Rightarrow> ident \<Rightarrow> relay_message \<Rightarrow> bool \<times> peer_effect list \<times> registry" where
  "relayFromDevice r carId m =
     (case session_of_car r carId of
        None \<Rightarrow> (False, [], r)
      | Some (sessionId, session) \<Rightarrow>
          if relay_sessionId m \<noteq> sessionId \<or> is_offer m then (False, [], r)
          else (case end_if_ended r sessionId m of
                  (es, r') \<Rightarrow> (True, Send (as_browser session) (Relayed m) # es, r')))"

definition sendDeviceTelemetry ::
  "registry \<Rightarrow> ident \<Rightarrow> rat option \<Rightarrow> int option \<Rightarrow> bool \<times> peer_effect list" where
  "sendDeviceTelemetry r carId batteryVoltage batteryPercent =
     (case session_of_car r carId of
        None \<Rightarrow> (False, [])
      | Some (sessionId, session) \<Rightarrow>
          (True, [Send (as_browser session) (Telemetry sessionId batteryVoltage batteryPercent)]))"

definition detachBrowser :: "registry \<Rightarrow> ident \<Rightarrow> string \<Rightarrow> peer_effect list \<times> registry" where
  "detachBrowser r sessionId reason = session_end r sessionId reason True"

definition hasSession :: "registry \<Rightarrow> ident \<Rightarrow> bool" where
  "hasSession r sessionId = map_has (sr_sessions r) sessionId"

definition hasActiveCar :: "registry \<Rightarrow> ident \<Rightarrow> bool" where
  "hasActiveCar r carId = map_has (sr_sessionsByCar r) carId"

definition markConnected :: "registry \<Rightarrow> ident \<Rightarrow> date \<Rightarrow> bool \<times> registry" where
  "markConnected r sessionId now =
     (case map_get (sr_sessions r) sessionId of
        None \<Rightarrow> (False, r)
      | Some session \<Rightarrow>
          if as_attachedAt session + CONNECTION_TIMEOUT_MS \<le> now then (False, r)
          else (True, r\<lparr>sr_sessions := map_set (sr_sessions r) sessionId (session\<lparr>as_connectedAt :=
                  Some (case as_connectedAt session of Some t \<Rightarrow> t | None \<Rightarrow> now)\<rparr>)\<rparr>))"

definition drive_expired :: "date \<Rightarrow> active_session \<Rightarrow> bool" where
  "drive_expired now session = (bs_expiresAt session \<le> now)"

definition connection_expired :: "date \<Rightarrow> active_session \<Rightarrow> bool" where
  "connection_expired now session =
     (as_connectedAt session = None \<and> as_attachedAt session + CONNECTION_TIMEOUT_MS \<le> now)"

fun sweep_sessions ::
  "date \<Rightarrow> (ident \<times> active_session) list \<Rightarrow> ident list \<times> peer_effect list \<times> registry \<Rightarrow>
   ident list \<times> peer_effect list \<times> registry" where
  "sweep_sessions now [] acc = acc"
| "sweep_sessions now ((sessionId, session) # rest) (expired, es, r) =
     (if drive_expired now session \<or> connection_expired now session
      then (case session_end r sessionId
              (if connection_expired now session then ''connection timed out'' else ''session expired'') True of
              (es', r') \<Rightarrow> sweep_sessions now rest (expired @ [sessionId], es @ es', r'))
      else sweep_sessions now rest (expired, es, r))"

definition registry_sweep :: "registry \<Rightarrow> date \<Rightarrow> ident list \<times> peer_effect list \<times> registry" where
  "registry_sweep r now = sweep_sessions now (sr_sessions r) ([], [], r)"

datatype registry_call =
    AttachDevice ident ident peer
  | DetachDevice ident peer
  | AttachBrowser browser_session peer date
  | FromBrowser ident relay_message
  | FromDevice ident relay_message
  | DeviceTelemetry ident "rat option" "int option"
  | DetachBrowser ident string
  | MarkConnected ident date
  | Sweep date

fun registry_step :: "registry \<Rightarrow> registry_call \<Rightarrow> peer_effect list \<times> registry" where
  "registry_step r (AttachDevice car d p) = attachDevice r car d p"
| "registry_step r (DetachDevice car p) = snd (detachDevice r car p)"
| "registry_step r (AttachBrowser s p now) = snd (attachBrowser r s p now)"
| "registry_step r (FromBrowser s m) = snd (relayFromBrowser r s m)"
| "registry_step r (FromDevice car m) = snd (relayFromDevice r car m)"
| "registry_step r (DeviceTelemetry car v b) = (snd (sendDeviceTelemetry r car v b), r)"
| "registry_step r (DetachBrowser s reason) = detachBrowser r s reason"
| "registry_step r (MarkConnected s now) = ([], snd (markConnected r s now))"
| "registry_step r (Sweep now) = snd (registry_sweep r now)"

definition registry_run :: "registry \<Rightarrow> registry_call list \<Rightarrow> registry" where
  "registry_run r cs = foldl (\<lambda>r c. snd (registry_step r c)) r cs"

lemma registry_run_simps [simp]:
  "registry_run r [] = r" "registry_run r (c # cs) = registry_run (snd (registry_step r c)) cs"
  by (simp_all add: registry_run_def)

subsection \<open>The two session maps describe one relation\<close>

definition registry_ok :: "registry \<Rightarrow> bool" where
  "registry_ok r = (map_ok (sr_sessions r) \<and> map_ok (sr_sessionsByCar r)
     \<and> (\<forall>s a. map_get (sr_sessions r) s = Some a \<longrightarrow> bs_sessionId a = s \<and> map_get (sr_sessionsByCar r) (bs_carId a) = Some s)
     \<and> (\<forall>car s. map_get (sr_sessionsByCar r) car = Some s \<longrightarrow>
          (\<exists>a. map_get (sr_sessions r) s = Some a \<and> bs_carId a = car)))"

lemma registry_ok_new: "registry_ok new_registry"
  by (simp add: registry_ok_def new_registry_def)

lemma registry_ok_devices [simp]: "registry_ok (r\<lparr>sr_devicesByCar := d\<rparr>) = registry_ok r"
  by (simp add: registry_ok_def)

lemma registry_ok_attachDevice: "registry_ok r \<Longrightarrow> registry_ok (snd (attachDevice r car d p))"
  by (simp add: attachDevice_def)

lemma registry_ok_end: "registry_ok r \<Longrightarrow> registry_ok (snd (session_end r s reason n))"
  unfolding session_end_def
  by (auto simp: registry_ok_def Let_def split: option.splits) (metis option.inject)+

lemma registry_ok_detachDevice: "registry_ok r \<Longrightarrow> registry_ok (snd (snd (detachDevice r car p)))"
  by (simp add: detachDevice_def Let_def registry_ok_end split: option.splits)

lemma extend_fields [simp]:
  "bs_sessionId (browser_session.extend s x) = bs_sessionId s" "bs_carId (browser_session.extend s x) = bs_carId s"
  "bs_expiresAt (browser_session.extend s x) = bs_expiresAt s"
  by (simp_all add: browser_session.extend_def)

lemma registry_ok_attachBrowser: "registry_ok r \<Longrightarrow> registry_ok (snd (snd (attachBrowser r s p now)))"
  by (auto simp: attachBrowser_def registry_ok_def Let_def split: option.splits) (metis option.distinct(1))+

lemma registry_ok_end_if: "registry_ok r \<Longrightarrow> registry_ok (snd (end_if_ended r s m))"
  by (cases m) (simp_all add: end_if_ended_def registry_ok_end)

lemma registry_ok_fromBrowser: "registry_ok r \<Longrightarrow> registry_ok (snd (snd (relayFromBrowser r s m)))"
  using registry_ok_end_if [of r s m]
  by (auto simp: relayFromBrowser_def split: option.splits prod.splits)

lemma session_of_car_ok:
  "registry_ok r \<Longrightarrow> session_of_car r car = Some (s, a) \<Longrightarrow>
   map_get (sr_sessions r) s = Some a \<and> bs_carId a = car \<and> bs_sessionId a = s"
  by (auto simp: session_of_car_def registry_ok_def split: option.splits if_splits) (metis option.inject)

lemma registry_ok_fromDevice: "registry_ok r \<Longrightarrow> registry_ok (snd (snd (relayFromDevice r car m)))"
proof -
  assume "registry_ok r"
  then have "registry_ok (snd (end_if_ended r s m))" for s by (rule registry_ok_end_if)
  then show ?thesis
    using \<open>registry_ok r\<close> by (auto simp: relayFromDevice_def split: option.splits prod.splits) (metis snd_conv)
qed

lemma registry_ok_markConnected: "registry_ok r \<Longrightarrow> registry_ok (snd (markConnected r s now))"
  by (auto simp: markConnected_def registry_ok_def Let_def split: option.splits) (metis option.inject)

subsection \<open>The sweep\<close>

definition dead :: "date \<Rightarrow> ident \<times> active_session \<Rightarrow> bool" where
  "dead now = (\<lambda>(s, a). drive_expired now a \<or> connection_expired now a)"

text \<open>What the sweep tells the two peers of a dead session.\<close>

definition farewell :: "date \<Rightarrow> ident \<times> active_session \<Rightarrow> peer_effect list" where
  "farewell now = (\<lambda>(s, a). let msg = Relayed (SessionEnd s
      (if connection_expired now a then ''connection timed out'' else ''session expired''))
     in [Send (as_device a) msg, Send (as_browser a) msg])"

lemma map_delete_filter: "map_delete m k = filter (\<lambda>(k', v). k' \<noteq> k) m"
  by (simp add: map_delete_def AList.delete_eq) (metis (mono_tags, lifting) case_prod_unfold)

lemma map_get_filter:
  "map_ok m \<Longrightarrow> map_get (filter P m) k = (case map_get m k of None \<Rightarrow> None | Some v \<Rightarrow> if P (k, v) then Some v else None)"
  unfolding map_get_def map_ok_def map_keys_def
proof (induction m)
  case (Cons x m)
  then show ?case
    by (cases x) (auto simp: map_of_eq_None_iff split: option.splits)
qed simp

lemma map_ok_filter: "map_ok m \<Longrightarrow> map_ok (filter P m)"
  by (auto simp: map_ok_def map_keys_def distinct_map_filter)

lemma sweep_sessions_eq:
  assumes "registry_ok r" "distinct (map fst xs)" "set xs \<subseteq> set (sr_sessions r)"
  shows "\<exists>r'. sweep_sessions now xs (ids, es, r) =
       (ids @ map fst (filter (dead now) xs), es @ concat (map (farewell now) (filter (dead now) xs)), r')
     \<and> sr_sessions r' = filter (\<lambda>x. x \<notin> set (filter (dead now) xs)) (sr_sessions r)
     \<and> sr_devicesByCar r' = sr_devicesByCar r \<and> registry_ok r'"
  using assms
proof (induction xs arbitrary: ids es r)
  case (Cons x xs)
  obtain s a where x: "x = (s, a)" by (cases x)
  show ?case
  proof (cases "dead now x")
    case False
    then show ?thesis using Cons by (simp add: x dead_def)
  next
    case True
    have a: "map_get (sr_sessions r) s = Some a"
      using Cons.prems x by (auto simp: registry_ok_def map_get_mem)
    define r1 where "r1 = snd (session_end r s (if connection_expired now a
      then ''connection timed out'' else ''session expired'') True)"
    have ok: "registry_ok r1" unfolding r1_def by (rule registry_ok_end [OF Cons.prems(1)])
    have sess: "sr_sessions r1 = filter (\<lambda>y. y \<noteq> x) (sr_sessions r)" "sr_devicesByCar r1 = sr_devicesByCar r"
      using Cons.prems(1) a unfolding r1_def registry_ok_def
      by (auto simp: session_end_def Let_def map_delete_filter x map_get_mem [symmetric] intro!: filter_cong)
    have sub: "set xs \<subseteq> set (sr_sessions r1)" "distinct (map fst xs)"
      using Cons.prems by (auto simp: sess x rev_image_eqI)
    have step: "session_end r s (if connection_expired now a then ''connection timed out'' else ''session expired'') True =
        (farewell now x, r1)"
      by (simp add: r1_def session_end_def a Let_def farewell_def x)
    have run: "sweep_sessions now (x # xs) (ids, es, r) =
        sweep_sessions now xs (ids @ [s], es @ farewell now x, r1)"
      using True step by (simp add: x dead_def)
    show ?thesis
      using Cons.IH [OF ok sub(2,1), of "ids @ [s]" "es @ farewell now x"] True
      unfolding run by (auto simp: sess x conj_commute intro!: filter_cong)
  qed
qed simp

lemma registry_sweep_eq:
  assumes "registry_ok r"
  shows "\<exists>r'. registry_sweep r now =
       (map fst (filter (dead now) (sr_sessions r)), concat (map (farewell now) (filter (dead now) (sr_sessions r))), r')
     \<and> sr_sessions r' = filter (\<lambda>x. \<not> dead now x) (sr_sessions r)
     \<and> sr_devicesByCar r' = sr_devicesByCar r \<and> registry_ok r'"
proof -
  have "distinct (map fst (sr_sessions r))" using assms by (simp add: registry_ok_def map_ok_def map_keys_def)
  from sweep_sessions_eq [OF assms this order_refl, of now "[]" "[]"]
  obtain r' where "registry_sweep r now = (map fst (filter (dead now) (sr_sessions r)),
        concat (map (farewell now) (filter (dead now) (sr_sessions r))), r')"
      "sr_sessions r' = filter (\<lambda>x. x \<notin> set (filter (dead now) (sr_sessions r))) (sr_sessions r)"
      "sr_devicesByCar r' = sr_devicesByCar r" "registry_ok r'"
    by (auto simp: registry_sweep_def)
  moreover have "filter (\<lambda>x. x \<notin> set (filter (dead now) (sr_sessions r))) (sr_sessions r) =
      filter (\<lambda>x. \<not> dead now x) (sr_sessions r)" by (rule filter_cong) auto
  ultimately show ?thesis by auto
qed

lemma registry_ok_step: "registry_ok r \<Longrightarrow> registry_ok (snd (registry_step r c))"
proof (cases c)
  case (Sweep now)
  then show "registry_ok r \<Longrightarrow> ?thesis" using registry_sweep_eq [of r now] by auto
qed (simp_all add: registry_ok_attachDevice registry_ok_detachDevice registry_ok_attachBrowser
    registry_ok_fromBrowser registry_ok_fromDevice detachBrowser_def registry_ok_end registry_ok_markConnected)

lemma registry_ok_run: "registry_ok r \<Longrightarrow> registry_ok (registry_run r cs)"
  by (induction cs arbitrary: r) (auto simp: registry_ok_step)

lemma farewell_length: "length (concat (map (farewell now) xs)) = 2 * length xs"
  by (induction xs) (auto simp: farewell_def Let_def case_prod_beta)

lemma farewell_told:
  "list_all (\<lambda>(s, a). \<exists>reason. Send (as_device a) (Relayed (SessionEnd s reason)) \<in> set (concat (map (farewell now) xs))
     \<and> Send (as_browser a) (Relayed (SessionEnd s reason)) \<in> set (concat (map (farewell now) xs))) xs"
proof -
  have "\<exists>reason. Send (as_device a) (Relayed (SessionEnd s reason)) \<in> set (farewell now (s, a))
     \<and> Send (as_browser a) (Relayed (SessionEnd s reason)) \<in> set (farewell now (s, a))" for s a
    by (cases "connection_expired now a") (auto simp: farewell_def Let_def)
  then show ?thesis unfolding list_all_iff by fastforce
qed

subsection \<open>Who gets to hear of a session\<close>

fun message_session :: "server_message \<Rightarrow> ident option" where
  "message_session (SessionStart s car e ice) = Some s"
| "message_session (Relayed m) = Some (relay_sessionId m)"
| "message_session (Telemetry s v p) = Some s"
| "message_session m = None"

text \<open>A peer may be sent a message about a session when it is one of its two ends, and only the right one.\<close>

definition addressed :: "active_session \<Rightarrow> peer_effect \<Rightarrow> bool" where
  "addressed a e = (case e of
     Send p m \<Rightarrow> message_session m = Some (bs_sessionId a) \<and> p \<in> {as_browser a, as_device a}
       \<and> (\<forall>sdp. m = Relayed (SignalOffer (bs_sessionId a) sdp) \<longrightarrow> p = as_device a)
       \<and> (\<forall>sdp. m = Relayed (SignalAnswer (bs_sessionId a) sdp) \<longrightarrow> p = as_browser a)
   | Close p c t \<Rightarrow> False)"

definition heard_by_ends :: "registry \<Rightarrow> registry \<Rightarrow> peer_effect list \<Rightarrow> bool" where
  "heard_by_ends r r' es = (\<forall>e \<in> set es. (\<exists>p c t. e = Close p c t) \<or>
     (\<exists>s a. (map_get (sr_sessions r) s = Some a \<or> map_get (sr_sessions r') s = Some a) \<and> addressed a e))"

lemma heard_end: "registry_ok r \<Longrightarrow> heard_by_ends r r' (fst (session_end r s reason n))"
  by (auto simp: heard_by_ends_def session_end_def Let_def addressed_def registry_ok_def split: option.splits
      intro!: exI [of _ s])

lemma heard_end_sessions:
  "registry_ok r \<Longrightarrow> heard_by_ends (r\<lparr>sr_devicesByCar := d\<rparr>) r' es \<Longrightarrow> heard_by_ends r r' es"
  by (simp add: heard_by_ends_def)

lemma heard_app: "heard_by_ends r r' (es @ fs) \<longleftrightarrow> heard_by_ends r r' es \<and> heard_by_ends r r' fs"
  by (auto simp: heard_by_ends_def)

lemma heard_cons: "heard_by_ends r r' (e # es) \<longleftrightarrow> heard_by_ends r r' [e] \<and> heard_by_ends r r' es"
  by (auto simp: heard_by_ends_def)

lemma heard_nil [simp]: "heard_by_ends r r' []"
  by (simp add: heard_by_ends_def)

lemma heard_one:
  "map_get (sr_sessions r) s = Some a \<or> map_get (sr_sessions r') s = Some a \<Longrightarrow> addressed a e \<Longrightarrow> heard_by_ends r r' [e]"
  by (auto simp: heard_by_ends_def)

lemma heard_end_if: "registry_ok r \<Longrightarrow> heard_by_ends r r' (fst (end_if_ended r s m))"
  by (cases m) (simp_all add: end_if_ended_def heard_end)

lemma heard_fromBrowser: "registry_ok r \<Longrightarrow> heard_by_ends r r' (fst (snd (relayFromBrowser r s m)))"
proof (cases "map_get (sr_sessions r) s")
  case (Some a)
  assume ok: "registry_ok r"
  then have s: "bs_sessionId a = s" using Some by (simp add: registry_ok_def)
  show ?thesis
  proof (cases "relay_sessionId m \<noteq> s \<or> is_answer m")
    case False
    then have "addressed a (Send (as_device a) (Relayed m))"
      by (cases m) (auto simp: addressed_def s)
    then have "heard_by_ends r r' [Send (as_device a) (Relayed m)]" using Some by (blast intro: heard_one)
    then show ?thesis
      using heard_end_if [OF ok, of r' s m] False Some
      by (simp add: relayFromBrowser_def case_prod_beta heard_cons [of _ _ _ "fst _"])
  qed (simp add: relayFromBrowser_def Some)
qed (simp add: relayFromBrowser_def)

lemma heard_fromDevice: "registry_ok r \<Longrightarrow> heard_by_ends r r' (fst (snd (relayFromDevice r car m)))"
proof (cases "session_of_car r car")
  case (Some x)
  assume ok: "registry_ok r"
  obtain s a where x: "x = (s, a)" by (cases x)
  have a: "map_get (sr_sessions r) s = Some a" "bs_sessionId a = s"
    using session_of_car_ok [OF ok] Some x by auto
  show ?thesis
  proof (cases "relay_sessionId m \<noteq> s \<or> is_offer m")
    case False
    then have "addressed a (Send (as_browser a) (Relayed m))"
      by (cases m) (auto simp: addressed_def a)
    then have "heard_by_ends r r' [Send (as_browser a) (Relayed m)]" using a by (blast intro: heard_one)
    then show ?thesis
      using heard_end_if [OF ok, of r' s m] False Some x
      by (simp add: relayFromDevice_def case_prod_beta heard_cons [of _ _ _ "fst _"])
  qed (simp add: relayFromDevice_def Some x)
qed (simp add: relayFromDevice_def)

lemma heard_telemetry: "registry_ok r \<Longrightarrow> heard_by_ends r r' (snd (sendDeviceTelemetry r car v b))"
  using session_of_car_ok [of r car]
  by (auto simp: sendDeviceTelemetry_def addressed_def split: option.splits intro!: heard_one)

lemma heard_attachBrowser:
  "heard_by_ends r (snd (snd (attachBrowser r s p now))) (fst (snd (attachBrowser r s p now)))"
  by (auto simp: heard_by_ends_def attachBrowser_def Let_def addressed_def browser_session.extend_def
      split: option.splits)

lemma heard_farewell:
  "registry_ok r \<Longrightarrow> set xs \<subseteq> set (sr_sessions r) \<Longrightarrow> heard_by_ends r r' (concat (map (farewell now) xs))"
proof (induction xs)
  case (Cons x xs)
  obtain s a where x: "x = (s, a)" by (cases x)
  have a: "map_get (sr_sessions r) s = Some a" "bs_sessionId a = s"
    using Cons.prems x by (auto simp: registry_ok_def map_get_mem)
  have "heard_by_ends r r' (farewell now x)"
    using a by (auto simp: heard_by_ends_def farewell_def x Let_def addressed_def intro!: exI [of _ s])
  then show ?case using Cons by (simp add: heard_app)
qed simp

lemma heard_step:
  assumes "registry_ok r"
  shows "heard_by_ends r (snd (registry_step r c)) (fst (registry_step r c))"
proof (cases c)
  case (AttachDevice car d p)
  then show ?thesis by (auto simp: attachDevice_def heard_by_ends_def split: option.splits)
next
  case (DetachDevice car p)
  have "heard_by_ends r r' (fst (session_end (r\<lparr>sr_devicesByCar := d\<rparr>) s t n))" for d r' s t n
    by (rule heard_end_sessions [OF assms heard_end]) (simp add: assms)
  then show ?thesis
    using DetachDevice assms by (auto simp: detachDevice_def Let_def split: option.splits)
next
  case (Sweep now)
  then show ?thesis
    using registry_sweep_eq [OF assms, of now] heard_farewell [OF assms filter_is_subset] by auto
qed (use assms in \<open>simp_all add: heard_attachBrowser heard_fromBrowser heard_fromDevice heard_telemetry
    detachBrowser_def heard_end\<close>)

lemma registry_ok_agree:
  assumes "registry_ok r"
  shows "map_get (sr_sessionsByCar r) car = Some s \<longleftrightarrow>
    (\<exists>a. map_get (sr_sessions r) s = Some a \<and> bs_sessionId a = s \<and> bs_carId a = car)"
  using assms unfolding registry_ok_def by blast

subsection \<open>Properties\<close>

text \<open>
  whatever calls the registry receives, its two session maps describe one relation
  (a car's session is the session of that car, and back), every session is filed under its own
  identifier, and no car has two sessions.
\<close>

theorem registry_maps_agree:
  "let r = registry_run new_registry cs in
   (\<forall>car s. map_get (sr_sessionsByCar r) car = Some s \<longleftrightarrow>
      (\<exists>a. map_get (sr_sessions r) s = Some a \<and> bs_sessionId a = s \<and> bs_carId a = car))
   \<and> distinct (map (bs_carId \<circ> snd) (sr_sessions r))"
proof -
  define r where "r = registry_run new_registry cs"
  have ok: "registry_ok r" unfolding r_def by (intro registry_ok_run registry_ok_new)
  have "distinct (map (bs_carId \<circ> snd) (sr_sessions r))"
  proof -
    have "inj_on (bs_carId \<circ> snd) (set (sr_sessions r))"
    proof (rule inj_onI)
      fix x y
      assume xy: "x \<in> set (sr_sessions r)" "y \<in> set (sr_sessions r)" "(bs_carId \<circ> snd) x = (bs_carId \<circ> snd) y"
      obtain s a t b where "x = (s, a)" "y = (t, b)" by fastforce
      moreover from this have "map_get (sr_sessions r) s = Some a" "map_get (sr_sessions r) t = Some b"
        using xy ok by (simp_all add: registry_ok_def map_get_mem)
      moreover from this have "map_get (sr_sessionsByCar r) (bs_carId a) = Some s"
        "map_get (sr_sessionsByCar r) (bs_carId b) = Some t" using ok by (simp_all add: registry_ok_def)
      ultimately show "x = y" using xy(3) by simp
    qed
    moreover have "distinct (sr_sessions r)"
      using ok by (auto simp: registry_ok_def map_ok_def map_keys_def distinct_map)
    ultimately show ?thesis by (simp add: distinct_map)
  qed
  then show ?thesis
    using registry_ok_agree [OF ok] unfolding r_def [symmetric] Let_def by blast
qed

text \<open>
  Property C12: sessions are isolated. After any calls, every message the next call sends is
  about a session the registry holds (or has just made or ended) and goes to one of the two
  ends of that very session; offers go only to the car, answers only to the browser.
\<close>

theorem registry_isolates_sessions:
  "let r = registry_run new_registry cs; (es, r') = registry_step r c in
   list_all (\<lambda>e. case e of Close p code reason \<Rightarrow> True
     | Send p m \<Rightarrow> (\<exists>s a. (map_get (sr_sessions r) s = Some a \<or> map_get (sr_sessions r') s = Some a)
         \<and> message_session m = Some s \<and> (p = as_browser a \<or> p = as_device a)
         \<and> (\<forall>sdp. m = Relayed (SignalOffer s sdp) \<longrightarrow> p = as_device a)
         \<and> (\<forall>sdp. m = Relayed (SignalAnswer s sdp) \<longrightarrow> p = as_browser a))) es"
proof -
  define r where "r = registry_run new_registry cs"
  have ok: "registry_ok r" unfolding r_def by (intro registry_ok_run registry_ok_new)
  obtain es r' where step: "registry_step r c = (es, r')" by fastforce
  have ok': "registry_ok r'" using registry_ok_step [OF ok, of c] step by simp
  have key: "bs_sessionId a = s" if "map_get (sr_sessions r) s = Some a \<or> map_get (sr_sessions r') s = Some a" for s a
    using that ok ok' by (auto simp: registry_ok_def)
  show ?thesis
    using heard_step [OF ok, of c] key unfolding r_def [symmetric] Let_def step
    by (fastforce simp: heard_by_ends_def list_all_iff addressed_def split: peer_effect.splits)
qed

text \<open>
  the sweep ends exactly the sessions that are over: those past their expiry and
  those whose browser was attached 20 seconds ago or more and never reported a connection. It
  returns their identifiers, tells both ends of each, and keeps every other session as it is.
\<close>

theorem registry_sweep_ends_dead_sessions:
  "let r = registry_run new_registry cs; (expired, es, r') = registry_sweep r now;
       over = (\<lambda>(s, a). bs_expiresAt a \<le> now \<or> as_connectedAt a = None \<and> as_attachedAt a + 20000 \<le> now) in
   expired = map fst (filter over (sr_sessions r))
   \<and> sr_sessions r' = filter (\<lambda>x. \<not> over x) (sr_sessions r)
   \<and> list_all (\<lambda>(s, a). \<exists>reason. Send (as_device a) (Relayed (SessionEnd s reason)) \<in> set es
        \<and> Send (as_browser a) (Relayed (SessionEnd s reason)) \<in> set es) (filter over (sr_sessions r))
   \<and> length es = 2 * length expired"
proof -
  define r where "r = registry_run new_registry cs"
  have ok: "registry_ok r" unfolding r_def by (intro registry_ok_run registry_ok_new)
  have over: "(\<lambda>(s :: ident, a :: active_session). bs_expiresAt a \<le> now \<or> as_connectedAt a = None \<and> as_attachedAt a + 20000 \<le> now) = dead now"
    by (auto simp: dead_def drive_expired_def connection_expired_def CONNECTION_TIMEOUT_MS_def)
  show ?thesis
    using registry_sweep_eq [OF ok, of now] farewell_told [of now "filter (dead now) (sr_sessions r)"]
      farewell_length [of now "filter (dead now) (sr_sessions r)"]
    unfolding r_def [symmetric] Let_def over
    by (elim exE conjE) (simp del: length_concat set_concat)
qed

text \<open>
  Property C30: a session does not follow its car to a new connection. When a device attaches
  with another peer while a session of its car is running, the old peer is closed, but the
  browser's messages still go to the old peer only, the new one is never told of the session
  (its own messages are passed to the browser), and the close of the old peer ends nothing.
\<close>

theorem session_stays_on_replaced_device:
  assumes "r = registry_run new_registry cs" and "map_get (sr_sessions r) s = Some a" and "s \<noteq> []"
    and "map_get (sr_devicesByCar r) (bs_carId a) = Some cn" and "cn_peer cn = as_device a" and "p \<noteq> as_device a"
    and "attachDevice r (bs_carId a) d p = (es, r')"
  shows "es = [Close (as_device a) 4409 ''replaced by a new device connection'']
    \<and> detachDevice r' (bs_carId a) (as_device a) = (None, [], r')
    \<and> relayFromBrowser r' s (SignalOffer s sdp) = (True, [Send (as_device a) (Relayed (SignalOffer s sdp))], r')
    \<and> relayFromDevice r' (bs_carId a) (SignalAnswer s sdp) = (True, [Send (as_browser a) (Relayed (SignalAnswer s sdp))], r')"
proof -
  have ok: "registry_ok r" unfolding assms(1) by (intro registry_ok_run registry_ok_new)
  then have "map_get (sr_sessionsByCar r) (bs_carId a) = Some s" using assms(2) by (simp add: registry_ok_def)
  then show ?thesis
    using assms(2-7)
    by (auto simp: attachDevice_def detachDevice_def relayFromBrowser_def relayFromDevice_def session_of_car_def
        end_if_ended_def)
qed

subsection \<open>A concrete run\<close>

definition sample_browser_session :: browser_session where
  "sample_browser_session = \<lparr>bs_sessionId = ''s'', bs_carId = ''car'', bs_userId = ''u'', bs_expiresAt = 90000, bs_iceServers = []\<rparr>"

definition sample_calls :: "registry_call list" where
  "sample_calls = [AttachDevice ''car'' ''d'' 1, AttachBrowser sample_browser_session 2 1000]"

theorem registry_sweep_ends_dead_sessions_witness:
  "fst (registry_sweep (registry_run new_registry sample_calls) 21000) = [''s'']
   \<and> fst (registry_sweep (registry_run new_registry sample_calls) 20999) = []"
  using registry_sweep_ends_dead_sessions [of sample_calls 21000] registry_sweep_ends_dead_sessions [of sample_calls 20999]
  by (auto simp: Let_def split: prod.splits)
    (auto simp: sample_calls_def sample_browser_session_def new_registry_def attachDevice_def attachBrowser_def
      map_set_def map_get_def browser_session.extend_def Let_def)

theorem session_stays_on_replaced_device_witness:
  "\<exists>r'. attachDevice (registry_run new_registry sample_calls) ''car'' ''d'' 3 =
       ([Close 1 4409 ''replaced by a new device connection''], r')
     \<and> relayFromBrowser r' ''s'' (SignalOffer ''s'' ''sdp'') = (True, [Send 1 (Relayed (SignalOffer ''s'' ''sdp''))], r')"
proof -
  obtain es r' where at: "attachDevice (registry_run new_registry sample_calls) ''car'' ''d'' 3 = (es, r')" by fastforce
  let ?a = "browser_session.extend sample_browser_session \<lparr>as_browser = 2, as_device = 1, as_attachedAt = 1000, as_connectedAt = None\<rparr>"
  have a: "map_get (sr_sessions (registry_run new_registry sample_calls)) ''s'' = Some ?a"
    "map_get (sr_devicesByCar (registry_run new_registry sample_calls)) ''car'' = Some \<lparr>cn_deviceId = ''d'', cn_peer = 1\<rparr>"
    by (simp_all add: sample_calls_def sample_browser_session_def new_registry_def attachDevice_def attachBrowser_def
        map_set_def map_get_def browser_session.extend_def Let_def)
  have f: "bs_carId ?a = ''car''" "as_device ?a = 1"
    by (simp_all add: sample_browser_session_def browser_session.extend_def)
  show ?thesis
    using session_stays_on_replaced_device [OF refl a(1), of "\<lparr>cn_deviceId = ''d'', cn_peer = 1\<rparr>" 3 "''d''"] a(2) at f
    by auto
qed

lemma sample_registry:
  "registry_step (registry_run new_registry sample_calls) (FromBrowser ''s'' (SignalOffer ''s'' ''sdp'')) =
     ([Send 1 (Relayed (SignalOffer ''s'' ''sdp''))], registry_run new_registry sample_calls)"
  "map_get (sr_sessions (registry_run new_registry sample_calls)) s = (if s = ''s'' then
     Some (browser_session.extend sample_browser_session
       \<lparr>as_browser = 2, as_device = 1, as_attachedAt = 1000, as_connectedAt = None\<rparr>) else None)"
  by (simp_all add: sample_calls_def sample_browser_session_def new_registry_def attachDevice_def attachBrowser_def
      map_set_def map_get_def browser_session.extend_def Let_def relayFromBrowser_def end_if_ended_def)

theorem registry_isolates_sessions_witness:
  "\<exists>a. as_device a = 1 \<and> as_browser a = 2 \<and> message_session (Relayed (SignalOffer ''s'' ''sdp'')) = Some ''s''
     \<and> map_get (sr_sessions (registry_run new_registry sample_calls)) ''s'' = Some a
     \<and> (1 :: peer) = as_device a"
proof -
  have "list_all (\<lambda>e. case e of Close p code reason \<Rightarrow> True
     | Send p m \<Rightarrow> (\<exists>s a. map_get (sr_sessions (registry_run new_registry sample_calls)) s = Some a
         \<and> message_session m = Some s \<and> (p = as_browser a \<or> p = as_device a)
         \<and> (\<forall>sdp. m = Relayed (SignalOffer s sdp) \<longrightarrow> p = as_device a)
         \<and> (\<forall>sdp. m = Relayed (SignalAnswer s sdp) \<longrightarrow> p = as_browser a)))
     [Send 1 (Relayed (SignalOffer ''s'' ''sdp''))]"
    using registry_isolates_sessions [of sample_calls "FromBrowser ''s'' (SignalOffer ''s'' ''sdp'')"]
    unfolding sample_registry(1) Let_def prod.case by simp
  then show ?thesis by (auto simp: sample_registry(2) browser_session.extend_def)
qed

end
