(* ===== verification/Database.thy ===== *)
theory Database
  imports Contracts DeviceGateway
begin

section \<open>The tables of the fleet\<close>

text \<open>
  \<open>packages/database/src/schema.ts\<close>: the rows of the tables the gateway and the queue of the
  web application work on, with the columns their code reads or writes (columns the database
  fills by itself and no modelled code reads are left out). A table is the list of its rows; an
  \<open>update ... where ... returning\<close> is a map over it and the list of the changed rows. The
  partial unique indexes are those of the migrations.
\<close>

datatype queue_status = Q_waiting | Q_offered | Q_accepted | Q_missed | Q_left | Q_expired

datatype drive_status = D_created | D_negotiating | D_active | D_ended

datatype job_status = J_pending | J_downloading | J_applying | J_succeeded | J_failed

record site_row =
  st_id :: ident
  st_slug :: string
  st_name :: string
  st_timezone :: string
  st_status :: string

record car_row =
  cr_id :: ident
  cr_siteId :: ident
  cr_slug :: string
  cr_name :: string
  cr_state :: car_state
  cr_batteryPercent :: "int option"
  cr_adminBlocked :: bool
  cr_steeringTrimPercent :: int
  cr_updatedAt :: date

record device_row =
  dv_id :: ident
  dv_carId :: "ident option"
  dv_siteId :: ident
  dv_kind :: string
  dv_serialNumber :: string
  dv_state :: car_state
  dv_lastSeenAt :: "date option"
  dv_metadata :: json
  dv_agentVersion :: "string option"
  dv_health :: "device_health option"
  dv_connectedAt :: "date option"
  dv_updatedAt :: date

record firmware_row =
  fw_id :: ident
  fw_componentKind :: string
  fw_version :: string
  fw_digestSha256 :: string
  fw_signature :: string
  fw_artifactUrl :: "string option"
  fw_artifactSizeBytes :: "int option"
  fw_runtimeGeneration :: "int option"

record job_row =
  uj_id :: ident
  uj_deviceId :: ident
  uj_firmwareVersionId :: ident
  uj_status :: job_status
  uj_attemptCount :: nat
  uj_failureReason :: "string option"
  uj_requestedBy :: ident
  uj_requestedAt :: date
  uj_startedAt :: "date option"
  uj_finishedAt :: "date option"
  uj_updatedAt :: date

record token_row =
  et_id :: ident
  et_carId :: ident
  et_tokenHash :: string
  et_expiresAt :: date
  et_consumedAt :: "date option"
  et_createdAt :: date

record credential_row =
  dk_id :: ident
  dk_deviceId :: ident
  dk_secretHash :: string
  dk_status :: string
  dk_revokedAt :: "date option"
  dk_lastAuthenticatedAt :: "date option"
  dk_updatedAt :: date

record queue_row =
  qe_id :: ident
  qe_userId :: ident
  qe_status :: queue_status
  qe_joinedAt :: date
  qe_expiresAt :: date
  qe_updatedAt :: date

record drive_row =
  ds_id :: ident
  ds_userId :: ident
  ds_carId :: ident
  ds_queueEntryId :: "ident option"
  ds_status :: drive_status
  ds_expiresAt :: date
  ds_startedAt :: "date option"
  ds_endedAt :: "date option"
  ds_createdAt :: date
  ds_updatedAt :: date

record fleet_db =
  db_sites :: "site_row list"
  db_cars :: "car_row list"
  db_devices :: "device_row list"
  db_firmware :: "firmware_row list"
  db_jobs :: "job_row list"
  db_tokens :: "token_row list"
  db_credentials :: "credential_row list"
  db_queue :: "queue_row list"
  db_drives :: "drive_row list"

type_synonym 'a db_result = "(string, 'a, fleet_db) outcome"

subsection \<open>Queries and updates\<close>

definition update_where :: "('r \<Rightarrow> bool) \<Rightarrow> ('r \<Rightarrow> 'r) \<Rightarrow> 'r list \<Rightarrow> 'r list" where
  "update_where P f rows = map (\<lambda>r. if P r then f r else r) rows"

definition returning :: "('r \<Rightarrow> bool) \<Rightarrow> ('r \<Rightarrow> 'r) \<Rightarrow> 'r list \<Rightarrow> 'r list" where
  "returning P f rows = map f (filter P rows)"

definition first_row :: "'r list \<Rightarrow> 'r option" where
  "first_row rows = (case rows of [] \<Rightarrow> None | r # rs \<Rightarrow> Some r)"

definition open_drive :: "drive_row \<Rightarrow> bool" where
  "open_drive d = (ds_status d = D_created \<or> ds_status d = D_negotiating \<or> ds_status d = D_active)"

definition live_entry :: "queue_row \<Rightarrow> bool" where
  "live_entry e = (qe_status e = Q_waiting \<or> qe_status e = Q_offered)"

definition active_job :: "job_row \<Rightarrow> bool" where
  "active_job j = (uj_status j = J_pending \<or> uj_status j = J_downloading \<or> uj_status j = J_applying)"

text \<open>
  The constraints of an insert into \<open>drive_sessions\<close>: the primary key, one open session per
  car and per user, one session per queue entry.
\<close>

definition drive_conflict :: "drive_row list \<Rightarrow> drive_row \<Rightarrow> bool" where
  "drive_conflict rows d = list_ex (\<lambda>r. ds_id r = ds_id d
     \<or> (open_drive r \<and> open_drive d \<and> (ds_carId r = ds_carId d \<or> ds_userId r = ds_userId d))
     \<or> (ds_queueEntryId r \<noteq> None \<and> ds_queueEntryId r = ds_queueEntryId d)) rows"

text \<open>Those of an insert into \<open>queue_entries\<close>: the primary key and one live entry per user.\<close>

definition queue_conflict :: "queue_row list \<Rightarrow> queue_row \<Rightarrow> bool" where
  "queue_conflict rows e = list_ex (\<lambda>r. qe_id r = qe_id e
     \<or> (live_entry r \<and> live_entry e \<and> qe_userId r = qe_userId e)) rows"

lemma update_where_Nil [simp]: "update_where P f [] = []"
  by (simp add: update_where_def)

lemma map_update_where:
  "(\<And>r. P r \<Longrightarrow> g (f r) = g r) \<Longrightarrow> map g (update_where P f rows) = map g rows"
  by (simp add: update_where_def)

lemma in_update_where:
  "r \<in> set (update_where P f rows) \<longleftrightarrow> (\<exists>s \<in> set rows. r = (if P s then f s else s))"
  by (auto simp: update_where_def)

lemma update_where_none: "filter P rows = [] \<Longrightarrow> update_where P f rows = rows"
  by (auto simp: update_where_def filter_empty_conv intro: map_idI)

lemma length_update_where [simp]: "length (update_where P f rows) = length rows"
  by (simp add: update_where_def)

lemma returning_Nil [simp]: "returning P f rows = [] \<longleftrightarrow> filter P rows = []"
  by (simp add: returning_def)

lemma first_row_simps [simp]:
  "first_row [] = None" "first_row (r # rs) = Some r"
  "first_row rows = None \<longleftrightarrow> rows = []"
  by (auto simp: first_row_def split: list.splits)

lemma first_returning:
  "first_row (returning P f rows) = Some s \<Longrightarrow> \<exists>r \<in> set rows. P r \<and> s = f r"
  by (cases "filter P rows") (auto simp: returning_def dest: filter_eq_ConsD)

lemma filter_update_where_sub:
  "(\<And>r. P r \<Longrightarrow> Q (f r) \<Longrightarrow> Q r \<and> g (f r) = g r) \<Longrightarrow>
   subseq (map g (filter Q (update_where P f rows))) (map g (filter Q rows))"
  unfolding update_where_def by (rule filter_map_sub) (auto split: if_splits)

end
