(* ===== verification/GatewayStore.thy ===== *)
theory GatewayStore
  imports Database
begin

section \<open>The store of the gateway\<close>

text \<open>
  \<open>apps/gateway/src/postgres-store.ts\<close>: the class \<open>PostgresGatewayStore\<close>, the implementation of
  the interface \<open>GatewayStore\<close> (\<open>store.ts\<close>) over the tables. A method is a function on the
  tables; a transaction that throws is rolled back, statements outside a transaction stay.
  Statements of one method run without others in between. Identifiers the database makes
  (\<open>gen_random_uuid\<close>) are arguments. Where a query has a limit but no order, the first row in
  storage order is taken.
\<close>

definition DRIVE_CONNECTION_TIMEOUT_MS :: int where
  "DRIVE_CONNECTION_TIMEOUT_MS = 20000"

definition connecting_drive :: "drive_row \<Rightarrow> bool" where
  "connecting_drive d = (ds_status d = D_created \<or> ds_status d = D_negotiating)"

definition shouldExpireDriveSession :: "drive_row \<Rightarrow> date \<Rightarrow> bool" where
  "shouldExpireDriveSession d now =
     (if ds_expiresAt d \<le> now then True
      else connecting_drive d \<and> ds_updatedAt d \<le> now - DRIVE_CONNECTION_TIMEOUT_MS)"

subsection \<open>Digests\<close>

text \<open>
  \<open>Buffer.from(s, "base64url")\<close>: characters of either alphabet count, others are skipped, the
  first padding sign ends the text; every four characters give three bytes.
\<close>

definition sextet :: "char \<Rightarrow> nat option" where
  "sextet c = (let n = (of_char c :: nat) in
     if 65 \<le> n \<and> n \<le> 90 then Some (n - 65)
     else if 97 \<le> n \<and> n \<le> 122 then Some (n - 71)
     else if 48 \<le> n \<and> n \<le> 57 then Some (n + 4)
     else if n = 43 \<or> n = 45 then Some 62
     else if n = 47 \<or> n = 95 then Some 63 else None)"

fun sextets_bytes :: "nat list \<Rightarrow> nat list" where
  "sextets_bytes (a # b # c # d # rest) =
     [a * 4 + b div 16, (b mod 16) * 16 + c div 4, (c mod 4) * 64 + d] @ sextets_bytes rest"
| "sextets_bytes [a, b, c] = [a * 4 + b div 16, (b mod 16) * 16 + c div 4]"
| "sextets_bytes [a, b] = [a * 4 + b div 16]"
| "sextets_bytes [a] = []"
| "sextets_bytes [] = []"

definition base64url_bytes :: "string \<Rightarrow> nat list" where
  "base64url_bytes s = sextets_bytes (List.map_filter sextet (takeWhile (\<lambda>c. c \<noteq> CHR ''='') s))"

definition safeDigestEqual :: "string \<Rightarrow> string \<Rightarrow> bool" where
  "safeDigestEqual left right = (base64url_bytes left = base64url_bytes right)"

subsection \<open>The state of a car from its devices\<close>

text \<open>The device seen last after the cutoff (\<open>order by last_seen_at desc nulls last limit 1\<close>).\<close>

definition fresh_devices :: "device_row list \<Rightarrow> ident \<Rightarrow> date \<Rightarrow> device_row list" where
  "fresh_devices ds carId cutoff = filter (\<lambda>d. dv_carId d = Some carId
     \<and> (case dv_lastSeenAt d of Some t \<Rightarrow> cutoff < t | None \<Rightarrow> False)) ds"

definition freshDeviceState :: "fleet_db \<Rightarrow> date \<Rightarrow> car_row \<Rightarrow> car_state" where
  "freshDeviceState db cutoff car =
     (if cr_adminBlocked car then ADMIN_BLOCKED
      else case sort_key (\<lambda>d. - the (dv_lastSeenAt d)) (fresh_devices (db_devices db) (cr_id car) cutoff) of
        [] \<Rightarrow> OFFLINE
      | d # ds \<Rightarrow> dv_state d)"

definition set_car :: "ident \<Rightarrow> (car_row \<Rightarrow> car_row) \<Rightarrow> fleet_db \<Rightarrow> fleet_db" where
  "set_car carId f db = db\<lparr>db_cars := update_where (\<lambda>c. cr_id c = carId) f (db_cars db)\<rparr>"

subsection \<open>Enrollment\<close>

record enrollment_input =
  ei_tokenHash :: string
  ei_secretHash :: string
  ei_serialNumber :: string
  ei_agentVersion :: string
  ei_capabilities :: json
  ei_now :: date

definition open_token :: "enrollment_input \<Rightarrow> token_row \<Rightarrow> bool" where
  "open_token i t = (et_tokenHash t = ei_tokenHash i \<and> et_consumedAt t = None \<and> ei_now i < et_expiresAt t)"

definition consumeEnrollment ::
  "fleet_db \<Rightarrow> enrollment_input \<Rightarrow> ident \<Rightarrow> ident \<Rightarrow> (ident \<times> ident) option db_result" where
  "consumeEnrollment db i deviceId credentialId =
     (case first_row (returning (open_token i) (\<lambda>t. t\<lparr>et_consumedAt := Some (ei_now i)\<rparr>) (db_tokens db)) of
        None \<Rightarrow> (Inr None, db)
      | Some token \<Rightarrow>
         (case List.find (\<lambda>c. cr_id c = et_carId token) (db_cars db) of
            None \<Rightarrow> (Inl ''Enrollment car no longer exists'', db)
          | Some car \<Rightarrow>
              let device = \<lparr>dv_id = deviceId, dv_carId = Some (et_carId token), dv_siteId = cr_siteId car,
                    dv_kind = ''raspberry-pi'', dv_serialNumber = ei_serialNumber i, dv_state = INITIALIZING,
                    dv_lastSeenAt = None, dv_metadata = JObj [(''capabilities'', ei_capabilities i)],
                    dv_agentVersion = Some (ei_agentVersion i), dv_health = None, dv_connectedAt = None,
                    dv_updatedAt = ei_now i\<rparr>;
                  credential = \<lparr>dk_id = credentialId, dk_deviceId = deviceId, dk_secretHash = ei_secretHash i,
                    dk_status = ''active'', dk_revokedAt = None, dk_lastAuthenticatedAt = None,
                    dk_updatedAt = ei_now i\<rparr>
              in
              if list_ex (\<lambda>d. dv_id d = deviceId \<or> dv_serialNumber d = ei_serialNumber i) (db_devices db)
              then (Inl ''duplicate device'', db)
              else if list_ex (\<lambda>k. dk_id k = credentialId \<or> dk_secretHash k = ei_secretHash i
                  \<or> (dk_deviceId k = deviceId \<and> dk_status k = ''active'' \<and> dk_revokedAt k = None)) (db_credentials db)
              then (Inl ''duplicate credential'', db)
              else (Inr (Some (deviceId, et_carId token)),
                db\<lparr>db_tokens := update_where (open_token i) (\<lambda>t. t\<lparr>et_consumedAt := Some (ei_now i)\<rparr>) (db_tokens db),
                   db_devices := db_devices db @ [device],
                   db_credentials := db_credentials db @ [credential]\<rparr>)))"

subsection \<open>Authentication of devices\<close>

record authenticated_device =
  ad_deviceId :: ident
  ad_carId :: ident
  ad_agentVersion :: string
  ad_capabilities :: device_capabilities

definition active_credential :: "ident \<Rightarrow> credential_row \<Rightarrow> bool" where
  "active_credential deviceId k = (dk_deviceId k = deviceId \<and> dk_status k = ''active'' \<and> dk_revokedAt k = None)"

fun metadata_fields :: "json \<Rightarrow> (string \<times> json) list" where
  "metadata_fields (JObj fs) = fs"
| "metadata_fields j = []"

definition device_jobs :: "ident \<Rightarrow> job_status \<Rightarrow> job_row \<Rightarrow> bool" where
  "device_jobs deviceId s j = (uj_deviceId j = deviceId \<and> uj_status j = s)"

text \<open>The end of an update that was being applied: the device came back, with the new version or not.\<close>

definition finish_applying :: "firmware_row list \<Rightarrow> ident \<Rightarrow> string \<Rightarrow> date \<Rightarrow> job_row \<Rightarrow> job_row" where
  "finish_applying fws deviceId agentVersion now j =
     (case List.find (\<lambda>f. fw_id f = uj_firmwareVersionId j) fws of
        Some f \<Rightarrow> if device_jobs deviceId J_applying j then
            let succeeded = (fw_version f = agentVersion) in
            j\<lparr>uj_status := (if succeeded then J_succeeded else J_failed),
              uj_failureReason := (if succeeded then None
                else Some (js_slice (''device rolled back to '' @ agentVersion) 256)),
              uj_finishedAt := Some now, uj_updatedAt := now\<rparr> else j
      | None \<Rightarrow> j)"

definition authenticateDevice ::
  "fleet_db \<Rightarrow> ident \<Rightarrow> string \<Rightarrow> string \<Rightarrow> device_capabilities \<Rightarrow> date \<Rightarrow> authenticated_device option \<times> fleet_db" where
  "authenticateDevice db deviceId suppliedSecretHash agentVersion capabilities now =
     (case first_row [(k, d). k \<leftarrow> db_credentials db, active_credential deviceId k, d \<leftarrow> db_devices db, dv_id d = dk_deviceId k] of
        None \<Rightarrow> (None, db)
      | Some (k, d) \<Rightarrow>
         (case dv_carId d of
            None \<Rightarrow> (None, db)
          | Some carId \<Rightarrow>
              if carId = [] \<or> \<not> safeDigestEqual suppliedSecretHash (dk_secretHash k) then (None, db)
              else
                (Some \<lparr>ad_deviceId = deviceId, ad_carId = carId, ad_agentVersion = agentVersion, ad_capabilities = capabilities\<rparr>,
                 db\<lparr>db_credentials := update_where (\<lambda>k'. dk_id k' = dk_id k)
                      (\<lambda>k'. k'\<lparr>dk_lastAuthenticatedAt := Some now, dk_updatedAt := now\<rparr>) (db_credentials db),
                    db_devices := update_where (\<lambda>d'. dv_id d' = deviceId)
                      (\<lambda>d'. d'\<lparr>dv_state := INITIALIZING, dv_connectedAt := Some now, dv_agentVersion := Some agentVersion,
                         dv_metadata := JObj (map_set (metadata_fields (dv_metadata d)) ''capabilities'' (capabilities_json capabilities)),
                         dv_updatedAt := now\<rparr>) (db_devices db),
                    db_cars := update_where (\<lambda>c. cr_id c = carId \<and> \<not> cr_adminBlocked c)
                      (\<lambda>c. c\<lparr>cr_state := INITIALIZING, cr_updatedAt := now\<rparr>) (db_cars db),
                    db_jobs := map (finish_applying (db_firmware db) deviceId agentVersion now) (db_jobs db)\<rparr>)))"

subsection \<open>Updates of the device software\<close>

definition offerable :: "firmware_row list \<Rightarrow> ident \<Rightarrow> int \<Rightarrow> job_row \<Rightarrow> firmware_row option" where
  "offerable fws deviceId generation j =
     (if device_jobs deviceId J_pending j \<and> uj_attemptCount j = 0 then
        (case List.find (\<lambda>f. fw_id f = uj_firmwareVersionId j) fws of
           Some f \<Rightarrow> if fw_componentKind f = ''pi-agent'' \<and> fw_runtimeGeneration f = Some generation then Some f else None
         | None \<Rightarrow> None)
      else None)"

definition claimPendingUpdate :: "fleet_db \<Rightarrow> ident \<Rightarrow> int option \<Rightarrow> date \<Rightarrow> update_offer option \<times> fleet_db" where
  "claimPendingUpdate db deviceId runtimeGeneration now =
     (case runtimeGeneration of
        None \<Rightarrow> (None, db)
      | Some generation \<Rightarrow>
         (case first_row [(j, f). j \<leftarrow> db_jobs db, f \<leftarrow> (case offerable (db_firmware db) deviceId generation j of Some f \<Rightarrow> [f] | None \<Rightarrow> [])] of
            None \<Rightarrow> (None, db)
          | Some (j, f) \<Rightarrow>
             (case (fw_artifactUrl f, fw_artifactSizeBytes f) of
                (Some url, Some bytes) \<Rightarrow>
                  if generation = 0 \<or> url = [] \<or> bytes = 0 then (None, db)
                  else
                    (Some \<lparr>uo_updateId = uj_id j, uo_version = fw_version f, uo_runtimeGeneration = generation,
                       uo_artifactUrl = url, uo_artifactSizeBytes = bytes, uo_digestSha256 = fw_digestSha256 f,
                       uo_signature = fw_signature f\<rparr>,
                     db\<lparr>db_jobs := update_where
                          (\<lambda>j'. uj_id j' = uj_id j \<and> uj_status j' = J_pending \<and> uj_attemptCount j' = 0)
                          (\<lambda>j'. j'\<lparr>uj_status := J_downloading, uj_attemptCount := 1, uj_startedAt := Some now, uj_updatedAt := now\<rparr>)
                          (db_jobs db)\<rparr>)
              | _ \<Rightarrow> (None, db))))"

fun progress_status :: "update_progress \<Rightarrow> job_status" where
  "progress_status Downloading = J_downloading"
| "progress_status Applying = J_applying"
| "progress_status Failed = J_failed"

definition progress_allowed :: "update_progress \<Rightarrow> job_status list" where
  "progress_allowed status =
     (if status = Downloading then [J_downloading] else if status = Applying then [J_downloading]
      else [J_downloading, J_applying])"

definition bounded_reason :: "string option \<Rightarrow> string option" where
  "bounded_reason reason = (case reason of None \<Rightarrow> None
     | Some r \<Rightarrow> let b = js_slice (js_trim r) 256 in if b = [] then None else Some b)"

definition recordUpdateStatus ::
  "fleet_db \<Rightarrow> ident \<Rightarrow> ident \<Rightarrow> update_progress \<Rightarrow> string option \<Rightarrow> date \<Rightarrow> bool \<times> fleet_db" where
  "recordUpdateStatus db deviceId updateId status reason now =
     (let P = (\<lambda>j. uj_id j = updateId \<and> uj_deviceId j = deviceId \<and> uj_status j \<in> set (progress_allowed status));
          f = (\<lambda>j. j\<lparr>uj_status := progress_status status,
             uj_failureReason := (if status = Failed then Some (case bounded_reason reason of Some r \<Rightarrow> r
                | None \<Rightarrow> ''device rejected update'') else None),
             uj_finishedAt := (if status = Failed then Some now else None), uj_updatedAt := now\<rparr>)
      in (returning P f (db_jobs db) \<noteq> [], db\<lparr>db_jobs := update_where P f (db_jobs db)\<rparr>))"

subsection \<open>Presence\<close>

definition battery_in_range :: "int option \<Rightarrow> bool" where
  "battery_in_range b = (case b of None \<Rightarrow> True | Some p \<Rightarrow> 0 \<le> p \<and> p \<le> 100)"

definition batteryCarUpdate :: "device_health \<Rightarrow> int option option" where
  "batteryCarUpdate health = dh_batteryPercent health"

definition recordHeartbeat ::
  "fleet_db \<Rightarrow> ident \<Rightarrow> device_health \<Rightarrow> date \<Rightarrow> (ident \<times> bool) option db_result" where
  "recordHeartbeat db deviceId health now =
     (let f = (\<lambda>d. d\<lparr>dv_health := Some health, dv_lastSeenAt := Some now, dv_updatedAt := now\<rparr>);
          db1 = db\<lparr>db_devices := update_where (\<lambda>d. dv_id d = deviceId) f (db_devices db)\<rparr> in
      case first_row (returning (\<lambda>d. dv_id d = deviceId) f (db_devices db)) of
        None \<Rightarrow> (Inr None, db1)
      | Some device \<Rightarrow>
         (case dv_carId device of
            None \<Rightarrow> (Inr None, db1)
          | Some carId \<Rightarrow>
              if carId = [] then (Inr None, db1)
              else
               (case batteryCarUpdate health of
                  Some b \<Rightarrow>
                    if \<not> battery_in_range b \<and> list_ex (\<lambda>c. cr_id c = carId) (db_cars db1)
                    then (Inl ''cars_battery_range'', db1)
                    else let db2 = set_car carId (\<lambda>c. c\<lparr>cr_batteryPercent := b, cr_updatedAt := now\<rparr>) db1 in
                      (Inr (map_option (\<lambda>c. (carId, cr_adminBlocked c)) (List.find (\<lambda>c. cr_id c = carId) (db_cars db2))), db2)
                | None \<Rightarrow>
                    (Inr (map_option (\<lambda>c. (carId, cr_adminBlocked c)) (List.find (\<lambda>c. cr_id c = carId) (db_cars db1))), db1))))"

definition setPresenceState :: "fleet_db \<Rightarrow> ident \<Rightarrow> car_state \<Rightarrow> date \<Rightarrow> fleet_db" where
  "setPresenceState db deviceId state now =
     (let f = (\<lambda>d. d\<lparr>dv_state := state, dv_updatedAt := now\<rparr>);
          db1 = db\<lparr>db_devices := update_where (\<lambda>d. dv_id d = deviceId) f (db_devices db)\<rparr> in
      case first_row (returning (\<lambda>d. dv_id d = deviceId) f (db_devices db)) of
        None \<Rightarrow> db1
      | Some device \<Rightarrow>
         (case dv_carId device of
            None \<Rightarrow> db1
          | Some carId \<Rightarrow>
              if carId = [] then db1
              else let carState = (case List.find (\<lambda>c. cr_id c = carId) (db_cars db1) of
                         Some car \<Rightarrow> if cr_adminBlocked car then ADMIN_BLOCKED else state
                       | None \<Rightarrow> state) in
                db1\<lparr>db_cars := update_where
                      (\<lambda>c. cr_id c = carId \<and> \<not> list_ex (\<lambda>s. ds_carId s = carId \<and> open_drive s) (db_drives db1))
                      (\<lambda>c. c\<lparr>cr_state := carState, cr_updatedAt := now\<rparr>) (db_cars db1)\<rparr>))"

definition markDeviceOffline :: "fleet_db \<Rightarrow> ident \<Rightarrow> date \<Rightarrow> fleet_db" where
  "markDeviceOffline db deviceId now =
     (let f = (\<lambda>d. d\<lparr>dv_state := OFFLINE, dv_connectedAt := None, dv_updatedAt := now\<rparr>);
          db1 = db\<lparr>db_devices := update_where (\<lambda>d. dv_id d = deviceId) f (db_devices db)\<rparr> in
      case first_row (returning (\<lambda>d. dv_id d = deviceId) f (db_devices db)) of
        None \<Rightarrow> db1
      | Some device \<Rightarrow>
         (case dv_carId device of
            None \<Rightarrow> db1
          | Some carId \<Rightarrow>
              if carId = [] then db1
              else set_car carId (\<lambda>c. c\<lparr>cr_state := (if cr_adminBlocked c then ADMIN_BLOCKED else OFFLINE), cr_updatedAt := now\<rparr>) db1))"

definition stale_device :: "date \<Rightarrow> device_row \<Rightarrow> bool" where
  "stale_device cutoff d = ((case dv_lastSeenAt d of None \<Rightarrow> True | Some t \<Rightarrow> t < cutoff) \<and> dv_state d \<noteq> OFFLINE)"

definition expireStaleDevices :: "fleet_db \<Rightarrow> date \<Rightarrow> date \<Rightarrow> nat \<times> fleet_db" where
  "expireStaleDevices db cutoff now =
     (let stale = filter (stale_device cutoff) (db_devices db)
      in (length stale, foldl (\<lambda>db d. markDeviceOffline db (dv_id d) now) db stale))"

subsection \<open>Drive sessions\<close>

definition authorizeDriveSession :: "fleet_db \<Rightarrow> ident \<Rightarrow> ident \<Rightarrow> ident \<Rightarrow> date \<Rightarrow> date option \<times> fleet_db" where
  "authorizeDriveSession db sessionId userId carId now =
     (let P = (\<lambda>s. ds_id s = sessionId \<and> ds_userId s = userId \<and> ds_carId s = carId \<and> ds_status s = D_created \<and> now < ds_expiresAt s);
          f = (\<lambda>s. s\<lparr>ds_status := D_negotiating, ds_startedAt := Some now, ds_updatedAt := now\<rparr>) in
      case first_row (returning P f (db_drives db)) of
        None \<Rightarrow> (None, db)
      | Some session \<Rightarrow>
          (Some (ds_expiresAt session),
           set_car (ds_carId session) (\<lambda>c. c\<lparr>cr_state := CONNECTING, cr_updatedAt := now\<rparr>)
             (db\<lparr>db_drives := update_where P f (db_drives db)\<rparr>)))"

definition markDriveSessionActive :: "fleet_db \<Rightarrow> ident \<Rightarrow> date \<Rightarrow> bool \<times> fleet_db" where
  "markDriveSessionActive db sessionId now =
     (let P = (\<lambda>s. ds_id s = sessionId \<and> ds_status s = D_negotiating
            \<and> now - DRIVE_CONNECTION_TIMEOUT_MS < ds_updatedAt s \<and> now < ds_expiresAt s);
          f = (\<lambda>s. s\<lparr>ds_status := D_active, ds_updatedAt := now\<rparr>) in
      case first_row (returning P f (db_drives db)) of
        None \<Rightarrow> (False, db)
      | Some session \<Rightarrow>
          (True, set_car (ds_carId session) (\<lambda>c. c\<lparr>cr_state := car_state.ACTIVE, cr_updatedAt := now\<rparr>)
             (db\<lparr>db_drives := update_where P f (db_drives db)\<rparr>)))"

text \<open>What the end of a session does to its queue entry and its car.\<close>

definition release_session :: "date \<Rightarrow> fleet_db \<Rightarrow> drive_row \<Rightarrow> fleet_db" where
  "release_session now db session =
     (let db1 = (case ds_queueEntryId session of
            Some e \<Rightarrow> if e = [] then db else db\<lparr>db_queue := update_where (\<lambda>q. qe_id q = e)
                (\<lambda>q. q\<lparr>qe_status := Q_left, qe_expiresAt := now, qe_updatedAt := now\<rparr>) (db_queue db)\<rparr>
          | None \<Rightarrow> db)
      in set_car (ds_carId session)
           (\<lambda>c. c\<lparr>cr_state := freshDeviceState db1 (now - 15000) c, cr_updatedAt := now\<rparr>) db1)"

definition end_drive :: "date \<Rightarrow> drive_row \<Rightarrow> drive_row" where
  "end_drive now s = s\<lparr>ds_status := D_ended, ds_endedAt := Some now, ds_updatedAt := now\<rparr>"

definition endDriveSession :: "fleet_db \<Rightarrow> ident \<Rightarrow> string \<Rightarrow> date \<Rightarrow> fleet_db" where
  "endDriveSession db sessionId reason now =
     (let P = (\<lambda>s. ds_id s = sessionId \<and> open_drive s) in
      case first_row (returning P (end_drive now) (db_drives db)) of
        None \<Rightarrow> db
      | Some session \<Rightarrow>
          release_session now (db\<lparr>db_drives := update_where P (end_drive now) (db_drives db)\<rparr>) session)"

definition expireDriveSessions :: "fleet_db \<Rightarrow> date \<Rightarrow> nat \<times> fleet_db" where
  "expireDriveSessions db now =
     (let P = (\<lambda>s. open_drive s \<and> (ds_expiresAt s \<le> now
              \<or> connecting_drive s \<and> ds_updatedAt s \<le> now - DRIVE_CONNECTION_TIMEOUT_MS));
          expired = returning P (end_drive now) (db_drives db)
      in (length expired,
          foldl (release_session now) (db\<lparr>db_drives := update_where P (end_drive now) (db_drives db)\<rparr>) expired))"

subsection \<open>Provisioning\<close>

record provision_input =
  pi_siteSlug :: string
  pi_siteName :: string
  pi_timezone :: string
  pi_carSlug :: string
  pi_carName :: string
  pi_tokenHash :: string
  pi_expiresAt :: date
  pi_now :: date

definition provisionCar ::
  "fleet_db \<Rightarrow> provision_input \<Rightarrow> ident \<Rightarrow> ident \<Rightarrow> ident \<Rightarrow> (ident \<times> ident) db_result" where
  "provisionCar db i siteUuid carUuid tokenUuid =
     (let sites = (if list_ex (\<lambda>s. st_slug s = pi_siteSlug i) (db_sites db) then db_sites db
            else db_sites db @ [\<lparr>st_id = siteUuid, st_slug = pi_siteSlug i, st_name = pi_siteName i,
              st_timezone = pi_timezone i, st_status = ''online''\<rparr>]) in
      case List.find (\<lambda>s. st_slug s = pi_siteSlug i) sites of
        None \<Rightarrow> (Inl ''Could not provision site'', db)
      | Some site \<Rightarrow>
          let cars = (if list_ex (\<lambda>c. cr_slug c = pi_carSlug i) (db_cars db)
                then update_where (\<lambda>c. cr_slug c = pi_carSlug i)
                  (\<lambda>c. c\<lparr>cr_name := pi_carName i, cr_siteId := st_id site, cr_updatedAt := pi_now i\<rparr>) (db_cars db)
                else db_cars db @ [\<lparr>cr_id = carUuid, cr_siteId = st_id site, cr_slug = pi_carSlug i, cr_name = pi_carName i,
                  cr_state = OFFLINE, cr_batteryPercent = None, cr_adminBlocked = False, cr_steeringTrimPercent = 0,
                  cr_updatedAt = pi_now i\<rparr>]) in
          (case List.find (\<lambda>c. cr_slug c = pi_carSlug i) cars of
             None \<Rightarrow> (Inl ''Could not provision car'', db)
           | Some car \<Rightarrow>
               if (\<not> list_ex (\<lambda>s. st_slug s = pi_siteSlug i) (db_sites db) \<and> list_ex (\<lambda>s. st_id s = siteUuid) (db_sites db))
                 \<or> (\<not> list_ex (\<lambda>c. cr_slug c = pi_carSlug i) (db_cars db) \<and> list_ex (\<lambda>c. cr_id c = carUuid) (db_cars db))
               then (Inl ''duplicate key'', db)
               else if list_ex (\<lambda>t. et_id t = tokenUuid \<or> et_tokenHash t = pi_tokenHash i) (db_tokens db) \<or> pi_expiresAt i \<le> pi_now i
               then (Inl ''device_enrollment_tokens'', db)
               else (Inr (st_id site, cr_id car),
                 db\<lparr>db_sites := sites, db_cars := cars,
                    db_tokens := db_tokens db @ [\<lparr>et_id = tokenUuid, et_carId = cr_id car, et_tokenHash = pi_tokenHash i,
                      et_expiresAt = pi_expiresAt i, et_consumedAt = None, et_createdAt = pi_now i\<rparr>]\<rparr>)))"

end
