(* ===== verification/LiveQueue.thy ===== *)
theory LiveQueue
  imports Database "HOL-Library.Product_Lexorder" "HOL-Library.List_Lexorder" "HOL-Library.Char_ord"
begin

section \<open>The live queue of the web application\<close>

text \<open>
  \<open>apps/web/app/live-queue-store.ts\<close>: the queue drivers join, over the tables. Every operation
  is one transaction under one advisory lock, so it is a function on the tables; its clock is
  the caller's time plus what a monotonic clock advanced while it waited for the lock (the two
  readings are arguments). Names and identifiers are compared by character codes.
\<close>

definition QUEUE_LEASE_MS :: int where
  "QUEUE_LEASE_MS = 60000"

definition QUEUE_OFFER_MS :: int where
  "QUEUE_OFFER_MS = 15000"

definition DEVICE_FRESHNESS_MS :: int where
  "DEVICE_FRESHNESS_MS = 15000"

datatype availability = Available | In_use

record queue_car =
  qc_id :: ident
  qc_slug :: string
  qc_name :: string
  qc_batteryPercent :: "int option"
  qc_availability :: availability

datatype snapshot_status = S_waiting | S_ready | S_driving | S_expired

record live_snapshot =
  ls_entryId :: ident
  ls_position :: nat
  ls_count :: nat
  ls_availableCarCount :: nat
  ls_status :: snapshot_status
  ls_offerExpiresAt :: "date option"
  ls_serverNow :: "date option"
  ls_cars :: "queue_car list"

record position_row =
  pr_id :: ident
  pr_userId :: ident
  pr_status :: "queue_status option"
  pr_expiresAt :: "date option"

definition available_cars :: "queue_car list \<Rightarrow> queue_car list" where
  "available_cars cars = filter (\<lambda>car. qc_availability car = Available) cars"

text \<open>The position of the first element that fits (\<open>findIndex\<close>).\<close>

fun find_index :: "('a \<Rightarrow> bool) \<Rightarrow> 'a list \<Rightarrow> nat option" where
  "find_index P [] = None"
| "find_index P (x # xs) = (if P x then Some 0 else map_option Suc (find_index P xs))"

definition queueSnapshotFromState ::
  "ident \<Rightarrow> position_row list \<Rightarrow> queue_car list \<Rightarrow> date option \<Rightarrow> string + live_snapshot" where
  "queueSnapshotFromState userId entries cars now =
     (case find_index (\<lambda>entry. pr_userId entry = userId) entries of
        None \<Rightarrow> Inl ''Live queue entry is missing''
      | Some index \<Rightarrow>
          let position = index + 1;
              availableCars = available_cars cars;
              entry = entries ! index;
              ready = (length availableCars > 0 \<and> position \<le> length availableCars
                \<and> (pr_status entry = None \<or> pr_status entry = Some Q_offered))
          in Inr \<lparr>ls_entryId = pr_id entry, ls_position = position, ls_count = length entries,
               ls_availableCarCount = length availableCars,
               ls_status = (if ready then S_ready else S_waiting),
               ls_offerExpiresAt = (if ready then pr_expiresAt entry else None),
               ls_serverNow = now, ls_cars = cars\<rparr>)"

text \<open>The rows of the joined query: a car, once, with the open session it is used by.\<close>

record car_status_row =
  cs_id :: ident
  cs_slug :: string
  cs_name :: string
  cs_batteryPercent :: "int option"
  cs_carState :: car_state
  cs_driveSessionId :: "ident option"

definition running_drive :: "date \<Rightarrow> ident \<Rightarrow> drive_row \<Rightarrow> bool" where
  "running_drive now carId s = (ds_carId s = carId \<and> open_drive s \<and> now < ds_expiresAt s)"

definition left_join :: "'a list \<Rightarrow> 'a option list" where
  "left_join xs = (if xs = [] then [None] else map Some xs)"

definition usable_device :: "date \<Rightarrow> ident \<Rightarrow> device_row \<Rightarrow> bool" where
  "usable_device cutoff carId d = (dv_carId d = Some carId \<and> dv_state d = AVAILABLE
     \<and> (case dv_lastSeenAt d of Some t \<Rightarrow> cutoff < t | None \<Rightarrow> False))"

definition car_status_rows :: "fleet_db \<Rightarrow> date \<Rightarrow> car_status_row list" where
  "car_status_rows db now =
     sort_key (\<lambda>r. (cs_name r, cs_id r)) (remdups
       [\<lparr>cs_id = cr_id c, cs_slug = cr_slug c, cs_name = cr_name c, cs_batteryPercent = cr_batteryPercent c,
          cs_carState = cr_state c, cs_driveSessionId = map_option ds_id s\<rparr>.
        c \<leftarrow> db_cars db, \<not> cr_adminBlocked c,
        d \<leftarrow> db_devices db, usable_device (now - DEVICE_FRESHNESS_MS) (cr_id c) d,
        s \<leftarrow> left_join (filter (running_drive now (cr_id c)) (db_drives db))])"

definition listQueueCars :: "fleet_db \<Rightarrow> date \<Rightarrow> queue_car list" where
  "listQueueCars db now = map (\<lambda>r. \<lparr>qc_id = cs_id r, qc_slug = cs_slug r, qc_name = cs_name r,
     qc_batteryPercent = cs_batteryPercent r,
     qc_availability = (if cs_carState r = AVAILABLE \<and> cs_driveSessionId r = None then Available else In_use)\<rparr>)
     (car_status_rows db now)"

subsection \<open>Advancing the queue\<close>

record queue_position =
  qp_id :: ident
  qp_userId :: ident
  qp_status :: queue_status
  qp_expiresAt :: date

definition entry_order :: "queue_row \<Rightarrow> date \<times> string" where
  "entry_order e = (qe_joinedAt e, qe_id e)"

definition position_of :: "queue_row \<Rightarrow> queue_position" where
  "position_of e = \<lparr>qp_id = qe_id e, qp_userId = qe_userId e, qp_status = qe_status e, qp_expiresAt = qe_expiresAt e\<rparr>"

text \<open>\<open>where status in ('waiting', 'offered') order by joined_at, id\<close>\<close>

definition live_positions :: "queue_row list \<Rightarrow> queue_position list" where
  "live_positions rows = map position_of (sort_key entry_order (filter live_entry rows))"

definition expire_leases :: "date \<Rightarrow> queue_row list \<Rightarrow> queue_row list" where
  "expire_leases now = update_where (\<lambda>e. qe_status e = Q_waiting \<and> qe_expiresAt e \<le> now)
     (\<lambda>e. e\<lparr>qe_status := Q_expired, qe_updatedAt := now\<rparr>)"

fun advance_loop ::
  "date \<Rightarrow> nat \<Rightarrow> queue_position list \<Rightarrow> queue_position list \<Rightarrow> queue_row list \<Rightarrow> queue_position list \<times> queue_row list" where
  "advance_loop now capacity [] entries rows = (entries, rows)"
| "advance_loop now capacity (entry # rest) entries rows =
     (let eligible = length entries < capacity in
      if qp_status entry = Q_offered \<and> eligible \<and> qp_expiresAt entry \<le> now
      then advance_loop now capacity rest entries
        (update_where (\<lambda>e. qe_id e = qp_id entry) (\<lambda>e. e\<lparr>qe_status := Q_missed, qe_updatedAt := now\<rparr>) rows)
      else
        let status = (if eligible then Q_offered else Q_waiting) in
        if qp_status entry \<noteq> status
        then let expires = now + (if eligible then QUEUE_OFFER_MS else QUEUE_LEASE_MS) in
          advance_loop now capacity rest (entries @ [entry\<lparr>qp_status := status, qp_expiresAt := expires\<rparr>])
            (update_where (\<lambda>e. qe_id e = qp_id entry)
              (\<lambda>e. e\<lparr>qe_status := status, qe_expiresAt := expires, qe_updatedAt := now\<rparr>) rows)
        else advance_loop now capacity rest (entries @ [entry]) rows)"

definition advanceLiveQueue :: "fleet_db \<Rightarrow> date \<Rightarrow> (queue_position list \<times> queue_car list) \<times> fleet_db" where
  "advanceLiveQueue db now =
     (let rows = expire_leases now (db_queue db);
          cars = listQueueCars (db\<lparr>db_queue := rows\<rparr>) now;
          capacity = length (available_cars cars);
          (entries, rows') = advance_loop now capacity (live_positions rows) [] rows
      in ((entries, cars), db\<lparr>db_queue := rows'\<rparr>))"

subsection \<open>The operations\<close>

text \<open>\<open>new Date(now.getTime() + Math.max(0, later - earlier))\<close>: a date drops the fraction.\<close>

definition clock_after :: "date \<Rightarrow> rat \<Rightarrow> rat \<Rightarrow> date" where
  "clock_after now earlier later =
     (let x = of_int now + max 0 (later - earlier) in if 0 \<le> x then \<lfloor>x\<rfloor> else \<lceil>x\<rceil>)"

definition position_row_of :: "queue_position \<Rightarrow> position_row" where
  "position_row_of p = \<lparr>pr_id = qp_id p, pr_userId = qp_userId p, pr_status = Some (qp_status p), pr_expiresAt = Some (qp_expiresAt p)\<rparr>"

definition last_entry :: "ident \<Rightarrow> queue_row list \<Rightarrow> queue_row option" where
  "last_entry userId rows = first_row (rev (sort_key entry_order (filter (\<lambda>e. qe_userId e = userId) rows)))"

definition new_entry :: "ident \<Rightarrow> ident \<Rightarrow> date \<Rightarrow> queue_row" where
  "new_entry uuid userId now = \<lparr>qe_id = uuid, qe_userId = userId, qe_status = Q_waiting, qe_joinedAt = now,
     qe_expiresAt = now + QUEUE_LEASE_MS, qe_updatedAt = now\<rparr>"

definition driving_entry :: "fleet_db \<Rightarrow> ident \<Rightarrow> date \<Rightarrow> ident option" where
  "driving_entry db userId now =
     (case List.find (\<lambda>s. ds_userId s = userId \<and> open_drive s \<and> now < ds_expiresAt s) (db_drives db) of
        None \<Rightarrow> None
      | Some s \<Rightarrow> (case ds_queueEntryId s of Some e \<Rightarrow> if e = [] then None else Some e | None \<Rightarrow> None))"

definition off_queue_snapshot ::
  "ident \<Rightarrow> queue_position list \<Rightarrow> queue_car list \<Rightarrow> snapshot_status \<Rightarrow> date \<Rightarrow> live_snapshot" where
  "off_queue_snapshot entryId entries cars status now =
     \<lparr>ls_entryId = entryId, ls_position = 0, ls_count = length entries,
      ls_availableCarCount = length (available_cars cars), ls_status = status,
      ls_offerExpiresAt = None, ls_serverNow = Some now, ls_cars = cars\<rparr>"

text \<open>The second advance and the answer from it.\<close>

definition finish_join :: "fleet_db \<Rightarrow> fleet_db \<Rightarrow> ident \<Rightarrow> date \<Rightarrow> live_snapshot db_result" where
  "finish_join db0 db userId now =
     (case advanceLiveQueue db now of
        ((entries, cars), db') \<Rightarrow>
         (case queueSnapshotFromState userId (map position_row_of entries) cars (Some now) of
            Inl e \<Rightarrow> (Inl e, db0)
          | Inr s \<Rightarrow> (Inr s, db')))"

definition joinOrRefresh ::
  "fleet_db \<Rightarrow> ident \<Rightarrow> date \<Rightarrow> bool \<Rightarrow> rat \<Rightarrow> rat \<Rightarrow> ident \<Rightarrow> live_snapshot db_result" where
  "joinOrRefresh db userId requestedAt explicitJoin startedAt lockedAt uuid =
     (let now = clock_after requestedAt startedAt lockedAt in
      case advanceLiveQueue db now of
        ((entries, cars), db1) \<Rightarrow>
         (case driving_entry db1 userId now of
            Some e \<Rightarrow> (Inr (off_queue_snapshot e entries cars S_driving now), db1)
          | None \<Rightarrow>
             (case List.find (\<lambda>entry. qp_userId entry = userId) entries of
                None \<Rightarrow>
                 (case last_entry userId (db_queue db1) of
                    Some l \<Rightarrow>
                      if \<not> explicitJoin \<and> qe_status l = Q_missed
                      then (Inr (off_queue_snapshot (qe_id l) entries cars S_expired now), db1)
                      else finish_join db (db1\<lparr>db_queue := (let e = new_entry uuid userId now in
                          if queue_conflict (db_queue db1) e then db_queue db1 else db_queue db1 @ [e])\<rparr>) userId now
                  | None \<Rightarrow> finish_join db (db1\<lparr>db_queue := (let e = new_entry uuid userId now in
                          if queue_conflict (db_queue db1) e then db_queue db1 else db_queue db1 @ [e])\<rparr>) userId now)
              | Some entry \<Rightarrow>
                  if qp_status entry = Q_waiting
                  then finish_join db (db1\<lparr>db_queue := update_where (\<lambda>e. qe_id e = qp_id entry)
                      (\<lambda>e. e\<lparr>qe_expiresAt := now + QUEUE_LEASE_MS, qe_updatedAt := now\<rparr>) (db_queue db1)\<rparr>) userId now
                  else finish_join db db1 userId now)))"

definition live_join :: "fleet_db \<Rightarrow> ident \<Rightarrow> date \<Rightarrow> rat \<Rightarrow> rat \<Rightarrow> ident \<Rightarrow> live_snapshot db_result" where
  "live_join db userId now m0 m1 uuid = joinOrRefresh db userId now True m0 m1 uuid"

definition live_read :: "fleet_db \<Rightarrow> ident \<Rightarrow> date \<Rightarrow> rat \<Rightarrow> rat \<Rightarrow> ident \<Rightarrow> live_snapshot db_result" where
  "live_read db userId now m0 m1 uuid = joinOrRefresh db userId now False m0 m1 uuid"

definition live_leave :: "fleet_db \<Rightarrow> ident \<Rightarrow> date \<Rightarrow> rat \<Rightarrow> rat \<Rightarrow> fleet_db" where
  "live_leave db userId requestedAt startedAt lockedAt =
     (let now = clock_after requestedAt startedAt lockedAt in
      snd (advanceLiveQueue (db\<lparr>db_queue := update_where (\<lambda>e. qe_userId e = userId \<and> live_entry e)
          (\<lambda>e. e\<lparr>qe_status := Q_left, qe_updatedAt := now, qe_expiresAt := now\<rparr>) (db_queue db)\<rparr>) now))"

subsection \<open>Rows and positions\<close>

definition queue_ok :: "queue_row list \<Rightarrow> bool" where
  "queue_ok rows = (distinct (map qe_id rows) \<and> distinct (map qe_userId (filter live_entry rows)))"

lemma sort_key_map: "(\<And>x. k (h x) = k x) \<Longrightarrow> sort_key k (map h xs) = map h (sort_key k xs)"
proof (induction xs)
  case (Cons x xs)
  have "insort_key k (h x) (map h ys) = map h (insort_key k x ys)" for ys
    using Cons.prems by (induction ys) auto
  then show ?case using Cons by simp
qed simp

lemma live_positions_eq: "live_positions rows = map position_of (filter live_entry (sort_key entry_order rows))"
  by (simp add: live_positions_def filter_sort)

definition keeps_place :: "(queue_row \<Rightarrow> queue_row) \<Rightarrow> bool" where
  "keeps_place f = (\<forall>e. qe_id (f e) = qe_id e \<and> qe_userId (f e) = qe_userId e \<and> qe_joinedAt (f e) = qe_joinedAt e)"

lemma sort_update_where:
  "keeps_place f \<Longrightarrow> sort_key entry_order (update_where P f rows) = update_where P f (sort_key entry_order rows)"
  unfolding update_where_def by (rule sort_key_map) (simp add: entry_order_def keeps_place_def)

lemma set_sort_order [simp]: "set (sort_key entry_order rows) = set rows"
  by simp

lemma distinct_sort_ids: "distinct (map qe_id rows) \<Longrightarrow> distinct (map qe_id (sort_key entry_order rows))"
  by (auto simp: distinct_map)

lemma position_fields [simp]:
  "qp_id (position_of e) = qe_id e" "qp_userId (position_of e) = qe_userId e"
  "qp_status (position_of e) = qe_status e" "qp_expiresAt (position_of e) = qe_expiresAt e"
  by (simp_all add: position_of_def)

text \<open>Taking a row out of the live ones takes its position out.\<close>

lemma live_positions_drop:
  assumes "keeps_place f" "\<And>e. P e \<Longrightarrow> \<not> live_entry (f e)" "\<And>e. P e \<longleftrightarrow> Q (position_of e)"
  shows "live_positions (update_where P f rows) = filter (\<lambda>p. \<not> Q p) (live_positions rows)"
proof -
  have "map position_of (filter live_entry (update_where P f S)) = filter (\<lambda>p. \<not> Q p) (map position_of (filter live_entry S))" for S
    using assms(2,3) by (induction S) (auto simp: update_where_def)
  then show ?thesis by (simp add: live_positions_eq sort_update_where [OF assms(1)])
qed

text \<open>Changing a live row into a live row changes its position.\<close>

lemma live_positions_change:
  assumes "keeps_place f" "\<And>e. position_of (f e) = g (position_of e)"
    and "\<And>e. e \<in> set rows \<Longrightarrow> qe_id e = k \<Longrightarrow> live_entry (f e) = live_entry e"
  shows "live_positions (update_where (\<lambda>e. qe_id e = k) f rows) =
     map (\<lambda>p. if qp_id p = k then g p else p) (live_positions rows)"
proof -
  have "map position_of (filter live_entry (update_where (\<lambda>e. qe_id e = k) f S)) =
      map (\<lambda>p. if qp_id p = k then g p else p) (map position_of (filter live_entry S))"
    if "set S \<subseteq> set rows" for S
    using that assms(2,3) by (induction S) (auto simp: update_where_def)
  then show ?thesis by (simp add: live_positions_eq sort_update_where [OF assms(1)])
qed

lemma live_positions_mem:
  "p \<in> set (live_positions rows) \<longleftrightarrow> (\<exists>e \<in> set rows. live_entry e \<and> p = position_of e)"
  by (auto simp: live_positions_eq)

lemma live_positions_ids: "distinct (map qe_id rows) \<Longrightarrow> distinct (map qp_id (live_positions rows))"
proof -
  assume "distinct (map qe_id rows)"
  then have "distinct (map qe_id (filter live_entry (sort_key entry_order rows)))"
    using distinct_sort_ids distinct_map_filter by blast
  then show ?thesis by (simp add: live_positions_eq comp_def)
qed

lemma update_where_ids: "keeps_place f \<Longrightarrow> map qe_id (update_where P f rows) = map qe_id rows"
  by (rule map_update_where) (simp add: keeps_place_def)

lemma live_row_unique:
  "distinct (map qe_id rows) \<Longrightarrow> p \<in> set (live_positions rows) \<Longrightarrow> e \<in> set rows \<Longrightarrow> qe_id e = qp_id p \<Longrightarrow> live_entry e"
  by (auto simp: live_positions_mem distinct_map inj_on_def)

subsection \<open>What advancing the queue does\<close>

text \<open>A queue is settled for a number of cars: the first places have a running offer, the rest wait.\<close>

definition settled_from :: "nat \<Rightarrow> date \<Rightarrow> nat \<Rightarrow> queue_position list \<Rightarrow> bool" where
  "settled_from n now capacity entries = (\<forall>i < length entries.
     qp_status (entries ! i) = (if n + i < capacity then Q_offered else Q_waiting) \<and> now < qp_expiresAt (entries ! i))"

lemma settled_from_Cons [simp]:
  "settled_from n now capacity (e # es) \<longleftrightarrow>
     qp_status e = (if n < capacity then Q_offered else Q_waiting) \<and> now < qp_expiresAt e \<and> settled_from (Suc n) now capacity es"
  by (auto simp: settled_from_def less_Suc_eq_0_disj nth_Cons')

lemma settled_from_Nil [simp]: "settled_from n now capacity []"
  by (simp add: settled_from_def)

lemma settled_from_append [simp]:
  "settled_from n now capacity (xs @ ys) \<longleftrightarrow> settled_from n now capacity xs \<and> settled_from (n + length xs) now capacity ys"
  by (induction xs arbitrary: n) auto

text \<open>An offer that ran out: the driver is in reach of a car and did not take it in time.\<close>

definition missed :: "date \<Rightarrow> queue_position \<Rightarrow> bool" where
  "missed now p = (qp_status p = Q_offered \<and> qp_expiresAt p \<le> now)"

definition waits_validly :: "date \<Rightarrow> queue_position \<Rightarrow> bool" where
  "waits_validly now p = ((qp_status p = Q_waiting \<or> qp_status p = Q_offered) \<and> (qp_status p = Q_waiting \<longrightarrow> now < qp_expiresAt p))"

lemma advance_loop_stable:
  "settled_from (length acc) now capacity ps \<Longrightarrow> advance_loop now capacity ps acc rows = (acc @ ps, rows)"
  by (induction ps arbitrary: acc) (auto simp: Let_def)

lemma advance_loop_live:
  assumes "distinct (map qe_id rows)" "live_positions rows = acc @ ps" "settled_from 0 now capacity acc"
    "list_all (waits_validly now) ps" "advance_loop now capacity ps acc rows = (entries, rows')"
  shows "live_positions rows' = entries \<and> map qe_id rows' = map qe_id rows \<and> settled_from 0 now capacity entries
     \<and> (\<forall>e \<in> set rows. \<not> live_entry e \<longrightarrow> e \<in> set rows')"
  using assms
proof (induction ps arbitrary: acc rows)
  case (Cons p ps)
  have ids: "distinct (map qp_id (acc @ p # ps))"
    using live_positions_ids [OF Cons.prems(1)] Cons.prems(2) by simp
  have p: "p \<in> set (live_positions rows)" using Cons.prems(2) by simp
  have live: "\<And>e. e \<in> set rows \<Longrightarrow> qe_id e = qp_id p \<Longrightarrow> live_entry e"
    using live_row_unique [OF Cons.prems(1) p] by blast
  have dead: "e \<in> set (update_where (\<lambda>e. qe_id e = qp_id p) f rows)"
    if "e \<in> set rows" "\<not> live_entry e" for e f
    using that live by (auto simp: in_update_where)
  let ?elig = "length acc < capacity"
  consider (miss) "qp_status p = Q_offered" "?elig" "qp_expiresAt p \<le> now"
    | (change) "\<not> (qp_status p = Q_offered \<and> ?elig \<and> qp_expiresAt p \<le> now)"
        "qp_status p \<noteq> (if ?elig then Q_offered else Q_waiting)"
    | (same) "\<not> (qp_status p = Q_offered \<and> ?elig \<and> qp_expiresAt p \<le> now)"
        "qp_status p = (if ?elig then Q_offered else Q_waiting)" by blast
  then show ?case
  proof cases
    case miss
    let ?f = "\<lambda>e. e\<lparr>qe_status := Q_missed, qe_updatedAt := now\<rparr>"
    let ?rows = "update_where (\<lambda>e. qe_id e = qp_id p) ?f rows"
    have kp: "keeps_place ?f" by (simp add: keeps_place_def)
    have "live_positions ?rows = filter (\<lambda>q. \<not> qp_id q = qp_id p) (live_positions rows)"
      by (rule live_positions_drop [OF kp]) (simp_all add: live_entry_def)
    also have "\<dots> = acc @ ps"
      using ids unfolding Cons.prems(2) by (auto simp: filter_id_conv image_iff) (metis (mono_tags, lifting) filter_True)+
    finally have lp: "live_positions ?rows = acc @ ps" .
    have "live_positions rows' = entries \<and> map qe_id rows' = map qe_id ?rows \<and> settled_from 0 now capacity entries
        \<and> (\<forall>e \<in> set ?rows. \<not> live_entry e \<longrightarrow> e \<in> set rows')"
      by (rule Cons.IH [OF _ lp Cons.prems(3)])
        (use Cons.prems(1,4,5) miss update_where_ids [OF kp] in \<open>simp_all add: Let_def\<close>)
    then show ?thesis using dead update_where_ids [OF kp, of "\<lambda>e. qe_id e = qp_id p" rows] by auto
  next
    case change
    let ?s = "if ?elig then Q_offered else Q_waiting"
    let ?x = "now + (if ?elig then QUEUE_OFFER_MS else QUEUE_LEASE_MS)"
    let ?f = "\<lambda>e. e\<lparr>qe_status := ?s, qe_expiresAt := ?x, qe_updatedAt := now\<rparr>"
    let ?p = "p\<lparr>qp_status := ?s, qp_expiresAt := ?x\<rparr>"
    let ?rows = "update_where (\<lambda>e. qe_id e = qp_id p) ?f rows"
    have kp: "keeps_place ?f" by (simp add: keeps_place_def)
    have "live_positions ?rows = map (\<lambda>q. if qp_id q = qp_id p then q\<lparr>qp_status := ?s, qp_expiresAt := ?x\<rparr> else q) (live_positions rows)"
      by (rule live_positions_change [OF kp]) (auto simp: position_of_def live, auto simp: live_entry_def)
    also have "\<dots> = (acc @ [?p]) @ ps"
      using ids unfolding Cons.prems(2) by (auto intro!: map_idI simp: image_iff)
    finally have lp: "live_positions ?rows = (acc @ [?p]) @ ps" .
    have st: "settled_from 0 now capacity (acc @ [?p])"
      using Cons.prems(3) by (simp add: QUEUE_OFFER_MS_def QUEUE_LEASE_MS_def)
    have "live_positions rows' = entries \<and> map qe_id rows' = map qe_id ?rows \<and> settled_from 0 now capacity entries
        \<and> (\<forall>e \<in> set ?rows. \<not> live_entry e \<longrightarrow> e \<in> set rows')"
      by (rule Cons.IH [OF _ lp st])
        (use Cons.prems(1,4,5) change update_where_ids [OF kp] in \<open>simp_all add: Let_def split: if_splits\<close>)
    then show ?thesis using dead update_where_ids [OF kp, of "\<lambda>e. qe_id e = qp_id p" rows] by auto
  next
    case same
    have st: "settled_from 0 now capacity (acc @ [p])"
      using Cons.prems(3,4) same by (auto simp: waits_validly_def split: if_splits)
    show ?thesis
      by (rule Cons.IH [OF Cons.prems(1) _ st])
        (use Cons.prems(2,4,5) same in \<open>auto simp: Let_def\<close>)
  qed
qed simp

text \<open>
  The reference: with so many cars left, the first driver in the queue who has not missed an
  offer gets or keeps one, and so on; when no car is left, everyone waits, and one who had an
  offer gets a new lease.
\<close>

definition offer_to :: "date \<Rightarrow> queue_position \<Rightarrow> queue_position" where
  "offer_to now p = (if qp_status p = Q_offered then p else p\<lparr>qp_status := Q_offered, qp_expiresAt := now + 15000\<rparr>)"

definition let_wait :: "date \<Rightarrow> queue_position \<Rightarrow> queue_position" where
  "let_wait now p = (if qp_status p = Q_waiting then p else p\<lparr>qp_status := Q_waiting, qp_expiresAt := now + 60000\<rparr>)"

fun serve :: "date \<Rightarrow> nat \<Rightarrow> queue_position list \<Rightarrow> queue_position list" where
  "serve now free [] = []"
| "serve now 0 (p # ps) = let_wait now p # serve now 0 ps"
| "serve now (Suc free) (p # ps) =
     (if missed now p then serve now (Suc free) ps else offer_to now p # serve now free ps)"

lemma advance_loop_serve:
  "fst (advance_loop now capacity ps acc rows) = acc @ serve now (capacity - length acc) ps"
proof (induction ps arbitrary: acc rows)
  case (Cons p ps)
  show ?case
  proof (cases "length acc < capacity")
    case True
    then obtain free where free: "capacity - length acc = Suc free" by (metis Suc_diff_Suc)
    then have "capacity - Suc (length acc) = free" by simp
    then show ?thesis
      using Cons True free
      by (simp add: Let_def missed_def offer_to_def QUEUE_OFFER_MS_def)
  next
    case False
    then have "capacity - length acc = 0" "capacity - Suc (length acc) = 0" by simp_all
    then show ?thesis
      using Cons False by (simp add: Let_def let_wait_def QUEUE_LEASE_MS_def)
  qed
qed simp

definition who :: "queue_position \<Rightarrow> ident \<times> ident" where
  "who p = (qp_id p, qp_userId p)"

lemma who_served [simp]: "who (offer_to now p) = who p" "who (let_wait now p) = who p"
  by (simp_all add: who_def offer_to_def let_wait_def)

lemma serve_subseq: "subseq (map who (serve now free ps)) (map who ps)"
  by (induction now free ps rule: serve.induct) auto

lemma serve_keeps: "p \<in> set ps \<Longrightarrow> \<not> missed now p \<Longrightarrow> who p \<in> who ` set (serve now free ps)"
  by (induction now free ps rule: serve.induct) auto

lemma serve_all: "list_all (\<lambda>p. \<not> missed now p) ps \<Longrightarrow> map who (serve now free ps) = map who ps"
  by (induction now free ps rule: serve.induct) auto

lemma live_positions_leases:
  "live_positions (expire_leases now rows) =
     filter (\<lambda>p. \<not> (qp_status p = Q_waiting \<and> qp_expiresAt p \<le> now)) (live_positions rows)"
  unfolding expire_leases_def
  by (rule live_positions_drop) (simp_all add: keeps_place_def live_entry_def)

lemma live_after_leases: "list_all (waits_validly now) (live_positions (expire_leases now rows))"
  by (auto simp: live_positions_leases list_all_iff waits_validly_def live_positions_mem live_entry_def)

lemma expire_leases_ids: "map qe_id (expire_leases now rows) = map qe_id rows"
  unfolding expire_leases_def by (rule update_where_ids) (simp add: keeps_place_def)

lemma expire_leases_dead: "e \<in> set rows \<Longrightarrow> \<not> live_entry e \<Longrightarrow> e \<in> set (expire_leases now rows)"
  by (auto simp: expire_leases_def in_update_where live_entry_def)

lemma listQueueCars_queue [simp]: "listQueueCars (db\<lparr>db_queue := rows\<rparr>) now = listQueueCars db now"
  by (simp add: listQueueCars_def car_status_rows_def cong: if_cong)

definition queue_capacity :: "fleet_db \<Rightarrow> date \<Rightarrow> nat" where
  "queue_capacity db now = length (available_cars (listQueueCars db now))"

text \<open>The places of the queue before they are served: the live ones whose lease has not run out.\<close>

definition standing :: "date \<Rightarrow> queue_row list \<Rightarrow> queue_position list" where
  "standing now rows = filter (\<lambda>p. \<not> (qp_status p = Q_waiting \<and> qp_expiresAt p \<le> now)) (live_positions rows)"

lemma advanceLiveQueue_spec:
  assumes "distinct (map qe_id (db_queue db))"
  shows "\<exists>rows. advanceLiveQueue db now =
       ((serve now (queue_capacity db now) (standing now (db_queue db)), listQueueCars db now), db\<lparr>db_queue := rows\<rparr>)
     \<and> live_positions rows = serve now (queue_capacity db now) (standing now (db_queue db))
     \<and> settled_from 0 now (queue_capacity db now) (live_positions rows)
     \<and> map qe_id rows = map qe_id (db_queue db) \<and> (\<forall>e \<in> set (db_queue db). \<not> live_entry e \<longrightarrow> e \<in> set rows)"
proof -
  let ?rows = "expire_leases now (db_queue db)"
  obtain entries rows where loop: "advance_loop now (queue_capacity db now) (live_positions ?rows) [] ?rows = (entries, rows)"
    by fastforce
  have ids: "distinct (map qe_id ?rows)" using assms by (simp add: expire_leases_ids)
  have "entries = serve now (queue_capacity db now) (live_positions ?rows)"
    using advance_loop_serve [of now "queue_capacity db now" "live_positions ?rows" "[]" ?rows] loop by simp
  moreover have "live_positions ?rows = standing now (db_queue db)"
    by (simp add: live_positions_leases standing_def)
  moreover note advance_loop_live [OF ids _ _ live_after_leases loop]
  ultimately show ?thesis
    using loop expire_leases_dead by (auto simp: advanceLiveQueue_def Let_def queue_capacity_def expire_leases_ids)
qed

lemma advance_settled_same:
  assumes "settled_from 0 now (queue_capacity db now) (live_positions (db_queue db))"
  shows "advanceLiveQueue db now = ((live_positions (db_queue db), listQueueCars db now), db)"
proof -
  have "\<not> (qe_status e = Q_waiting \<and> qe_expiresAt e \<le> now)" if "e \<in> set (db_queue db)" for e
  proof
    assume *: "qe_status e = Q_waiting \<and> qe_expiresAt e \<le> now"
    then have "position_of e \<in> set (live_positions (db_queue db))"
      using that by (auto simp: live_positions_mem live_entry_def)
    then show False using assms * by (auto simp: settled_from_def in_set_conv_nth)
  qed
  then have "expire_leases now (db_queue db) = db_queue db"
    unfolding expire_leases_def by (intro update_where_none) (auto simp: filter_empty_conv)
  then show ?thesis
    using advance_loop_stable [of "[]" now "queue_capacity db now" "live_positions (db_queue db)" "db_queue db"] assms
    by (simp add: advanceLiveQueue_def Let_def queue_capacity_def)
qed

lemma queue_ok_users: "queue_ok rows \<longleftrightarrow> distinct (map qe_id rows) \<and> distinct (map qp_userId (live_positions rows))"
proof -
  have "distinct (map f (sort_key k xs)) = distinct (map f xs)" for f :: "queue_row \<Rightarrow> ident" and k :: "queue_row \<Rightarrow> date \<times> string" and xs
    by (auto simp: distinct_map)
  then show ?thesis by (simp add: queue_ok_def live_positions_def comp_def)
qed

lemma map_user_who: "map qp_userId ps = map snd (map who ps)"
  by (simp add: who_def)

lemma subseq_map_filter: "subseq (map f (filter P xs)) (map f xs)"
  by (simp add: subseq_map)

lemma served_subseq: "subseq (map who (serve now free (standing now rows))) (map who (live_positions rows))"
  using serve_subseq subseq_map_filter unfolding standing_def by (rule subseq_order.trans)

text \<open>Advancing a well-formed queue, as the rest of the theory uses it.\<close>

lemma advance_cases:
  assumes "queue_ok (db_queue db)"
  obtains rows where
    "advanceLiveQueue db now = ((live_positions rows, listQueueCars db now), db\<lparr>db_queue := rows\<rparr>)"
    "live_positions rows = serve now (queue_capacity db now) (standing now (db_queue db))"
    "settled_from 0 now (queue_capacity db now) (live_positions rows)" "queue_ok rows"
    "map qe_id rows = map qe_id (db_queue db)" "\<forall>e \<in> set (db_queue db). \<not> live_entry e \<longrightarrow> e \<in> set rows"
proof -
  obtain rows where rows: "advanceLiveQueue db now =
       ((serve now (queue_capacity db now) (standing now (db_queue db)), listQueueCars db now), db\<lparr>db_queue := rows\<rparr>)"
     "live_positions rows = serve now (queue_capacity db now) (standing now (db_queue db))"
     "settled_from 0 now (queue_capacity db now) (live_positions rows)"
     "map qe_id rows = map qe_id (db_queue db)" "\<forall>e \<in> set (db_queue db). \<not> live_entry e \<longrightarrow> e \<in> set rows"
    using advanceLiveQueue_spec [of db now] assms unfolding queue_ok_def by blast
  have "subseq (map qp_userId (live_positions rows)) (map qp_userId (live_positions (db_queue db)))"
    unfolding rows(2) map_user_who by (rule subseq_map) (rule served_subseq)
  then have "queue_ok rows"
    using assms rows(4) subseq_distinct unfolding queue_ok_users by auto
  then show ?thesis using that rows by metis
qed

lemma advance_queue_ok: "queue_ok (db_queue db) \<Longrightarrow> queue_ok (db_queue (snd (advanceLiveQueue db now)))"
  by (erule advance_cases [where now = now]) auto

subsection \<open>Joining and leaving\<close>

lemma find_index_Some:
  "find_index P xs = Some i \<Longrightarrow> i < length xs \<and> P (xs ! i) \<and> (\<forall>j < i. \<not> P (xs ! j))"
  by (induction xs arbitrary: i) (auto split: if_splits simp: nth_Cons')

lemma find_index_None: "find_index P xs = None \<longleftrightarrow> (\<forall>x \<in> set xs. \<not> P x)"
  by (induction xs) auto

lemma find_index_map: "find_index P (map f xs) = find_index (\<lambda>x. P (f x)) xs"
  by (induction xs) auto

text \<open>The answer of a settled queue that has the user in it.\<close>

definition answers_place :: "fleet_db \<Rightarrow> ident \<Rightarrow> date \<Rightarrow> live_snapshot \<Rightarrow> bool" where
  "answers_place db userId now s = (\<exists>i < length (live_positions (db_queue db)).
     let p = live_positions (db_queue db) ! i in
     qp_userId p = userId \<and> ls_entryId s = qp_id p \<and> ls_position s = i + 1
     \<and> ls_count s = length (live_positions (db_queue db)) \<and> ls_cars s = listQueueCars db now
     \<and> ls_status s = (if i < queue_capacity db now then S_ready else S_waiting)
     \<and> ls_offerExpiresAt s = (if i < queue_capacity db now then Some (qp_expiresAt p) else None)
     \<and> now < qp_expiresAt p)"

lemma finish_join_ok:
  assumes "queue_ok (db_queue db)" "userId \<in> qp_userId ` set (standing now (db_queue db))"
    "\<forall>p \<in> set (standing now (db_queue db)). qp_userId p = userId \<longrightarrow> \<not> missed now p"
  shows "\<exists>s db'. finish_join db0 db userId now = (Inr s, db') \<and> answers_place db' userId now s
    \<and> db' = snd (advanceLiveQueue db now)"
proof -
  obtain rows where rows:
    "advanceLiveQueue db now = ((live_positions rows, listQueueCars db now), db\<lparr>db_queue := rows\<rparr>)"
    "live_positions rows = serve now (queue_capacity db now) (standing now (db_queue db))"
    "settled_from 0 now (queue_capacity db now) (live_positions rows)"
    by (rule advance_cases [OF assms(1)])
  obtain p where p: "p \<in> set (standing now (db_queue db))" "qp_userId p = userId" "\<not> missed now p"
    using assms(2,3) by auto
  obtain q where q: "q \<in> set (live_positions rows)" "who q = who p"
    using serve_keeps [OF p(1,3), of "queue_capacity db now"] unfolding rows(2) by force
  then have "\<exists>x \<in> set (live_positions rows). qp_userId x = userId" using p(2) by (force simp: who_def)
  then obtain i where i: "find_index (\<lambda>x. qp_userId x = userId) (live_positions rows) = Some i"
    using find_index_None [of "\<lambda>x. qp_userId x = userId" "live_positions rows"] by (cases "find_index (\<lambda>x. qp_userId x = userId) (live_positions rows)") auto
  note i' = find_index_Some [OF i]
  have st: "qp_status (live_positions rows ! i) = (if i < queue_capacity db now then Q_offered else Q_waiting)"
      "now < qp_expiresAt (live_positions rows ! i)"
    using rows(3) i' by (auto simp: settled_from_def)
  have cap: "queue_capacity (db\<lparr>db_queue := rows\<rparr>) now = queue_capacity db now"
    by (simp add: queue_capacity_def)
  have idx: "find_index (\<lambda>entry. pr_userId entry = userId) (map position_row_of (live_positions rows)) = Some i"
    using i by (simp add: find_index_map position_row_of_def)
  have some: "i < queue_capacity db now \<Longrightarrow> available_cars (listQueueCars db now) \<noteq> []"
    by (auto simp: queue_capacity_def)
  show ?thesis
    using i' st some
    by (auto simp: finish_join_def rows(1) queueSnapshotFromState_def idx Let_def answers_place_def cap
        position_row_of_def queue_capacity_def [symmetric])
qed

lemma settled_running: "settled_from 0 now capacity ps \<Longrightarrow> p \<in> set ps \<Longrightarrow> now < qp_expiresAt p"
  by (auto simp: settled_from_def in_set_conv_nth)

lemma standing_settled:
  "settled_from 0 now capacity (live_positions rows) \<Longrightarrow> standing now rows = live_positions rows
     \<and> (\<forall>p \<in> set (live_positions rows). \<not> missed now p)"
  using settled_running [of now capacity "live_positions rows"]
  by (fastforce simp: standing_def missed_def filter_id_conv)

lemma live_positions_insert:
  "qe_id e \<notin> qe_id ` set rows \<Longrightarrow> live_entry e \<Longrightarrow>
   set (live_positions (rows @ [e])) = insert (position_of e) (set (live_positions rows))"
  by (auto simp: live_positions_mem)

lemma queue_ok_insert:
  "queue_ok rows \<Longrightarrow> \<not> queue_conflict rows e \<Longrightarrow> queue_ok (rows @ [e])"
  by (auto simp: queue_ok_def queue_conflict_def list_ex_iff)

lemma new_entry_fields [simp]:
  "qe_id (new_entry uuid userId now) = uuid" "qe_userId (new_entry uuid userId now) = userId"
  "qe_status (new_entry uuid userId now) = Q_waiting" "qe_expiresAt (new_entry uuid userId now) = now + QUEUE_LEASE_MS"
  by (simp_all add: new_entry_def)

lemma join_fresh:
  assumes ok: "queue_ok rows" and settled: "settled_from 0 now capacity (live_positions rows)"
    and new: "uuid \<notin> qe_id ` set rows" and user: "userId \<notin> qp_userId ` set (live_positions rows)"
  shows "queue_conflict rows (new_entry uuid userId now) = False"
    "queue_ok (rows @ [new_entry uuid userId now])"
    "userId \<in> qp_userId ` set (standing now (rows @ [new_entry uuid userId now]))"
    "\<forall>p \<in> set (standing now (rows @ [new_entry uuid userId now])). qp_userId p = userId \<longrightarrow> \<not> missed now p"
proof -
  let ?e = "new_entry uuid userId now"
  have live: "live_entry ?e" by (simp add: new_entry_def live_entry_def)
  have lp: "set (live_positions (rows @ [?e])) = insert (position_of ?e) (set (live_positions rows))"
    using new live by (intro live_positions_insert) (simp_all add: new_entry_def)
  show conf: "queue_conflict rows ?e = False"
  proof -
    have "\<not> live_entry r" if "r \<in> set rows" "qe_userId r = userId" for r
      using user that by (force simp: live_positions_mem)
    then show ?thesis using new by (auto simp: queue_conflict_def list_ex_iff new_entry_def)
  qed
  then show "queue_ok (rows @ [?e])" by (intro queue_ok_insert [OF ok]) simp
  have "position_of ?e \<in> set (standing now (rows @ [?e]))"
    by (simp add: standing_def lp) (simp add: new_entry_def QUEUE_LEASE_MS_def)
  then show "userId \<in> qp_userId ` set (standing now (rows @ [?e]))"
    by (auto simp: new_entry_def intro!: rev_image_eqI [where x = "position_of ?e"])
  show "\<forall>p \<in> set (standing now (rows @ [?e])). qp_userId p = userId \<longrightarrow> \<not> missed now p"
  proof (intro ballI impI)
    fix p
    assume p: "p \<in> set (standing now (rows @ [?e]))" "qp_userId p = userId"
    then have "p = position_of ?e" using user by (auto simp: standing_def lp)
    then have "qp_status p = Q_waiting" by simp
    then show "\<not> missed now p" by (simp add: missed_def)
  qed
qed

lemma joinOrRefresh_joins:
  assumes ok: "queue_ok (db_queue db)" and uuid: "uuid \<notin> qe_id ` set (db_queue db)"
    and now: "now = clock_after t m0 m1"
  shows "\<exists>s db'. joinOrRefresh db userId t ex m0 m1 uuid = (Inr s, db')
     \<and> (ls_status s = S_driving \<and> driving_entry db userId now = Some (ls_entryId s)
        \<or> (ls_status s = S_expired \<and> \<not> ex)
        \<or> answers_place db' userId now s)"
proof -
  obtain rows where rows:
    "advanceLiveQueue db now = ((live_positions rows, listQueueCars db now), db\<lparr>db_queue := rows\<rparr>)"
    "settled_from 0 now (queue_capacity db now) (live_positions rows)" "queue_ok rows"
    "map qe_id rows = map qe_id (db_queue db)"
    by (rule advance_cases [OF ok])
  let ?db1 = "db\<lparr>db_queue := rows\<rparr>"
  have cap: "queue_capacity ?db1 now = queue_capacity db now" by (simp add: queue_capacity_def)
  have driving: "driving_entry ?db1 userId now = driving_entry db userId now" by (simp add: driving_entry_def)
  have standing: "standing now rows = live_positions rows" "\<forall>p \<in> set (live_positions rows). \<not> missed now p"
    using standing_settled [OF rows(2)] by auto
  show ?thesis
  proof (cases "driving_entry db userId now")
    case (Some e)
    then show ?thesis
      using driving by (simp add: joinOrRefresh_def now [symmetric] Let_def rows(1) off_queue_snapshot_def)
  next
    case None
    show ?thesis
    proof (cases "List.find (\<lambda>p. qp_userId p = userId) (live_positions rows)")
      case absent: None
      then have user: "userId \<notin> qp_userId ` set (live_positions rows)" by (auto simp: find_None)
      have uuid': "uuid \<notin> qe_id ` set rows" using uuid rows(4) by (metis set_map)
      note fresh = join_fresh [OF rows(3,2) uuid' user]
      obtain s db' where "finish_join db (db\<lparr>db_queue := rows @ [new_entry uuid userId now]\<rparr>) userId now = (Inr s, db')"
          "answers_place db' userId now s"
        using finish_join_ok [of "db\<lparr>db_queue := rows @ [new_entry uuid userId now]\<rparr>" userId now db] fresh(2-4) by auto
      then show ?thesis
        using None driving absent fresh(1)
        by (auto simp: joinOrRefresh_def now [symmetric] Let_def rows(1) off_queue_snapshot_def split: option.splits)
    next
      case (Some p)
      note p = find_in_set [OF Some]
      show ?thesis
      proof (cases "qp_status p = Q_waiting")
        case False
        obtain s db' where "finish_join db ?db1 userId now = (Inr s, db')" "answers_place db' userId now s"
          using finish_join_ok [of ?db1 userId now db] rows(3) standing p by auto
        then show ?thesis
          using None driving Some False by (auto simp: joinOrRefresh_def now [symmetric] Let_def rows(1))
      next
        case True
        let ?f = "\<lambda>e. e\<lparr>qe_expiresAt := now + QUEUE_LEASE_MS, qe_updatedAt := now\<rparr>"
        let ?rows = "update_where (\<lambda>e. qe_id e = qp_id p) ?f rows"
        have kp: "keeps_place ?f" by (simp add: keeps_place_def)
        have lp: "live_positions ?rows = map (\<lambda>q. if qp_id q = qp_id p
            then q\<lparr>qp_expiresAt := now + QUEUE_LEASE_MS\<rparr> else q) (live_positions rows)"
          by (rule live_positions_change [OF kp]) (auto simp: position_of_def live_entry_def)
        have running: "\<forall>q \<in> set (live_positions ?rows). now < qp_expiresAt q"
          using settled_running [OF rows(2)] unfolding lp by (auto simp: QUEUE_LEASE_MS_def)
        have notmissed: "\<forall>q \<in> set (live_positions ?rows). qp_userId q = userId \<longrightarrow> \<not> missed now q"
          using running by (auto simp: missed_def not_le [symmetric])
        have all: "standing now ?rows = live_positions ?rows"
          using running by (auto simp: standing_def filter_id_conv)
        have "map qp_userId (live_positions ?rows) = map qp_userId (live_positions rows)" by (auto simp: lp)
        then have good: "queue_ok ?rows" "userId \<in> set (map qp_userId (live_positions ?rows))"
          using rows(3) p update_where_ids [OF kp] by (auto simp: queue_ok_users)
        obtain s db' where "finish_join db (db\<lparr>db_queue := ?rows\<rparr>) userId now = (Inr s, db')" "answers_place db' userId now s"
          using finish_join_ok [of "db\<lparr>db_queue := ?rows\<rparr>" userId now db] good all notmissed by auto
        then show ?thesis
          using None driving Some True by (auto simp: joinOrRefresh_def now [symmetric] Let_def rows(1))
      qed
    qed
  qed
qed

lemma live_leave_gone:
  assumes "queue_ok (db_queue db)"
  shows "\<forall>e \<in> set (db_queue (live_leave db userId t m0 m1)). qe_userId e = userId \<longrightarrow> \<not> live_entry e"
proof -
  define now where "now = clock_after t m0 m1"
  let ?f = "\<lambda>e. e\<lparr>qe_status := Q_left, qe_updatedAt := now, qe_expiresAt := now\<rparr>"
  let ?rows = "update_where (\<lambda>e. qe_userId e = userId \<and> live_entry e) ?f (db_queue db)"
  have kp: "keeps_place ?f" by (simp add: keeps_place_def)
  have P: "(\<lambda>e. qe_userId e = userId \<and> live_entry e) = (\<lambda>e. qp_userId (position_of e) = userId \<and>
      (qp_status (position_of e) = Q_waiting \<or> qp_status (position_of e) = Q_offered))"
    by (simp add: live_entry_def)
  have lp: "live_positions ?rows = filter (\<lambda>p. \<not> (qp_userId p = userId \<and> (qp_status p = Q_waiting \<or> qp_status p = Q_offered)))
      (live_positions (db_queue db))"
    unfolding P by (rule live_positions_drop [OF kp]) (simp_all add: live_entry_def)
  have none: "userId \<notin> qp_userId ` set (live_positions ?rows)"
    unfolding lp by (auto simp: live_positions_mem live_entry_def)
  have "subseq (map qp_userId (live_positions ?rows)) (map qp_userId (live_positions (db_queue db)))"
    unfolding lp by (rule subseq_map_filter)
  then have "queue_ok ?rows"
    using assms update_where_ids [OF kp] subseq_distinct by (auto simp: queue_ok_users)
  then obtain rows where rows: "advanceLiveQueue (db\<lparr>db_queue := ?rows\<rparr>) now =
        ((live_positions rows, listQueueCars db now), db\<lparr>db_queue := rows\<rparr>)"
      "live_positions rows = serve now (queue_capacity db now) (standing now ?rows)"
    using advance_cases [of "db\<lparr>db_queue := ?rows\<rparr>" now] by (auto simp: queue_capacity_def)
  have "set (map qp_userId (live_positions rows)) \<subseteq> set (map qp_userId (live_positions ?rows))"
    unfolding rows(2) map_user_who by (intro subseq_set subseq_map served_subseq)
  then have "userId \<notin> qp_userId ` set (live_positions rows)" using none by auto
  then show ?thesis
    using rows(1) by (force simp: live_leave_def now_def [symmetric] Let_def live_positions_mem)
qed

subsection \<open>Properties\<close>

text \<open>
  Property C13: advancing the queue is fair. With as many cars free as the query finds, exactly
  the first places of the queue hold an offer and all others wait; every offer and every lease
  left is still running; the order of the queue never changes and nobody is slipped in; nobody
  whose lease or offer is still running is put out; past entries and other tables are left
  alone; and advancing again at the same time changes nothing.
\<close>

theorem live_queue_serves_in_order:
  assumes "queue_ok (db_queue db)" and "advanceLiveQueue db now = ((entries, cars), db')"
  shows "entries = serve now (length (available_cars cars)) (standing now (db_queue db))
    \<and> live_positions (db_queue db') = entries
    \<and> (\<forall>i < length entries. now < qp_expiresAt (entries ! i)
         \<and> qp_status (entries ! i) = (if i < length (available_cars cars) then Q_offered else Q_waiting))
    \<and> subseq (map who entries) (map who (live_positions (db_queue db)))
    \<and> (\<forall>p \<in> set (live_positions (db_queue db)). now < qp_expiresAt p \<longrightarrow> who p \<in> who ` set entries)
    \<and> db' = db\<lparr>db_queue := db_queue db'\<rparr> \<and> (\<forall>e \<in> set (db_queue db). \<not> live_entry e \<longrightarrow> e \<in> set (db_queue db'))
    \<and> advanceLiveQueue db' now = ((entries, cars), db')"
proof -
  obtain rows where rows:
    "advanceLiveQueue db now = ((live_positions rows, listQueueCars db now), db\<lparr>db_queue := rows\<rparr>)"
    "live_positions rows = serve now (queue_capacity db now) (standing now (db_queue db))"
    "settled_from 0 now (queue_capacity db now) (live_positions rows)"
    "\<forall>e \<in> set (db_queue db). \<not> live_entry e \<longrightarrow> e \<in> set rows"
    by (rule advance_cases [OF assms(1)])
  have eq: "entries = live_positions rows" "cars = listQueueCars db now" "db' = db\<lparr>db_queue := rows\<rparr>"
    using rows(1) assms(2) by simp_all
  have cap: "queue_capacity db now = length (available_cars cars)" "queue_capacity db' now = length (available_cars cars)"
    by (simp_all add: queue_capacity_def eq)
  have again: "advanceLiveQueue db' now = ((entries, cars), db')"
    using advance_settled_same [of now db'] rows(3) by (simp add: eq queue_capacity_def)
  have kept: "who p \<in> who ` set entries" if "p \<in> set (live_positions (db_queue db))" "now < qp_expiresAt p" for p
    unfolding eq(1) rows(2) by (rule serve_keeps) (use that in \<open>simp_all add: standing_def missed_def\<close>)
  have order: "subseq (map who entries) (map who (live_positions (db_queue db)))"
    unfolding eq(1) rows(2) by (rule served_subseq)
  have st: "\<forall>i < length entries. now < qp_expiresAt (entries ! i)
      \<and> qp_status (entries ! i) = (if i < length (available_cars cars) then Q_offered else Q_waiting)"
    using rows(3) by (simp add: eq settled_from_def queue_capacity_def)
  have "entries = serve now (length (available_cars cars)) (standing now (db_queue db))"
    unfolding cap(1) [symmetric] eq(1) by (rule rows(2))
  then show ?thesis
    using again kept order st rows(4) by (simp add: eq(3) eq(1) [symmetric])
qed

text \<open>
  joining always answers. With a new identifier for the entry, a join never
  throws: it answers that the user is driving, or puts (or keeps) the user in the queue and
  answers the place the user really has in it, which is the place of a running offer exactly
  when a car is free for it.
\<close>

theorem live_join_answers_place:
  assumes "queue_ok (db_queue db)" and "uuid \<notin> qe_id ` set (db_queue db)" and "now = clock_after t m0 m1"
  shows "\<exists>s db'. live_join db userId t m0 m1 uuid = (Inr s, db')
    \<and> (ls_status s = S_driving \<and> driving_entry db userId now = Some (ls_entryId s)
       \<or> (\<exists>i < length (live_positions (db_queue db')).
            let p = live_positions (db_queue db') ! i in
            qp_userId p = userId \<and> ls_entryId s = qp_id p \<and> ls_position s = i + 1 \<and> now < qp_expiresAt p
            \<and> ls_status s = (if i < length (available_cars (ls_cars s)) then S_ready else S_waiting)
            \<and> ls_offerExpiresAt s = (if i < length (available_cars (ls_cars s)) then Some (qp_expiresAt p) else None)))"
  using joinOrRefresh_joins [OF assms(1-3), of userId True]
  by (fastforce simp: live_join_def answers_place_def Let_def queue_capacity_def)

subsection \<open>A concrete queue\<close>

text \<open>One free car, two drivers waiting and one whose offer ran out at time 1000.\<close>

definition sample_entry :: "ident \<Rightarrow> ident \<Rightarrow> queue_status \<Rightarrow> date \<Rightarrow> date \<Rightarrow> queue_row" where
  "sample_entry e u s joined expires = \<lparr>qe_id = e, qe_userId = u, qe_status = s, qe_joinedAt = joined,
     qe_expiresAt = expires, qe_updatedAt = joined\<rparr>"

definition sample_fleet :: fleet_db where
  "sample_fleet = \<lparr>db_sites = [],
     db_cars = [\<lparr>cr_id = ''car'', cr_siteId = ''site'', cr_slug = ''neon'', cr_name = ''Neon'', cr_state = AVAILABLE,
       cr_batteryPercent = None, cr_adminBlocked = False, cr_steeringTrimPercent = 3, cr_updatedAt = 0\<rparr>],
     db_devices = [\<lparr>dv_id = ''dev'', dv_carId = Some ''car'', dv_siteId = ''site'', dv_kind = ''raspberry-pi'',
       dv_serialNumber = ''sn'', dv_state = AVAILABLE, dv_lastSeenAt = Some 900, dv_metadata = JObj [],
       dv_agentVersion = None, dv_health = None, dv_connectedAt = Some 0, dv_updatedAt = 900\<rparr>],
     db_firmware = [], db_jobs = [], db_tokens = [], db_credentials = [],
     db_queue = [sample_entry ''e3'' ''carol'' Q_waiting 300 70000, sample_entry ''e1'' ''alice'' Q_offered 100 1000,
       sample_entry ''e2'' ''bob'' Q_waiting 200 70000],
     db_drives = []\<rparr>"

lemma sample_queue_ok: "queue_ok (db_queue sample_fleet)"
  by (simp add: queue_ok_def sample_fleet_def sample_entry_def live_entry_def)

lemma sample_standing:
  "standing 1000 (db_queue sample_fleet) =
     map position_of [sample_entry ''e1'' ''alice'' Q_offered 100 1000, sample_entry ''e2'' ''bob'' Q_waiting 200 70000,
       sample_entry ''e3'' ''carol'' Q_waiting 300 70000]"
  by (simp add: standing_def live_positions_def sample_fleet_def sample_entry_def live_entry_def entry_order_def
      position_of_def less_prod_def less_eq_prod_def)

lemma sample_cars: "available_cars (listQueueCars sample_fleet 1000) =
    [\<lparr>qc_id = ''car'', qc_slug = ''neon'', qc_name = ''Neon'', qc_batteryPercent = None, qc_availability = Available\<rparr>]"
  by (simp add: available_cars_def listQueueCars_def car_status_rows_def sample_fleet_def usable_device_def
      left_join_def DEVICE_FRESHNESS_MS_def)

theorem live_queue_serves_in_order_witness:
  "case fst (fst (advanceLiveQueue sample_fleet 1000)) of
     [p, q] \<Rightarrow> qp_userId p = ''bob'' \<and> qp_status p = Q_offered \<and> qp_userId q = ''carol'' \<and> qp_status q = Q_waiting
   | _ \<Rightarrow> False"
proof -
  obtain entries cars db' where run: "advanceLiveQueue sample_fleet 1000 = ((entries, cars), db')" by (metis prod.exhaust)
  have cars: "cars = listQueueCars sample_fleet 1000"
    using run advanceLiveQueue_spec [of sample_fleet 1000] sample_queue_ok by (auto simp: queue_ok_def)
  have "entries = serve 1000 (length (available_cars cars)) (standing 1000 (db_queue sample_fleet))"
    using live_queue_serves_in_order [OF sample_queue_ok run] by blast
  then show ?thesis
    unfolding cars sample_standing sample_cars
    by (simp add: run missed_def offer_to_def let_wait_def sample_entry_def)
qed

theorem live_join_answers_place_witness:
  "\<exists>s db'. live_join sample_fleet ''dave'' 1000 0 (1 / 2) ''e4'' = (Inr s, db') \<and> ls_status s \<noteq> S_expired"
proof -
  have "1000 = clock_after 1000 0 (1 / 2)" by (simp add: clock_after_def floor_unique)
  then show ?thesis
    using live_join_answers_place [OF sample_queue_ok, of "''e4''" 1000 1000 0 "1 / 2" "''dave''"]
    by (auto simp: sample_fleet_def sample_entry_def Let_def)
qed

end
