(* ===== verification/DriveSessions.thy ===== *)
theory DriveSessions
  imports LiveQueue
begin

section \<open>Starting a drive\<close>

text \<open>
  \<open>apps/web/app/drive-session-store.ts\<close> and \<open>steering-trim-store.ts\<close>: a driver with a running
  offer takes a car. The transaction runs under the lock of the queue; its clock is read when
  the lock is held and again when the rows are (the readings of the monotonic clock are
  arguments). A transaction that answers null is committed all the same.
\<close>

definition DRIVE_SESSION_DURATION_MS :: int where
  "DRIVE_SESSION_DURATION_MS = 5 * 60000"

definition driveSessionExpiresAt :: "date \<Rightarrow> date" where
  "driveSessionExpiresAt now = now + DRIVE_SESSION_DURATION_MS"

fun json_field :: "json \<Rightarrow> string \<Rightarrow> json option" where
  "json_field (JObj fs) k = map_of fs k"
| "json_field j k = None"

definition controlProtocolVersionFromMetadata :: "json \<Rightarrow> int" where
  "controlProtocolVersionFromMetadata metadata =
     (case json_field metadata ''capabilities'' of
        None \<Rightarrow> 3
      | Some capabilities \<Rightarrow>
         (case json_field capabilities ''controlProtocolVersion'' of
            None \<Rightarrow> 3
          | Some version \<Rightarrow> if version = JNum (js_int 5) then 5 else if version = JNum (js_int 4) then 4 else 3))"

record created_session =
  xs_sessionId :: ident
  xs_expiresAt :: date
  xs_steeringTrimPercent :: int
  xs_controlProtocolVersion :: int

definition takeable_car :: "fleet_db \<Rightarrow> ident \<Rightarrow> date \<Rightarrow> (car_row \<times> device_row) option" where
  "takeable_car db carId now = first_row [(c, d).
     c \<leftarrow> db_cars db, cr_id c = carId \<and> cr_state c = AVAILABLE \<and> \<not> cr_adminBlocked c,
     d \<leftarrow> db_devices db, usable_device (now - 15000) (cr_id c) d]"

definition busy_drive :: "ident \<Rightarrow> ident \<Rightarrow> date \<Rightarrow> drive_row \<Rightarrow> bool" where
  "busy_drive userId carId now s = (open_drive s \<and> now < ds_expiresAt s \<and> (ds_carId s = carId \<or> ds_userId s = userId))"

definition new_drive :: "ident \<Rightarrow> ident \<Rightarrow> ident \<Rightarrow> ident \<Rightarrow> date \<Rightarrow> drive_row" where
  "new_drive uuid userId carId entryId now =
     \<lparr>ds_id = uuid, ds_userId = userId, ds_carId = carId, ds_queueEntryId = Some entryId, ds_status = D_created,
      ds_expiresAt = driveSessionExpiresAt now, ds_startedAt = None, ds_endedAt = None, ds_createdAt = now, ds_updatedAt = now\<rparr>"

text \<open>The writes of a successful start.\<close>

definition take_car :: "fleet_db \<Rightarrow> drive_row \<Rightarrow> ident \<Rightarrow> date \<Rightarrow> fleet_db" where
  "take_car db s entryId now =
     db\<lparr>db_drives := db_drives db @ [s],
        db_queue := update_where (\<lambda>e. qe_id e = entryId) (\<lambda>e. e\<lparr>qe_status := Q_accepted, qe_updatedAt := now\<rparr>) (db_queue db),
        db_cars := update_where (\<lambda>c. cr_id c = ds_carId s) (\<lambda>c. c\<lparr>cr_state := RESERVED, cr_updatedAt := now\<rparr>) (db_cars db)\<rparr>"

definition create_drive ::
  "fleet_db \<Rightarrow> ident \<Rightarrow> ident \<Rightarrow> date \<Rightarrow> rat \<Rightarrow> rat \<Rightarrow> rat \<Rightarrow> ident \<Rightarrow> created_session option \<times> fleet_db" where
  "create_drive db userId carId requestedAt startedAt lockedAt heldAt uuid =
     (let now = clock_after requestedAt startedAt lockedAt in
      case advanceLiveQueue db now of
        ((entries, cars), db1) \<Rightarrow>
         (case List.find (\<lambda>entry. qp_userId entry = userId) entries of
            None \<Rightarrow> (None, db1)
          | Some entry \<Rightarrow>
              if qp_status entry \<noteq> Q_offered \<or> qp_expiresAt entry \<le> now then (None, db1)
              else
               (case takeable_car db1 carId now of
                  None \<Rightarrow> (None, db1)
                | Some (car, device) \<Rightarrow>
                    if list_ex (busy_drive userId carId now) (db_drives db1) then (None, db1)
                    else let now' = clock_after requestedAt startedAt heldAt in
                      if qp_expiresAt entry \<le> now' then (None, snd (advanceLiveQueue db1 now'))
                      else if (case dv_lastSeenAt device of None \<Rightarrow> True | Some t \<Rightarrow> t \<le> now' - 15000) then (None, db1)
                      else let s = new_drive uuid userId carId (qp_id entry) now' in
                        if drive_conflict (db_drives db1) s then (None, db1)
                        else (Some \<lparr>xs_sessionId = uuid, xs_expiresAt = driveSessionExpiresAt now',
                                xs_steeringTrimPercent = cr_steeringTrimPercent car,
                                xs_controlProtocolVersion = controlProtocolVersionFromMetadata (dv_metadata device)\<rparr>,
                              take_car db1 s (qp_id entry) now'))))"

subsection \<open>The steering trim of the car one drives\<close>

definition save_trim :: "fleet_db \<Rightarrow> ident \<Rightarrow> ident \<Rightarrow> int \<Rightarrow> date \<Rightarrow> bool db_result" where
  "save_trim db sessionId userId trim now =
     (case List.find (\<lambda>s. ds_id s = sessionId \<and> ds_userId s = userId \<and> open_drive s \<and> now < ds_expiresAt s) (db_drives db) of
        None \<Rightarrow> (Inr False, db)
      | Some session \<Rightarrow>
          let P = (\<lambda>c. cr_id c = ds_carId session) in
          if \<not> (- 20 \<le> trim \<and> trim \<le> 20) \<and> list_ex P (db_cars db) then (Inl ''cars_steering_trim_range'', db)
          else (Inr (list_ex P (db_cars db)),
            db\<lparr>db_cars := update_where P (\<lambda>c. c\<lparr>cr_steeringTrimPercent := trim, cr_updatedAt := now\<rparr>) (db_cars db)\<rparr>))"

end
