(* ===== verification/DeviceUpdates.thy ===== *)
theory DeviceUpdates
  imports LiveQueue
begin

section \<open>Requests for device updates\<close>

text \<open>
  \<open>apps/web/app/device-update-store.ts\<close>: an administrator asks for a release of the agent to be
  installed on the device of a car. \<open>parse_url\<close> is the URL parser of the platform: protocol,
  origin and path of a text, if it is a URL. Releases come from a table whose columns have
  their types, so the tests of \<open>isCompleteAgentRelease\<close> on types are tests for null.
\<close>

type_synonym url_parser = "string \<Rightarrow> (string \<times> string \<times> string) option"

fun split_on :: "char \<Rightarrow> string \<Rightarrow> string list" where
  "split_on c [] = [[]]"
| "split_on c (x # xs) = (if x = c then [] # split_on c xs
     else (case split_on c xs of [] \<Rightarrow> [[x]] | w # ws \<Rightarrow> (x # w) # ws))"

definition char_between :: "nat \<Rightarrow> nat \<Rightarrow> char \<Rightarrow> bool" where
  "char_between lo hi c = (lo \<le> (of_char c :: nat) \<and> (of_char c :: nat) \<le> hi)"

definition is_digit :: "char \<Rightarrow> bool" where
  "is_digit c = char_between 48 57 c"

definition is_semver :: "string \<Rightarrow> bool" where
  "is_semver s = (let parts = split_on CHR ''.'' s in length parts = 3 \<and> list_all (\<lambda>p. p \<noteq> [] \<and> list_all is_digit p) parts)"

definition is_sha256 :: "string \<Rightarrow> bool" where
  "is_sha256 s = (length s = 64 \<and> list_all (\<lambda>c. is_digit c \<or> char_between 97 102 c) s)"

definition is_signature :: "string \<Rightarrow> bool" where
  "is_signature s = (80 \<le> length s \<and> length s \<le> 128
     \<and> list_all (\<lambda>c. is_digit c \<or> char_between 65 90 c \<or> char_between 97 122 c \<or> c = CHR ''_'' \<or> c = CHR ''-'') s)"

definition release_url_ok :: "url_parser \<Rightarrow> string \<Rightarrow> bool" where
  "release_url_ok parse_url url =
     (case parse_url url of
        None \<Rightarrow> False
      | Some (protocol, origin, pathname) \<Rightarrow>
          protocol = ''https:'' \<and> origin = ''https://rcmania.live'' \<and> starts_with pathname ''/agent-releases/'')"

definition isCompleteAgentRelease :: "url_parser \<Rightarrow> firmware_row \<Rightarrow> bool" where
  "isCompleteAgentRelease parse_url f =
     (fw_componentKind f = ''pi-agent'' \<and> is_semver (fw_version f)
      \<and> (case fw_artifactUrl f of None \<Rightarrow> False | Some url \<Rightarrow> release_url_ok parse_url url)
      \<and> (case fw_artifactSizeBytes f of None \<Rightarrow> False | Some n \<Rightarrow> 1 \<le> n \<and> n \<le> 8 * 1024 * 1024)
      \<and> (case fw_runtimeGeneration f of None \<Rightarrow> False | Some g \<Rightarrow> 1 \<le> g \<and> g \<le> 32767)
      \<and> is_sha256 (fw_digestSha256 f) \<and> is_signature (fw_signature f))"

datatype request_result = Created ident | Not_found | Conflict

text \<open>The insert into the jobs: the primary key and one active job per device.\<close>

definition job_conflict :: "job_row list \<Rightarrow> job_row \<Rightarrow> bool" where
  "job_conflict rows j = list_ex (\<lambda>r. uj_id r = uj_id j
     \<or> (active_job r \<and> active_job j \<and> uj_deviceId r = uj_deviceId j)) rows"

definition requestDeviceUpdate ::
  "url_parser \<Rightarrow> fleet_db \<Rightarrow> ident \<Rightarrow> ident \<Rightarrow> string \<Rightarrow> date \<Rightarrow> ident \<Rightarrow> request_result db_result" where
  "requestDeviceUpdate parse_url db adminId carId version now uuid =
     (case List.find (\<lambda>d. dv_carId d = Some carId) (db_devices db) of
        None \<Rightarrow> (Inr Not_found, db)
      | Some device \<Rightarrow>
         (case List.find (\<lambda>f. fw_componentKind f = ''pi-agent'' \<and> fw_version f = version) (db_firmware db) of
            None \<Rightarrow> (Inr Not_found, db)
          | Some release \<Rightarrow>
              if \<not> isCompleteAgentRelease parse_url release then (Inr Not_found, db)
              else if list_ex (running_drive now carId) (db_drives db)
                \<or> list_ex (\<lambda>j. uj_deviceId j = dv_id device \<and> active_job j) (db_jobs db)
              then (Inr Conflict, db)
              else let job = \<lparr>uj_id = uuid, uj_deviceId = dv_id device, uj_firmwareVersionId = fw_id release,
                    uj_status = J_pending, uj_attemptCount = 0, uj_failureReason = None, uj_requestedBy = adminId,
                    uj_requestedAt = now, uj_startedAt = None, uj_finishedAt = None, uj_updatedAt = now\<rparr> in
                if job_conflict (db_jobs db) job then (Inl ''device_update_jobs'', db)
                else (Inr (Created uuid), db\<lparr>db_jobs := db_jobs db @ [job]\<rparr>)))"

record update_summary =
  us_updateId :: ident
  us_carId :: ident
  us_version :: string
  us_status :: job_status
  us_failureReason :: "string option"
  us_requestedAt :: date
  us_startedAt :: "date option"
  us_finishedAt :: "date option"

definition getLatestDeviceUpdate :: "fleet_db \<Rightarrow> ident \<Rightarrow> update_summary option" where
  "getLatestDeviceUpdate db carId =
     first_row (sort_key (\<lambda>u. - us_requestedAt u)
       [\<lparr>us_updateId = uj_id j, us_carId = carId, us_version = fw_version f, us_status = uj_status j,
          us_failureReason = uj_failureReason j, us_requestedAt = uj_requestedAt j,
          us_startedAt = uj_startedAt j, us_finishedAt = uj_finishedAt j\<rparr>.
        j \<leftarrow> db_jobs db, d \<leftarrow> db_devices db, dv_id d = uj_deviceId j \<and> dv_carId d = Some carId,
        f \<leftarrow> db_firmware db, fw_id f = uj_firmwareVersionId j])"

end
