(* ===== verification/Fleet.thy ===== *)
theory Fleet
  imports GatewayStore DriveSessions DeviceUpdates
begin

section \<open>The fleet: all operations on the shared tables\<close>

text \<open>
  The gateway (\<open>postgres-store.ts\<close>) and the web application (\<open>live-queue-store.ts\<close>,
  \<open>drive-session-store.ts\<close>, \<open>steering-trim-store.ts\<close>, \<open>device-update-store.ts\<close>) write the same
  tables. Here every operation of both is a step on the tables, a run is any sequence of steps,
  and the invariants that hold between the tables are proved for all runs: they are kept by
  each operation, and no operation of one program breaks what the other relies on.
\<close>

datatype fleet_op =
    Enroll enrollment_input ident ident
  | Auth_Device ident string string device_capabilities date
  | Claim_Update ident "int option" date
  | Record_Status ident ident update_progress "string option" date
  | Heartbeat ident device_health date
  | Set_Presence ident car_state date
  | Go_Offline ident date
  | Expire_Stale date date
  | Authorize ident ident ident date
  | Mark_Active ident date
  | End_Drive ident string date
  | Expire_Drives date
  | Provision provision_input ident ident ident
  | Join ident date rat rat ident
  | Read ident date rat rat ident
  | Leave ident date rat rat
  | Create_Drive ident ident date rat rat rat ident
  | Save_Trim ident ident int date
  | Request_Update ident ident string date ident

fun fleet_step :: "url_parser \<Rightarrow> fleet_op \<Rightarrow> fleet_db \<Rightarrow> fleet_db" where
  "fleet_step u (Enroll i d k) db = snd (consumeEnrollment db i d k)"
| "fleet_step u (Auth_Device d h v c now) db = snd (authenticateDevice db d h v c now)"
| "fleet_step u (Claim_Update d g now) db = snd (claimPendingUpdate db d g now)"
| "fleet_step u (Record_Status d j s r now) db = snd (recordUpdateStatus db d j s r now)"
| "fleet_step u (Heartbeat d h now) db = snd (recordHeartbeat db d h now)"
| "fleet_step u (Set_Presence d s now) db = setPresenceState db d s now"
| "fleet_step u (Go_Offline d now) db = markDeviceOffline db d now"
| "fleet_step u (Expire_Stale cutoff now) db = snd (expireStaleDevices db cutoff now)"
| "fleet_step u (Authorize s usr c now) db = snd (authorizeDriveSession db s usr c now)"
| "fleet_step u (Mark_Active s now) db = snd (markDriveSessionActive db s now)"
| "fleet_step u (End_Drive s r now) db = endDriveSession db s r now"
| "fleet_step u (Expire_Drives now) db = snd (expireDriveSessions db now)"
| "fleet_step u (Provision i a b c) db = snd (provisionCar db i a b c)"
| "fleet_step u (Join usr now m0 m1 uuid) db = snd (live_join db usr now m0 m1 uuid)"
| "fleet_step u (Read usr now m0 m1 uuid) db = snd (live_read db usr now m0 m1 uuid)"
| "fleet_step u (Leave usr now m0 m1) db = live_leave db usr now m0 m1"
| "fleet_step u (Create_Drive usr c now m0 m1 m2 uuid) db = snd (create_drive db usr c now m0 m1 m2 uuid)"
| "fleet_step u (Save_Trim s usr trim now) db = snd (save_trim db s usr trim now)"
| "fleet_step u (Request_Update a c v now uuid) db = snd (requestDeviceUpdate u db a c v now uuid)"

definition fleet_run :: "url_parser \<Rightarrow> fleet_op list \<Rightarrow> fleet_db \<Rightarrow> fleet_db" where
  "fleet_run u ops db = foldl (\<lambda>db op. fleet_step u op db) db ops"

lemma fleet_run_simps [simp]:
  "fleet_run u [] db = db"
  "fleet_run u (op # ops) db = fleet_run u ops (fleet_step u op db)"
  by (simp_all add: fleet_run_def)

text \<open>The identifiers the database makes for entries are not empty.\<close>

fun op_ok :: "fleet_op \<Rightarrow> bool" where
  "op_ok (Join usr now m0 m1 uuid) = (uuid \<noteq> [])"
| "op_ok (Read usr now m0 m1 uuid) = (uuid \<noteq> [])"
| "op_ok op = True"

subsection \<open>The invariant of the tables\<close>

definition open_drives :: "fleet_db \<Rightarrow> drive_row list" where
  "open_drives db = filter open_drive (db_drives db)"

definition drives_ok :: "fleet_db \<Rightarrow> bool" where
  "drives_ok db = (distinct (map ds_id (db_drives db)) \<and> distinct (map ds_carId (open_drives db))
     \<and> distinct (map ds_userId (open_drives db)))"

definition cars_ok :: "fleet_db \<Rightarrow> bool" where
  "cars_ok db = list_all (\<lambda>c. cr_state c = AVAILABLE \<longrightarrow> cr_id c \<notin> set (map ds_carId (open_drives db))) (db_cars db)"

definition driven_by :: "drive_row \<Rightarrow> queue_row \<Rightarrow> bool" where
  "driven_by s e = (ds_queueEntryId s = Some (qe_id e) \<and> ds_userId s = qe_userId e)"

definition accepted_ok :: "fleet_db \<Rightarrow> bool" where
  "accepted_ok db = (list_all (\<lambda>e. qe_status e = Q_accepted \<longrightarrow> list_ex (\<lambda>s. driven_by s e) (open_drives db)) (db_queue db)
     \<and> list_all (\<lambda>s. list_ex (\<lambda>e. qe_status e = Q_accepted \<and> driven_by s e) (db_queue db)) (open_drives db))"

definition fleet_inv :: "fleet_db \<Rightarrow> bool" where
  "fleet_inv db = (queue_ok (db_queue db) \<and> list_all (\<lambda>e. qe_id e \<noteq> []) (db_queue db)
     \<and> drives_ok db \<and> cars_ok db \<and> accepted_ok db)"

text \<open>An operation that leaves queue and sessions alone and makes no car in use available.\<close>

definition devices_only :: "fleet_db \<Rightarrow> fleet_db \<Rightarrow> bool" where
  "devices_only db db' = (db_queue db' = db_queue db \<and> db_drives db' = db_drives db
     \<and> (\<forall>c' \<in> set (db_cars db'). cr_state c' = AVAILABLE \<longrightarrow>
          (\<exists>c \<in> set (db_cars db). cr_id c = cr_id c' \<and> cr_state c = AVAILABLE)
          \<or> cr_id c' \<notin> set (map ds_carId (open_drives db))))"

lemma devices_only_inv: "devices_only db db' \<Longrightarrow> fleet_inv db \<Longrightarrow> fleet_inv db'"
  by (fastforce simp: devices_only_def fleet_inv_def drives_ok_def cars_ok_def accepted_ok_def open_drives_def list_all_iff)

lemma devices_only_refl [simp]: "devices_only db db"
  by (auto simp: devices_only_def)

lemma devices_only_trans: "devices_only db db' \<Longrightarrow> devices_only db' db'' \<Longrightarrow> devices_only db db''"
  unfolding devices_only_def open_drives_def by (simp, metis)

subsection \<open>Operations on devices\<close>

lemma avail_update:
  assumes "c' \<in> set (update_where P f cars)" "cr_state c' = AVAILABLE"
    and "\<And>c. cr_id (f c) = cr_id c" "\<And>c. P c \<Longrightarrow> cr_state (f c) = AVAILABLE \<Longrightarrow> cr_state c = AVAILABLE \<or> Q (cr_id c)"
  shows "(\<exists>c \<in> set cars. cr_id c = cr_id c' \<and> cr_state c = AVAILABLE) \<or> Q (cr_id c')"
proof -
  obtain c where c: "c \<in> set cars" "c' = (if P c then f c else c)"
    using assms(1) by (auto simp: in_update_where)
  show ?thesis
  proof (cases "P c")
    case True
    then have "cr_state c = AVAILABLE \<or> Q (cr_id c)" "cr_id c' = cr_id c"
      using assms(2-4) c(2) by auto
    then show ?thesis using c(1) by auto
  next
    case False
    then show ?thesis using c assms(2) by auto
  qed
qed

lemma devices_only_same:
  "db_queue db' = db_queue db \<Longrightarrow> db_drives db' = db_drives db \<Longrightarrow> db_cars db' = db_cars db \<Longrightarrow> devices_only db db'"
  by (auto simp: devices_only_def)

lemma devices_only_cars:
  assumes "db_queue db' = db_queue db" "db_drives db' = db_drives db" "db_cars db' = update_where P f (db_cars db)"
    and "\<And>c. cr_id (f c) = cr_id c"
    and "\<And>c. P c \<Longrightarrow> cr_state (f c) = AVAILABLE \<Longrightarrow> cr_state c = AVAILABLE \<or> cr_id c \<notin> set (map ds_carId (open_drives db))"
  shows "devices_only db db'"
  unfolding devices_only_def
proof (intro conjI ballI impI)
  fix c' :: car_row
  assume "c' \<in> set (db_cars db')" "cr_state c' = AVAILABLE"
  then show "(\<exists>c \<in> set (db_cars db). cr_id c = cr_id c' \<and> cr_state c = AVAILABLE) \<or> cr_id c' \<notin> set (map ds_carId (open_drives db))"
    unfolding assms(3) by (rule avail_update [where Q = "\<lambda>i. i \<notin> set (map ds_carId (open_drives db))"]) (use assms(4,5) in auto)
qed (use assms in auto)

lemma enroll_devices_only: "devices_only db (snd (consumeEnrollment db i d k))"
  by (auto simp: consumeEnrollment_def Let_def split: option.splits intro: devices_only_same)

lemma authenticate_devices_only: "devices_only db (snd (authenticateDevice db d h v c now))"
proof -
  have *: "devices_only db (db\<lparr>db_credentials := a, db_devices := b, db_cars := update_where P (\<lambda>c. c\<lparr>cr_state := INITIALIZING, cr_updatedAt := now\<rparr>) (db_cars db), db_jobs := e\<rparr>)" for a b P e
    by (rule devices_only_cars [where P = P and f = "\<lambda>c. c\<lparr>cr_state := INITIALIZING, cr_updatedAt := now\<rparr>"]) simp_all
  show ?thesis by (auto simp: authenticateDevice_def * split: option.splits prod.splits)
qed

lemma claim_devices_only: "devices_only db (snd (claimPendingUpdate db d g now))"
  by (auto simp: claimPendingUpdate_def split: option.splits prod.splits intro: devices_only_same)

lemma record_devices_only: "devices_only db (snd (recordUpdateStatus db d j s r now))"
  by (auto simp: recordUpdateStatus_def Let_def intro: devices_only_same)

lemma set_car_devices_only:
  assumes "\<And>c. cr_id (f c) = cr_id c" "\<And>c. cr_state (f c) = AVAILABLE \<Longrightarrow> cr_state c = AVAILABLE"
    and "db_queue db1 = db_queue db" "db_drives db1 = db_drives db" "db_cars db1 = db_cars db"
  shows "devices_only db (set_car i f db1)"
  by (rule devices_only_cars [where P = "\<lambda>c. cr_id c = i" and f = f]) (use assms in \<open>auto simp: set_car_def\<close>)

lemma heartbeat_devices_only: "devices_only db (snd (recordHeartbeat db d h now))"
  by (auto simp: recordHeartbeat_def Let_def split: option.splits intro: devices_only_same intro!: set_car_devices_only)

lemma presence_devices_only: "devices_only db (setPresenceState db d s now)"
proof -
  have *: "devices_only db (db\<lparr>db_devices := b, db_cars := update_where
      (\<lambda>c. cr_id c = i \<and> \<not> list_ex (\<lambda>s. ds_carId s = i \<and> open_drive s) (db_drives db))
      (\<lambda>c. c\<lparr>cr_state := st, cr_updatedAt := now\<rparr>) (db_cars db)\<rparr>)" for b i st
    by (rule devices_only_cars [where P = "\<lambda>c. cr_id c = i \<and> \<not> list_ex (\<lambda>s. ds_carId s = i \<and> open_drive s) (db_drives db)"
          and f = "\<lambda>c. c\<lparr>cr_state := st, cr_updatedAt := now\<rparr>"])
      (auto simp: open_drives_def list_ex_iff)
  show ?thesis by (auto simp: setPresenceState_def Let_def * split: option.splits intro: devices_only_same)
qed

lemma offline_devices_only: "devices_only db (markDeviceOffline db d now)"
  by (auto simp: markDeviceOffline_def Let_def split: option.splits if_splits intro: devices_only_same intro!: set_car_devices_only)

lemma stale_devices_only: "devices_only db (snd (expireStaleDevices db cutoff now))"
proof -
  have "devices_only db (foldl (\<lambda>db d. markDeviceOffline db (dv_id d) now) db ds)" for ds
    by (induction ds arbitrary: db) (auto intro: devices_only_trans offline_devices_only)
  then show ?thesis by (simp add: expireStaleDevices_def Let_def)
qed

lemma provision_cars_avail:
  assumes "c' \<in> set (if x then update_where (\<lambda>c. cr_slug c = sl) (\<lambda>c. c\<lparr>cr_name := n, cr_siteId := st, cr_updatedAt := t\<rparr>) cars
      else cars @ [new])" "cr_state c' = AVAILABLE" "cr_state new = OFFLINE"
  shows "\<exists>c \<in> set cars. cr_id c = cr_id c' \<and> cr_state c = AVAILABLE"
  using assms by (auto simp: in_update_where split: if_splits)

lemma devices_only_if: "devices_only db db' \<Longrightarrow> devices_only db (snd (if x then (a, db) else if y then (b, db) else (c, db')))"
  by simp

lemma provision_devices_only: "devices_only db (snd (provisionCar db i a b c))"
proof -
  have *: "devices_only db (db\<lparr>db_sites := x, db_cars := cars, db_tokens := t\<rparr>)"
    if "\<And>c'. c' \<in> set cars \<Longrightarrow> cr_state c' = AVAILABLE \<Longrightarrow> \<exists>c \<in> set (db_cars db). cr_id c = cr_id c' \<and> cr_state c = AVAILABLE"
    for x cars t
    using that by (simp add: devices_only_def)
  show ?thesis
    unfolding provisionCar_def Let_def
    by (split option.split, intro conjI allI impI, simp, split option.split, intro conjI allI impI, simp)
      (rule devices_only_if, rule *, erule (1) provision_cars_avail, simp)
qed

lemma trim_devices_only: "devices_only db (snd (save_trim db s usr trim now))"
proof -
  have "devices_only db (db\<lparr>db_cars := update_where P (\<lambda>c. c\<lparr>cr_steeringTrimPercent := trim, cr_updatedAt := now\<rparr>) (db_cars db)\<rparr>)" for P
    by (rule devices_only_cars [where P = P and f = "\<lambda>c. c\<lparr>cr_steeringTrimPercent := trim, cr_updatedAt := now\<rparr>"]) simp_all
  then show ?thesis by (auto simp: save_trim_def Let_def split: option.splits)
qed

lemma request_devices_only: "devices_only db (snd (requestDeviceUpdate u db a c v now uuid))"
  by (auto simp: requestDeviceUpdate_def Let_def split: option.splits intro: devices_only_same)

lemmas devices_steps = enroll_devices_only authenticate_devices_only claim_devices_only record_devices_only
  heartbeat_devices_only presence_devices_only offline_devices_only stale_devices_only provision_devices_only
  trim_devices_only request_devices_only

subsection \<open>Operations on the queue\<close>

text \<open>An operation that changes waiting and offered entries only.\<close>

definition queue_only :: "fleet_db \<Rightarrow> fleet_db \<Rightarrow> bool" where
  "queue_only db db' = (\<exists>rows. db' = db\<lparr>db_queue := rows\<rparr> \<and> queue_ok rows \<and> list_all (\<lambda>e. qe_id e \<noteq> []) rows
     \<and> (\<forall>e. e \<in> set rows \<and> qe_status e = Q_accepted \<longleftrightarrow> e \<in> set (db_queue db) \<and> qe_status e = Q_accepted))"

lemma queue_onlyI:
  "queue_ok rows \<Longrightarrow> list_all (\<lambda>e. qe_id e \<noteq> []) rows \<Longrightarrow>
   (\<And>e. e \<in> set rows \<and> qe_status e = Q_accepted \<longleftrightarrow> e \<in> set (db_queue db) \<and> qe_status e = Q_accepted) \<Longrightarrow>
   queue_only db (db\<lparr>db_queue := rows\<rparr>)"
  by (auto simp: queue_only_def)

lemma queue_only_inv: "queue_only db db' \<Longrightarrow> fleet_inv db \<Longrightarrow> fleet_inv db'"
proof -
  assume q: "queue_only db db'" and inv: "fleet_inv db"
  obtain rows where db': "db' = db\<lparr>db_queue := rows\<rparr>" and ok: "queue_ok rows" "list_all (\<lambda>e. qe_id e \<noteq> []) rows"
    and acc: "\<And>e. e \<in> set rows \<Longrightarrow> qe_status e = Q_accepted \<Longrightarrow> e \<in> set (db_queue db)"
      "\<And>e. e \<in> set (db_queue db) \<Longrightarrow> qe_status e = Q_accepted \<Longrightarrow> e \<in> set rows"
    using q by (auto simp: queue_only_def)
  have "accepted_ok db'"
    using inv acc by (fastforce simp: db' fleet_inv_def accepted_ok_def open_drives_def list_all_iff list_ex_iff)
  then show ?thesis
    using inv ok by (simp add: db' fleet_inv_def drives_ok_def cars_ok_def open_drives_def)
qed

lemma queue_only_trans: "queue_only db db' \<Longrightarrow> queue_only db' db'' \<Longrightarrow> queue_only db db''"
  by (auto simp: queue_only_def)

lemma queue_only_refl: "queue_ok (db_queue db) \<Longrightarrow> list_all (\<lambda>e. qe_id e \<noteq> []) (db_queue db) \<Longrightarrow> queue_only db db"
  using queue_onlyI [of "db_queue db" db] by simp

lemma advance_loop_accepted:
  "advance_loop now capacity ps acc rows = (entries, rows') \<Longrightarrow> e \<in> set rows' \<Longrightarrow> qe_status e = Q_accepted \<Longrightarrow> e \<in> set rows"
proof (induction ps arbitrary: acc rows)
  case (Cons p ps)
  have up: "e \<in> set rows" if "e \<in> set (update_where P f rows)" "\<And>r. qe_status (f r) \<noteq> Q_accepted" for P f
    using that Cons.prems(3) by (auto simp: in_update_where split: if_splits)
  show ?case
    using Cons.prems(1) by (auto simp: Let_def split: if_splits dest!: Cons.IH [OF _ Cons.prems(2,3)] up)
qed simp

lemma ids_nonempty:
  assumes "map qe_id rows = map qe_id rows'"
  shows "list_all (\<lambda>e. qe_id e \<noteq> []) rows \<longleftrightarrow> list_all (\<lambda>e. qe_id e \<noteq> []) rows'"
  using arg_cong [OF assms, of "list_all (\<lambda>i. i \<noteq> [])"] by (simp add: list.pred_map comp_def)

lemma advance_queue_only:
  assumes "queue_ok (db_queue db)" "list_all (\<lambda>e. qe_id e \<noteq> []) (db_queue db)"
  shows "queue_only db (snd (advanceLiveQueue db now))"
proof -
  obtain rows where rows: "advanceLiveQueue db now = ((live_positions rows, listQueueCars db now), db\<lparr>db_queue := rows\<rparr>)"
    "queue_ok rows" "map qe_id rows = map qe_id (db_queue db)" "\<forall>e \<in> set (db_queue db). \<not> live_entry e \<longrightarrow> e \<in> set rows"
    by (rule advance_cases [OF assms(1)])
  let ?rows = "expire_leases now (db_queue db)"
  obtain entries rows' where loop: "advance_loop now (queue_capacity db now) (live_positions ?rows) [] ?rows = (entries, rows')"
    by fastforce
  have "db\<lparr>db_queue := rows'\<rparr> = db\<lparr>db_queue := rows\<rparr>"
    using rows(1) loop by (simp add: advanceLiveQueue_def Let_def queue_capacity_def)
  then have "db_queue (db\<lparr>db_queue := rows'\<rparr>) = db_queue (db\<lparr>db_queue := rows\<rparr>)" by (rule arg_cong)
  then have eq: "rows' = rows" by simp
  have "e \<in> set (db_queue db)" if "e \<in> set rows" "qe_status e = Q_accepted" for e
  proof -
    have "e \<in> set (expire_leases now (db_queue db))"
      using advance_loop_accepted [OF loop] that by (simp add: eq)
    then show ?thesis using that(2) by (auto simp: expire_leases_def in_update_where split: if_splits)
  qed
  then have "\<forall>e. e \<in> set rows \<and> qe_status e = Q_accepted \<longleftrightarrow> e \<in> set (db_queue db) \<and> qe_status e = Q_accepted"
    using rows(4) by (auto simp: live_entry_def)
  then show ?thesis
    using rows(1,2) ids_nonempty [OF rows(3)] assms(2) by (auto simp: queue_only_def)
qed

lemma queue_only_then_advance:
  assumes "queue_only db db'" shows "queue_only db (snd (advanceLiveQueue db' now))"
  using assms advance_queue_only [of db' now] by (auto simp: queue_only_def intro: queue_only_trans)

lemma finish_join_queue_only:
  assumes "queue_only db db'" "queue_only db db0" shows "queue_only db (snd (finish_join db0 db' userId now))"
  using queue_only_then_advance [OF assms(1), of now] assms(2)
  by (auto simp: finish_join_def split: prod.splits sum.splits)

lemma queue_only_live:
  assumes "queue_ok (db_queue db)" "list_all (\<lambda>e. qe_id e \<noteq> []) (db_queue db)" "keeps_place f"
    and "\<And>e. e \<in> set (db_queue db) \<Longrightarrow> P e \<Longrightarrow> live_entry e" "\<And>e. qe_status (f e) \<noteq> Q_accepted"
    and "\<And>e. live_entry (f e) \<Longrightarrow> live_entry e"
  shows "queue_only db (db\<lparr>db_queue := update_where P f (db_queue db)\<rparr>)"
proof -
  have "subseq (map qe_userId (filter live_entry (update_where P f (db_queue db)))) (map qe_userId (filter live_entry (db_queue db)))"
    by (rule filter_update_where_sub) (use assms(3,6) in \<open>auto simp: keeps_place_def\<close>)
  then have "queue_ok (update_where P f (db_queue db))"
    using assms(1) update_where_ids [OF assms(3)] subseq_distinct by (auto simp: queue_ok_def)
  moreover have "list_all (\<lambda>e. qe_id e \<noteq> []) (update_where P f (db_queue db))"
    using ids_nonempty [OF update_where_ids [OF assms(3)]] assms(2) by blast
  moreover have "e \<in> set (update_where P f (db_queue db)) \<and> qe_status e = Q_accepted \<longleftrightarrow> e \<in> set (db_queue db) \<and> qe_status e = Q_accepted" for e
    using assms(4,5) by (fastforce simp: in_update_where live_entry_def split: if_splits)
  ultimately show ?thesis by (auto simp: queue_only_def)
qed

lemma join_queue_only:
  assumes ok: "queue_ok (db_queue db)" and ids: "list_all (\<lambda>e. qe_id e \<noteq> []) (db_queue db)" and uuid: "uuid \<noteq> []"
  shows "queue_only db (snd (joinOrRefresh db userId t ex m0 m1 uuid))"
proof -
  define now where "now = clock_after t m0 m1"
  obtain entries cars db1 where adv: "advanceLiveQueue db now = ((entries, cars), db1)" by (metis prod.exhaust)
  have refl: "queue_only db db" by (rule queue_only_refl [OF ok ids])
  have q1: "queue_only db db1" using advance_queue_only [OF ok ids, of now] adv by simp
  then have ok1: "queue_ok (db_queue db1)" "list_all (\<lambda>e. qe_id e \<noteq> []) (db_queue db1)" by (auto simp: queue_only_def)
  have ins: "queue_only db (db1\<lparr>db_queue := (let e = new_entry uuid userId now in
      if queue_conflict (db_queue db1) e then db_queue db1 else db_queue db1 @ [e])\<rparr>)"
  proof (rule queue_only_trans [OF q1])
    show "queue_only db1 (db1\<lparr>db_queue := (let e = new_entry uuid userId now in
        if queue_conflict (db_queue db1) e then db_queue db1 else db_queue db1 @ [e])\<rparr>)"
    proof (cases "queue_conflict (db_queue db1) (new_entry uuid userId now)")
      case True
      then show ?thesis using queue_only_refl [OF ok1] by (simp add: Let_def)
    next
      case False
      then show ?thesis
        unfolding Let_def using ok1 uuid queue_ok_insert [OF ok1(1) False]
        by simp (rule queue_onlyI, auto)
    qed
  qed
  have refresh: "queue_only db (db1\<lparr>db_queue := update_where (\<lambda>e. qe_id e = qp_id p)
      (\<lambda>e. e\<lparr>qe_expiresAt := now + QUEUE_LEASE_MS, qe_updatedAt := now\<rparr>) (db_queue db1)\<rparr>)"
    if p: "p \<in> set entries" for p
  proof (rule queue_only_trans [OF q1])
    obtain rows where "advanceLiveQueue db now = ((live_positions rows, listQueueCars db now), db\<lparr>db_queue := rows\<rparr>)"
      by (rule advance_cases [OF ok])
    then have "p \<in> set (live_positions (db_queue db1))" using adv p by auto
    then have live: "e \<in> set (db_queue db1) \<Longrightarrow> qe_id e = qp_id p \<Longrightarrow> live_entry e" for e
      using live_row_unique ok1(1) by (auto simp: queue_ok_def)
    let ?f = "\<lambda>e. e\<lparr>qe_expiresAt := now + QUEUE_LEASE_MS, qe_updatedAt := now\<rparr>"
    let ?rows = "update_where (\<lambda>e. qe_id e = qp_id p) ?f (db_queue db1)"
    have kp: "keeps_place ?f" by (simp add: keeps_place_def)
    have "subseq (map qe_userId (filter live_entry ?rows)) (map qe_userId (filter live_entry (db_queue db1)))"
      by (rule filter_update_where_sub) (auto simp: live_entry_def)
    then have "queue_ok ?rows"
      using ok1(1) update_where_ids [OF kp] subseq_distinct by (auto simp: queue_ok_def)
    moreover have "e \<in> set ?rows \<and> qe_status e = Q_accepted \<longleftrightarrow> e \<in> set (db_queue db1) \<and> qe_status e = Q_accepted" for e
      using live by (fastforce simp: in_update_where live_entry_def split: if_splits)
    ultimately show "queue_only db1 (db1\<lparr>db_queue := ?rows\<rparr>)"
      using ids_nonempty [OF update_where_ids [OF kp]] ok1(2) by (auto simp: queue_only_def)
  qed
  show ?thesis
    using q1 ins refresh [OF conjunct1 [OF find_in_set]]
    by (auto simp: joinOrRefresh_def now_def [symmetric] adv Let_def split: option.splits
        intro!: finish_join_queue_only [OF _ refl])
qed

lemma leave_queue_only:
  assumes "queue_ok (db_queue db)" "list_all (\<lambda>e. qe_id e \<noteq> []) (db_queue db)"
  shows "queue_only db (live_leave db userId t m0 m1)"
  unfolding live_leave_def Let_def
  by (intro queue_only_then_advance queue_only_live assms) (auto simp: keeps_place_def live_entry_def)

subsection \<open>Operations on sessions\<close>

definition same_drive :: "drive_row \<Rightarrow> drive_row \<Rightarrow> bool" where
  "same_drive s s' = (ds_id s' = ds_id s \<and> ds_userId s' = ds_userId s \<and> ds_carId s' = ds_carId s
     \<and> ds_queueEntryId s' = ds_queueEntryId s \<and> ds_expiresAt s' = ds_expiresAt s \<and> ds_createdAt s' = ds_createdAt s)"

lemma same_drive_refl [simp]: "same_drive s s"
  by (simp add: same_drive_def)

lemma same_drive_trans: "same_drive s s' \<Longrightarrow> same_drive s' s'' \<Longrightarrow> same_drive s s''"
  by (simp add: same_drive_def)

text \<open>A step of open sessions to open ones changes no session, car or driver that is open.\<close>

lemma advance_drives_inv:
  assumes inv: "fleet_inv db" and f: "\<And>s. P s \<Longrightarrow> open_drive s \<and> open_drive (f s) \<and> same_drive s (f s)"
    and state: "\<And>c. cr_state (g c) \<noteq> AVAILABLE"
  shows "fleet_inv (set_car i g (db\<lparr>db_drives := update_where P f (db_drives db)\<rparr>))"
proof -
  let ?db = "set_car i g (db\<lparr>db_drives := update_where P f (db_drives db)\<rparr>)"
  let ?h = "\<lambda>s. if P s then f s else s"
  have h: "open_drive (?h s) = open_drive s" "ds_id (?h s) = ds_id s" "ds_carId (?h s) = ds_carId s"
      "ds_userId (?h s) = ds_userId s" "ds_queueEntryId (?h s) = ds_queueEntryId s" for s
    using f [of s] by (auto simp: same_drive_def)
  have drives: "db_drives ?db = map ?h (db_drives db)" by (simp add: set_car_def update_where_def)
  have "filter open_drive (map ?h ss) = map ?h (filter open_drive ss)" for ss
    by (induction ss) (auto simp: h(1) f)
  then have op: "open_drives ?db = map ?h (open_drives db)"
    unfolding open_drives_def drives .
  have maps: "map ds_id (map ?h ss) = map ds_id ss" "map ds_carId (map ?h ss) = map ds_carId ss"
    "map ds_userId (map ?h ss) = map ds_userId ss" for ss
    by (simp_all add: h(2-4))
  have dr: "drives_ok ?db"
    using inv unfolding drives_ok_def drives op maps fleet_inv_def by blast
  have carsok: "cars_ok ?db"
    unfolding cars_ok_def op maps
  proof (rule list_all_iff [THEN iffD2], intro ballI impI)
    fix c' :: car_row
    assume "c' \<in> set (db_cars ?db)" "cr_state c' = AVAILABLE"
    then have "c' \<in> set (db_cars db)"
      using state by (auto simp: set_car_def in_update_where split: if_splits)
    then show "cr_id c' \<notin> set (map ds_carId (open_drives db))"
      using inv \<open>cr_state c' = AVAILABLE\<close> by (simp add: fleet_inv_def cars_ok_def list_all_iff)
  qed
  have dh: "driven_by (?h s) e = driven_by s e" for s e
    by (simp add: driven_by_def h(4,5) del: if_image_distrib)
  have "accepted_ok ?db"
    using inv unfolding accepted_ok_def op fleet_inv_def
    by (simp add: list.pred_map comp_def list_ex_iff dh set_car_def del: if_image_distrib)
  then show ?thesis
    using inv dr carsok by (simp add: fleet_inv_def set_car_def)
qed

lemma authorize_inv: "fleet_inv db \<Longrightarrow> fleet_inv (snd (authorizeDriveSession db s usr c now))"
  unfolding authorizeDriveSession_def Let_def
  by (auto split: option.split intro!: advance_drives_inv simp: open_drive_def same_drive_def)

lemma mark_active_inv: "fleet_inv db \<Longrightarrow> fleet_inv (snd (markDriveSessionActive db s now))"
  unfolding markDriveSessionActive_def Let_def
  by (auto split: option.split intro!: advance_drives_inv simp: open_drive_def same_drive_def)

text \<open>The end of a set of sessions, as both operations that end sessions do it.\<close>

definition close_drives :: "date \<Rightarrow> (drive_row \<Rightarrow> bool) \<Rightarrow> fleet_db \<Rightarrow> fleet_db" where
  "close_drives now P db = foldl (release_session now) (db\<lparr>db_drives := update_where P (end_drive now) (db_drives db)\<rparr>)
     (returning P (end_drive now) (db_drives db))"

definition leaves_entry :: "drive_row list \<Rightarrow> queue_row \<Rightarrow> bool" where
  "leaves_entry ss q = (qe_id q \<noteq> [] \<and> list_ex (\<lambda>s. ds_queueEntryId s = Some (qe_id q)) ss)"

definition left_row :: "date \<Rightarrow> queue_row \<Rightarrow> queue_row" where
  "left_row now q = q\<lparr>qe_status := Q_left, qe_expiresAt := now, qe_updatedAt := now\<rparr>"

lemma left_row_twice [simp]: "left_row now (left_row now q) = left_row now q"
  by (simp add: left_row_def)

lemma left_row_id [simp]: "qe_id (left_row now q) = qe_id q"
  by (simp add: left_row_def)

lemma left_row_status [simp]: "qe_status (left_row now q) = Q_left"
  by (simp add: left_row_def)

lemma left_row_not_accepted: "qe_status q = Q_accepted \<Longrightarrow> left_row now q \<noteq> q"
  by (auto dest!: arg_cong [where f = qe_status])

lemma release_queue: "db_queue (release_session now db s) = update_where (leaves_entry [s]) (left_row now) (db_queue db)"
  by (auto simp: release_session_def set_car_def Let_def update_where_def leaves_entry_def left_row_def split: option.split intro!: map_idI [symmetric])

lemma update_where_twice:
  "(\<And>q. P (f q) = P q) \<Longrightarrow> (\<And>q. Q (f q) = Q q) \<Longrightarrow> (\<And>q. f (f q) = f q) \<Longrightarrow>
   update_where Q f (update_where P f rows) = update_where (\<lambda>q. P q \<or> Q q) f rows"
  by (auto simp: update_where_def)

lemma release_fold:
  shows "db_drives (foldl (release_session now) db ss) = db_drives db"
    "db_queue (foldl (release_session now) db ss) = update_where (leaves_entry ss) (left_row now) (db_queue db)"
    "c' \<in> set (db_cars (foldl (release_session now) db ss)) \<Longrightarrow> cr_id c' \<in> ds_carId ` set ss \<or> c' \<in> set (db_cars db)"
proof (induction ss arbitrary: db)
  case Nil
  { case 2 show ?case by (simp add: leaves_entry_def update_where_def) }
next
  case (Cons s ss)
  have d: "db_drives (release_session now db s) = db_drives db" for db
    by (simp add: release_session_def set_car_def Let_def split: option.split)
  have c: "cr_id c' = ds_carId s \<or> c' \<in> set (db_cars db)" if "c' \<in> set (db_cars (release_session now db s))" for db
    using that by (auto simp: release_session_def set_car_def Let_def in_update_where split: option.splits if_splits)
  { case 1 show ?case by (simp add: Cons(1) d) }
  { case 2
    have "(\<lambda>q. leaves_entry [s] q \<or> leaves_entry ss q) = leaves_entry (s # ss)"
      by (auto simp: leaves_entry_def)
    moreover have "leaves_entry rs (left_row now q) = leaves_entry rs q" for rs q by (simp add: leaves_entry_def)
    ultimately show ?case
      using Cons(2) by (simp add: release_queue update_where_twice) }
  { case 3 then show ?case using Cons(3) c by fastforce }
qed simp_all

lemma end_drive_simps [simp]:
  "ds_id (end_drive now s) = ds_id s" "ds_carId (end_drive now s) = ds_carId s" "ds_userId (end_drive now s) = ds_userId s"
  "ds_queueEntryId (end_drive now s) = ds_queueEntryId s" "ds_status (end_drive now s) = D_ended" "\<not> open_drive (end_drive now s)"
  by (simp_all add: end_drive_def open_drive_def)

lemma close_drives_sets:
  assumes "\<forall>s. P s \<longrightarrow> open_drive s"
  shows "db_drives (close_drives now P db) = update_where P (end_drive now) (db_drives db)"
    "open_drives (close_drives now P db) = filter (\<lambda>s. \<not> P s) (open_drives db)"
    "db_queue (close_drives now P db) = update_where (leaves_entry (filter P (db_drives db))) (left_row now) (db_queue db)"
proof -
  show d: "db_drives (close_drives now P db) = update_where P (end_drive now) (db_drives db)"
    by (simp add: close_drives_def release_fold(1))
  have "filter open_drive (update_where P (end_drive now) ss) = filter (\<lambda>s. \<not> P s) (filter open_drive ss)" for ss
    using assms by (induction ss) (auto simp: update_where_def)
  then show "open_drives (close_drives now P db) = filter (\<lambda>s. \<not> P s) (open_drives db)"
    by (simp add: open_drives_def d)
  have "leaves_entry (map (end_drive now) ss) = leaves_entry ss" for ss
    by (rule ext) (simp add: leaves_entry_def list_ex_iff)
  then show "db_queue (close_drives now P db) = update_where (leaves_entry (filter P (db_drives db))) (left_row now) (db_queue db)"
    by (simp add: close_drives_def release_fold(2) returning_def)
qed

lemma close_drives_cars:
  assumes "drives_ok db" "cars_ok db" "\<forall>s. P s \<longrightarrow> open_drive s"
  shows "cars_ok (close_drives now P db)"
  unfolding cars_ok_def list_all_iff
proof (intro ballI impI)
  fix c :: car_row
  assume c: "c \<in> set (db_cars (close_drives now P db))" "cr_state c = AVAILABLE"
  have "cr_id c \<in> ds_carId ` set (filter P (db_drives db)) \<or> c \<in> set (db_cars db)"
    using release_fold(3) [OF c(1) [unfolded close_drives_def]] by (auto simp: returning_def)
  then show "cr_id c \<notin> set (map ds_carId (open_drives (close_drives now P db)))"
  proof
    assume "cr_id c \<in> ds_carId ` set (filter P (db_drives db))"
    then obtain s where s: "s \<in> set (open_drives db)" "P s" "ds_carId s = cr_id c"
      using assms(3) by (auto simp: open_drives_def)
    have "P t" if "t \<in> set (open_drives db)" "ds_carId t = cr_id c" for t
      using distinct_map_eq [OF _ s(1) that(1), of ds_carId] assms(1) s that by (simp add: drives_ok_def)
    then show ?thesis using s(3) by (auto simp: close_drives_sets(2) [OF assms(3)])
  next
    assume "c \<in> set (db_cars db)"
    then show ?thesis using assms(2) c(2) by (auto simp: cars_ok_def list_all_iff close_drives_sets(2) [OF assms(3)])
  qed
qed

lemma close_drives_inv:
  assumes inv: "fleet_inv db" and P: "\<forall>s. P s \<longrightarrow> open_drive s"
  shows "fleet_inv (close_drives now P db)"
proof -
  let ?db = "close_drives now P db" and ?C = "filter P (db_drives db)"
  note sets = close_drives_sets [OF P]
  have ok: "queue_ok (db_queue db)" "drives_ok db" "cars_ok db" "accepted_ok db" "list_all (\<lambda>e. qe_id e \<noteq> []) (db_queue db)"
    using inv by (simp_all add: fleet_inv_def)
  have kp: "keeps_place (left_row now)" by (simp add: keeps_place_def left_row_def)
  have "subseq (map qe_userId (filter live_entry (db_queue ?db))) (map qe_userId (filter live_entry (db_queue db)))"
    unfolding sets(3) by (rule filter_update_where_sub) (auto simp: left_row_def live_entry_def)
  then have q: "queue_ok (db_queue ?db)" "list_all (\<lambda>e. qe_id e \<noteq> []) (db_queue ?db)"
    using ok(1,5) update_where_ids [OF kp] subseq_distinct ids_nonempty [of "db_queue ?db" "db_queue db"]
    by (auto simp: queue_ok_def sets(3))
  have ids: "map ds_id (db_drives ?db) = map ds_id (db_drives db)"
    unfolding sets(1) by (rule map_update_where, simp)
  have dr: "drives_ok ?db"
    using ok(2) unfolding drives_ok_def ids sets(2) by (auto intro: distinct_map_filter)
  have closed: "leaves_entry ?C e \<longleftrightarrow> (\<exists>s \<in> set (open_drives db). P s \<and> driven_by s e)"
    if e: "e \<in> set (db_queue db)" "qe_status e = Q_accepted" for e
  proof
    assume "leaves_entry ?C e"
    then obtain t where t: "t \<in> set (open_drives db)" "P t" "ds_queueEntryId t = Some (qe_id e)"
      using P by (auto simp: leaves_entry_def list_ex_iff open_drives_def)
    then obtain e' where e': "e' \<in> set (db_queue db)" "driven_by t e'"
      using ok(4) by (auto simp: accepted_ok_def list_all_iff list_ex_iff)
    have "e' = e"
      by (rule distinct_map_eq [of qe_id, OF _ e'(1) e(1)])
        (use ok(1) t(3) e'(2) in \<open>simp_all add: driven_by_def queue_ok_def\<close>)
    then show "\<exists>s \<in> set (open_drives db). P s \<and> driven_by s e" using t e' by auto
  next
    assume "\<exists>s \<in> set (open_drives db). P s \<and> driven_by s e"
    then show "leaves_entry ?C e"
      using e(1) ok(5) by (auto simp: leaves_entry_def list_ex_iff list_all_iff open_drives_def driven_by_def)
  qed
  have one: "s = t" if "s \<in> set (open_drives db)" "t \<in> set (open_drives db)" "driven_by s e" "driven_by t e" for s t e
    using distinct_map_eq [OF _ that(1,2), of ds_userId] ok(2) that(3,4) by (simp add: drives_ok_def driven_by_def)
  have new: "e \<in> set (db_queue ?db) \<and> qe_status e = Q_accepted \<longleftrightarrow>
      e \<in> set (db_queue db) \<and> qe_status e = Q_accepted \<and> \<not> leaves_entry ?C e" for e
    by (auto simp: sets(3) in_update_where left_row_not_accepted split: if_splits)
  have "accepted_ok ?db"
    unfolding accepted_ok_def list_all_iff list_ex_iff
  proof (intro conjI ballI impI)
    fix e
    assume "e \<in> set (db_queue ?db)" "qe_status e = Q_accepted"
    then have e: "e \<in> set (db_queue db)" "qe_status e = Q_accepted" "\<not> leaves_entry ?C e" using new by blast+
    then obtain s where "s \<in> set (open_drives db)" "driven_by s e"
      using ok(4) by (auto simp: accepted_ok_def list_all_iff list_ex_iff)
    then show "\<exists>s \<in> set (open_drives ?db). driven_by s e"
      using closed [OF e(1,2)] e(3) by (auto simp: sets(2))
  next
    fix s
    assume s: "s \<in> set (open_drives ?db)"
    then have s': "s \<in> set (open_drives db)" "\<not> P s" by (simp_all add: sets(2))
    then obtain e where e: "e \<in> set (db_queue db)" "qe_status e = Q_accepted" "driven_by s e"
      using ok(4) by (auto simp: accepted_ok_def list_all_iff list_ex_iff)
    have "\<not> leaves_entry ?C e" using closed [OF e(1,2)] one [OF s'(1)] s'(2) e(3) by blast
    then show "\<exists>e \<in> set (db_queue ?db). qe_status e = Q_accepted \<and> driven_by s e"
      using new [of e] e by blast
  qed
  then show ?thesis
    using q dr close_drives_cars [OF ok(2,3) P] by (simp add: fleet_inv_def)
qed

lemma expire_is_close:
  "expireDriveSessions db now = (length (filter (\<lambda>s. open_drive s \<and> shouldExpireDriveSession s now) (db_drives db)),
     close_drives now (\<lambda>s. open_drive s \<and> shouldExpireDriveSession s now) db)"
proof -
  have "(\<lambda>s. open_drive s \<and> (ds_expiresAt s \<le> now \<or> connecting_drive s \<and> ds_updatedAt s \<le> now - DRIVE_CONNECTION_TIMEOUT_MS))
      = (\<lambda>s. open_drive s \<and> shouldExpireDriveSession s now)"
    by (rule ext) (simp add: shouldExpireDriveSession_def)
  then show ?thesis by (simp add: expireDriveSessions_def close_drives_def Let_def returning_def)
qed

lemma filter_one: "distinct (map f xs) \<Longrightarrow> x \<in> set xs \<Longrightarrow> filter (\<lambda>y. f y = f x) xs = [x]"
  by (induction xs) (auto simp: filter_empty_conv, metis image_eqI)

lemma end_is_close:
  assumes "drives_ok db"
  shows "endDriveSession db i r now = close_drives now (\<lambda>s. ds_id s = i \<and> open_drive s) db"
proof (cases "filter (\<lambda>s. ds_id s = i \<and> open_drive s) (db_drives db)")
  case Nil
  then show ?thesis
    by (simp add: endDriveSession_def close_drives_def returning_def update_where_none Let_def)
next
  case (Cons s ss)
  have s: "s \<in> set (db_drives db)" "ds_id s = i" using filter_eq_ConsD [OF Cons] by auto
  have "filter (\<lambda>s. ds_id s = i \<and> open_drive s) (db_drives db) = filter open_drive (filter (\<lambda>t. ds_id t = ds_id s) (db_drives db))"
    by (simp add: s(2) conj_commute)
  also have "filter (\<lambda>t. ds_id t = ds_id s) (db_drives db) = [s]"
    using assms s(1) by (intro filter_one) (simp_all add: drives_ok_def)
  finally have "ss = []" using Cons by (simp split: if_splits)
  then show ?thesis
    using Cons by (simp add: endDriveSession_def close_drives_def returning_def Let_def)
qed

lemma end_inv: "fleet_inv db \<Longrightarrow> fleet_inv (endDriveSession db i r now)"
  by (subst end_is_close, simp add: fleet_inv_def, rule close_drives_inv) simp_all

lemma expire_inv: "fleet_inv db \<Longrightarrow> fleet_inv (snd (expireDriveSessions db now))"
  by (simp add: expire_is_close) (rule close_drives_inv, simp_all)

subsection \<open>Taking a car\<close>

lemma new_drive_fields [simp]:
  "ds_id (new_drive uuid userId carId entryId now) = uuid" "ds_userId (new_drive uuid userId carId entryId now) = userId"
  "ds_carId (new_drive uuid userId carId entryId now) = carId"
  "ds_queueEntryId (new_drive uuid userId carId entryId now) = Some entryId"
  "ds_status (new_drive uuid userId carId entryId now) = D_created"
  "ds_expiresAt (new_drive uuid userId carId entryId now) = now + 300000"
  "open_drive (new_drive uuid userId carId entryId now)"
  by (simp_all add: new_drive_def open_drive_def driveSessionExpiresAt_def DRIVE_SESSION_DURATION_MS_def)

lemma take_car_inv:
  assumes inv: "fleet_inv db" and s: "s = new_drive uuid userId carId (qp_id p) now"
    and p: "p \<in> set (live_positions (db_queue db))" "qp_userId p = userId" and free: "\<not> drive_conflict (db_drives db) s"
  shows "fleet_inv (take_car db s (qp_id p) now)"
proof -
  let ?f = "\<lambda>e. e\<lparr>qe_status := Q_accepted, qe_updatedAt := now\<rparr>"
  let ?rows = "update_where (\<lambda>e. qe_id e = qp_id p) ?f (db_queue db)"
  let ?db = "take_car db s (qp_id p) now"
  have ok: "queue_ok (db_queue db)" "drives_ok db" "cars_ok db" "accepted_ok db" "list_all (\<lambda>e. qe_id e \<noteq> []) (db_queue db)"
    using inv by (simp_all add: fleet_inv_def)
  have opens: "open_drives ?db = open_drives db @ [s]"
    by (simp add: open_drives_def take_car_def s)
  have kp: "keeps_place ?f" by (simp add: keeps_place_def)
  have "subseq (map qe_userId (filter live_entry ?rows)) (map qe_userId (filter live_entry (db_queue db)))"
    by (rule filter_update_where_sub) (auto simp: live_entry_def)
  then have q: "queue_ok ?rows" "list_all (\<lambda>e. qe_id e \<noteq> []) ?rows"
    using ok(1,5) update_where_ids [OF kp] subseq_distinct ids_nonempty [of ?rows "db_queue db"]
    by (auto simp: queue_ok_def)
  have dr: "drives_ok ?db"
    using ok(2) free unfolding drives_ok_def opens
    by (auto simp: drive_conflict_def list_ex_iff take_car_def open_drives_def s)
  have "cars_ok ?db"
    unfolding cars_ok_def list_all_iff opens
  proof (intro ballI impI)
    fix c :: car_row
    assume "c \<in> set (db_cars ?db)" and st: "cr_state c = AVAILABLE"
    then obtain c0 where c0: "c0 \<in> set (db_cars db)"
        "c = (if cr_id c0 = carId then c0\<lparr>cr_state := RESERVED, cr_updatedAt := now\<rparr> else c0)"
      by (auto simp: take_car_def in_update_where s)
    then have "c = c0" "cr_id c \<noteq> carId" using st by (auto split: if_splits)
    then show "cr_id c \<notin> set (map ds_carId (open_drives db @ [s]))"
      using ok(3) c0(1) st by (simp add: cars_ok_def list_all_iff s)
  qed
  moreover have "accepted_ok ?db"
    unfolding accepted_ok_def list_all_iff list_ex_iff opens
  proof (intro conjI ballI impI)
    have row: "e \<in> set (db_queue db) \<Longrightarrow> qe_id e = qp_id p \<Longrightarrow> live_entry e \<and> qe_userId e = userId" for e
    proof -
      assume e: "e \<in> set (db_queue db)" "qe_id e = qp_id p"
      obtain r where r: "r \<in> set (db_queue db)" "live_entry r" "p = position_of r" using p(1) live_positions_mem by blast
      have "e = r"
        by (rule distinct_map_eq [of qe_id, OF _ e(1) r(1)]) (use ok(1) e(2) r(3) in \<open>simp_all add: queue_ok_def\<close>)
      then show ?thesis using r p(2) by simp
    qed
    have queue: "db_queue ?db = ?rows" by (simp add: take_car_def)
    show "\<exists>t \<in> set (open_drives db @ [s]). driven_by t e" if "e \<in> set (db_queue ?db)" "qe_status e = Q_accepted" for e
      using that row ok(4) unfolding queue
      by (auto simp: in_update_where accepted_ok_def list_all_iff list_ex_iff driven_by_def s split: if_splits)
    show "\<exists>e \<in> set (db_queue ?db). qe_status e = Q_accepted \<and> driven_by t e" if t: "t \<in> set (open_drives db @ [s])" for t
    proof (cases "t = s")
      case True
      obtain e where e: "e \<in> set (db_queue db)" "qe_id e = qp_id p" using p by (auto simp: live_positions_mem)
      then have "?f e \<in> set (db_queue ?db)" unfolding queue by (auto simp: in_update_where)
      then show ?thesis using True row e by (intro bexI [of _ "?f e"]) (auto simp: driven_by_def s)
    next
      case False
      then obtain e where e: "e \<in> set (db_queue db)" "qe_status e = Q_accepted" "driven_by t e"
        using t ok(4) by (auto simp: accepted_ok_def list_all_iff list_ex_iff)
      then have "qe_id e \<noteq> qp_id p" using row [of e] by (auto simp: live_entry_def)
      then have "e \<in> set (db_queue ?db)" using e(1) unfolding queue by (auto simp: in_update_where)
      then show ?thesis using e by blast
    qed
  qed
  ultimately show ?thesis
    using q dr by (simp add: fleet_inv_def take_car_def)
qed

text \<open>A call of \<open>create\<close> either changes the queue only or takes the car for the first offer of the user.\<close>

lemma create_cases:
  assumes inv: "fleet_inv db"
  obtains "fst (create_drive db userId carId t m0 m1 m2 uuid) = None"
      "queue_only db (snd (create_drive db userId carId t m0 m1 m2 uuid))"
  | db1 p car device now' s where
      "s = new_drive uuid userId carId (qp_id p) now'" "now' = clock_after t m0 m2" "queue_only db db1"
      "db1 = snd (advanceLiveQueue db (clock_after t m0 m1))" "p \<in> set (live_positions (db_queue db1))" "qp_userId p = userId"
      "qp_status p = Q_offered" "now' < qp_expiresAt p" "\<not> drive_conflict (db_drives db1) s"
      "takeable_car db1 carId (clock_after t m0 m1) = Some (car, device)"
      "create_drive db userId carId t m0 m1 m2 uuid = (Some \<lparr>xs_sessionId = uuid, xs_expiresAt = now' + 300000,
          xs_steeringTrimPercent = cr_steeringTrimPercent car,
          xs_controlProtocolVersion = controlProtocolVersionFromMetadata (dv_metadata device)\<rparr>, take_car db1 s (qp_id p) now')"
proof -
  have ok: "queue_ok (db_queue db)" "list_all (\<lambda>e. qe_id e \<noteq> []) (db_queue db)" using inv by (simp_all add: fleet_inv_def)
  define now where "now = clock_after t m0 m1"
  obtain rows where adv: "advanceLiveQueue db now = ((live_positions rows, listQueueCars db now), db\<lparr>db_queue := rows\<rparr>)"
    by (rule advance_cases [OF ok(1)])
  have q1: "queue_only db (db\<lparr>db_queue := rows\<rparr>)" using advance_queue_only [OF ok, of now] adv by simp
  have q2: "queue_only db (snd (advanceLiveQueue (db\<lparr>db_queue := rows\<rparr>) now'))" for now'
    by (rule queue_only_then_advance [OF q1])
  show ?thesis
  proof (cases "fst (create_drive db userId carId t m0 m1 m2 uuid)")
    case None
    have "queue_only db (snd (create_drive db userId carId t m0 m1 m2 uuid))"
      using None q1 q2 unfolding create_drive_def Let_def now_def [symmetric] adv
      by (auto split: option.splits prod.splits if_splits)
    then show ?thesis using that(1) None by blast
  next
    case (Some r)
    then show ?thesis
      unfolding create_drive_def Let_def now_def [symmetric] adv
      by (simp split: option.splits prod.splits if_splits)
        (rule that(2) [OF refl refl q1], use adv in
          \<open>auto dest: find_in_set simp: create_drive_def Let_def now_def [symmetric] driveSessionExpiresAt_def DRIVE_SESSION_DURATION_MS_def\<close>)
  qed
qed

lemma create_inv: "fleet_inv db \<Longrightarrow> fleet_inv (snd (create_drive db userId carId t m0 m1 m2 uuid))"
proof -
  assume inv: "fleet_inv db"
  show ?thesis
  proof (rule create_cases [OF inv, of userId carId t m0 m1 m2 uuid], goal_cases)
    case 1
    then show ?case using queue_only_inv inv by blast
  next
    case (2 db1 p car device now' s)
    have "fleet_inv db1" using 2(3) inv by (rule queue_only_inv)
    then show ?case using take_car_inv [OF _ 2(1,5,6,9)] 2(11) by simp
  qed
qed

subsection \<open>The invariant of all runs\<close>

lemma fleet_step_inv: "fleet_inv db \<Longrightarrow> op_ok op \<Longrightarrow> fleet_inv (fleet_step u op db)"
proof -
  assume inv: "fleet_inv db" and op: "op_ok op"
  have ok: "queue_ok (db_queue db)" "list_all (\<lambda>e. qe_id e \<noteq> []) (db_queue db)"
    using inv by (simp_all add: fleet_inv_def)
  note dev = devices_steps [THEN devices_only_inv, OF inv]
  note que = join_queue_only [OF ok, THEN queue_only_inv, OF _ inv] leave_queue_only [OF ok, THEN queue_only_inv, OF inv]
  show ?thesis
    by (cases op) (use op inv in \<open>simp_all add: dev que live_join_def live_read_def authorize_inv mark_active_inv
      end_inv expire_inv create_inv\<close>)
qed

lemma fleet_run_inv: "fleet_inv db \<Longrightarrow> list_all op_ok ops \<Longrightarrow> fleet_inv (fleet_run u ops db)"
  by (induction ops arbitrary: db) (simp_all add: fleet_step_inv)

text \<open>Tables without queue entries and sessions, and no car in use.\<close>

lemma fresh_fleet_inv: "db_queue db = [] \<Longrightarrow> db_drives db = [] \<Longrightarrow> fleet_inv db"
  by (simp add: fleet_inv_def queue_ok_def drives_ok_def cars_ok_def accepted_ok_def open_drives_def list_all_iff)

subsection \<open>The life of a session\<close>

fun drive_next :: "drive_status \<Rightarrow> drive_status \<Rightarrow> bool" where
  "drive_next D_created s = (s = D_created \<or> s = D_negotiating \<or> s = D_ended)"
| "drive_next D_negotiating s = (s = D_negotiating \<or> s = D_active \<or> s = D_ended)"
| "drive_next D_active s = (s = D_active \<or> s = D_ended)"
| "drive_next D_ended s = (s = D_ended)"

lemma drive_next_refl [simp]: "drive_next s s"
  by (cases s) simp_all

text \<open>A later row of the same session: the same driver, car, entry and end; a later state; final when ended.\<close>

fun drive_rank :: "drive_status \<Rightarrow> nat" where
  "drive_rank D_created = 0"
| "drive_rank D_negotiating = 1"
| "drive_rank D_active = 2"
| "drive_rank D_ended = 3"

lemma drive_next_rank: "drive_next s s' \<Longrightarrow> drive_rank s \<le> drive_rank s'"
  by (cases s) auto

definition later_drive :: "drive_row \<Rightarrow> drive_row \<Rightarrow> bool" where
  "later_drive s s' = (same_drive s s' \<and> drive_rank (ds_status s) \<le> drive_rank (ds_status s')
     \<and> (ds_status s = D_ended \<longrightarrow> s' = s))"

lemma later_drive_refl [simp]: "later_drive s s"
  by (simp add: later_drive_def)

lemma later_drive_trans: "later_drive s s' \<Longrightarrow> later_drive s' s'' \<Longrightarrow> later_drive s s''"
  by (auto simp: later_drive_def intro: same_drive_trans)

text \<open>What one step does to the sessions: each goes on as itself, and a new one is created open.\<close>

definition drives_go_on :: "drive_row list \<Rightarrow> drive_row list \<Rightarrow> bool" where
  "drives_go_on ss ss' = (\<exists>f new. ss' = map f ss @ new \<and> (\<forall>s. same_drive s (f s) \<and> drive_next (ds_status s) (ds_status (f s))
     \<and> (ds_status s = D_ended \<longrightarrow> f s = s)) \<and> (\<forall>s \<in> set new. ds_status s = D_created))"

lemma drives_go_on_update:
  assumes "\<And>s. P s \<Longrightarrow> same_drive s (f s) \<and> drive_next (ds_status s) (ds_status (f s)) \<and> open_drive s"
  shows "drives_go_on ss (update_where P f ss)"
proof -
  have "ds_status s \<noteq> D_ended" if "P s" for s using assms [OF that] by (auto simp: open_drive_def)
  then show ?thesis
    unfolding drives_go_on_def update_where_def
    by (intro exI [of _ "\<lambda>s. if P s then f s else s"] exI [of _ "[]"]) (use assms in auto)
qed

lemma drives_go_on_same [simp]: "drives_go_on ss ss"
  unfolding drives_go_on_def by (rule exI [of _ id], rule exI [of _ "[]"]) simp

lemma drives_go_on_snoc: "ds_status s = D_created \<Longrightarrow> drives_go_on ss (ss @ [s])"
  unfolding drives_go_on_def by (rule exI [of _ id], rule exI [of _ "[s]"]) simp

lemma open_drive_next: "open_drive s \<Longrightarrow> drive_next (ds_status s) D_ended"
  by (auto simp: open_drive_def)

lemma close_go_on: "\<forall>s. P s \<longrightarrow> open_drive s \<Longrightarrow> drives_go_on (db_drives db) (db_drives (close_drives now P db))"
  unfolding close_drives_sets(1)
  by (rule drives_go_on_update) (auto simp: same_drive_def open_drive_next end_drive_def)

lemma fleet_step_drives:
  assumes inv: "fleet_inv db" and op: "op_ok op"
  shows "drives_go_on (db_drives db) (db_drives (fleet_step u op db))"
proof -
  have ok: "queue_ok (db_queue db)" "list_all (\<lambda>e. qe_id e \<noteq> []) (db_queue db)" "drives_ok db"
    using inv by (simp_all add: fleet_inv_def)
  have dev: "devices_only db db' \<Longrightarrow> db_drives db' = db_drives db" for db' by (simp add: devices_only_def)
  have que: "queue_only db db' \<Longrightarrow> db_drives db' = db_drives db" for db' by (auto simp: queue_only_def)
  have create: "drives_go_on (db_drives db) (db_drives (snd (create_drive db usr c t m0 m1 m2 uuid)))" for usr c t m0 m1 m2 uuid
    by (rule create_cases [OF inv, of usr c t m0 m1 m2 uuid]) (auto simp: que take_car_def intro!: drives_go_on_snoc)
  have auth: "drives_go_on (db_drives db) (db_drives (snd (authorizeDriveSession db s usr c now)))" for s usr c now
    by (auto simp: authorizeDriveSession_def Let_def set_car_def same_drive_def open_drive_def split: option.split intro!: drives_go_on_update)
  have act: "drives_go_on (db_drives db) (db_drives (snd (markDriveSessionActive db s now)))" for s now
    by (auto simp: markDriveSessionActive_def Let_def set_car_def same_drive_def open_drive_def split: option.split intro!: drives_go_on_update)
  have ends: "drives_go_on (db_drives db) (db_drives (endDriveSession db s r now))" for s r now
    unfolding end_is_close [OF ok(3)] by (rule close_go_on) simp
  have expire: "drives_go_on (db_drives db) (db_drives (snd (expireDriveSessions db now)))" for now
    unfolding expire_is_close snd_conv by (rule close_go_on) simp
  show ?thesis
    by (cases op) (use op in \<open>simp_all add: devices_steps [THEN dev] join_queue_only [OF ok(1,2), THEN que]
      leave_queue_only [OF ok(1,2), THEN que] live_join_def live_read_def create auth act ends expire\<close>)
qed

lemma fleet_run_drives:
  assumes "fleet_inv db" "list_all op_ok ops" "s \<in> set (db_drives db)"
  shows "\<exists>s' \<in> set (db_drives (fleet_run u ops db)). later_drive s s'"
  using assms
proof (induction ops arbitrary: db s)
  case (Cons op ops)
  obtain f new where f: "db_drives (fleet_step u op db) = map f (db_drives db) @ new"
      "same_drive s (f s)" "drive_next (ds_status s) (ds_status (f s))" "ds_status s = D_ended \<longrightarrow> f s = s"
    using fleet_step_drives [of db op u] Cons.prems(1,2) unfolding drives_go_on_def by auto
  have "later_drive s (f s)" using f(2-4) drive_next_rank by (simp add: later_drive_def)
  moreover have "\<exists>s' \<in> set (db_drives (fleet_run u ops (fleet_step u op db))). later_drive (f s) s'"
    using Cons.prems f(1) by (intro Cons.IH) (simp_all add: fleet_step_inv)
  ultimately show ?case using later_drive_trans by auto
next
  case Nil
  then show ?case by (intro bexI [of _ s]) simp_all
qed

subsection \<open>Enrollment tokens and update jobs\<close>

lemma set_car_tables [simp]: "db_tokens (set_car i f db) = db_tokens db" "db_jobs (set_car i f db) = db_jobs db"
  by (simp_all add: set_car_def)

lemma offline_tables [simp]: "db_tokens (markDeviceOffline db d now) = db_tokens db" "db_jobs (markDeviceOffline db d now) = db_jobs db"
  by (simp_all add: markDeviceOffline_def Let_def split: option.split)

lemma stale_tables [simp]:
  "db_tokens (snd (expireStaleDevices db cutoff now)) = db_tokens db" "db_jobs (snd (expireStaleDevices db cutoff now)) = db_jobs db"
proof -
  have "db_tokens (foldl (\<lambda>db d. markDeviceOffline db (dv_id d) now) db ds) = db_tokens db
      \<and> db_jobs (foldl (\<lambda>db d. markDeviceOffline db (dv_id d) now) db ds) = db_jobs db" for ds :: "device_row list"
    by (induction ds arbitrary: db) simp_all
  then show "db_tokens (snd (expireStaleDevices db cutoff now)) = db_tokens db"
    "db_jobs (snd (expireStaleDevices db cutoff now)) = db_jobs db"
    by (simp_all add: expireStaleDevices_def Let_def)
qed

lemma release_tables [simp]: "db_tokens (release_session now db s) = db_tokens db" "db_jobs (release_session now db s) = db_jobs db"
  by (simp_all add: release_session_def Let_def split: option.split)

lemma close_tables [simp]: "db_tokens (close_drives now P db) = db_tokens db" "db_jobs (close_drives now P db) = db_jobs db"
proof -
  have "db_tokens (foldl (release_session now) db ss) = db_tokens db \<and> db_jobs (foldl (release_session now) db ss) = db_jobs db" for db ss
    by (induction ss arbitrary: db) simp_all
  then show "db_tokens (close_drives now P db) = db_tokens db" "db_jobs (close_drives now P db) = db_jobs db"
    by (simp_all add: close_drives_def)
qed

lemma end_tables [simp]: "db_tokens (endDriveSession db s r now) = db_tokens db" "db_jobs (endDriveSession db s r now) = db_jobs db"
  by (simp_all add: endDriveSession_def Let_def split: option.split)

lemma expire_tables [simp]:
  "db_tokens (snd (expireDriveSessions db now)) = db_tokens db" "db_jobs (snd (expireDriveSessions db now)) = db_jobs db"
  by (simp_all add: expire_is_close)

lemma presence_tables [simp]: "db_tokens (setPresenceState db d s now) = db_tokens db" "db_jobs (setPresenceState db d s now) = db_jobs db"
  by (simp_all add: setPresenceState_def Let_def split: option.split)

lemma heartbeat_tables [simp]: "db_tokens (snd (recordHeartbeat db d h now)) = db_tokens db" "db_jobs (snd (recordHeartbeat db d h now)) = db_jobs db"
  by (simp_all add: recordHeartbeat_def Let_def split: option.split)

lemma session_tables [simp]:
  "db_tokens (snd (authorizeDriveSession db s usr c now)) = db_tokens db" "db_jobs (snd (authorizeDriveSession db s usr c now)) = db_jobs db"
  "db_tokens (snd (markDriveSessionActive db s now)) = db_tokens db" "db_jobs (snd (markDriveSessionActive db s now)) = db_jobs db"
  by (simp_all add: authorizeDriveSession_def markDriveSessionActive_def Let_def split: option.split)

lemma trim_tables [simp]: "db_tokens (snd (save_trim db s usr trim now)) = db_tokens db" "db_jobs (snd (save_trim db s usr trim now)) = db_jobs db"
  by (simp_all add: save_trim_def Let_def split: option.split)

lemma advance_tables [simp]: "db_tokens (snd (advanceLiveQueue db now)) = db_tokens db" "db_jobs (snd (advanceLiveQueue db now)) = db_jobs db"
  by (simp_all add: advanceLiveQueue_def Let_def split: prod.split)

lemma create_tables [simp]:
  "db_tokens (snd (create_drive db usr c t m0 m1 m2 uuid)) = db_tokens db" "db_jobs (snd (create_drive db usr c t m0 m1 m2 uuid)) = db_jobs db"
proof -
  obtain x db1 where adv: "advanceLiveQueue db (clock_after t m0 m1) = (x, db1)" by fastforce
  have "db_tokens db1 = db_tokens db" "db_jobs db1 = db_jobs db"
    using advance_tables [of db "clock_after t m0 m1"] unfolding adv by simp_all
  then show "db_tokens (snd (create_drive db usr c t m0 m1 m2 uuid)) = db_tokens db"
      "db_jobs (snd (create_drive db usr c t m0 m1 m2 uuid)) = db_jobs db"
    unfolding create_drive_def Let_def adv by (simp_all add: take_car_def split: option.split prod.split)
qed

lemma finish_join_tables:
  assumes "db_tokens db0 = db_tokens db" "db_jobs db0 = db_jobs db"
  shows "db_tokens (snd (finish_join db0 db userId now)) = db_tokens db \<and> db_jobs (snd (finish_join db0 db userId now)) = db_jobs db"
proof -
  obtain entries cars db1 where adv: "advanceLiveQueue db now = ((entries, cars), db1)" by (metis prod.exhaust)
  show ?thesis
    using assms advance_tables [of db now] unfolding finish_join_def adv by (simp split: sum.split)
qed

lemma join_tables [simp]:
  "db_tokens (snd (joinOrRefresh db usr t ex m0 m1 uuid)) = db_tokens db" "db_jobs (snd (joinOrRefresh db usr t ex m0 m1 uuid)) = db_jobs db"
proof -
  obtain entries cars db1 where adv: "advanceLiveQueue db (clock_after t m0 m1) = ((entries, cars), db1)" by (metis prod.exhaust)
  have db1: "db_tokens db1 = db_tokens db" "db_jobs db1 = db_jobs db"
    using advance_tables [of db "clock_after t m0 m1"] unfolding adv by simp_all
  have fin: "db_tokens (snd (finish_join db (db1\<lparr>db_queue := rows\<rparr>) usr now)) = db_tokens db"
      "db_jobs (snd (finish_join db (db1\<lparr>db_queue := rows\<rparr>) usr now)) = db_jobs db"
      "db_tokens (snd (finish_join db db1 usr now)) = db_tokens db" "db_jobs (snd (finish_join db db1 usr now)) = db_jobs db" for rows now
    using finish_join_tables [of db "db1\<lparr>db_queue := rows\<rparr>" usr now] finish_join_tables [of db db1 usr now] db1 by simp_all
  show "db_tokens (snd (joinOrRefresh db usr t ex m0 m1 uuid)) = db_tokens db"
      "db_jobs (snd (joinOrRefresh db usr t ex m0 m1 uuid)) = db_jobs db"
    unfolding joinOrRefresh_def Let_def adv by (simp_all add: fin db1 split: option.split)
qed

lemma leave_tables [simp]: "db_tokens (live_leave db usr t m0 m1) = db_tokens db" "db_jobs (live_leave db usr t m0 m1) = db_jobs db"
  by (simp_all add: live_leave_def Let_def)

text \<open>Tokens: a token is consumed for good and no two tokens have the same digest.\<close>

definition tokens_ok :: "fleet_db \<Rightarrow> bool" where
  "tokens_ok db = distinct (map et_tokenHash (db_tokens db))"

definition token_spent :: "string \<Rightarrow> fleet_db \<Rightarrow> bool" where
  "token_spent h db = list_ex (\<lambda>t. et_tokenHash t = h \<and> et_consumedAt t \<noteq> None) (db_tokens db)"

lemma provision_tokens:
  "db_tokens (snd (provisionCar db i a b c)) = db_tokens db
   \<or> (\<exists>t. db_tokens (snd (provisionCar db i a b c)) = db_tokens db @ [t] \<and> et_consumedAt t = None
        \<and> et_tokenHash t = pi_tokenHash i \<and> pi_tokenHash i \<notin> set (map et_tokenHash (db_tokens db)))"
  unfolding provisionCar_def Let_def
  by (split option.split, intro conjI allI impI, simp, split option.split, intro conjI allI impI, simp)
    (auto simp: list_ex_iff)

lemma enroll_tokens:
  "db_tokens (snd (consumeEnrollment db i d k)) = db_tokens db
   \<or> db_tokens (snd (consumeEnrollment db i d k)) = update_where (open_token i) (\<lambda>t. t\<lparr>et_consumedAt := Some (ei_now i)\<rparr>) (db_tokens db)"
  by (simp add: consumeEnrollment_def Let_def split: option.split)

lemma tokens_step:
  assumes "tokens_ok db"
  shows "tokens_ok (fleet_step u op db)" "token_spent h db \<Longrightarrow> token_spent h (fleet_step u op db)"
proof -
  have spend: "map et_tokenHash (update_where (open_token i) (\<lambda>t. t\<lparr>et_consumedAt := Some n\<rparr>) ts) = map et_tokenHash ts" for i n ts
    by (rule map_update_where) simp
  have kept: "token_spent h db \<Longrightarrow> list_ex (\<lambda>t. et_tokenHash t = h \<and> et_consumedAt t \<noteq> None)
      (update_where (open_token i) (\<lambda>t. t\<lparr>et_consumedAt := Some n\<rparr>) (db_tokens db))" for i n
    by (force simp: token_spent_def list_ex_iff in_update_where open_token_def)
  have auth: "db_tokens (snd (authenticateDevice db d h v c now)) = db_tokens db" for d h v c now
    by (simp add: authenticateDevice_def split: option.split prod.split)
  have claim: "db_tokens (snd (claimPendingUpdate db d g now)) = db_tokens db" for d g now
    by (simp add: claimPendingUpdate_def split: option.split prod.split)
  have status: "db_tokens (snd (recordUpdateStatus db d j s r now)) = db_tokens db" for d j s r now
    by (simp add: recordUpdateStatus_def Let_def)
  have request: "db_tokens (snd (requestDeviceUpdate u db a c v now uuid)) = db_tokens db" for a c v now uuid
    by (simp add: requestDeviceUpdate_def Let_def split: option.split)
  consider (enroll) i d k where "op = Enroll i d k" | (provision) i a b c where "op = Provision i a b c"
    | (other) "db_tokens (fleet_step u op db) = db_tokens db"
    by (cases op) (simp_all add: auth claim status request live_join_def live_read_def)
  then have "tokens_ok (fleet_step u op db) \<and> (token_spent h db \<longrightarrow> token_spent h (fleet_step u op db))"
  proof cases
    case enroll
    then show ?thesis
      using enroll_tokens [of db i d k] assms spend kept by (auto simp: tokens_ok_def token_spent_def)
  next
    case provision
    then show ?thesis
      using provision_tokens [of db i a b c] assms by (auto simp: tokens_ok_def token_spent_def)
  next
    case other
    then show ?thesis using assms by (simp add: tokens_ok_def token_spent_def)
  qed
  then show "tokens_ok (fleet_step u op db)" "token_spent h db \<Longrightarrow> token_spent h (fleet_step u op db)" by blast+
qed

lemma tokens_run:
  "tokens_ok db \<Longrightarrow> token_spent h db \<Longrightarrow> tokens_ok (fleet_run u ops db) \<and> token_spent h (fleet_run u ops db)"
  by (induction ops arbitrary: db) (simp_all add: tokens_step)

lemma spent_refused:
  assumes "tokens_ok db" "token_spent (ei_tokenHash i) db"
  shows "consumeEnrollment db i d k = (Inr None, db)"
proof -
  have "filter (open_token i) (db_tokens db) = []"
    using assms distinct_map_eq [of et_tokenHash "db_tokens db"]
    by (fastforce simp: tokens_ok_def token_spent_def list_ex_iff open_token_def filter_empty_conv)
  then show ?thesis by (simp add: consumeEnrollment_def returning_def)
qed

lemma enrolled_spent:
  assumes "fst (consumeEnrollment db i d k) = Inr (Some r)"
  shows "token_spent (ei_tokenHash i) (snd (consumeEnrollment db i d k))"
proof -
  obtain t where t: "first_row (returning (open_token i) (\<lambda>t. t\<lparr>et_consumedAt := Some (ei_now i)\<rparr>) (db_tokens db)) = Some t"
    using assms by (auto simp: consumeEnrollment_def Let_def split: option.splits)
  then obtain t0 where t0: "t0 \<in> set (db_tokens db)" "open_token i t0"
    using first_returning by fastforce
  have "db_tokens (snd (consumeEnrollment db i d k)) = update_where (open_token i) (\<lambda>t. t\<lparr>et_consumedAt := Some (ei_now i)\<rparr>) (db_tokens db)"
    using assms by (auto simp: consumeEnrollment_def Let_def update_where_none split: option.splits if_splits)
  moreover have "t0\<lparr>et_consumedAt := Some (ei_now i)\<rparr> \<in>
      set (update_where (open_token i) (\<lambda>t. t\<lparr>et_consumedAt := Some (ei_now i)\<rparr>) (db_tokens db))"
    using t0 by (auto simp: in_update_where)
  ultimately show ?thesis
    using t0(2) unfolding token_spent_def list_ex_iff open_token_def
    by (intro bexI [of _ "t0\<lparr>et_consumedAt := Some (ei_now i)\<rparr>"]) simp_all
qed

text \<open>Jobs: one active job per device; a job goes forward only and is final when it is done.\<close>

definition jobs_ok :: "fleet_db \<Rightarrow> bool" where
  "jobs_ok db = (distinct (map uj_id (db_jobs db)) \<and> distinct (map uj_deviceId (filter active_job (db_jobs db))))"

fun job_rank :: "job_status \<Rightarrow> nat" where
  "job_rank J_pending = 0"
| "job_rank J_downloading = 1"
| "job_rank J_applying = 2"
| "job_rank J_succeeded = 3"
| "job_rank J_failed = 3"

definition later_job :: "job_row \<Rightarrow> job_row \<Rightarrow> bool" where
  "later_job j j' = (uj_id j' = uj_id j \<and> uj_deviceId j' = uj_deviceId j \<and> uj_firmwareVersionId j' = uj_firmwareVersionId j
     \<and> uj_attemptCount j \<le> uj_attemptCount j' \<and> job_rank (uj_status j) \<le> job_rank (uj_status j')
     \<and> (\<not> active_job j \<longrightarrow> j' = j))"

lemma later_job_refl [simp]: "later_job j j"
  by (simp add: later_job_def)

lemma later_job_trans: "later_job j j' \<Longrightarrow> later_job j' j'' \<Longrightarrow> later_job j j''"
  by (auto simp: later_job_def)

definition jobs_go_on :: "job_row list \<Rightarrow> job_row list \<Rightarrow> bool" where
  "jobs_go_on js js' = ((\<exists>f. js' = map f js \<and> (\<forall>j. later_job j (f j)))
     \<or> (\<exists>new. js' = js @ [new] \<and> uj_status new = J_pending \<and> uj_attemptCount new = 0 \<and> \<not> job_conflict js new))"

lemma jobs_go_on_same [simp]: "jobs_go_on js js"
  unfolding jobs_go_on_def by (intro disjI1 exI [of _ id]) simp

lemma jobs_go_on_map: "(\<And>j. later_job j (f j)) \<Longrightarrow> jobs_go_on js (map f js)"
  by (auto simp: jobs_go_on_def)

lemma jobs_go_on_update: "(\<And>j. P j \<Longrightarrow> later_job j (f j)) \<Longrightarrow> jobs_go_on js (update_where P f js)"
  unfolding update_where_def by (rule jobs_go_on_map) simp

lemma job_rank_final: "\<not> active_job j \<longleftrightarrow> job_rank (uj_status j) = 3"
  by (cases "uj_status j") (simp_all add: active_job_def)

lemma later_job_active: "later_job j j' \<Longrightarrow> active_job j' \<Longrightarrow> active_job j"
  by (auto simp: later_job_def)

lemma jobs_go_on_ok: "jobs_go_on (db_jobs db) (db_jobs db') \<Longrightarrow> jobs_ok db \<Longrightarrow> jobs_ok db'"
proof -
  assume go: "jobs_go_on (db_jobs db) (db_jobs db')" and ok: "jobs_ok db"
  from go consider (map) f where "db_jobs db' = map f (db_jobs db)" "\<forall>j. later_job j (f j)"
    | (new) j where "db_jobs db' = db_jobs db @ [j]" "\<not> job_conflict (db_jobs db) j"
    by (auto simp: jobs_go_on_def)
  then show ?thesis
  proof cases
    case map
    have ids: "map uj_id (map f js) = map uj_id js" for js
      using map(2) by (simp add: later_job_def)
    have "subseq (map uj_deviceId (filter active_job (map f (db_jobs db)))) (map uj_deviceId (filter active_job (db_jobs db)))"
      by (rule filter_map_sub) (use map(2) later_job_active in \<open>auto simp: later_job_def\<close>)
    then show ?thesis
      using ok subseq_distinct unfolding jobs_ok_def map(1) ids by blast
  next
    case new
    then show ?thesis
      using ok by (auto simp: jobs_ok_def job_conflict_def list_ex_iff)
  qed
qed

lemma jobs_step: "jobs_go_on (db_jobs db) (db_jobs (fleet_step u op db))"
proof -
  have enroll: "db_jobs (snd (consumeEnrollment db i d k)) = db_jobs db" for i d k
    by (simp add: consumeEnrollment_def Let_def split: option.split)
  have provision: "db_jobs (snd (provisionCar db i a b c)) = db_jobs db" for i a b c
    unfolding provisionCar_def Let_def
    by (split option.split, intro conjI allI impI, simp, split option.split, intro conjI allI impI, simp, simp)
  have "later_job j (finish_applying fws d v now j)" for fws d v now j
    by (auto simp: finish_applying_def device_jobs_def later_job_def active_job_def Let_def split: option.split)
  then have auth: "jobs_go_on (db_jobs db) (db_jobs (snd (authenticateDevice db d h v c now)))" for d h v c now
    by (auto simp: authenticateDevice_def split: option.split prod.split intro!: jobs_go_on_map)
  have claim: "jobs_go_on (db_jobs db) (db_jobs (snd (claimPendingUpdate db d g now)))" for d g now
    by (auto simp: claimPendingUpdate_def later_job_def active_job_def split: option.split prod.split intro!: jobs_go_on_update)
  have status: "jobs_go_on (db_jobs db) (db_jobs (snd (recordUpdateStatus db d j s r now)))" for d j s r now
    unfolding recordUpdateStatus_def Let_def
    by (cases s) (auto simp: later_job_def active_job_def progress_allowed_def intro!: jobs_go_on_update)
  have request: "jobs_go_on (db_jobs db) (db_jobs (snd (requestDeviceUpdate u db a c v now uuid)))" for a c v now uuid
    by (auto simp: requestDeviceUpdate_def Let_def jobs_go_on_def split: option.split intro: exI [of _ id])
  show ?thesis
    by (cases op) (simp_all add: enroll provision auth claim status request live_join_def live_read_def)
qed

lemma jobs_run:
  "jobs_ok db \<Longrightarrow> jobs_ok (fleet_run u ops db)
   \<and> (\<forall>j \<in> set (db_jobs db). \<exists>j' \<in> set (db_jobs (fleet_run u ops db)). later_job j j')"
proof (induction ops arbitrary: db)
  case Nil
  have "\<exists>j' \<in> set (db_jobs db). later_job j j'" if "j \<in> set (db_jobs db)" for j
    using that by (intro bexI [of _ j]) simp_all
  then show ?case using Nil by simp
next
  case (Cons op ops)
  note step = jobs_step [of db u op]
  have IH: "jobs_ok (fleet_run u ops (fleet_step u op db))"
      "\<forall>j \<in> set (db_jobs (fleet_step u op db)). \<exists>j' \<in> set (db_jobs (fleet_run u ops (fleet_step u op db))). later_job j j'"
    using Cons.IH [OF jobs_go_on_ok [OF step Cons.prems]] by blast+
  have "\<exists>j1 \<in> set (db_jobs (fleet_step u op db)). later_job j j1" if "j \<in> set (db_jobs db)" for j
    using step [unfolded jobs_go_on_def] that by (elim disjE exE conjE) (auto intro: bexI [of _ j])
  then show ?case using IH later_job_trans by (simp, blast)
qed

lemma claim_offers:
  assumes "claimPendingUpdate db d g now = (Some o', db')"
  shows "\<exists>j \<in> set (db_jobs db). uj_id j = uo_updateId o' \<and> uj_deviceId j = d \<and> uj_status j = J_pending \<and> uj_attemptCount j = 0
     \<and> j\<lparr>uj_status := J_downloading, uj_attemptCount := 1, uj_startedAt := Some now, uj_updatedAt := now\<rparr> \<in> set (db_jobs db')"
proof -
  obtain gen where g: "g = Some gen" using assms by (auto simp: claimPendingUpdate_def split: option.splits)
  let ?pairs = "[(j, f). j \<leftarrow> db_jobs db, f \<leftarrow> (case offerable (db_firmware db) d gen j of Some f \<Rightarrow> [f] | None \<Rightarrow> [])]"
  obtain j f where jf: "first_row ?pairs = Some (j, f)"
    using assms by (auto simp: claimPendingUpdate_def g split: option.splits)
  then have "(j, f) \<in> set ?pairs" by (cases ?pairs) auto
  then have j: "j \<in> set (db_jobs db)" "offerable (db_firmware db) d gen j = Some f" by (auto split: option.splits)
  then have "uj_deviceId j = d \<and> uj_status j = J_pending \<and> uj_attemptCount j = 0"
    by (auto simp: offerable_def device_jobs_def split: if_splits)
  moreover have "uo_updateId o' = uj_id j \<and> db_jobs db' = update_where
      (\<lambda>j'. uj_id j' = uj_id j \<and> uj_status j' = J_pending \<and> uj_attemptCount j' = 0)
      (\<lambda>j'. j'\<lparr>uj_status := J_downloading, uj_attemptCount := 1, uj_startedAt := Some now, uj_updatedAt := now\<rparr>) (db_jobs db)"
    using assms jf unfolding claimPendingUpdate_def g by (auto split: option.splits if_splits)
  ultimately show ?thesis using j(1) by (auto simp: in_update_where intro!: bexI [of _ j])
qed

subsection \<open>Properties\<close>

lemma sample_fleet_inv: "fleet_inv sample_fleet"
  by (simp add: fleet_inv_def sample_queue_ok)
    (simp add: sample_fleet_def sample_entry_def drives_ok_def cars_ok_def accepted_ok_def open_drives_def)

text \<open>
  Property C1: after any operations of the gateway and the web application, a car has at most
  one open session and a driver has at most one, and a car that is shown as available has none.
\<close>

theorem fleet_never_double_books:
  assumes "fleet_inv db" and "list_all op_ok ops" and "db' = fleet_run u ops db"
  shows "(\<forall>s \<in> set (db_drives db'). \<forall>t \<in> set (db_drives db'). open_drive s \<and> open_drive t
        \<and> (ds_carId s = ds_carId t \<or> ds_userId s = ds_userId t) \<longrightarrow> s = t)
    \<and> (\<forall>c \<in> set (db_cars db'). cr_state c = AVAILABLE \<longrightarrow> (\<forall>s \<in> set (db_drives db'). ds_carId s = cr_id c \<longrightarrow> \<not> open_drive s))"
proof -
  have inv: "drives_ok db'" "cars_ok db'"
    using fleet_run_inv [OF assms(1,2), of u] assms(3) by (simp_all add: fleet_inv_def)
  have "s = t" if st: "s \<in> set (open_drives db')" "t \<in> set (open_drives db')" and "ds_carId s = ds_carId t \<or> ds_userId s = ds_userId t" for s t
    using that(3)
  proof
    assume "ds_carId s = ds_carId t"
    then show ?thesis using inv(1) st by (intro distinct_map_eq [of ds_carId "open_drives db'"]) (simp_all add: drives_ok_def)
  next
    assume "ds_userId s = ds_userId t"
    then show ?thesis using inv(1) st by (intro distinct_map_eq [of ds_userId "open_drives db'"]) (simp_all add: drives_ok_def)
  qed
  moreover have "\<not> open_drive s" if c: "c \<in> set (db_cars db')" "cr_state c = AVAILABLE" "s \<in> set (db_drives db')" "ds_carId s = cr_id c" for c s
    using inv(2) that by (force simp: open_drives_def cars_ok_def list_all_iff)
  ultimately show ?thesis by (simp add: open_drives_def)
qed

theorem fleet_never_double_books_witness:
  "let db' = fleet_run (\<lambda>u. None) [Create_Drive ''bob'' ''car'' 1000 0 0 0 ''s1'', Create_Drive ''carol'' ''car'' 1000 0 0 0 ''s2''] sample_fleet in
   \<not> (\<exists>s t. s \<in> set (db_drives db') \<and> t \<in> set (db_drives db') \<and> open_drive s \<and> open_drive t \<and> ds_carId s = ds_carId t \<and> s \<noteq> t)"
  unfolding Let_def
  using fleet_never_double_books [OF sample_fleet_inv _ refl,
      of "[Create_Drive ''bob'' ''car'' 1000 0 0 0 ''s1'', Create_Drive ''carol'' ''car'' 1000 0 0 0 ''s2'']" "\<lambda>u. None"]
  by (simp del: fleet_step.simps fleet_run_simps)

text \<open>
  Property C14: the queue and the sessions agree. After any operations, an entry is accepted
  exactly while its driver has an open session that was started from it, and every open session
  has such an entry.
\<close>

theorem accepted_entries_are_open_sessions:
  assumes "fleet_inv db" and "list_all op_ok ops" and "db' = fleet_run u ops db"
  shows "(\<forall>e \<in> set (db_queue db'). qe_status e = Q_accepted \<longleftrightarrow>
      (\<exists>s \<in> set (db_drives db'). open_drive s \<and> ds_queueEntryId s = Some (qe_id e) \<and> ds_userId s = qe_userId e))
    \<and> (\<forall>s \<in> set (db_drives db'). open_drive s \<longrightarrow>
      (\<exists>e \<in> set (db_queue db'). ds_queueEntryId s = Some (qe_id e) \<and> qe_userId e = ds_userId s))"
proof -
  have inv: "queue_ok (db_queue db')" "accepted_ok db'"
    using fleet_run_inv [OF assms(1,2), of u] assms(3) by (simp_all add: fleet_inv_def)
  have acc: "qe_status e = Q_accepted"
    if e: "e \<in> set (db_queue db')" and s: "s \<in> set (open_drives db')" "driven_by s e" for s e
  proof -
    obtain e' where e': "e' \<in> set (db_queue db')" "qe_status e' = Q_accepted" "driven_by s e'"
      using inv(2) s(1) by (auto simp: accepted_ok_def list_all_iff list_ex_iff)
    have "e' = e"
      by (rule distinct_map_eq [of qe_id, OF _ e'(1) e]) (use inv(1) e'(3) s(2) in \<open>simp_all add: queue_ok_def driven_by_def\<close>)
    then show ?thesis using e'(2) by simp
  qed
  show ?thesis
    using inv(2) acc by (fastforce simp: accepted_ok_def list_all_iff list_ex_iff open_drives_def driven_by_def)
qed

lemma take_car_reserved:
  assumes "k \<in> set (db_cars (take_car db s e now))" "cr_id k = ds_carId s"
  shows "cr_state k = RESERVED"
proof -
  obtain c where c: "k = (if cr_id c = ds_carId s then c\<lparr>cr_state := RESERVED, cr_updatedAt := now\<rparr> else c)"
    using assms(1) by (auto simp: take_car_def in_update_where)
  show ?thesis using assms(2) by (cases "cr_id c = ds_carId s") (simp_all add: c)
qed

lemma first_row_in: "first_row xs = Some x \<Longrightarrow> x \<in> set xs"
  by (cases xs) simp_all

lemma takeable_facts:
  assumes "takeable_car db carId now = Some (car, device)"
  shows "car \<in> set (db_cars db)" "cr_id car = carId" "cr_state car = AVAILABLE" "\<not> cr_adminBlocked car"
  using first_row_in [OF assms [unfolded takeable_car_def]] by (auto split: if_splits)

text \<open>
  Property C2: starting a drive. It succeeds only for a driver whose running offer is among the
  first places of the queue, for a car that is available and not blocked; the session it creates
  lasts five minutes and the car is reserved. Whatever happens afterwards, as long as that
  session is open no drive can be started with the car and none by the driver.
\<close>

theorem started_drive_is_exclusive:
  assumes "fleet_inv db" and "list_all op_ok ops"
    and "create_drive db userId carId t m0 m1 m2 uuid = (Some r, db1)"
    and "s \<in> set (db_drives (fleet_run u ops db1))" "ds_id s = uuid" "open_drive s" and "usr = userId \<or> c = carId"
  shows "ds_userId s = userId \<and> ds_carId s = carId \<and> ds_expiresAt s = clock_after t m0 m2 + 300000 \<and> xs_expiresAt r = ds_expiresAt s
    \<and> (\<exists>p \<in> set (fst (fst (advanceLiveQueue db (clock_after t m0 m1)))).
         qp_userId p = userId \<and> qp_status p = Q_offered \<and> clock_after t m0 m2 < qp_expiresAt p)
    \<and> (\<exists>k \<in> set (db_cars db). cr_id k = carId \<and> cr_state k = AVAILABLE \<and> \<not> cr_adminBlocked k)
    \<and> (\<forall>k \<in> set (db_cars db1). cr_id k = carId \<longrightarrow> cr_state k = RESERVED)
    \<and> fst (create_drive (fleet_run u ops db1) usr c t' n0 n1 n2 uuid') = None"
proof (rule create_cases [OF assms(1), of userId carId t m0 m1 m2 uuid], goal_cases)
  case 1
  then show ?case using assms(3) by simp
next
  case (2 db2 p car device now' s0)
  have ok: "queue_ok (db_queue db)" using assms(1) by (simp add: fleet_inv_def)
  have db1: "db1 = take_car db2 s0 (qp_id p) now'" "xs_expiresAt r = now' + 300000" using 2(11) assms(3) by auto
  have inv1: "fleet_inv db1"
    using create_inv [OF assms(1), of userId carId t m0 m1 m2 uuid] assms(3) by simp
  have inv2: "fleet_inv (fleet_run u ops db1)" by (rule fleet_run_inv [OF inv1 assms(2)])
  have "s0 \<in> set (db_drives db1)" by (simp add: db1 take_car_def)
  then obtain s' where s': "s' \<in> set (db_drives (fleet_run u ops db1))" "later_drive s0 s'"
    using fleet_run_drives [OF inv1 assms(2)] by blast
  have "s' = s"
    by (rule distinct_map_eq [of ds_id, OF _ s'(1) assms(4)])
      (use inv2 s'(2) assms(5) 2(1) in \<open>simp_all add: fleet_inv_def drives_ok_def later_drive_def same_drive_def\<close>)
  then have s: "ds_userId s = userId" "ds_carId s = carId" "ds_expiresAt s = now' + 300000"
    using s'(2) by (simp_all add: later_drive_def same_drive_def 2(1))
  have cars: "db_cars db2 = db_cars db" using 2(3) by (auto simp: queue_only_def)
  have k: "car \<in> set (db_cars db)" "cr_id car = carId" "cr_state car = AVAILABLE" "\<not> cr_adminBlocked car"
    using takeable_facts [OF 2(10)] unfolding cars by blast+
  obtain rows where rows: "advanceLiveQueue db (clock_after t m0 m1) =
      ((live_positions rows, listQueueCars db (clock_after t m0 m1)), db\<lparr>db_queue := rows\<rparr>)"
    by (rule advance_cases [OF ok])
  have "p \<in> set (fst (fst (advanceLiveQueue db (clock_after t m0 m1))))" using 2(4,5) rows by simp
  moreover have "\<forall>k \<in> set (db_cars db1). cr_id k = carId \<longrightarrow> cr_state k = RESERVED"
    using take_car_reserved [of _ db2 s0 "qp_id p" now'] unfolding db1(1) by (simp add: 2(1))
  moreover have "fst (create_drive (fleet_run u ops db1) usr c t' n0 n1 n2 uuid') = None"
  proof (rule create_cases [OF inv2, of usr c t' n0 n1 n2 uuid'], goal_cases)
    case (2 db3 p' car' device' now'' s3)
    have "db_drives db3 = db_drives (fleet_run u ops db1)" using 2(3) by (auto simp: queue_only_def)
    then have "drive_conflict (db_drives db3) s3"
      using assms(4,6,7) s 2(1) unfolding drive_conflict_def list_ex_iff by auto
    then show ?case using 2(9) by simp
  qed
  ultimately show ?case
    unfolding s db1(2) using k 2(2) [symmetric] 2(6-8) by (intro conjI bexI [of _ p] bexI [of _ car]) simp_all
qed

lemma sample_clock [simp]: "clock_after 1000 0 0 = 1000"
  by (simp add: clock_after_def)

definition sample_rows :: "queue_row list" where
  "sample_rows = [sample_entry ''e3'' ''carol'' Q_waiting 300 70000,
     (sample_entry ''e1'' ''alice'' Q_offered 100 1000)\<lparr>qe_status := Q_missed, qe_updatedAt := 1000\<rparr>,
     (sample_entry ''e2'' ''bob'' Q_waiting 200 70000)\<lparr>qe_status := Q_offered, qe_expiresAt := 16000, qe_updatedAt := 1000\<rparr>]"

lemma sample_leases: "expire_leases 1000 (db_queue sample_fleet) = db_queue sample_fleet"
  by (simp add: expire_leases_def update_where_def sample_fleet_def sample_entry_def)

lemma sample_live: "live_positions (db_queue sample_fleet) =
     map position_of [sample_entry ''e1'' ''alice'' Q_offered 100 1000, sample_entry ''e2'' ''bob'' Q_waiting 200 70000,
       sample_entry ''e3'' ''carol'' Q_waiting 300 70000]"
  by (simp add: live_positions_def sample_fleet_def sample_entry_def live_entry_def entry_order_def
      position_of_def less_prod_def less_eq_prod_def)

definition sample_positions :: "queue_position list" where
  "sample_positions = [(position_of (sample_entry ''e2'' ''bob'' Q_waiting 200 70000))\<lparr>qp_status := Q_offered, qp_expiresAt := 16000\<rparr>,
     position_of (sample_entry ''e3'' ''carol'' Q_waiting 300 70000)]"

lemma sample_loop: "advance_loop 1000 1 (live_positions (db_queue sample_fleet)) [] (db_queue sample_fleet) = (sample_positions, sample_rows)"
  unfolding sample_live sample_positions_def sample_rows_def
  by (simp add: sample_fleet_def sample_entry_def update_where_def QUEUE_OFFER_MS_def position_of_def)

lemma sample_advance: "advanceLiveQueue sample_fleet 1000 =
    ((sample_positions, listQueueCars sample_fleet 1000), sample_fleet\<lparr>db_queue := sample_rows\<rparr>)"
  using sample_loop by (simp add: advanceLiveQueue_def Let_def sample_leases sample_cars)

lemma sample_takeable: "\<exists>c d. takeable_car (sample_fleet\<lparr>db_queue := sample_rows\<rparr>) ''car'' 1000 = Some (c, d) \<and> dv_lastSeenAt d = Some 900"
  by (simp add: takeable_car_def sample_fleet_def usable_device_def)

lemma sample_create: "\<exists>r. create_drive sample_fleet ''bob'' ''car'' 1000 0 0 0 ''s1'' =
    (Some r, take_car (sample_fleet\<lparr>db_queue := sample_rows\<rparr>) (new_drive ''s1'' ''bob'' ''car'' ''e2'' 1000) ''e2'' 1000)"
proof -
  have drives: "db_drives sample_fleet = []" by (simp add: sample_fleet_def)
  obtain c d where cd: "takeable_car (sample_fleet\<lparr>db_queue := sample_rows\<rparr>) ''car'' 1000 = Some (c, d)" "dv_lastSeenAt d = Some 900"
    using sample_takeable by blast
  show ?thesis
    unfolding create_drive_def Let_def sample_clock sample_advance
    by (simp add: sample_positions_def position_of_def sample_entry_def cd drives drive_conflict_def)
qed

theorem accepted_entries_are_open_sessions_witness:
  "let db' = fleet_run (\<lambda>u. None) [Create_Drive ''bob'' ''car'' 1000 0 0 0 ''s1''] sample_fleet in
   \<exists>e s. e \<in> set (db_queue db') \<and> s \<in> set (db_drives db') \<and> ds_id s = ''s1'' \<and> ds_queueEntryId s = Some (qe_id e) \<and> qe_userId e = ''bob''"
proof -
  let ?s = "new_drive ''s1'' ''bob'' ''car'' ''e2'' 1000"
  let ?db = "fleet_run (\<lambda>u. None) [Create_Drive ''bob'' ''car'' 1000 0 0 0 ''s1''] sample_fleet"
  have s: "?s \<in> set (db_drives ?db)" using sample_create by (auto simp: take_car_def)
  have ops: "list_all op_ok [Create_Drive ''bob'' ''car'' 1000 0 0 0 ''s1'']" by simp
  have "\<exists>e \<in> set (db_queue ?db). ds_queueEntryId ?s = Some (qe_id e) \<and> qe_userId e = ds_userId ?s"
    using accepted_entries_are_open_sessions [OF sample_fleet_inv ops refl, THEN conjunct2, rule_format, OF s] by simp
  then show ?thesis
    unfolding Let_def using s by (auto simp del: fleet_step.simps fleet_run_simps intro!: exI [of _ ?s])
qed

theorem started_drive_is_exclusive_witness:
  "fst (create_drive (snd (create_drive sample_fleet ''bob'' ''car'' 1000 0 0 0 ''s1'')) ''carol'' ''car'' 2000 0 0 0 ''s2'') = None"
proof -
  obtain r where r: "create_drive sample_fleet ''bob'' ''car'' 1000 0 0 0 ''s1'' =
      (Some r, take_car (sample_fleet\<lparr>db_queue := sample_rows\<rparr>) (new_drive ''s1'' ''bob'' ''car'' ''e2'' 1000) ''e2'' 1000)"
    using sample_create by blast
  have s: "new_drive ''s1'' ''bob'' ''car'' ''e2'' 1000 \<in> set (db_drives (fleet_run (\<lambda>u. None) []
      (take_car (sample_fleet\<lparr>db_queue := sample_rows\<rparr>) (new_drive ''s1'' ''bob'' ''car'' ''e2'' 1000) ''e2'' 1000)))"
    by (simp add: take_car_def)
  show ?thesis
    using started_drive_is_exclusive [OF sample_fleet_inv _ r s, of "''carol''" "''car''" 2000 0 0 0 "''s2''"] by (simp add: r)
qed

text \<open>
  Property C20: the life of a session. Whatever is done to the tables, a session is never removed
  and never moves to another driver, car, entry or end; its state only goes forward (created,
  negotiating, active, ended), and an ended session never changes again.
\<close>

theorem sessions_only_go_forward:
  assumes "fleet_inv db" and "list_all op_ok ops" and "s \<in> set (db_drives db)"
  shows "\<exists>s' \<in> set (db_drives (fleet_run u ops db)). ds_id s' = ds_id s \<and> ds_userId s' = ds_userId s \<and> ds_carId s' = ds_carId s
    \<and> ds_queueEntryId s' = ds_queueEntryId s \<and> ds_expiresAt s' = ds_expiresAt s
    \<and> drive_rank (ds_status s) \<le> drive_rank (ds_status s') \<and> (ds_status s = D_ended \<longrightarrow> s' = s)"
  using fleet_run_drives [OF assms] by (auto simp: later_drive_def same_drive_def)

lemma sample_taken_inv:
  "fleet_inv (take_car (sample_fleet\<lparr>db_queue := sample_rows\<rparr>) (new_drive ''s1'' ''bob'' ''car'' ''e2'' 1000) ''e2'' 1000)"
  using create_inv [OF sample_fleet_inv, of "''bob''" "''car''" 1000 0 0 0 "''s1''"] sample_create by auto

theorem sessions_only_go_forward_witness:
  "\<exists>s' \<in> set (db_drives (fleet_run (\<lambda>u. None) [Authorize ''s1'' ''bob'' ''car'' 2000, Expire_Drives 90000]
     (take_car (sample_fleet\<lparr>db_queue := sample_rows\<rparr>) (new_drive ''s1'' ''bob'' ''car'' ''e2'' 1000) ''e2'' 1000))).
     ds_id s' = ''s1'' \<and> ds_expiresAt s' = 301000"
  using sessions_only_go_forward [OF sample_taken_inv, of "[Authorize ''s1'' ''bob'' ''car'' 2000, Expire_Drives 90000]"
      "new_drive ''s1'' ''bob'' ''car'' ''e2'' 1000" "\<lambda>u. None"]
  by (simp add: take_car_def del: fleet_step.simps fleet_run_simps, blast)

text \<open>
  the sweep of sessions is exact and idempotent. It ends exactly the open sessions
  that ran out or did not connect within twenty seconds, counts them, gives back their places in
  the queue, changes no other session and no car of another session; a second sweep at the same
  time finds nothing.
\<close>

theorem drive_sweep_is_exact:
  "case expireDriveSessions db now of (n, db') \<Rightarrow>
     db_drives db' = map (\<lambda>s. if open_drive s \<and> shouldExpireDriveSession s now then end_drive now s else s) (db_drives db)
     \<and> n = length (filter (\<lambda>s. open_drive s \<and> shouldExpireDriveSession s now) (db_drives db))
     \<and> list_all (\<lambda>c. c \<in> set (db_cars db)
          \<or> list_ex (\<lambda>s. ds_carId s = cr_id c \<and> open_drive s \<and> shouldExpireDriveSession s now) (db_drives db)) (db_cars db')
     \<and> db_queue db' = map (\<lambda>e. if qe_id e \<noteq> [] \<and> list_ex (\<lambda>s. ds_queueEntryId s = Some (qe_id e)
           \<and> open_drive s \<and> shouldExpireDriveSession s now) (db_drives db)
         then e\<lparr>qe_status := Q_left, qe_expiresAt := now, qe_updatedAt := now\<rparr> else e) (db_queue db)
     \<and> expireDriveSessions db' now = (0, db')"
proof -
  let ?P = "\<lambda>s. open_drive s \<and> shouldExpireDriveSession s now"
  let ?db = "close_drives now ?P db"
  have P: "\<forall>s. ?P s \<longrightarrow> open_drive s" by simp
  note sets = close_drives_sets [OF P, of now db]
  have none: "filter ?P (db_drives ?db) = []"
    unfolding sets(1) update_where_def by (auto simp: filter_map comp_def filter_empty_conv)
  then have "close_drives now ?P ?db = ?db"
    by (simp add: close_drives_def returning_def update_where_none)
  then have again: "expireDriveSessions ?db now = (0, ?db)"
    by (simp only: expire_is_close none list.size)
  have cars: "c \<in> set (db_cars db) \<or> list_ex (\<lambda>s. ds_carId s = cr_id c \<and> ?P s) (db_drives db)"
    if "c \<in> set (db_cars ?db)" for c
    using release_fold(3) [OF that [unfolded close_drives_def]] by (auto simp: returning_def list_ex_iff)
  have queue: "db_queue ?db = map (\<lambda>e. if qe_id e \<noteq> [] \<and> list_ex (\<lambda>s. ds_queueEntryId s = Some (qe_id e) \<and> ?P s) (db_drives db)
         then e\<lparr>qe_status := Q_left, qe_expiresAt := now, qe_updatedAt := now\<rparr> else e) (db_queue db)"
    unfolding sets(3) update_where_def leaves_entry_def left_row_def
    by (rule map_cong [OF refl]) (auto simp: list_ex_iff)
  have run: "expireDriveSessions db now = (length (filter ?P (db_drives db)), ?db)" by (rule expire_is_close)
  show ?thesis
    unfolding run prod.case again list_all_iff
    using cars sets(1) [unfolded update_where_def] by (intro conjI ballI queue refl)
qed

text \<open>
  Property C22: an enrollment token works once. When a device has enrolled with a token, every
  later enrollment with the same token is refused and changes nothing, whatever was done to the
  tables in between.
\<close>

theorem enrollment_token_works_once:
  assumes "tokens_ok db" and "fst (consumeEnrollment db i d k) = Inr (Some r)" and "ei_tokenHash i' = ei_tokenHash i"
    and "db' = fleet_run u ops (snd (consumeEnrollment db i d k))"
  shows "consumeEnrollment db' i' d' k' = (Inr None, db')"
proof -
  have "tokens_ok (snd (consumeEnrollment db i d k))"
    using tokens_step(1) [OF assms(1), of u "Enroll i d k"] by simp
  then show ?thesis
    using spent_refused tokens_run enrolled_spent [OF assms(2)] assms(3,4) by metis
qed

definition sample_enrollment :: enrollment_input where
  "sample_enrollment = \<lparr>ei_tokenHash = ''h'', ei_secretHash = ''s'', ei_serialNumber = ''sn2'', ei_agentVersion = ''1.0.0'',
     ei_capabilities = JObj [], ei_now = 1000\<rparr>"

definition sample_token_fleet :: fleet_db where
  "sample_token_fleet = sample_fleet\<lparr>db_tokens := [\<lparr>et_id = ''t'', et_carId = ''car'', et_tokenHash = ''h'', et_expiresAt = 5000,
     et_consumedAt = None, et_createdAt = 0\<rparr>]\<rparr>"

theorem enrollment_token_works_once_witness:
  "fst (consumeEnrollment (snd (consumeEnrollment sample_token_fleet sample_enrollment ''d2'' ''k2'')) sample_enrollment ''d3'' ''k3'') = Inr None"
proof -
  have r: "fst (consumeEnrollment sample_token_fleet sample_enrollment ''d2'' ''k2'') = Inr (Some (''d2'', ''car''))"
    by (simp add: consumeEnrollment_def sample_token_fleet_def sample_enrollment_def sample_fleet_def returning_def open_token_def Let_def)
  have "tokens_ok sample_token_fleet" by (simp add: tokens_ok_def sample_token_fleet_def)
  then show ?thesis
    using enrollment_token_works_once [OF _ r refl, of _ "\<lambda>u. None" "[]" "''d3''" "''k3''"] by simp
qed

text \<open>
  Property C21: an update is offered to its device at most once, and a device has at most one
  update under way. Once a job was offered it is never offered again, whatever is done to the
  tables; jobs only go forward (pending, downloading, applying, done), and a finished job never
  changes.
\<close>

theorem update_offered_once:
  assumes "jobs_ok db" and "claimPendingUpdate db d g now = (Some offer, db')" and "db2 = fleet_run u ops db'"
  shows "(\<forall>offer'. fst (claimPendingUpdate db2 d' g' now') = Some offer' \<longrightarrow> uo_updateId offer' \<noteq> uo_updateId offer)
    \<and> distinct (map uj_deviceId (filter active_job (db_jobs db2)))
    \<and> (\<forall>j \<in> set (db_jobs db). \<exists>j' \<in> set (db_jobs db2). uj_id j' = uj_id j \<and> uj_deviceId j' = uj_deviceId j
         \<and> job_rank (uj_status j) \<le> job_rank (uj_status j') \<and> (\<not> active_job j \<longrightarrow> j' = j))"
proof -
  have run: "db2 = fleet_run u (Claim_Update d g now # ops) db" using assms(2,3) by simp
  have ok': "jobs_ok db'" using jobs_go_on_ok [OF jobs_step [of db u "Claim_Update d g now"] assms(1)] assms(2) by simp
  obtain j where j: "j \<in> set (db_jobs db')" "uj_id j = uo_updateId offer" "uj_attemptCount j = 1"
    using claim_offers [OF assms(2)] by force
  obtain j' where j': "j' \<in> set (db_jobs db2)" "later_job j j'"
    using jobs_run [OF ok', of u ops] j(1) assms(3) by blast
  have ok2: "jobs_ok db2" using jobs_run [OF assms(1)] run by blast
  have "uo_updateId offer' \<noteq> uo_updateId offer" if offer': "claimPendingUpdate db2 d' g' now' = (Some offer', db3)" for offer' db3
  proof
    assume eq: "uo_updateId offer' = uo_updateId offer"
    obtain k where k: "k \<in> set (db_jobs db2)" "uj_id k = uo_updateId offer'" "uj_attemptCount k = 0"
      using claim_offers [OF offer'] by blast
    have "k = j'"
      by (rule distinct_map_eq [of uj_id, OF _ k(1) j'(1)]) (use ok2 k(2) j(2) j'(2) eq in \<open>simp_all add: jobs_ok_def later_job_def\<close>)
    then show False using k(3) j(3) j'(2) by (simp add: later_job_def)
  qed
  then have "\<forall>offer'. fst (claimPendingUpdate db2 d' g' now') = Some offer' \<longrightarrow> uo_updateId offer' \<noteq> uo_updateId offer"
    by (metis prod.collapse)
  moreover have "\<forall>j \<in> set (db_jobs db). \<exists>j' \<in> set (db_jobs db2). later_job j j'"
    using jobs_run [OF assms(1)] run by blast
  ultimately show ?thesis
    using ok2 by (fastforce simp: jobs_ok_def later_job_def)
qed

definition sample_job_fleet :: fleet_db where
  "sample_job_fleet = sample_fleet\<lparr>
     db_firmware := [\<lparr>fw_id = ''f'', fw_componentKind = ''pi-agent'', fw_version = ''1.2.0'', fw_digestSha256 = ''d'', fw_signature = ''s'',
       fw_artifactUrl = Some ''u'', fw_artifactSizeBytes = Some 10, fw_runtimeGeneration = Some 2\<rparr>],
     db_jobs := [\<lparr>uj_id = ''j'', uj_deviceId = ''dev'', uj_firmwareVersionId = ''f'', uj_status = J_pending, uj_attemptCount = 0,
       uj_failureReason = None, uj_requestedBy = ''admin'', uj_requestedAt = 0, uj_startedAt = None, uj_finishedAt = None, uj_updatedAt = 0\<rparr>]\<rparr>"

theorem update_offered_once_witness:
  "\<exists>offer db'. claimPendingUpdate sample_job_fleet ''dev'' (Some 2) 1000 = (Some offer, db') \<and> uo_updateId offer = ''j''
     \<and> \<not> (\<exists>offer'. fst (claimPendingUpdate db' ''dev'' (Some 2) 2000) = Some offer' \<and> uo_updateId offer' = ''j'')"
proof -
  have ok: "jobs_ok sample_job_fleet" by (simp add: jobs_ok_def sample_job_fleet_def)
  obtain offer db' where offer: "claimPendingUpdate sample_job_fleet ''dev'' (Some 2) 1000 = (Some offer, db')" "uo_updateId offer = ''j''"
    by (simp add: claimPendingUpdate_def sample_job_fleet_def offerable_def device_jobs_def)
  then show ?thesis
    using update_offered_once [OF ok offer(1), of db' "\<lambda>u. None" "[]" "''dev''" "Some 2" 2000] by auto
qed

end
