(* ===== verification/AccountTables.thy ===== *)
theory AccountTables
  imports JsNumber Database
begin

section \<open>The tables of the accounts\<close>

text \<open>
  \<open>packages/database/src/schema.ts\<close>: the rows of the tables the account store and the store of
  the login sessions work on. Texts are ASCII here: \<open>toLowerCase\<close>, \<open>lower\<close> and the NFKC
  normalisation are those of ASCII texts. A violated constraint makes the driver throw an error
  with a \<open>code\<close>; the layer between may wrap it, so an error is the list of the codes of the
  error and of its causes, and the wrapping is a parameter.
\<close>

definition lower_char :: "char \<Rightarrow> char" where
  "lower_char c = (if 65 \<le> (of_char c :: nat) \<and> (of_char c :: nat) \<le> 90 then char_of ((of_char c :: nat) + 32) else c)"

definition js_lower :: "string \<Rightarrow> string" where
  "js_lower s = map lower_char s"

definition upper_char :: "char \<Rightarrow> char" where
  "upper_char c = (if 97 \<le> (of_char c :: nat) \<and> (of_char c :: nat) \<le> 122 then char_of ((of_char c :: nat) - 32) else c)"

definition js_upper :: "string \<Rightarrow> string" where
  "js_upper s = map upper_char s"

record user_row =
  ur_id :: ident
  ur_email :: string
  ur_displayName :: string
  ur_role :: string
  ur_emailVerifiedAt :: "date option"
  ur_disabledAt :: "date option"
  ur_volumePercent :: int
  ur_muted :: bool
  ur_audioRevision :: int
  ur_createdAt :: date
  ur_updatedAt :: date

record oauth_row =
  oi_userId :: ident
  oi_provider :: string
  oi_subject :: string

record session_row =
  as_userId :: ident
  as_tokenHash :: string
  as_expiresAt :: date
  as_lastSeenAt :: date

record balance_row =
  ab_userId :: ident
  ab_currency :: string
  ab_amountMinor :: int

datatype token_kind = Verify_email | Reset_password

datatype limit_kind = L_registration | L_sign_in | L_resend | L_reset_request | L_reset_submit | L_nickname | L_deletion

record password_row =
  pw_userId :: ident
  pw_hash :: string
  pw_changedAt :: date
  pw_verifiedAt :: "date option"
  pw_updatedAt :: date

record action_token_row =
  tk_id :: ident
  tk_userId :: ident
  tk_kind :: token_kind
  tk_tokenHash :: string
  tk_expiresAt :: date
  tk_consumedAt :: "date option"
  tk_createdAt :: date

record limit_row =
  rl_keyHash :: string
  rl_kind :: limit_kind
  rl_windowStartedAt :: date
  rl_attemptCount :: int
  rl_expiresAt :: date

record nickname_row =
  nk_userId :: ident
  nk_nickname :: string
  nk_avatarKey :: string

record consent_row =
  co_userId :: ident
  co_kind :: string
  co_version :: string
  co_accepted :: bool
  co_occurredAt :: date

record accounts_db =
  ac_users :: "user_row list"
  ac_oauth :: "oauth_row list"
  ac_sessions :: "session_row list"
  ac_balances :: "balance_row list"
  ac_passwords :: "password_row list"
  ac_tokens :: "action_token_row list"
  ac_limits :: "limit_row list"
  ac_nicknames :: "nickname_row list"
  ac_consents :: "consent_row list"

type_synonym error_codes = "string option list"

datatype account_error =
    Registration_unavailable
  | Thrown_error string
  | Database_error error_codes

type_synonym 'a account_result = "(account_error, 'a, accounts_db) outcome"

subsection \<open>Inserts under a constraint\<close>

definition add_row :: "('r \<Rightarrow> 'r \<Rightarrow> bool) \<Rightarrow> 'r \<Rightarrow> 'r list \<Rightarrow> 'r list option" where
  "add_row conflict r rows = (if list_ex (conflict r) rows then None else Some (rows @ [r]))"

definition same_user :: "user_row \<Rightarrow> user_row \<Rightarrow> bool" where
  "same_user a b = (ur_id a = ur_id b \<or> js_lower (ur_email a) = js_lower (ur_email b))"

definition same_identity :: "oauth_row \<Rightarrow> oauth_row \<Rightarrow> bool" where
  "same_identity a b = (oi_provider a = oi_provider b \<and> oi_subject a = oi_subject b)"

definition same_session :: "session_row \<Rightarrow> session_row \<Rightarrow> bool" where
  "same_session a b = (as_tokenHash a = as_tokenHash b)"

definition same_balance :: "balance_row \<Rightarrow> balance_row \<Rightarrow> bool" where
  "same_balance a b = (ab_userId a = ab_userId b)"

definition same_password :: "password_row \<Rightarrow> password_row \<Rightarrow> bool" where
  "same_password a b = (pw_userId a = pw_userId b)"

definition same_action_token :: "action_token_row \<Rightarrow> action_token_row \<Rightarrow> bool" where
  "same_action_token a b = (tk_id a = tk_id b \<or> tk_tokenHash a = tk_tokenHash b)"

definition same_limit :: "limit_row \<Rightarrow> limit_row \<Rightarrow> bool" where
  "same_limit a b = (rl_keyHash a = rl_keyHash b \<and> rl_kind a = rl_kind b \<and> rl_windowStartedAt a = rl_windowStartedAt b)"

definition same_nickname :: "nickname_row \<Rightarrow> nickname_row \<Rightarrow> bool" where
  "same_nickname a b = (nk_userId a = nk_userId b \<or> js_lower (nk_nickname a) = js_lower (nk_nickname b))"

definition same_consent :: "consent_row \<Rightarrow> consent_row \<Rightarrow> bool" where
  "same_consent a b = (co_userId a = co_userId b \<and> co_kind a = co_kind b \<and> co_version a = co_version b)"

lemma add_row_Some: "add_row conflict r rows = Some rows' \<longleftrightarrow> \<not> list_ex (conflict r) rows \<and> rows' = rows @ [r]"
  by (auto simp: add_row_def)

lemma add_row_distinct:
  "add_row conflict r rows = Some rows' \<Longrightarrow> (\<And>s. k r = k s \<Longrightarrow> conflict r s) \<Longrightarrow>
   distinct (map k rows) \<Longrightarrow> distinct (map k rows')"
  by (force simp: add_row_Some list_ex_iff)

end
