(* ===== verification/AccountStore.thy ===== *)
theory AccountStore
  imports AccountTables
begin

section \<open>The account store\<close>

text \<open>
  \<open>apps/web/auth/postgres-account-store.ts\<close>: registration, action tokens, password sign-in,
  profiles, deletion, rate limits and the cleanup, over the tables. An operation is the body of
  its transaction: it returns, or it throws and nothing is written; the retry loop around the
  bodies is modelled on its own. Identifiers and the clock are arguments, \<open>wrap\<close> gives the codes
  of the error the database layer throws for a violated constraint. The windows of the rate limits
  are short enough for their bounds to be valid dates; those of the callers last at most an hour.
\<close>

subsection \<open>Transactions that are tried again\<close>

text \<open>Error objects are named by their places in a heap, so the causes of errors may be cyclic.\<close>

record error_object =
  eo_code :: "string option"
  eo_cause :: "nat option"

definition retryableTransactionErrorCodes :: "string list" where
  "retryableTransactionErrorCodes = [''40P01'', ''40001'']"

definition retryable_code :: "error_object \<Rightarrow> bool" where
  "retryable_code e = (case eo_code e of None \<Rightarrow> False | Some c \<Rightarrow> c \<in> set retryableTransactionErrorCodes)"

function isRetryableTransactionError :: "error_object list \<Rightarrow> nat list \<Rightarrow> nat option \<Rightarrow> bool" where
  "isRetryableTransactionError heap visited None = False"
| "isRetryableTransactionError heap visited (Some i) =
     (if i \<ge> length heap \<or> i \<in> set visited then False
      else if retryable_code (heap ! i) then True
      else isRetryableTransactionError heap (i # visited) (eo_cause (heap ! i)))"
  by pat_completeness auto
termination
proof (relation "measure (\<lambda>(heap, visited, _). card ({..<length heap} - set visited))", goal_cases)
  case (2 heap visited i)
  have "i \<in> {..<length heap} - set visited" using 2(1) by simp
  then have "card ({..<length heap} - set visited - {i}) < card ({..<length heap} - set visited)"
    by (rule card_Diff1_less [OF finite_Diff [OF finite_lessThan]])
  moreover have "{..<length heap} - set (i # visited) = {..<length heap} - set visited - {i}" by auto
  ultimately show ?case by simp
qed simp

fun chain_heap :: "nat \<Rightarrow> error_codes \<Rightarrow> error_object list" where
  "chain_heap i [] = []"
| "chain_heap i (c # cs) = \<lparr>eo_code = c, eo_cause = (if cs = [] then None else Some (Suc i))\<rparr> # chain_heap (Suc i) cs"

fun retryable_error :: "account_error \<Rightarrow> bool" where
  "retryable_error (Database_error codes) =
     isRetryableTransactionError (chain_heap 0 codes) [] (if codes = [] then None else Some 0)"
| "retryable_error e = False"

definition maximumTransactionAttempts :: nat where
  "maximumTransactionAttempts = 3"

function runTransaction :: "(nat \<Rightarrow> 's \<Rightarrow> (account_error, 'a, 's) outcome) \<Rightarrow> nat \<Rightarrow> 's \<Rightarrow> (account_error, 'a, 's) outcome" where
  "runTransaction operation attempt s =
     (if attempt > maximumTransactionAttempts
      then (Inl (Thrown_error ''Transaction retry loop exhausted unexpectedly''), s)
      else case operation attempt s of
          (Inr v, s') \<Rightarrow> (Inr v, s')
        | (Inl e, s') \<Rightarrow>
            if \<not> retryable_error e \<or> attempt = maximumTransactionAttempts then (Inl e, s)
            else runTransaction operation (attempt + 1) s)"
  by pat_completeness auto
termination
  by (relation "measure (\<lambda>(_, attempt, _). Suc maximumTransactionAttempts - attempt)") auto

declare runTransaction.simps [simp del]

subsection \<open>Registration\<close>

definition normalizeAccountEmail :: "string \<Rightarrow> string" where
  "normalizeAccountEmail email = js_lower (js_trim email)"

definition normalizeAccountNickname :: "string \<Rightarrow> string" where
  "normalizeAccountNickname nickname = js_trim nickname"

definition nicknameCreationAttempts :: nat where
  "nicknameCreationAttempts = 10"

definition defaultAvatarKey :: string where
  "defaultAvatarKey = ''racer-red''"

definition createDefaultNickname :: "string \<Rightarrow> nat option \<Rightarrow> string" where
  "createDefaultNickname userId number =
     (let base = ''Driver-'' @ js_upper (take 8 (filter (\<lambda>c. c \<noteq> CHR ''-'') userId)) in
      case number of None \<Rightarrow> base | Some n \<Rightarrow> base @ ''-'' @ string_of_nat n)"

record pending_registration =
  rg_email :: string
  rg_passwordHash :: string
  rg_tokenHash :: string
  rg_tokenExpiresAt :: date
  rg_legalRevision :: string

record account_action =
  aa_userId :: ident
  aa_email :: string

definition legal_notice :: "ident \<Rightarrow> string \<Rightarrow> string \<Rightarrow> date \<Rightarrow> consent_row" where
  "legal_notice userId revision kind now =
     \<lparr>co_userId = userId, co_kind = kind, co_version = revision, co_accepted = True, co_occurredAt = now\<rparr>"

definition insertLegalNotices :: "ident \<Rightarrow> string \<Rightarrow> date \<Rightarrow> consent_row list \<Rightarrow> consent_row list" where
  "insertLegalNotices userId revision now rows =
     foldl (\<lambda>rows kind. case add_row same_consent (legal_notice userId revision kind now) rows of
         None \<Rightarrow> rows | Some rows' \<Rightarrow> rows') rows [''terms_of_service'', ''privacy_policy_notice'']"

definition verification_token :: "ident \<Rightarrow> ident \<Rightarrow> pending_registration \<Rightarrow> date \<Rightarrow> action_token_row" where
  "verification_token tokenId userId input now =
     \<lparr>tk_id = tokenId, tk_userId = userId, tk_kind = Verify_email, tk_tokenHash = rg_tokenHash input,
      tk_expiresAt = rg_tokenExpiresAt input, tk_consumedAt = None, tk_createdAt = now\<rparr>"

definition new_password :: "ident \<Rightarrow> string \<Rightarrow> date \<Rightarrow> password_row" where
  "new_password userId hash now =
     \<lparr>pw_userId = userId, pw_hash = hash, pw_changedAt = now, pw_verifiedAt = None, pw_updatedAt = now\<rparr>"

definition new_user :: "ident \<Rightarrow> string \<Rightarrow> date \<Rightarrow> user_row" where
  "new_user userId email now =
     \<lparr>ur_id = userId, ur_email = email, ur_displayName = ''RC Mania driver'', ur_role = ''user'', ur_emailVerifiedAt = None,
      ur_disabledAt = None, ur_volumePercent = 100, ur_muted = False, ur_audioRevision = 0, ur_createdAt = now, ur_updatedAt = now\<rparr>"

text \<open>Names are tried until one is free; the list holds the identifiers drawn for them.\<close>

fun create_profile :: "ident \<Rightarrow> ident list \<Rightarrow> nickname_row list \<Rightarrow> nickname_row list option" where
  "create_profile userId [] rows = None"
| "create_profile userId (u # us) rows =
     (case add_row same_nickname \<lparr>nk_userId = userId, nk_nickname = createDefaultNickname u None, nk_avatarKey = defaultAvatarKey\<rparr> rows of
        Some rows' \<Rightarrow> Some rows'
      | None \<Rightarrow> create_profile userId us rows)"

text \<open>The verification token is the last insert of both ways to register.\<close>

definition finish_registration ::
  "error_codes \<Rightarrow> accounts_db \<Rightarrow> accounts_db \<Rightarrow> ident \<Rightarrow> string \<Rightarrow> pending_registration \<Rightarrow> date \<Rightarrow> ident \<Rightarrow> account_action account_result" where
  "finish_registration unique db0 db userId email input now tokenId =
     (case add_row same_action_token (verification_token tokenId userId input now) (ac_tokens db) of
        None \<Rightarrow> (Inl (Database_error unique), db0)
      | Some tokens \<Rightarrow> (Inr \<lparr>aa_userId = userId, aa_email = normalizeAccountEmail email\<rparr>,
          db\<lparr>ac_tokens := tokens, ac_consents := insertLegalNotices userId (rg_legalRevision input) now (ac_consents db)\<rparr>))"

definition register_body ::
  "error_codes \<Rightarrow> accounts_db \<Rightarrow> pending_registration \<Rightarrow> date \<Rightarrow> ident \<Rightarrow> ident list \<Rightarrow> ident \<Rightarrow> account_action account_result" where
  "register_body unique db input now userUuid nameUuids tokenId =
     (let email = normalizeAccountEmail (rg_email input) in
      case List.find (\<lambda>u. js_lower (ur_email u) = email) (ac_users db) of
        Some existingUser \<Rightarrow>
          if ur_disabledAt existingUser \<noteq> None then (Inl Registration_unavailable, db)
          else if list_ex (\<lambda>p. pw_userId p = ur_id existingUser) (ac_passwords db) then (Inl Registration_unavailable, db)
          else if \<not> list_ex (\<lambda>i. oi_userId i = ur_id existingUser \<and> oi_provider i = ''google'') (ac_oauth db)
          then (Inl Registration_unavailable, db)
          else (case add_row same_password (new_password (ur_id existingUser) (rg_passwordHash input) now) (ac_passwords db) of
              None \<Rightarrow> (Inl (Database_error unique), db)
            | Some passwords \<Rightarrow> finish_registration unique db (db\<lparr>ac_passwords := passwords\<rparr>)
                (ur_id existingUser) (ur_email existingUser) input now tokenId)
      | None \<Rightarrow>
         (case add_row same_user (new_user userUuid email now) (ac_users db) of
            None \<Rightarrow> (Inl (Database_error unique), db)
          | Some users \<Rightarrow>
             (case add_row same_password (new_password userUuid (rg_passwordHash input) now) (ac_passwords db) of
                None \<Rightarrow> (Inl (Database_error unique), db)
              | Some passwords \<Rightarrow>
                 (case add_row same_balance \<lparr>ab_userId = userUuid, ab_currency = ''USD'', ab_amountMinor = 0\<rparr> (ac_balances db) of
                    None \<Rightarrow> (Inl (Database_error unique), db)
                  | Some balances \<Rightarrow>
                     (case create_profile userUuid (take nicknameCreationAttempts nameUuids) (ac_nicknames db) of
                        None \<Rightarrow> (Inl (Thrown_error ''Account profile creation returned no row''), db)
                      | Some nicknames \<Rightarrow> finish_registration unique db
                          (db\<lparr>ac_users := users, ac_passwords := passwords, ac_balances := balances, ac_nicknames := nicknames\<rparr>)
                          userUuid email input now tokenId)))))"

text \<open>The errors that leave the operation: a unique violation is hidden only when it is the error itself.\<close>

definition registration_error :: "account_error \<Rightarrow> account_error" where
  "registration_error e = (if e = Registration_unavailable
     \<or> (case e of Database_error (Some c # cs) \<Rightarrow> c = ''23505'' | _ \<Rightarrow> False) then Registration_unavailable else e)"

definition registerPendingAccount ::
  "error_codes \<Rightarrow> accounts_db \<Rightarrow> pending_registration \<Rightarrow> date \<Rightarrow> ident \<Rightarrow> ident list \<Rightarrow> ident \<Rightarrow> account_action account_result" where
  "registerPendingAccount unique db input now userUuid nameUuids tokenId =
     (case register_body unique db input now userUuid nameUuids tokenId of
        (Inl e, s) \<Rightarrow> (Inl (registration_error e), db)
      | (Inr a, s) \<Rightarrow> (Inr a, s))"

subsection \<open>Action tokens\<close>

definition open_action_token :: "string \<Rightarrow> token_kind \<Rightarrow> date \<Rightarrow> action_token_row \<Rightarrow> bool" where
  "open_action_token tokenHash kind now t =
     (tk_tokenHash t = tokenHash \<and> tk_kind t = kind \<and> tk_consumedAt t = None \<and> now < tk_expiresAt t)"

definition spend_tokens :: "(action_token_row \<Rightarrow> bool) \<Rightarrow> date \<Rightarrow> accounts_db \<Rightarrow> accounts_db" where
  "spend_tokens P now db = db\<lparr>ac_tokens := update_where P (\<lambda>t. t\<lparr>tk_consumedAt := Some now\<rparr>) (ac_tokens db)\<rparr>"

definition active_user :: "ident \<Rightarrow> user_row \<Rightarrow> bool" where
  "active_user userId u = (ur_id u = userId \<and> ur_disabledAt u = None)"

definition consumeActionToken ::
  "accounts_db \<Rightarrow> token_kind \<Rightarrow> string \<Rightarrow> date \<Rightarrow> account_action option account_result" where
  "consumeActionToken db kind tokenHash now =
     (let P = open_action_token tokenHash kind now in
      case first_row (filter P (ac_tokens db)) of
        None \<Rightarrow> (Inr None, db)
      | Some token \<Rightarrow>
          let db1 = spend_tokens P now db in
          if kind = Verify_email then
            (case List.find (active_user (tk_userId token)) (ac_users db1) of
               None \<Rightarrow> (Inl (Thrown_error ''Verification user is unavailable''), db)
             | Some user \<Rightarrow>
                 if \<not> list_ex (\<lambda>p. pw_userId p = tk_userId token \<and> pw_verifiedAt p = None) (ac_passwords db1)
                 then (Inl (Thrown_error ''Verification credential is unavailable''), db)
                 else (Inr (Some \<lparr>aa_userId = ur_id user, aa_email = normalizeAccountEmail (ur_email user)\<rparr>),
                   db1\<lparr>ac_users := update_where (active_user (tk_userId token))
                         (\<lambda>u. u\<lparr>ur_emailVerifiedAt := Some now, ur_updatedAt := now\<rparr>) (ac_users db1),
                       ac_passwords := update_where (\<lambda>p. pw_userId p = tk_userId token \<and> pw_verifiedAt p = None)
                         (\<lambda>p. p\<lparr>pw_verifiedAt := Some now, pw_updatedAt := now\<rparr>) (ac_passwords db1)\<rparr>))
          else (Inr (map_option (\<lambda>user. \<lparr>aa_userId = ur_id user, aa_email = normalizeAccountEmail (ur_email user)\<rparr>)
                 (List.find (active_user (tk_userId token)) (ac_users db1))), db1))"

definition token_eligible :: "token_kind \<Rightarrow> string \<Rightarrow> user_row \<times> password_row \<Rightarrow> bool" where
  "token_eligible kind email up = (case up of (u, p) \<Rightarrow>
     pw_userId p = ur_id u \<and> js_lower (ur_email u) = email \<and> ur_disabledAt u = None
     \<and> (if kind = Verify_email then pw_verifiedAt p = None else pw_verifiedAt p \<noteq> None \<and> ur_emailVerifiedAt u \<noteq> None))"

definition createOrRotateActionToken ::
  "error_codes \<Rightarrow> accounts_db \<Rightarrow> string \<Rightarrow> token_kind \<Rightarrow> string \<Rightarrow> date \<Rightarrow> date \<Rightarrow> ident \<Rightarrow> account_action option account_result" where
  "createOrRotateActionToken unique db rawEmail kind tokenHash expiresAt now tokenId =
     (let email = normalizeAccountEmail rawEmail in
      case List.find (token_eligible kind email) (List.product (ac_users db) (ac_passwords db)) of
        None \<Rightarrow> (Inr None, db)
      | Some (user, password) \<Rightarrow>
          let rest = filter (\<lambda>t. \<not> (tk_userId t = ur_id user \<and> tk_kind t = kind \<and> tk_consumedAt t = None)) (ac_tokens db) in
          (case add_row same_action_token \<lparr>tk_id = tokenId, tk_userId = ur_id user, tk_kind = kind, tk_tokenHash = tokenHash,
                  tk_expiresAt = expiresAt, tk_consumedAt = None, tk_createdAt = now\<rparr> rest of
             None \<Rightarrow> (Inl (Database_error unique), db)
           | Some tokens \<Rightarrow> (Inr (Some \<lparr>aa_userId = ur_id user, aa_email = normalizeAccountEmail (ur_email user)\<rparr>),
               db\<lparr>ac_tokens := tokens\<rparr>)))"

subsection \<open>Passwords\<close>

record sign_in_candidate =
  sc_userId :: ident
  sc_email :: string
  sc_passwordHash :: string

definition sign_in_eligible :: "string \<Rightarrow> user_row \<times> password_row \<Rightarrow> bool" where
  "sign_in_eligible email up = (case up of (u, p) \<Rightarrow>
     pw_userId p = ur_id u \<and> js_lower (ur_email u) = email \<and> ur_disabledAt u = None \<and> pw_verifiedAt p \<noteq> None)"

definition findPasswordSignIn :: "accounts_db \<Rightarrow> string \<Rightarrow> sign_in_candidate option" where
  "findPasswordSignIn db rawEmail =
     (case List.find (sign_in_eligible (normalizeAccountEmail rawEmail)) (List.product (ac_users db) (ac_passwords db)) of
        None \<Rightarrow> None
      | Some (u, p) \<Rightarrow> Some \<lparr>sc_userId = ur_id u, sc_email = normalizeAccountEmail (ur_email u), sc_passwordHash = pw_hash p\<rparr>)"

definition resettable_token :: "accounts_db \<Rightarrow> string \<Rightarrow> date \<Rightarrow> action_token_row \<Rightarrow> bool" where
  "resettable_token db tokenHash now t = (open_action_token tokenHash Reset_password now t
     \<and> list_ex (\<lambda>(u, p). pw_userId p = ur_id u \<and> ur_id u = tk_userId t \<and> ur_disabledAt u = None \<and> pw_verifiedAt p \<noteq> None)
         (List.product (ac_users db) (ac_passwords db)))"

definition replacePasswordAndRevokeSessions ::
  "accounts_db \<Rightarrow> string \<Rightarrow> string \<Rightarrow> date \<Rightarrow> account_action option account_result" where
  "replacePasswordAndRevokeSessions db resetTokenHash newPasswordHash now =
     (case first_row (filter (resettable_token db resetTokenHash now) (ac_tokens db)) of
        None \<Rightarrow> (Inr None, db)
      | Some token \<Rightarrow>
          let userId = tk_userId token;
              Q = (\<lambda>p. pw_userId p = userId \<and> pw_verifiedAt p \<noteq> None) in
          if \<not> list_ex Q (ac_passwords db) then (Inl (Thrown_error ''Reset credential invariant failed''), db)
          else
            (Inr (map_option (\<lambda>user. \<lparr>aa_userId = userId, aa_email = normalizeAccountEmail (ur_email user)\<rparr>)
               (List.find (active_user userId) (ac_users db))),
             db\<lparr>ac_passwords := update_where Q (\<lambda>p. p\<lparr>pw_hash := newPasswordHash, pw_changedAt := now, pw_updatedAt := now\<rparr>) (ac_passwords db),
                ac_sessions := filter (\<lambda>s. as_userId s \<noteq> userId) (ac_sessions db),
                ac_tokens := filter (\<lambda>t. \<not> (tk_userId t = userId \<and> tk_kind t = Reset_password))
                  (update_where (resettable_token db resetTokenHash now) (\<lambda>t. t\<lparr>tk_consumedAt := Some now\<rparr>) (ac_tokens db))\<rparr>))"

subsection \<open>Profiles and deletion\<close>

record own_profile =
  op_email :: string
  op_nickname :: string
  op_avatarKey :: string

definition loadOwnProfile :: "accounts_db \<Rightarrow> ident \<Rightarrow> own_profile option" where
  "loadOwnProfile db subject =
     map_option (\<lambda>(u, n). \<lparr>op_email = ur_email u, op_nickname = nk_nickname n, op_avatarKey = nk_avatarKey n\<rparr>)
       (List.find (\<lambda>(u, n). nk_userId n = ur_id u \<and> active_user subject u) (List.product (ac_users db) (ac_nicknames db)))"

definition updateOwnProfile ::
  "error_codes \<Rightarrow> accounts_db \<Rightarrow> ident \<Rightarrow> string \<Rightarrow> string \<Rightarrow> own_profile option account_result" where
  "updateOwnProfile unique db subject nickname avatarKey =
     (let P = (\<lambda>n. nk_userId n = subject \<and> list_ex (active_user (nk_userId n)) (ac_users db));
          f = (\<lambda>n. n\<lparr>nk_nickname := normalizeAccountNickname nickname, nk_avatarKey := avatarKey\<rparr>) in
      if \<not> list_ex P (ac_nicknames db) then (Inr None, db)
      else if list_ex (\<lambda>n. \<not> P n \<and> js_lower (nk_nickname n) = js_lower (normalizeAccountNickname nickname)) (ac_nicknames db)
      then (Inl (Database_error unique), db)
      else let db1 = db\<lparr>ac_nicknames := update_where P f (ac_nicknames db)\<rparr> in (Inr (loadOwnProfile db1 subject), db1))"

definition deletedEmailDomain :: string where
  "deletedEmailDomain = ''invalid.rcmania''"

definition deleteOwnAccount :: "error_codes \<Rightarrow> accounts_db \<Rightarrow> ident \<Rightarrow> date \<Rightarrow> string \<Rightarrow> bool account_result" where
  "deleteOwnAccount unique db subject now deletedUuid =
     (let email = ''deleted+'' @ deletedUuid @ ''@'' @ deletedEmailDomain;
          db1 = db\<lparr>ac_sessions := filter (\<lambda>s. as_userId s \<noteq> subject) (ac_sessions db),
            ac_passwords := filter (\<lambda>p. pw_userId p \<noteq> subject) (ac_passwords db),
            ac_tokens := filter (\<lambda>t. tk_userId t \<noteq> subject) (ac_tokens db),
            ac_oauth := filter (\<lambda>i. oi_userId i \<noteq> subject) (ac_oauth db),
            ac_nicknames := filter (\<lambda>n. nk_userId n \<noteq> subject) (ac_nicknames db),
            ac_consents := filter (\<lambda>c. \<not> (co_userId c = subject \<and> co_kind c \<noteq> ''terms_of_service'')) (ac_consents db)\<rparr> in
      if \<not> list_ex (active_user subject) (ac_users db) then (Inr False, db1)
      else if list_ex (\<lambda>u. \<not> active_user subject u \<and> js_lower (ur_email u) = js_lower email) (ac_users db)
      then (Inl (Database_error unique), db)
      else (Inr True, db1\<lparr>ac_users := update_where (active_user subject)
          (\<lambda>u. u\<lparr>ur_email := email, ur_displayName := ''Deleted driver'', ur_emailVerifiedAt := None,
             ur_disabledAt := Some now, ur_updatedAt := now\<rparr>) (ac_users db)\<rparr>))"

subsection \<open>Rate limits\<close>

definition hex_digit :: "char \<Rightarrow> bool" where
  "hex_digit c = (let n = (of_char c :: nat) in (48 \<le> n \<and> n \<le> 57) \<or> (97 \<le> n \<and> n \<le> 102) \<or> (65 \<le> n \<and> n \<le> 70))"

definition is_hmac_digest :: "string \<Rightarrow> bool" where
  "is_hmac_digest s = (length s = 64 \<and> list_all hex_digit s)"

definition positive_safe :: "jsnum \<Rightarrow> bool" where
  "positive_safe x = (js_is_safe_integer x \<and> js_lt (js_int 0) x)"

record rate_attempt =
  ra_allowed :: bool
  ra_remaining :: int
  ra_retryAfterMs :: int

definition window_start :: "date \<Rightarrow> int \<Rightarrow> date" where
  "window_start now w = now div w * w"

definition limit_key :: "string \<Rightarrow> limit_kind \<Rightarrow> date \<Rightarrow> limit_row \<Rightarrow> bool" where
  "limit_key keyHash kind started r = (rl_keyHash r = keyHash \<and> rl_kind r = kind \<and> rl_windowStartedAt r = started)"

text \<open>The counter is a 32-bit column: an increment beyond it throws.\<close>

definition takeRateLimitAttempt ::
  "error_codes \<Rightarrow> accounts_db \<Rightarrow> string \<Rightarrow> limit_kind \<Rightarrow> date \<Rightarrow> jsnum \<Rightarrow> jsnum \<Rightarrow> rate_attempt account_result" where
  "takeRateLimitAttempt overflow db keyHash kind now windowMs limit =
     (if \<not> is_hmac_digest keyHash then (Inl (Thrown_error ''Rate-limit key must be an HMAC digest''), db)
      else if \<not> positive_safe windowMs then (Inl (Thrown_error ''Rate-limit window must be positive''), db)
      else if \<not> positive_safe limit then (Inl (Thrown_error ''Rate-limit limit must be positive''), db)
      else
        let w = int_of_js windowMs; n = int_of_js limit; started = window_start now w; expires = started + w;
            key = js_lower keyHash;
            count = (case List.find (limit_key key kind started) (ac_limits db) of None \<Rightarrow> 1 | Some r \<Rightarrow> rl_attemptCount r + 1);
            rows = (if list_ex (limit_key key kind started) (ac_limits db)
              then update_where (limit_key key kind started) (\<lambda>r. r\<lparr>rl_attemptCount := rl_attemptCount r + 1, rl_expiresAt := expires\<rparr>) (ac_limits db)
              else ac_limits db @ [\<lparr>rl_keyHash = key, rl_kind = kind, rl_windowStartedAt = started, rl_attemptCount = 1, rl_expiresAt = expires\<rparr>])
        in if count > 2147483647 then (Inl (Database_error overflow), db)
           else (Inr \<lparr>ra_allowed = (count \<le> n), ra_remaining = max 0 (n - count), ra_retryAfterMs = max 0 (expires - now)\<rparr>,
                 db\<lparr>ac_limits := rows\<rparr>))"

subsection \<open>Cleanup\<close>

record cleanup_result =
  cu_tokensDeleted :: nat
  cu_rateLimitRowsDeleted :: nat
  cu_accountsDeleted :: nat

definition cleanup_batch :: "rat \<Rightarrow> nat" where
  "cleanup_batch b = nat (min 250 (max 1 \<lfloor>b\<rfloor>))"

definition stale_account :: "accounts_db \<Rightarrow> date \<Rightarrow> user_row \<times> password_row \<Rightarrow> bool" where
  "stale_account db cutoff up = (case up of (u, p) \<Rightarrow> pw_userId p = ur_id u \<and> ur_emailVerifiedAt u = None \<and> ur_disabledAt u = None
     \<and> pw_verifiedAt p = None \<and> ur_createdAt u < cutoff \<and> \<not> list_ex (\<lambda>i. oi_userId i = ur_id u) (ac_oauth db))"

definition delete_users :: "ident list \<Rightarrow> accounts_db \<Rightarrow> accounts_db" where
  "delete_users ids db = db\<lparr>ac_sessions := filter (\<lambda>s. as_userId s \<notin> set ids) (ac_sessions db),
     ac_tokens := filter (\<lambda>t. tk_userId t \<notin> set ids) (ac_tokens db),
     ac_passwords := filter (\<lambda>p. pw_userId p \<notin> set ids) (ac_passwords db),
     ac_nicknames := filter (\<lambda>n. nk_userId n \<notin> set ids) (ac_nicknames db),
     ac_consents := filter (\<lambda>c. co_userId c \<notin> set ids) (ac_consents db),
     ac_users := filter (\<lambda>u. ur_id u \<notin> set ids) (ac_users db),
     ac_balances := filter (\<lambda>b. ab_userId b \<notin> set ids) (ac_balances db)\<rparr>"

definition cleanup_body :: "accounts_db \<Rightarrow> date \<Rightarrow> nat \<Rightarrow> cleanup_result \<times> accounts_db" where
  "cleanup_body db now batch =
     (let tokenIds = map tk_id (take batch (filter (\<lambda>t. tk_expiresAt t < now) (ac_tokens db)));
          rows = take batch (filter (\<lambda>r. rl_expiresAt r < now) (ac_limits db));
          expiredRow = (\<lambda>r. list_ex (\<lambda>r'. limit_key (rl_keyHash r') (rl_kind r') (rl_windowStartedAt r') r) rows);
          db1 = db\<lparr>ac_tokens := filter (\<lambda>t. tk_id t \<notin> set tokenIds) (ac_tokens db),
                   ac_limits := filter (\<lambda>r. \<not> expiredRow r) (ac_limits db)\<rparr>;
          staleIds = map (ur_id \<circ> fst) (take batch (filter (stale_account db1 (now - 7 * 24 * 60 * 60 * 1000))
            (List.product (ac_users db1) (ac_passwords db1))))
      in (\<lparr>cu_tokensDeleted = length (filter (\<lambda>t. tk_id t \<in> set tokenIds) (ac_tokens db)),
           cu_rateLimitRowsDeleted = length (filter expiredRow (ac_limits db)),
           cu_accountsDeleted = length (filter (\<lambda>u. ur_id u \<in> set staleIds) (ac_users db1))\<rparr>,
          delete_users staleIds db1))"

definition cleanupExpiredAccountData :: "accounts_db \<Rightarrow> date \<Rightarrow> jsnum \<Rightarrow> cleanup_result account_result" where
  "cleanupExpiredAccountData db now batchSize =
     (case batchSize of
        Fin b \<Rightarrow> (case cleanup_body db now (cleanup_batch b) of (r, db') \<Rightarrow> (Inr r, db'))
      | _ \<Rightarrow> (Inl (Thrown_error ''Cleanup batch size must be finite''), db))"

end
