(* ===== verification/AuthStore.thy ===== *)
theory AuthStore
  imports AccountStore
begin

section \<open>Login sessions and identities\<close>

text \<open>
  \<open>apps/web/auth/postgres-auth-store.ts\<close> over the tables of the accounts, and the adapter of the
  login library over it (\<open>adapter.ts\<close>). Session tokens are kept by their digest; the digest
  (SHA-256 of the token) is a parameter.
\<close>

datatype user_role = Role_user | Role_admin

definition normalizeUserRole :: "string \<Rightarrow> user_role" where
  "normalizeUserRole value = (if value = ''admin'' then Role_admin else Role_user)"

record stored_user =
  su_id :: ident
  su_email :: string
  su_displayName :: string
  su_role :: user_role
  su_emailVerifiedAt :: "date option"
  su_disabledAt :: "date option"

definition mapUser :: "user_row \<Rightarrow> stored_user" where
  "mapUser row = \<lparr>su_id = ur_id row, su_email = ur_email row, su_displayName = ur_displayName row,
     su_role = normalizeUserRole (ur_role row), su_emailVerifiedAt = ur_emailVerifiedAt row, su_disabledAt = ur_disabledAt row\<rparr>"

definition role_text :: "user_role \<Rightarrow> string" where
  "role_text r = (if r = Role_admin then ''admin'' else ''user'')"

text \<open>The first free of the names \<open>base\<close>, \<open>base-1\<close>, up to \<open>base-9\<close>.\<close>

fun numbered_profile :: "ident \<Rightarrow> nat list \<Rightarrow> nickname_row list \<Rightarrow> nickname_row list option" where
  "numbered_profile userId [] rows = None"
| "numbered_profile userId (n # ns) rows =
     (case add_row same_nickname \<lparr>nk_userId = userId,
         nk_nickname = createDefaultNickname userId (if n = 0 then None else Some n), nk_avatarKey = defaultAvatarKey\<rparr> rows of
        Some rows' \<Rightarrow> Some rows'
      | None \<Rightarrow> numbered_profile userId ns rows)"

definition auth_createUser :: "error_codes \<Rightarrow> accounts_db \<Rightarrow> stored_user \<Rightarrow> date \<Rightarrow> stored_user account_result" where
  "auth_createUser unique db user now =
     (let row = \<lparr>ur_id = su_id user, ur_email = su_email user, ur_displayName = su_displayName user,
            ur_role = role_text (su_role user), ur_emailVerifiedAt = su_emailVerifiedAt user, ur_disabledAt = su_disabledAt user,
            ur_volumePercent = 100, ur_muted = False, ur_audioRevision = 0, ur_createdAt = now, ur_updatedAt = now\<rparr> in
      case add_row same_user row (ac_users db) of
        None \<Rightarrow> (Inl (Database_error unique), db)
      | Some users \<Rightarrow>
         (case add_row same_balance \<lparr>ab_userId = su_id user, ab_currency = ''USD'', ab_amountMinor = 0\<rparr> (ac_balances db) of
            None \<Rightarrow> (Inl (Database_error unique), db)
          | Some balances \<Rightarrow>
             (case numbered_profile (su_id user) [0..<10] (ac_nicknames db) of
                None \<Rightarrow> (Inl (Thrown_error ''Session profile is unavailable''), db)
              | Some nicknames \<Rightarrow> (Inr (mapUser row),
                  db\<lparr>ac_users := users, ac_balances := balances, ac_nicknames := nicknames\<rparr>))))"

definition auth_getUser :: "accounts_db \<Rightarrow> ident \<Rightarrow> stored_user option" where
  "auth_getUser db userId = map_option mapUser (List.find (\<lambda>u. ur_id u = userId) (ac_users db))"

definition auth_getUserByEmail :: "accounts_db \<Rightarrow> string \<Rightarrow> stored_user option" where
  "auth_getUserByEmail db email = map_option mapUser (List.find (\<lambda>u. ur_email u = js_lower (js_trim email)) (ac_users db))"

definition auth_getUserByIdentity :: "accounts_db \<Rightarrow> string \<Rightarrow> string \<Rightarrow> stored_user option" where
  "auth_getUserByIdentity db provider subject =
     map_option (mapUser \<circ> snd) (List.find (\<lambda>(i, u). oi_userId i = ur_id u \<and> oi_provider i = provider \<and> oi_subject i = subject)
       (List.product (ac_oauth db) (ac_users db)))"

definition auth_updateUser :: "error_codes \<Rightarrow> accounts_db \<Rightarrow> stored_user \<Rightarrow> date \<Rightarrow> stored_user account_result" where
  "auth_updateUser unique db user now =
     (let P = (\<lambda>u. ur_id u = su_id user);
          f = (\<lambda>u. u\<lparr>ur_email := su_email user, ur_displayName := su_displayName user, ur_emailVerifiedAt := su_emailVerifiedAt user,
            ur_disabledAt := su_disabledAt user, ur_updatedAt := now\<rparr>) in
      case List.find P (ac_users db) of
        None \<Rightarrow> (Inl (Thrown_error ''User does not exist''), db)
      | Some row \<Rightarrow>
          if list_ex (\<lambda>u. \<not> P u \<and> js_lower (ur_email u) = js_lower (su_email user)) (ac_users db) then (Inl (Database_error unique), db)
          else (Inr (mapUser (f row)), db\<lparr>ac_users := update_where P f (ac_users db)\<rparr>))"

text \<open>The user must exist, or the insert violates the foreign key.\<close>

definition auth_linkIdentity ::
  "error_codes \<Rightarrow> accounts_db \<Rightarrow> ident \<Rightarrow> string \<Rightarrow> string \<Rightarrow> unit account_result" where
  "auth_linkIdentity missing db userId provider subject =
     (case List.find (\<lambda>i. oi_provider i = provider \<and> oi_subject i = subject) (ac_oauth db) of
        Some identity \<Rightarrow>
          if oi_userId identity \<noteq> userId then (Inl (Thrown_error ''OAuth identity belongs to another user''), db)
          else (Inr (), db)
      | None \<Rightarrow>
         (case List.find (\<lambda>i. oi_userId i = userId \<and> oi_provider i = provider) (ac_oauth db) of
            Some identity \<Rightarrow> (Inl (Thrown_error ''User already has a different OAuth identity''), db)
          | None \<Rightarrow>
              if \<not> list_ex (\<lambda>u. ur_id u = userId) (ac_users db) then (Inl (Database_error missing), db)
              else (Inr (), db\<lparr>ac_oauth := ac_oauth db @ [\<lparr>oi_userId = userId, oi_provider = provider, oi_subject = subject\<rparr>]\<rparr>)))"

definition auth_createSession ::
  "error_codes \<Rightarrow> error_codes \<Rightarrow> accounts_db \<Rightarrow> session_row \<Rightarrow> session_row account_result" where
  "auth_createSession unique missing db s =
     (if \<not> list_ex (\<lambda>u. ur_id u = as_userId s) (ac_users db) then (Inl (Database_error missing), db)
      else case add_row same_session s (ac_sessions db) of
          None \<Rightarrow> (Inl (Database_error unique), db)
        | Some sessions \<Rightarrow> (Inr s, db\<lparr>ac_sessions := sessions\<rparr>))"

definition auth_getSession :: "accounts_db \<Rightarrow> string \<Rightarrow> session_row option" where
  "auth_getSession db tokenHash = List.find (\<lambda>s. as_tokenHash s = tokenHash) (ac_sessions db)"

definition auth_updateSession :: "error_codes \<Rightarrow> accounts_db \<Rightarrow> session_row \<Rightarrow> session_row account_result" where
  "auth_updateSession missing db s =
     (if auth_getSession db (as_tokenHash s) = None then (Inl (Thrown_error ''Session does not exist''), db)
      else if \<not> list_ex (\<lambda>u. ur_id u = as_userId s) (ac_users db) then (Inl (Database_error missing), db)
      else (Inr s, db\<lparr>ac_sessions := update_where (\<lambda>r. as_tokenHash r = as_tokenHash s)
          (\<lambda>r. r\<lparr>as_userId := as_userId s, as_expiresAt := as_expiresAt s, as_lastSeenAt := as_lastSeenAt s\<rparr>) (ac_sessions db)\<rparr>))"

definition auth_deleteSession :: "accounts_db \<Rightarrow> string \<Rightarrow> session_row option \<times> accounts_db" where
  "auth_deleteSession db tokenHash =
     (auth_getSession db tokenHash, db\<lparr>ac_sessions := filter (\<lambda>s. as_tokenHash s \<noteq> tokenHash) (ac_sessions db)\<rparr>)"

definition auth_getBalance :: "error_codes \<Rightarrow> accounts_db \<Rightarrow> ident \<Rightarrow> int account_result" where
  "auth_getBalance missing db userId =
     (if \<not> list_ex (\<lambda>b. ab_userId b = userId) (ac_balances db) \<and> \<not> list_ex (\<lambda>u. ur_id u = userId) (ac_users db)
      then (Inl (Database_error missing), db)
      else
       (let balances = (case add_row same_balance \<lparr>ab_userId = userId, ab_currency = ''USD'', ab_amountMinor = 0\<rparr> (ac_balances db) of
            None \<Rightarrow> ac_balances db | Some rows \<Rightarrow> rows);
          db1 = db\<lparr>ac_balances := balances\<rparr> in
        case List.find (\<lambda>b. ab_userId b = userId) balances of
          None \<Rightarrow> (Inl (Thrown_error ''USD account balance is unavailable''), db1)
        | Some row \<Rightarrow> if ab_currency row \<noteq> ''USD'' then (Inl (Thrown_error ''USD account balance is unavailable''), db1)
            else (Inr (ab_amountMinor row), db1)))"

definition find_profile :: "accounts_db \<Rightarrow> ident \<Rightarrow> (string \<times> string) option" where
  "find_profile db userId = map_option (\<lambda>n. (nk_nickname n, nk_avatarKey n)) (List.find (\<lambda>n. nk_userId n = userId) (ac_nicknames db))"

text \<open>The profile of a session, made up when it is missing; the insert needs the user to exist.\<close>

definition auth_getSessionProfile :: "error_codes \<Rightarrow> accounts_db \<Rightarrow> ident \<Rightarrow> (string \<times> string) account_result" where
  "auth_getSessionProfile missing db userId =
     (case find_profile db userId of
        Some p \<Rightarrow> (Inr p, db)
      | None \<Rightarrow>
         (case numbered_profile userId [0..<10] (ac_nicknames db) of
            None \<Rightarrow> (Inl (Thrown_error ''Session profile is unavailable''), db)
          | Some rows \<Rightarrow>
              if \<not> list_ex (\<lambda>u. ur_id u = userId) (ac_users db) then (Inl (Database_error missing), db)
              else (Inr (nk_nickname (last rows), nk_avatarKey (last rows)), db\<lparr>ac_nicknames := rows\<rparr>)))"

subsection \<open>The adapter of the login library\<close>

definition toAdapterUser :: "stored_user option \<Rightarrow> stored_user option" where
  "toAdapterUser user = (case user of None \<Rightarrow> None | Some u \<Rightarrow> if su_disabledAt u \<noteq> None then None else Some u)"

record adapter_session =
  ax_sessionToken :: string
  ax_userId :: ident
  ax_expires :: date

definition toAdapterSession :: "session_row \<Rightarrow> string \<Rightarrow> adapter_session" where
  "toAdapterSession s rawToken = \<lparr>ax_sessionToken = rawToken, ax_userId = as_userId s, ax_expires = as_expiresAt s\<rparr>"

text \<open>\<open>hashSessionToken\<close> throws for an empty token.\<close>

definition hashSessionToken :: "(string \<Rightarrow> string) \<Rightarrow> string \<Rightarrow> string + string" where
  "hashSessionToken sha256 token = (if token = [] then Inl ''Session token is required'' else Inr (sha256 token))"

definition adapter_createUser ::
  "error_codes \<Rightarrow> accounts_db \<Rightarrow> ident \<Rightarrow> string \<Rightarrow> string option \<Rightarrow> date option \<Rightarrow> date \<Rightarrow> stored_user account_result" where
  "adapter_createUser unique db userId email name verified now =
     auth_createUser unique db \<lparr>su_id = userId, su_email = js_lower (js_trim email),
       su_displayName = (case name of None \<Rightarrow> email | Some n \<Rightarrow> if js_trim n = [] then email else js_trim n),
       su_role = Role_user, su_emailVerifiedAt = (case verified of None \<Rightarrow> Some now | Some v \<Rightarrow> Some v), su_disabledAt = None\<rparr> now"

text \<open>The user \<open>updateUser\<close> writes: what it has read with the changes it was asked for.\<close>

definition updated_user :: "stored_user \<Rightarrow> string option \<Rightarrow> string option \<Rightarrow> date option \<Rightarrow> stored_user" where
  "updated_user current email name verified = current\<lparr>
     su_email := (case email of None \<Rightarrow> su_email current | Some e \<Rightarrow> js_lower (js_trim e)),
     su_displayName := (case name of None \<Rightarrow> su_displayName current | Some n \<Rightarrow> if js_trim n = [] then su_displayName current else js_trim n),
     su_emailVerifiedAt := (case verified of None \<Rightarrow> su_emailVerifiedAt current | Some v \<Rightarrow> Some v)\<rparr>"

text \<open>Both statements with nothing between them; what may happen between them is in \<open>Accounts\<close>.\<close>

definition adapter_updateUser ::
  "error_codes \<Rightarrow> accounts_db \<Rightarrow> ident \<Rightarrow> string option \<Rightarrow> string option \<Rightarrow> date option \<Rightarrow> date \<Rightarrow> stored_user account_result" where
  "adapter_updateUser unique db userId email name verified now =
     (case toAdapterUser (auth_getUser db userId) of
        None \<Rightarrow> (Inl (Thrown_error ''User is unavailable''), db)
      | Some current \<Rightarrow> auth_updateUser unique db (updated_user current email name verified) now)"

definition adapter_createSession ::
  "(string \<Rightarrow> string) \<Rightarrow> error_codes \<Rightarrow> error_codes \<Rightarrow> accounts_db \<Rightarrow> ident \<Rightarrow> string \<Rightarrow> date \<Rightarrow> date \<Rightarrow> adapter_session account_result" where
  "adapter_createSession sha256 unique missing db userId rawToken expires now =
     (case hashSessionToken sha256 rawToken of
        Inl e \<Rightarrow> (Inl (Thrown_error e), db)
      | Inr tokenHash \<Rightarrow>
         (case auth_createSession unique missing db
              \<lparr>as_userId = userId, as_tokenHash = tokenHash, as_expiresAt = expires, as_lastSeenAt = now\<rparr> of
            (Inl e, db') \<Rightarrow> (Inl e, db')
          | (Inr s, db') \<Rightarrow> (Inr (toAdapterSession s rawToken), db')))"

definition adapter_getSessionAndUser ::
  "(string \<Rightarrow> string) \<Rightarrow> accounts_db \<Rightarrow> string \<Rightarrow> date \<Rightarrow> (adapter_session \<times> stored_user) option account_result" where
  "adapter_getSessionAndUser sha256 db rawToken now =
     (case hashSessionToken sha256 rawToken of
        Inl e \<Rightarrow> (Inl (Thrown_error e), db)
      | Inr tokenHash \<Rightarrow>
         (case auth_getSession db tokenHash of
            None \<Rightarrow> (Inr None, db)
          | Some session \<Rightarrow>
              if as_expiresAt session \<le> now then (Inr None, snd (auth_deleteSession db tokenHash))
              else
               (case toAdapterUser (auth_getUser db (as_userId session)) of
                  None \<Rightarrow> (Inr None, snd (auth_deleteSession db tokenHash))
                | Some user \<Rightarrow> (Inr (Some (toAdapterSession session rawToken, user)), db))))"

definition adapter_updateSession ::
  "(string \<Rightarrow> string) \<Rightarrow> error_codes \<Rightarrow> accounts_db \<Rightarrow> string \<Rightarrow> ident option \<Rightarrow> date option \<Rightarrow> date \<Rightarrow> adapter_session option account_result" where
  "adapter_updateSession sha256 missing db rawToken userId expires now =
     (case hashSessionToken sha256 rawToken of
        Inl e \<Rightarrow> (Inl (Thrown_error e), db)
      | Inr tokenHash \<Rightarrow>
         (case auth_getSession db tokenHash of
            None \<Rightarrow> (Inr None, db)
          | Some current \<Rightarrow>
             (case auth_updateSession missing db (current\<lparr>as_userId := (case userId of None \<Rightarrow> as_userId current | Some u \<Rightarrow> u),
                  as_expiresAt := (case expires of None \<Rightarrow> as_expiresAt current | Some e \<Rightarrow> e), as_lastSeenAt := now\<rparr>) of
                (Inl e, db') \<Rightarrow> (Inl e, db')
              | (Inr s, db') \<Rightarrow> (Inr (Some (toAdapterSession s rawToken)), db'))))"

definition adapter_deleteSession ::
  "(string \<Rightarrow> string) \<Rightarrow> accounts_db \<Rightarrow> string \<Rightarrow> adapter_session option account_result" where
  "adapter_deleteSession sha256 db rawToken =
     (case hashSessionToken sha256 rawToken of
        Inl e \<Rightarrow> (Inl (Thrown_error e), db)
      | Inr tokenHash \<Rightarrow>
         (case auth_deleteSession db tokenHash of
            (s, db') \<Rightarrow> (Inr (map_option (\<lambda>s. toAdapterSession s rawToken) s), db')))"

text \<open>\<open>session-user.ts\<close>: what a page knows of the user of a session.\<close>

record session_user =
  xu_id :: ident
  xu_role :: user_role
  xu_amountMinor :: int
  xu_nickname :: string
  xu_avatarKey :: string

definition loadSessionUser :: "error_codes \<Rightarrow> accounts_db \<Rightarrow> ident \<Rightarrow> session_user account_result" where
  "loadSessionUser missing db userId =
     (case toAdapterUser (auth_getUser db userId) of
        None \<Rightarrow> (Inl (Thrown_error ''Session user is unavailable''), db)
      | Some user \<Rightarrow>
         (case auth_getBalance missing db (su_id user) of
            (balance, db1) \<Rightarrow>
             (case auth_getSessionProfile missing db1 (su_id user) of
                (profile, db2) \<Rightarrow>
                 (case (balance, profile) of
                    (Inr amount, Inr (nickname, avatarKey)) \<Rightarrow>
                      (Inr \<lparr>xu_id = su_id user, xu_role = su_role user, xu_amountMinor = amount,
                         xu_nickname = nickname, xu_avatarKey = avatarKey\<rparr>, db2)
                  | (Inl e, _) \<Rightarrow> (Inl e, db2)
                  | (_, Inl e) \<Rightarrow> (Inl e, db2)))))"

end
