(* ===== verification/Accounts.thy ===== *)
theory Accounts
  imports AuthStore
begin

section \<open>All operations on the accounts\<close>

text \<open>
  Every operation of the account store and of the adapter of the login library is a step on the
  tables, and a run is any sequence of steps: requests are served one at a time by the database,
  in any order. What holds of all runs is proved here: a token works once, passwords change only
  with tokens, a deleted account stays deleted, a window of a rate limit admits its limit.
\<close>

datatype account_op =
    Register pending_registration date ident "ident list" ident
  | Consume token_kind string date
  | Rotate string token_kind string date date ident
  | Reset_With string string date
  | Edit_Profile ident string string
  | Delete_Account ident date string
  | Attempt string limit_kind date jsnum jsnum
  | Cleanup date jsnum
  | Create_User ident string "string option" "date option" date
  | Update_User ident "string option" "string option" "date option" date
  | Link ident string string
  | Open_Session ident string date date
  | Touch_Session string "ident option" "date option" date
  | Close_Session string
  | Put_Session session_row
  | Read_Session string date
  | Load_User ident

text \<open>The codes of a violated unique constraint, of a missing row, of an overflow; the digest of tokens.\<close>

record account_env =
  en_unique :: error_codes
  en_missing :: error_codes
  en_overflow :: error_codes
  en_sha256 :: "string \<Rightarrow> string"

fun account_step :: "account_env \<Rightarrow> account_op \<Rightarrow> accounts_db \<Rightarrow> accounts_db" where
  "account_step v (Register i now u ns t) db = snd (registerPendingAccount (en_unique v) db i now u ns t)"
| "account_step v (Consume k h now) db = snd (consumeActionToken db k h now)"
| "account_step v (Rotate e k h x now i) db = snd (createOrRotateActionToken (en_unique v) db e k h x now i)"
| "account_step v (Reset_With h p now) db = snd (replacePasswordAndRevokeSessions db h p now)"
| "account_step v (Edit_Profile u n a) db = snd (updateOwnProfile (en_unique v) db u n a)"
| "account_step v (Delete_Account u now d) db = snd (deleteOwnAccount (en_unique v) db u now d)"
| "account_step v (Attempt h k now w l) db = snd (takeRateLimitAttempt (en_overflow v) db h k now w l)"
| "account_step v (Cleanup now b) db = snd (cleanupExpiredAccountData db now b)"
| "account_step v (Create_User u e n x now) db = snd (adapter_createUser (en_unique v) db u e n x now)"
| "account_step v (Update_User u e n x now) db = snd (adapter_updateUser (en_unique v) db u e n x now)"
| "account_step v (Link u p s) db = snd (auth_linkIdentity (en_missing v) db u p s)"
| "account_step v (Open_Session u r x now) db = snd (adapter_createSession (en_sha256 v) (en_unique v) (en_missing v) db u r x now)"
| "account_step v (Touch_Session r u x now) db = snd (adapter_updateSession (en_sha256 v) (en_missing v) db r u x now)"
| "account_step v (Close_Session r) db = snd (adapter_deleteSession (en_sha256 v) db r)"
| "account_step v (Put_Session s) db = snd (auth_createSession (en_unique v) (en_missing v) db s)"
| "account_step v (Read_Session r now) db = snd (adapter_getSessionAndUser (en_sha256 v) db r now)"
| "account_step v (Load_User u) db = snd (loadSessionUser (en_missing v) db u)"

definition account_run :: "account_env \<Rightarrow> account_op list \<Rightarrow> accounts_db \<Rightarrow> accounts_db" where
  "account_run v ops db = foldl (\<lambda>db op. account_step v op db) db ops"

lemma account_run_simps [simp]:
  "account_run v [] db = db"
  "account_run v (op # ops) db = account_run v ops (account_step v op db)"
  by (simp_all add: account_run_def)

subsection \<open>What the operations leave alone\<close>

lemmas account_defs = registerPendingAccount_def register_body_def finish_registration_def consumeActionToken_def spend_tokens_def
  createOrRotateActionToken_def replacePasswordAndRevokeSessions_def updateOwnProfile_def deleteOwnAccount_def
  takeRateLimitAttempt_def cleanupExpiredAccountData_def adapter_createUser_def auth_createUser_def adapter_updateUser_def
  auth_updateUser_def auth_linkIdentity_def adapter_createSession_def auth_createSession_def adapter_updateSession_def
  auth_updateSession_def adapter_deleteSession_def auth_deleteSession_def adapter_getSessionAndUser_def

lemma balance_tables:
  "ac_tokens (snd (auth_getBalance m db u)) = ac_tokens db" "ac_users (snd (auth_getBalance m db u)) = ac_users db"
  "ac_passwords (snd (auth_getBalance m db u)) = ac_passwords db" "ac_limits (snd (auth_getBalance m db u)) = ac_limits db"
  by (simp_all add: auth_getBalance_def Let_def split: option.split)

lemma profile_tables:
  "ac_tokens (snd (auth_getSessionProfile m db u)) = ac_tokens db" "ac_users (snd (auth_getSessionProfile m db u)) = ac_users db"
  "ac_passwords (snd (auth_getSessionProfile m db u)) = ac_passwords db" "ac_limits (snd (auth_getSessionProfile m db u)) = ac_limits db"
  by (simp_all add: auth_getSessionProfile_def split: option.split)

lemma load_db: "snd (loadSessionUser m db u) = db \<or>
    snd (loadSessionUser m db u) = snd (auth_getSessionProfile m (snd (auth_getBalance m db u')) u')" if "u' = (case toAdapterUser (auth_getUser db u) of None \<Rightarrow> [] | Some x \<Rightarrow> su_id x)" for u'
  using that by (auto simp: loadSessionUser_def split: option.split prod.split sum.split)

lemma load_tables:
  "ac_tokens (snd (loadSessionUser m db u)) = ac_tokens db" "ac_users (snd (loadSessionUser m db u)) = ac_users db"
  "ac_passwords (snd (loadSessionUser m db u)) = ac_passwords db" "ac_limits (snd (loadSessionUser m db u)) = ac_limits db"
  using load_db [OF refl, of m db u] by (auto simp: balance_tables profile_tables)

subsection \<open>Tokens\<close>

fun issues :: "account_op \<Rightarrow> string list" where
  "issues (Register i now u ns t) = [rg_tokenHash i]"
| "issues (Rotate e k h x now i) = [h]"
| "issues op = []"

definition hashes_ok :: "accounts_db \<Rightarrow> bool" where
  "hashes_ok db = distinct (map tk_tokenHash (ac_tokens db))"

definition not_open :: "string \<Rightarrow> action_token_row list \<Rightarrow> bool" where
  "not_open h ts = list_all (\<lambda>t. tk_tokenHash t = h \<longrightarrow> tk_consumedAt t \<noteq> None) ts"

definition tokens_next :: "string list \<Rightarrow> action_token_row list \<Rightarrow> action_token_row list \<Rightarrow> bool" where
  "tokens_next hs ts ts' = ((distinct (map tk_tokenHash ts) \<longrightarrow> distinct (map tk_tokenHash ts'))
     \<and> (\<forall>h. h \<notin> set hs \<longrightarrow> not_open h ts \<longrightarrow> not_open h ts'))"

lemma tokens_next_refl [simp]: "tokens_next hs ts ts"
  by (simp add: tokens_next_def)

lemma tokens_next_trans: "tokens_next hs ts ts' \<Longrightarrow> tokens_next hs ts' ts'' \<Longrightarrow> tokens_next hs ts ts''"
  by (simp add: tokens_next_def)

lemma tokens_next_filter: "tokens_next hs ts (filter P ts)"
  by (auto simp: tokens_next_def not_open_def list_all_iff intro: distinct_map_filter)

lemma spend_hashes: "map tk_tokenHash (update_where P (\<lambda>t. t\<lparr>tk_consumedAt := Some now\<rparr>) ts) = map tk_tokenHash ts"
  by (rule map_update_where) simp

lemma tokens_next_spend: "tokens_next hs ts (update_where P (\<lambda>t. t\<lparr>tk_consumedAt := Some now\<rparr>) ts)"
proof -
  have "not_open h (update_where P (\<lambda>t. t\<lparr>tk_consumedAt := Some now\<rparr>) ts)" if "not_open h ts" for h
    using that unfolding not_open_def update_where_def by (auto simp: list_all_iff)
  then show ?thesis unfolding tokens_next_def spend_hashes by blast
qed

lemma tokens_next_add:
  "add_row same_action_token t ts = Some ts' \<Longrightarrow> tk_tokenHash t \<in> set hs \<Longrightarrow> tokens_next hs ts ts'"
  using add_row_distinct [of same_action_token t ts ts' tk_tokenHash]
  by (auto simp: tokens_next_def not_open_def add_row_Some same_action_token_def)

lemma register_body_cases:
  assumes run: "register_body unique db i now u ns t = (Inr a, s)"
  obtains (old) x where "List.find (\<lambda>x. js_lower (ur_email x) = normalizeAccountEmail (rg_email i)) (ac_users db) = Some x"
      "ur_disabledAt x = None" "list_ex (\<lambda>g. oi_userId g = ur_id x \<and> oi_provider g = ''google'') (ac_oauth db)"
      "pw_userId (new_password (ur_id x) (rg_passwordHash i) now) \<notin> pw_userId ` set (ac_passwords db)"
      "finish_registration unique db (db\<lparr>ac_passwords := ac_passwords db @ [new_password (ur_id x) (rg_passwordHash i) now]\<rparr>)
         (ur_id x) (ur_email x) i now t = (Inr a, s)"
  | (new) balances names where "List.find (\<lambda>x. js_lower (ur_email x) = normalizeAccountEmail (rg_email i)) (ac_users db) = None"
      "\<not> list_ex (same_user (new_user u (normalizeAccountEmail (rg_email i)) now)) (ac_users db)"
      "pw_userId (new_password u (rg_passwordHash i) now) \<notin> pw_userId ` set (ac_passwords db)"
      "finish_registration unique db (db\<lparr>ac_users := ac_users db @ [new_user u (normalizeAccountEmail (rg_email i)) now],
          ac_passwords := ac_passwords db @ [new_password u (rg_passwordHash i) now],
          ac_balances := balances, ac_nicknames := names\<rparr>) u (normalizeAccountEmail (rg_email i)) i now t = (Inr a, s)"
proof (cases "List.find (\<lambda>x. js_lower (ur_email x) = normalizeAccountEmail (rg_email i)) (ac_users db)")
  case (Some x)
  show ?thesis
    by (rule old [OF Some]; use run in \<open>simp add: register_body_def Let_def Some add_row_Some same_password_def list_ex_iff
        split: option.splits if_splits\<close>) (auto simp: new_password_def)
next
  case None
  show ?thesis
    using run unfolding register_body_def Let_def None
    by (simp split: option.splits) (rule new [OF None], auto simp: add_row_Some same_password_def list_ex_iff)
qed

lemma finish_tokens:
  "finish_registration unique db0 db userId email i now t = (Inr a, s) \<Longrightarrow>
   tokens_next [rg_tokenHash i] (ac_tokens db) (ac_tokens s) \<and> ac_passwords s = ac_passwords db \<and> ac_users s = ac_users db \<and> ac_limits s = ac_limits db"
  by (auto simp: finish_registration_def verification_token_def split: option.splits intro!: tokens_next_add)

lemma register_tokens: "tokens_next [rg_tokenHash i] (ac_tokens db) (ac_tokens (snd (registerPendingAccount unique db i now u ns t)))"
proof (cases "register_body unique db i now u ns t")
  case (Pair r s)
  show ?thesis
  proof (cases r)
    case (Inl e)
    then show ?thesis using Pair by (simp add: registerPendingAccount_def)
  next
    case (Inr a)
    have run: "register_body unique db i now u ns t = (Inr a, s)" using Pair Inr by simp
    have "tokens_next [rg_tokenHash i] (ac_tokens db) (ac_tokens s)"
      by (rule register_body_cases [OF run]) (drule finish_tokens, simp)+
    then show ?thesis by (simp add: registerPendingAccount_def run)
  qed
qed

lemma consume_tokens: "tokens_next hs (ac_tokens db) (ac_tokens (snd (consumeActionToken db k h now)))"
  by (simp add: consumeActionToken_def Let_def spend_tokens_def tokens_next_spend split: option.split)

lemma rotate_tokens: "tokens_next [h] (ac_tokens db) (ac_tokens (snd (createOrRotateActionToken unique db e k h x now i)))"
  unfolding createOrRotateActionToken_def Let_def
  by (auto split: option.split intro!: tokens_next_trans [OF tokens_next_filter tokens_next_add])

lemma reset_tokens: "tokens_next hs (ac_tokens db) (ac_tokens (snd (replacePasswordAndRevokeSessions db h p now)))"
  by (simp add: replacePasswordAndRevokeSessions_def Let_def tokens_next_trans [OF tokens_next_spend tokens_next_filter] split: option.split)

lemma delete_tokens: "tokens_next hs (ac_tokens db) (ac_tokens (snd (deleteOwnAccount unique db u now d)))"
  by (simp add: deleteOwnAccount_def Let_def tokens_next_filter)

lemma cleanup_cases:
  "snd (cleanupExpiredAccountData db now b) = db \<or>
   (\<exists>ids P Q. snd (cleanupExpiredAccountData db now b) =
      delete_users ids (db\<lparr>ac_tokens := filter P (ac_tokens db), ac_limits := filter Q (ac_limits db)\<rparr>))"
proof (cases b)
  case (Fin n)
  have "\<exists>ids P Q. snd (cleanup_body db now k) =
      delete_users ids (db\<lparr>ac_tokens := filter P (ac_tokens db), ac_limits := filter Q (ac_limits db)\<rparr>)" for k
    unfolding cleanup_body_def Let_def snd_conv by blast
  then show ?thesis by (simp add: cleanupExpiredAccountData_def Fin split_beta)
qed (simp_all add: cleanupExpiredAccountData_def)

lemma cleanup_tokens: "tokens_next hs (ac_tokens db) (ac_tokens (snd (cleanupExpiredAccountData db now b)))"
  using cleanup_cases [of db now b] by (auto simp: delete_users_def tokens_next_filter)

lemma login_session_tables:
  "ac_tokens (snd (auth_createSession unique missing db s)) = ac_tokens db"
  "ac_users (snd (auth_createSession unique missing db s)) = ac_users db"
  "ac_passwords (snd (auth_createSession unique missing db s)) = ac_passwords db"
  "ac_limits (snd (auth_createSession unique missing db s)) = ac_limits db"
  "ac_tokens (snd (auth_updateSession missing db s)) = ac_tokens db"
  "ac_users (snd (auth_updateSession missing db s)) = ac_users db"
  "ac_passwords (snd (auth_updateSession missing db s)) = ac_passwords db"
  "ac_limits (snd (auth_updateSession missing db s)) = ac_limits db"
  "ac_tokens (snd (auth_deleteSession db h)) = ac_tokens db"
  "ac_users (snd (auth_deleteSession db h)) = ac_users db"
  "ac_passwords (snd (auth_deleteSession db h)) = ac_passwords db"
  "ac_limits (snd (auth_deleteSession db h)) = ac_limits db"
  by (simp_all add: auth_createSession_def auth_updateSession_def auth_deleteSession_def split: option.split)

lemma snd_case_sum: "snd (case r of (Inl e, d) \<Rightarrow> (f e, d) | (Inr x, d) \<Rightarrow> (g x, d)) = snd r"
  by (cases r) (simp split: sum.split)

lemma adapter_session_tables:
  "ac_tokens (snd (adapter_createSession sha unique missing db u r x now)) = ac_tokens db"
  "ac_users (snd (adapter_createSession sha unique missing db u r x now)) = ac_users db"
  "ac_passwords (snd (adapter_createSession sha unique missing db u r x now)) = ac_passwords db"
  "ac_limits (snd (adapter_createSession sha unique missing db u r x now)) = ac_limits db"
  "ac_tokens (snd (adapter_updateSession sha missing db r u' x' now)) = ac_tokens db"
  "ac_users (snd (adapter_updateSession sha missing db r u' x' now)) = ac_users db"
  "ac_passwords (snd (adapter_updateSession sha missing db r u' x' now)) = ac_passwords db"
  "ac_limits (snd (adapter_updateSession sha missing db r u' x' now)) = ac_limits db"
  by (simp_all add: adapter_createSession_def adapter_updateSession_def snd_case_sum login_session_tables split: option.split sum.split)

lemma adapter_read_tables:
  "ac_tokens (snd (adapter_deleteSession sha db r)) = ac_tokens db"
  "ac_users (snd (adapter_deleteSession sha db r)) = ac_users db"
  "ac_passwords (snd (adapter_deleteSession sha db r)) = ac_passwords db"
  "ac_limits (snd (adapter_deleteSession sha db r)) = ac_limits db"
  "ac_tokens (snd (adapter_getSessionAndUser sha db r now)) = ac_tokens db"
  "ac_users (snd (adapter_getSessionAndUser sha db r now)) = ac_users db"
  "ac_passwords (snd (adapter_getSessionAndUser sha db r now)) = ac_passwords db"
  "ac_limits (snd (adapter_getSessionAndUser sha db r now)) = ac_limits db"
  by (simp_all add: adapter_deleteSession_def adapter_getSessionAndUser_def auth_deleteSession_def split: option.split sum.split)

lemma profile_edit_tables:
  "ac_tokens (snd (updateOwnProfile unique db u n a)) = ac_tokens db"
  "ac_users (snd (updateOwnProfile unique db u n a)) = ac_users db"
  "ac_passwords (snd (updateOwnProfile unique db u n a)) = ac_passwords db"
  "ac_limits (snd (updateOwnProfile unique db u n a)) = ac_limits db"
  by (simp_all add: updateOwnProfile_def Let_def)

lemma limit_tables:
  "ac_tokens (snd (takeRateLimitAttempt overflow db h lk now w l)) = ac_tokens db"
  "ac_users (snd (takeRateLimitAttempt overflow db h lk now w l)) = ac_users db"
  "ac_passwords (snd (takeRateLimitAttempt overflow db h lk now w l)) = ac_passwords db"
  by (simp_all add: takeRateLimitAttempt_def Let_def)

lemma link_tables:
  "ac_tokens (snd (auth_linkIdentity missing db u p s)) = ac_tokens db"
  "ac_users (snd (auth_linkIdentity missing db u p s)) = ac_users db"
  "ac_passwords (snd (auth_linkIdentity missing db u p s)) = ac_passwords db"
  "ac_limits (snd (auth_linkIdentity missing db u p s)) = ac_limits db"
  by (simp_all add: auth_linkIdentity_def split: option.split)

lemma user_tables:
  "ac_tokens (snd (adapter_createUser unique db u e nm x now)) = ac_tokens db"
  "ac_passwords (snd (adapter_createUser unique db u e nm x now)) = ac_passwords db"
  "ac_limits (snd (adapter_createUser unique db u e nm x now)) = ac_limits db"
  "ac_tokens (snd (adapter_updateUser unique db u e' nm x now)) = ac_tokens db"
  "ac_passwords (snd (adapter_updateUser unique db u e' nm x now)) = ac_passwords db"
  "ac_limits (snd (adapter_updateUser unique db u e' nm x now)) = ac_limits db"
  by (simp_all add: adapter_createUser_def auth_createUser_def adapter_updateUser_def auth_updateUser_def Let_def split: option.split)

lemmas other_tables = login_session_tables adapter_session_tables adapter_read_tables profile_edit_tables limit_tables link_tables user_tables load_tables

lemma action_tokens_step: "tokens_next (issues op) (ac_tokens db) (ac_tokens (account_step v op db))"
  by (cases op) (simp_all add: register_tokens consume_tokens rotate_tokens reset_tokens delete_tokens cleanup_tokens
    other_tables)

lemma action_tokens_run:
  assumes "hashes_ok db" "not_open h (ac_tokens db)" "list_all (\<lambda>op. h \<notin> set (issues op)) ops"
  shows "hashes_ok (account_run v ops db) \<and> not_open h (ac_tokens (account_run v ops db))"
  using assms
proof (induction ops arbitrary: db)
  case (Cons op ops)
  have "hashes_ok (account_step v op db)" "not_open h (ac_tokens (account_step v op db))"
    using action_tokens_step [of op db v] Cons.prems by (simp_all add: tokens_next_def hashes_ok_def)
  then show ?case using Cons by simp
qed simp

subsection \<open>Users\<close>

definition users_ok :: "accounts_db \<Rightarrow> bool" where
  "users_ok db = distinct (map ur_id (ac_users db))"

text \<open>What a step does to the users: rows that are disabled stay as they are, identifiers stay unique.\<close>

definition users_next :: "user_row list \<Rightarrow> user_row list \<Rightarrow> bool" where
  "users_next us us' = (distinct (map ur_id us) \<longrightarrow> distinct (map ur_id us')
     \<and> (\<forall>u \<in> set us. ur_disabledAt u \<noteq> None \<longrightarrow> u \<in> set us'))"

lemma users_next_refl [simp]: "users_next us us"
  by (simp add: users_next_def)

lemma users_next_add: "\<not> list_ex (same_user u) us \<Longrightarrow> users_next us (us @ [u])"
  by (auto simp: users_next_def list_ex_iff same_user_def)

lemma users_next_update:
  assumes "\<And>u. ur_id (f u) = ur_id u"
    and "distinct (map ur_id us) \<Longrightarrow> (\<And>u. u \<in> set us \<Longrightarrow> P u \<Longrightarrow> ur_disabledAt u = None)"
  shows "users_next us (update_where P f us)"
proof -
  have "map ur_id (update_where P f us) = map ur_id us" using assms(1) by (rule map_update_where)
  moreover have "u \<in> set (update_where P f us)" if "distinct (map ur_id us)" "u \<in> set us" "ur_disabledAt u \<noteq> None" for u
  proof -
    have "\<not> P u" using assms(2) [OF that(1,2)] that(3) by auto
    then show ?thesis using imageI [OF that(2), of "\<lambda>u. if P u then f u else u"] by (simp add: update_where_def)
  qed
  ultimately show ?thesis unfolding users_next_def by simp
qed

lemma register_users: "users_next (ac_users db) (ac_users (snd (registerPendingAccount unique db i now u ns t)))"
proof (cases "register_body unique db i now u ns t")
  case (Pair r s)
  show ?thesis
  proof (cases r)
    case (Inl e)
    then show ?thesis using Pair by (simp add: registerPendingAccount_def)
  next
    case (Inr a)
    have run: "register_body unique db i now u ns t = (Inr a, s)" using Pair Inr by simp
    have "users_next (ac_users db) (ac_users s)"
      by (rule register_body_cases [OF run]) (drule finish_tokens, simp add: users_next_add)+
    then show ?thesis by (simp add: registerPendingAccount_def run)
  qed
qed

lemma consume_users: "users_next (ac_users db) (ac_users (snd (consumeActionToken db k h now)))"
  by (auto simp: consumeActionToken_def Let_def spend_tokens_def active_user_def split: option.split intro!: users_next_update)

lemma delete_users_next: "users_next (ac_users db) (ac_users (snd (deleteOwnAccount unique db u now d)))"
  by (auto simp: deleteOwnAccount_def Let_def active_user_def intro!: users_next_update)

lemma update_users: "users_next (ac_users db) (ac_users (snd (adapter_updateUser unique db u e nm x now)))"
proof (cases "toAdapterUser (auth_getUser db u)")
  case None
  then show ?thesis by (simp add: adapter_updateUser_def)
next
  case (Some current)
  then obtain row where row: "List.find (\<lambda>r. ur_id r = u) (ac_users db) = Some row" "ur_disabledAt row = None"
      "su_id current = u"
    by (auto simp: toAdapterUser_def auth_getUser_def mapUser_def split: option.splits if_splits dest: find_in_set)
  have dis: "ur_disabledAt r = None" if "distinct (map ur_id (ac_users db))" "r \<in> set (ac_users db)" "ur_id r = u" for r
  proof -
    have "row \<in> set (ac_users db)" "ur_id row = u" using find_in_set [OF row(1)] by simp_all
    then have "r = row" using that by (metis (no_types, lifting) distinct_map inj_onD)
    then show ?thesis using row(2) by simp
  qed
  show ?thesis
    unfolding adapter_updateUser_def Some option.case updated_user_def auth_updateUser_def Let_def
    by (auto split: option.split simp: row(3) intro!: users_next_update dis)
qed

lemma create_users: "users_next (ac_users db) (ac_users (snd (adapter_createUser unique db u e nm x now)))"
  by (auto simp: adapter_createUser_def auth_createUser_def Let_def add_row_Some users_next_add split: option.splits)

lemma cleanup_users: "users_next (ac_users db) (ac_users (snd (cleanupExpiredAccountData db now b)))"
proof (cases b)
  case (Fin n)
  let ?batch = "cleanup_batch n"
  obtain db1 ids where db1: "snd (cleanup_body db now ?batch) = delete_users ids db1" "ac_users db1 = ac_users db"
      "\<forall>i \<in> set ids. \<exists>u p. (u, p) \<in> set (List.product (ac_users db1) (ac_passwords db1)) \<and> stale_account db1 (now - 7 * 24 * 60 * 60 * 1000) (u, p) \<and> i = ur_id u"
  proof
    let ?db1 = "db\<lparr>ac_tokens := filter (\<lambda>t. tk_id t \<notin> set (map tk_id (take ?batch (filter (\<lambda>t. tk_expiresAt t < now) (ac_tokens db))))) (ac_tokens db),
      ac_limits := filter (\<lambda>r. \<not> list_ex (\<lambda>r'. limit_key (rl_keyHash r') (rl_kind r') (rl_windowStartedAt r') r)
         (take ?batch (filter (\<lambda>r. rl_expiresAt r < now) (ac_limits db)))) (ac_limits db)\<rparr>"
    let ?ids = "map (ur_id \<circ> fst) (take ?batch (filter (stale_account ?db1 (now - 7 * 24 * 60 * 60 * 1000))
            (List.product (ac_users ?db1) (ac_passwords ?db1))))"
    show "snd (cleanup_body db now ?batch) = delete_users ?ids ?db1" unfolding cleanup_body_def Let_def snd_conv by (rule refl)
    show "ac_users ?db1 = ac_users db" by simp
    show "\<forall>i \<in> set ?ids. \<exists>u p. (u, p) \<in> set (List.product (ac_users ?db1) (ac_passwords ?db1))
        \<and> stale_account ?db1 (now - 7 * 24 * 60 * 60 * 1000) (u, p) \<and> i = ur_id u"
      by (force dest!: in_set_takeD)
  qed
  have "users_next (ac_users db) (ac_users (delete_users ids db1))"
    unfolding users_next_def
  proof (intro impI conjI ballI)
    assume d: "distinct (map ur_id (ac_users db))"
    show "distinct (map ur_id (ac_users (delete_users ids db1)))"
      using d by (simp add: delete_users_def db1(2) distinct_map_filter)
    fix u
    assume u: "u \<in> set (ac_users db)" "ur_disabledAt u \<noteq> None"
    have "ur_id u \<notin> set ids"
    proof
      assume "ur_id u \<in> set ids"
      then obtain u' p where "u' \<in> set (ac_users db)" "ur_disabledAt u' = None" "ur_id u = ur_id u'"
        using db1(2,3) by (fastforce simp: stale_account_def)
      then have "u = u'" using d u(1) by (metis (no_types, lifting) distinct_map inj_onD)
      then show False using u(2) \<open>ur_disabledAt u' = None\<close> by simp
    qed
    then show "u \<in> set (ac_users (delete_users ids db1))" using u(1) by (simp add: delete_users_def db1(2))
  qed
  then show ?thesis by (simp add: cleanupExpiredAccountData_def Fin split_beta db1(1))
qed (simp_all add: cleanupExpiredAccountData_def)

lemma rotate_users:
  "ac_users (snd (createOrRotateActionToken unique db e k h x now i)) = ac_users db"
  "ac_users (snd (replacePasswordAndRevokeSessions db h p now)) = ac_users db"
  by (simp_all add: createOrRotateActionToken_def replacePasswordAndRevokeSessions_def Let_def split: option.split)

lemma users_step: "users_next (ac_users db) (ac_users (account_step v op db))"
  by (cases op) (simp_all add: register_users consume_users delete_users_next update_users create_users cleanup_users
    rotate_users other_tables)

lemma users_run:
  "users_ok db \<Longrightarrow> users_ok (account_run v ops db)
    \<and> (\<forall>u \<in> set (ac_users db). ur_disabledAt u \<noteq> None \<longrightarrow> u \<in> set (ac_users (account_run v ops db)))"
proof (induction ops arbitrary: db)
  case (Cons op ops)
  then show ?case using users_step [of db v op] by (simp add: users_ok_def users_next_def)
qed simp

subsection \<open>Passwords\<close>

text \<open>How a row of the credentials comes about in a step: it was there, it is new and not
  verified, it is verified by a token that was sent for it, or its password is set with one.\<close>

definition password_origin :: "accounts_db \<Rightarrow> account_op \<Rightarrow> password_row \<Rightarrow> bool" where
  "password_origin db op p' = (p' \<in> set (ac_passwords db)
     \<or> (case op of
          Register i now u ns t \<Rightarrow> p' = new_password (pw_userId p') (rg_passwordHash i) now \<and> pw_userId p' \<notin> pw_userId ` set (ac_passwords db)
        | Consume k h now \<Rightarrow> k = Verify_email
            \<and> list_ex (\<lambda>p. pw_verifiedAt p = None \<and> p' = p\<lparr>pw_verifiedAt := Some now, pw_updatedAt := now\<rparr>
                \<and> list_ex (\<lambda>t. open_action_token h Verify_email now t \<and> tk_userId t = pw_userId p) (ac_tokens db)) (ac_passwords db)
        | Reset_With h hash now \<Rightarrow>
            list_ex (\<lambda>p. pw_verifiedAt p \<noteq> None \<and> p' = p\<lparr>pw_hash := hash, pw_changedAt := now, pw_updatedAt := now\<rparr>
                \<and> list_ex (\<lambda>t. open_action_token h Reset_password now t \<and> tk_userId t = pw_userId p) (ac_tokens db)) (ac_passwords db)
        | _ \<Rightarrow> False))"

lemma register_passwords:
  assumes "p' \<in> set (ac_passwords (snd (registerPendingAccount unique db i now u ns t)))"
  shows "p' \<in> set (ac_passwords db) \<or> p' = new_password (pw_userId p') (rg_passwordHash i) now \<and> pw_userId p' \<notin> pw_userId ` set (ac_passwords db)"
proof (cases "register_body unique db i now u ns t")
  case (Pair r s)
  show ?thesis
  proof (cases r)
    case (Inl e)
    then show ?thesis using Pair assms by (simp add: registerPendingAccount_def)
  next
    case (Inr a)
    have run: "register_body unique db i now u ns t = (Inr a, s)" using Pair Inr by simp
    have mem: "p' \<in> set (ac_passwords s)" using assms by (simp add: registerPendingAccount_def run)
    show ?thesis
      by (rule register_body_cases [OF run]) (drule finish_tokens, use mem in \<open>auto simp: new_password_def\<close>)+
  qed
qed

lemma first_row_filter: "first_row (filter P xs) = Some x \<Longrightarrow> x \<in> set xs \<and> P x"
  by (cases "filter P xs") (auto dest: filter_eq_ConsD)

lemma consume_passwords:
  assumes "p' \<in> set (ac_passwords (snd (consumeActionToken db k h now)))"
  shows "password_origin db (Consume k h now) p'"
proof (cases "first_row (filter (open_action_token h k now) (ac_tokens db))")
  case None
  then show ?thesis using assms by (simp add: consumeActionToken_def password_origin_def)
next
  case (Some t)
  note t = first_row_filter [OF Some]
  let ?Q = "\<lambda>p. pw_userId p = tk_userId t \<and> pw_verifiedAt p = None"
  have "p' \<in> set (ac_passwords db) \<or> k = Verify_email \<and> p' \<in> set (update_where ?Q (\<lambda>p. p\<lparr>pw_verifiedAt := Some now, pw_updatedAt := now\<rparr>) (ac_passwords db))"
    using assms by (simp add: consumeActionToken_def Some Let_def spend_tokens_def split: if_splits option.splits)
  then consider "p' \<in> set (ac_passwords db)"
    | p where "k = Verify_email" "p \<in> set (ac_passwords db)" "?Q p" "p' = p\<lparr>pw_verifiedAt := Some now, pw_updatedAt := now\<rparr>"
    by (auto simp: in_update_where split: if_splits)
  then show ?thesis
  proof cases
    case (2 p)
    then show ?thesis
      using t unfolding password_origin_def list_ex_iff account_op.case
      by (intro disjI2 conjI bexI [of _ p] bexI [of _ t]) simp_all
  qed (simp add: password_origin_def)
qed

lemma reset_passwords:
  assumes "p' \<in> set (ac_passwords (snd (replacePasswordAndRevokeSessions db h hash now)))"
  shows "password_origin db (Reset_With h hash now) p'"
proof (cases "first_row (filter (resettable_token db h now) (ac_tokens db))")
  case None
  then show ?thesis using assms by (simp add: replacePasswordAndRevokeSessions_def password_origin_def)
next
  case (Some t)
  note t = first_row_filter [OF Some]
  let ?Q = "\<lambda>p. pw_userId p = tk_userId t \<and> pw_verifiedAt p \<noteq> None"
  have "p' \<in> set (ac_passwords db) \<or> p' \<in> set (update_where ?Q (\<lambda>p. p\<lparr>pw_hash := hash, pw_changedAt := now, pw_updatedAt := now\<rparr>) (ac_passwords db))"
    using assms by (simp add: replacePasswordAndRevokeSessions_def Some Let_def split: if_splits)
  then consider "p' \<in> set (ac_passwords db)"
    | p where "p \<in> set (ac_passwords db)" "?Q p" "p' = p\<lparr>pw_hash := hash, pw_changedAt := now, pw_updatedAt := now\<rparr>"
    by (auto simp: in_update_where split: if_splits)
  then show ?thesis
  proof cases
    case (2 p)
    then show ?thesis
      using t unfolding password_origin_def list_ex_iff account_op.case resettable_token_def
      by (intro disjI2 conjI bexI [of _ p] bexI [of _ t]) simp_all
  qed (simp add: password_origin_def)
qed

lemma fewer_passwords:
  "set (ac_passwords (snd (deleteOwnAccount unique db u now d))) \<subseteq> set (ac_passwords db)"
  "set (ac_passwords (snd (cleanupExpiredAccountData db now b))) \<subseteq> set (ac_passwords db)"
  "ac_passwords (snd (createOrRotateActionToken unique db e k h x now i)) = ac_passwords db"
proof -
  show "set (ac_passwords (snd (deleteOwnAccount unique db u now d))) \<subseteq> set (ac_passwords db)"
    by (auto simp: deleteOwnAccount_def Let_def)
  show "set (ac_passwords (snd (cleanupExpiredAccountData db now b))) \<subseteq> set (ac_passwords db)"
    using cleanup_cases [of db now b] by (auto simp: delete_users_def)
qed (simp add: createOrRotateActionToken_def Let_def split: option.split)

lemma passwords_step: "p' \<in> set (ac_passwords (account_step v op db)) \<Longrightarrow> password_origin db op p'"
proof -
  assume p: "p' \<in> set (ac_passwords (account_step v op db))"
  have old: "set (ac_passwords (account_step v op db)) \<subseteq> set (ac_passwords db) \<Longrightarrow> ?thesis"
    using p by (auto simp: password_origin_def)
  show ?thesis
  proof (cases op)
    case (Register i now u ns t)
    then show ?thesis using p register_passwords [of p' "en_unique v" db i now u ns t] by (auto simp: password_origin_def)
  next
    case (Consume k h now)
    then show ?thesis using p consume_passwords by simp
  next
    case (Reset_With h hash now)
    then show ?thesis using p reset_passwords by simp
  qed (use old in \<open>simp_all add: fewer_passwords other_tables\<close>)
qed

subsection \<open>Retried errors\<close>

text \<open>The n-th cause of an error, when there is one.\<close>

fun cause_at :: "error_object list \<Rightarrow> nat \<Rightarrow> nat \<Rightarrow> nat option" where
  "cause_at heap i 0 = Some i"
| "cause_at heap i (Suc n) = (if i < length heap then (case eo_cause (heap ! i) of None \<Rightarrow> None | Some j \<Rightarrow> cause_at heap j n) else None)"

definition retryable_at :: "error_object list \<Rightarrow> nat \<Rightarrow> bool" where
  "retryable_at heap i = (i < length heap \<and> retryable_code (heap ! i))"

lemma walk_finds:
  "isRetryableTransactionError heap visited (Some i) \<Longrightarrow> \<exists>n j. cause_at heap i n = Some j \<and> retryable_at heap j"
proof (induction heap visited "Some i" arbitrary: i rule: isRetryableTransactionError.induct)
  case (2 heap visited i)
  show ?case
  proof (cases "retryable_code (heap ! i)")
    case True
    then show ?thesis using "2.prems" by (intro exI [of _ 0] exI [of _ i]) (simp add: retryable_at_def split: if_splits)
  next
    case False
    then have i: "i < length heap" "i \<notin> set visited" "isRetryableTransactionError heap (i # visited) (eo_cause (heap ! i))"
      using "2.prems" by (auto split: if_splits)
    then obtain j where j: "eo_cause (heap ! i) = Some j" by (cases "eo_cause (heap ! i)") auto
    then obtain n k where "cause_at heap j n = Some k" "retryable_at heap k"
      using "2.hyps" [of j] i False by auto
    then show ?thesis using i(1) j by (intro exI [of _ "Suc n"] exI [of _ k]) simp
  qed
qed

lemma closed_causes:
  assumes "\<forall>x \<in> V. \<not> retryable_at heap x \<and> (\<forall>y. x < length heap \<longrightarrow> eo_cause (heap ! x) = Some y \<longrightarrow> y \<in> V)"
  shows "i \<in> V \<Longrightarrow> cause_at heap i n = Some j \<Longrightarrow> j \<in> V \<and> \<not> retryable_at heap j"
proof (induction n arbitrary: i)
  case 0
  then show ?case using assms by auto
next
  case (Suc n)
  then show ?case using assms by (auto split: if_splits option.splits)
qed

lemma walk_complete:
  assumes "\<not> isRetryableTransactionError heap visited (Some i)"
    and "\<forall>x \<in> set visited. \<not> retryable_at heap x \<and> (\<forall>y. x < length heap \<longrightarrow> eo_cause (heap ! x) = Some y \<longrightarrow> y \<in> insert i (set visited))"
  shows "cause_at heap i n = Some j \<Longrightarrow> \<not> retryable_at heap j"
  using assms
proof (induction heap visited "Some i" arbitrary: i n j rule: isRetryableTransactionError.induct)
  case (2 heap visited i)
  consider (out) "i \<ge> length heap" | (seen) "i \<in> set visited" | (new) "i < length heap" "i \<notin> set visited" by fastforce
  then show ?case
  proof cases
    case out
    then show ?thesis using "2.prems"(1) by (cases n) (simp_all add: retryable_at_def)
  next
    case seen
    then have "insert i (set visited) = set visited" by blast
    then show ?thesis using closed_causes [of "set visited" heap i n j] "2.prems"(1,3) seen by simp
  next
    case new
    then have none: "\<not> retryable_code (heap ! i)" "\<not> isRetryableTransactionError heap (i # visited) (eo_cause (heap ! i))"
      using "2.prems"(2) by (simp_all split: if_splits)
    show ?thesis
    proof (cases n)
      case 0
      then show ?thesis using "2.prems"(1) none(1) by (auto simp: retryable_at_def)
    next
      case (Suc m)
      then obtain k where k: "eo_cause (heap ! i) = Some k" "cause_at heap k m = Some j"
        using "2.prems"(1) by (auto split: if_splits option.splits)
      have "\<forall>x \<in> set (i # visited). \<not> retryable_at heap x \<and> (\<forall>y. x < length heap \<longrightarrow> eo_cause (heap ! x) = Some y \<longrightarrow> y \<in> insert k (set (i # visited)))"
        using "2.prems"(3) none(1) k(1) by (auto simp: retryable_at_def)
      then show ?thesis using "2.hyps" [of k m j] new none k by auto
    qed
  qed
qed

subsection \<open>Rate limits\<close>

definition limits_ok :: "accounts_db \<Rightarrow> bool" where
  "limits_ok db = distinct (map (\<lambda>r. (rl_keyHash r, rl_kind r, rl_windowStartedAt r)) (ac_limits db))"

definition attempts_of :: "accounts_db \<Rightarrow> string \<Rightarrow> limit_kind \<Rightarrow> date \<Rightarrow> int" where
  "attempts_of db key kind started = (case List.find (limit_key key kind started) (ac_limits db) of None \<Rightarrow> 0 | Some r \<Rightarrow> rl_attemptCount r)"

text \<open>Attempts one after another: the answers, oldest first.\<close>

fun run_attempts :: "error_codes \<Rightarrow> jsnum \<Rightarrow> jsnum \<Rightarrow> accounts_db \<Rightarrow> (string \<times> limit_kind \<times> date) list \<Rightarrow> (account_error + rate_attempt) list" where
  "run_attempts overflow w l db [] = []"
| "run_attempts overflow w l db ((h, k, now) # as) =
     (case takeRateLimitAttempt overflow db h k now w l of (r, db') \<Rightarrow> r # run_attempts overflow w l db' as)"

definition in_window :: "string \<Rightarrow> limit_kind \<Rightarrow> date \<Rightarrow> int \<Rightarrow> string \<times> limit_kind \<times> date \<Rightarrow> bool" where
  "in_window key kind started w a = (case a of (h, k, now) \<Rightarrow> js_lower h = key \<and> k = kind \<and> window_start now w = started)"

definition was_allowed :: "account_error + rate_attempt \<Rightarrow> bool" where
  "was_allowed r = (case r of Inl e \<Rightarrow> False | Inr a \<Rightarrow> ra_allowed a)"

lemma find_limit_update:
  "List.find (limit_key key kind s) (update_where (limit_key key' kind' s') (\<lambda>r. r\<lparr>rl_attemptCount := rl_attemptCount r + 1, rl_expiresAt := x\<rparr>) rows) =
   map_option (\<lambda>r. if key = key' \<and> kind = kind' \<and> s = s' then r\<lparr>rl_attemptCount := rl_attemptCount r + 1, rl_expiresAt := x\<rparr> else r)
     (List.find (limit_key key kind s) rows)"
  by (induction rows) (auto simp: update_where_def limit_key_def)

lemma attempt_counts:
  assumes "is_hmac_digest h" "positive_safe w" "positive_safe l" "attempts_of db (js_lower h) k (window_start now (int_of_js w)) < 2147483647"
  shows "\<exists>db'. takeRateLimitAttempt overflow db h k now w l =
      (Inr \<lparr>ra_allowed = (attempts_of db (js_lower h) k (window_start now (int_of_js w)) + 1 \<le> int_of_js l),
         ra_remaining = max 0 (int_of_js l - (attempts_of db (js_lower h) k (window_start now (int_of_js w)) + 1)),
         ra_retryAfterMs = max 0 (window_start now (int_of_js w) + int_of_js w - now)\<rparr>, db')
    \<and> (\<forall>key kind s. attempts_of db' key kind s = attempts_of db key kind s +
         (if key = js_lower h \<and> kind = k \<and> s = window_start now (int_of_js w) then 1 else 0))"
proof -
  let ?P = "limit_key (js_lower h) k (window_start now (int_of_js w))"
  show ?thesis
  proof (cases "List.find ?P (ac_limits db)")
    case None
    then have "\<not> list_ex ?P (ac_limits db)" by (auto simp: find_None_iff list_ex_iff)
    then show ?thesis
      using assms None by (auto simp: takeRateLimitAttempt_def Let_def attempts_of_def find_append limit_key_def split: option.split)
  next
    case (Some r)
    then have "list_ex ?P (ac_limits db)" using find_in_set by (force simp: list_ex_iff)
    then show ?thesis
      using assms Some by (auto simp: takeRateLimitAttempt_def Let_def attempts_of_def find_limit_update split: option.split)
  qed
qed

lemma allowed_attempts:
  assumes "positive_safe w" "positive_safe l" "list_all (\<lambda>(h, k, now). is_hmac_digest h) as"
    and "attempts_of db key kind started \<ge> 0" "\<forall>key kind s. attempts_of db key kind s + int (length as) \<le> 2147483647"
  shows "int (length (filter was_allowed (map snd (filter (in_window key kind started (int_of_js w) \<circ> fst) (zip as (run_attempts overflow w l db as)))))) =
     min (int (length (filter (in_window key kind started (int_of_js w)) as))) (max 0 (int_of_js l - attempts_of db key kind started))"
  using assms(3-5)
proof (induction as arbitrary: db)
  case (Cons a as)
  obtain h k now where a: "a = (h, k, now)" using prod_cases3 by blast
  let ?started = "window_start now (int_of_js w)"
  have digest: "is_hmac_digest h" using Cons.prems(1) a by simp
  have "attempts_of db (js_lower h) k ?started + int (length (a # as)) \<le> 2147483647" using Cons.prems(3) by blast
  then have "attempts_of db (js_lower h) k ?started < 2147483647" by simp
  then obtain db' where run: "takeRateLimitAttempt overflow db h k now w l =
      (Inr \<lparr>ra_allowed = (attempts_of db (js_lower h) k ?started + 1 \<le> int_of_js l),
         ra_remaining = max 0 (int_of_js l - (attempts_of db (js_lower h) k ?started + 1)),
         ra_retryAfterMs = max 0 (?started + int_of_js w - now)\<rparr>, db')"
     and count: "\<And>key kind s. attempts_of db' key kind s = attempts_of db key kind s +
         (if key = js_lower h \<and> kind = k \<and> s = ?started then 1 else 0)"
    using attempt_counts [OF digest assms(1,2)] by blast
  have bound: "\<forall>key kind s. attempts_of db' key kind s + int (length as) \<le> 2147483647"
  proof (intro allI)
    fix key kind s
    show "attempts_of db' key kind s + int (length as) \<le> 2147483647"
      using Cons.prems(3) [rule_format, of key kind s] by (auto simp: count)
  qed
  have IH: "int (length (filter was_allowed (map snd (filter (in_window key kind started (int_of_js w) \<circ> fst) (zip as (run_attempts overflow w l db' as)))))) =
     min (int (length (filter (in_window key kind started (int_of_js w)) as))) (max 0 (int_of_js l - attempts_of db' key kind started))"
    using Cons.prems by (intro Cons.IH bound) (simp_all add: count)
  have "in_window key kind started (int_of_js w) a \<longleftrightarrow> key = js_lower h \<and> kind = k \<and> started = ?started"
    by (auto simp: in_window_def a)
  then show ?case
    using IH Cons.prems(2) by (auto simp: a run count was_allowed_def)
qed simp

subsection \<open>Properties\<close>

lemma not_open_refused:
  assumes "not_open h (ac_tokens db)"
  shows "consumeActionToken db k h now = (Inr None, db)" "replacePasswordAndRevokeSessions db h p now = (Inr None, db)"
proof -
  have "filter (open_action_token h k now) (ac_tokens db) = []" "filter (resettable_token db h now) (ac_tokens db) = []"
    using assms by (auto simp: filter_empty_conv not_open_def list_all_iff open_action_token_def resettable_token_def)
  then show "consumeActionToken db k h now = (Inr None, db)" "replacePasswordAndRevokeSessions db h p now = (Inr None, db)"
    by (simp_all add: consumeActionToken_def replacePasswordAndRevokeSessions_def Let_def)
qed

lemma used_not_open:
  assumes ok: "hashes_ok db" and t: "t \<in> set (ac_tokens db)" "P t" "tk_tokenHash t = h"
  shows "not_open h (filter Q (update_where P (\<lambda>t. t\<lparr>tk_consumedAt := Some now\<rparr>) (ac_tokens db)))"
  unfolding not_open_def list_all_iff
proof (intro ballI impI)
  fix t' :: action_token_row
  assume t': "t' \<in> set (filter Q (update_where P (\<lambda>t. t\<lparr>tk_consumedAt := Some now\<rparr>) (ac_tokens db)))" "tk_tokenHash t' = h"
  then obtain s where s: "s \<in> set (ac_tokens db)" "t' = (if P s then s\<lparr>tk_consumedAt := Some now\<rparr> else s)"
    by (auto simp: in_update_where)
  then have "tk_tokenHash s = tk_tokenHash t" using t'(2) t(3) by (auto split: if_splits)
  then have "s = t" using distinct_map_eq [of tk_tokenHash "ac_tokens db" s t] ok s(1) t(1) by (simp add: hashes_ok_def)
  then show "tk_consumedAt t' \<noteq> None" using s(2) t(2) by simp
qed

definition failed_retryably :: "(account_error, 'a, 's) outcome \<Rightarrow> bool" where
  "failed_retryably r = (case fst r of Inl e \<Rightarrow> retryable_error e | Inr v \<Rightarrow> False)"

lemma first_tries: "[1..<1] = ([] :: nat list)" "[1..<2] = [1 :: nat]" "[1..<3] = [1, 2 :: nat]"
  by (simp_all add: upt_conv_Cons)

lemma transaction_stops:
  assumes "k \<le> 3" "\<not> (k < 3 \<and> failed_retryably (operation k s))"
  shows "runTransaction operation k s = (case operation k s of (Inr v, s') \<Rightarrow> (Inr v, s') | (Inl e, s') \<Rightarrow> (Inl e, s))"
proof (cases "operation k s")
  case (Pair r s')
  then show ?thesis
    using assms by (cases r) (auto simp: runTransaction.simps [of operation k] maximumTransactionAttempts_def failed_retryably_def)
qed

lemma transaction_goes_on:
  assumes "k < 3" "failed_retryably (operation k s)"
  shows "runTransaction operation k s = runTransaction operation (Suc k) s"
proof (cases "operation k s")
  case (Pair r s')
  then show ?thesis
    using assms by (cases r) (simp_all add: runTransaction.simps [of operation k] maximumTransactionAttempts_def failed_retryably_def)
qed

text \<open>
  Property C17: an action token works once. When a token has verified an address or set a
  password, every later use of it, for either purpose, is refused and changes nothing, whatever
  was done in between, as long as no new token is issued with the same digest.
\<close>

theorem action_token_works_once:
  assumes "hashes_ok db"
    and "consumeActionToken db k h now = (Inr (Some a), db1) \<or> replacePasswordAndRevokeSessions db h p now = (Inr (Some a), db1)"
    and "list_all (\<lambda>op. h \<notin> set (issues op)) ops" and "db2 = account_run v ops db1"
  shows "consumeActionToken db2 k' h now' = (Inr None, db2) \<and> replacePasswordAndRevokeSessions db2 h p' now' = (Inr None, db2)"
proof -
  have "not_open h (ac_tokens db1) \<and> hashes_ok db1"
    using assms(2)
  proof
    assume run: "consumeActionToken db k h now = (Inr (Some a), db1)"
    then obtain t where t: "first_row (filter (open_action_token h k now) (ac_tokens db)) = Some t"
      by (auto simp: consumeActionToken_def Let_def split: option.splits)
    have "ac_tokens db1 = filter (\<lambda>_. True) (update_where (open_action_token h k now) (\<lambda>t. t\<lparr>tk_consumedAt := Some now\<rparr>) (ac_tokens db))"
      using run t by (auto simp: consumeActionToken_def Let_def spend_tokens_def split: option.splits if_splits)
    then show ?thesis
      using used_not_open [OF assms(1), of t "open_action_token h k now" h "\<lambda>_. True" now] first_row_filter [OF t] assms(1)
        consume_tokens [of "[]" db k h now] run
      by (auto simp: open_action_token_def tokens_next_def hashes_ok_def)
  next
    assume run: "replacePasswordAndRevokeSessions db h p now = (Inr (Some a), db1)"
    then obtain t where t: "first_row (filter (resettable_token db h now) (ac_tokens db)) = Some t"
      by (auto simp: replacePasswordAndRevokeSessions_def Let_def split: option.splits)
    have "ac_tokens db1 = filter (\<lambda>x. \<not> (tk_userId x = tk_userId t \<and> tk_kind x = Reset_password))
        (update_where (resettable_token db h now) (\<lambda>t. t\<lparr>tk_consumedAt := Some now\<rparr>) (ac_tokens db))"
      using run t by (auto simp: replacePasswordAndRevokeSessions_def Let_def split: if_splits)
    then show ?thesis
      using used_not_open [OF assms(1), of t "resettable_token db h now" h] first_row_filter [OF t] assms(1)
        reset_tokens [of "[]" db h p now] run
      by (auto simp: open_action_token_def resettable_token_def tokens_next_def hashes_ok_def)
  qed
  then have "not_open h (ac_tokens db2)" using action_tokens_run [of db1 h ops v] assms(3,4) by simp
  then show ?thesis using not_open_refused by blast
qed

text \<open>
  Property C18: a password is set and verified only with a token. Whatever operation is done, a
  row of the credentials afterwards was there before, or is the unverified one of a registration
  for an account that had none, or was verified by the use of a running verification token of
  that account, or got its password by the use of a running reset token of that account.
\<close>

theorem passwords_change_only_with_tokens:
  assumes "p' \<in> set (ac_passwords (account_step v op db))"
  shows "p' \<in> set (ac_passwords db)
    \<or> (\<exists>i now u ns t. op = Register i now u ns t \<and> p' = new_password (pw_userId p') (rg_passwordHash i) now
         \<and> pw_userId p' \<notin> pw_userId ` set (ac_passwords db))
    \<or> (\<exists>h now p t. op = Consume Verify_email h now \<and> p \<in> set (ac_passwords db) \<and> p' = p\<lparr>pw_verifiedAt := Some now, pw_updatedAt := now\<rparr>
         \<and> t \<in> set (ac_tokens db) \<and> open_action_token h Verify_email now t \<and> tk_userId t = pw_userId p)
    \<or> (\<exists>h hash now p t. op = Reset_With h hash now \<and> p \<in> set (ac_passwords db) \<and> pw_verifiedAt p \<noteq> None
         \<and> p' = p\<lparr>pw_hash := hash, pw_changedAt := now, pw_updatedAt := now\<rparr>
         \<and> t \<in> set (ac_tokens db) \<and> open_action_token h Reset_password now t \<and> tk_userId t = pw_userId p)"
  using passwords_step [OF assms] unfolding password_origin_def list_ex_iff
  by (cases op) (simp_all, blast+)

lemma sign_in_candidate:
  "findPasswordSignIn db e = Some c \<Longrightarrow> \<exists>u \<in> set (ac_users db). ur_id u = sc_userId c \<and> ur_disabledAt u = None"
  by (auto simp: findPasswordSignIn_def sign_in_eligible_def split: option.splits dest!: find_in_set)

lemma adapter_user: "toAdapterUser (auth_getUser db i) = Some u \<Longrightarrow> su_id u = i \<and> (\<exists>r \<in> set (ac_users db). ur_id r = i \<and> ur_disabledAt r = None)"
  by (auto simp: toAdapterUser_def auth_getUser_def mapUser_def split: option.splits if_splits dest!: find_in_set)

lemma session_of_active:
  "adapter_getSessionAndUser sha db r now = (Inr (Some (s, u)), db') \<Longrightarrow>
   su_id u = ax_userId s \<and> now < ax_expires s \<and> (\<exists>x \<in> set (ac_users db). ur_id x = ax_userId s \<and> ur_disabledAt x = None)"
  using adapter_user by (fastforce simp: adapter_getSessionAndUser_def toAdapterSession_def split: option.splits sum.splits if_splits)

lemma find_update_where:
  assumes "\<And>x. P x \<Longrightarrow> P (f x)"
  shows "List.find P (update_where P f xs) = map_option f (List.find P xs)"
  using assms by (induction xs) (auto simp: update_where_def)

text \<open>
  the two statements of an update of the user are not one. An update that read the
  account before it was deleted and writes afterwards enables the account again and gives
  it its old address back.
\<close>

theorem late_update_revives_account:
  assumes "toAdapterUser (auth_getUser db subject) = Some current" and "deleteOwnAccount unique db subject now uuid = (Inr True, db1)"
    and "list_all (\<lambda>u. ur_id u = subject \<or> js_lower (ur_email u) \<noteq> js_lower (su_email current)) (ac_users db)"
  shows "\<exists>saved db2. auth_updateUser unique db1 (updated_user current None name None) later = (Inr saved, db2)
    \<and> toAdapterUser (auth_getUser db2 subject) = Some saved \<and> su_email saved = su_email current"
proof -
  obtain f where users: "ac_users db1 = update_where (active_user subject) f (ac_users db)" "\<And>u. ur_id (f u) = ur_id u"
  proof
    let ?f = "\<lambda>u. u\<lparr>ur_email := ''deleted+'' @ uuid @ ''@'' @ deletedEmailDomain, ur_displayName := ''Deleted driver'',
      ur_emailVerifiedAt := None, ur_disabledAt := Some now, ur_updatedAt := now\<rparr>"
    show "ac_users db1 = update_where (active_user subject) ?f (ac_users db)"
      using assms(2) by (auto simp: deleteOwnAccount_def Let_def split: if_splits)
  qed simp
  obtain row where row: "row \<in> set (ac_users db)" "ur_id row = subject" and cur: "su_id current = subject" "su_disabledAt current = None"
    using assms(1) by (auto simp: toAdapterUser_def auth_getUser_def mapUser_def split: option.splits if_splits dest!: find_in_set)
  let ?P = "\<lambda>u. ur_id u = su_id (updated_user current None name None)"
  let ?g = "\<lambda>u. u\<lparr>ur_email := su_email current, ur_displayName := su_displayName (updated_user current None name None),
      ur_emailVerifiedAt := su_emailVerifiedAt current, ur_disabledAt := None, ur_updatedAt := later\<rparr>"
  have ids: "su_id (updated_user current None name None) = subject" using cur(1) by (simp add: updated_user_def)
  have "(if active_user subject row then f row else row) \<in> set (ac_users db1)"
    using row(1) unfolding users(1) by (simp add: update_where_def)
  moreover have "ur_id (if active_user subject row then f row else row) = subject" using row(2) users(2) by simp
  ultimately have "\<exists>u \<in> set (ac_users db1). ur_id u = subject" by blast
  then have "List.find ?P (ac_users db1) \<noteq> None" unfolding ids find_None by blast
  then obtain r where r: "List.find ?P (ac_users db1) = Some r" by blast
  have free: "\<not> list_ex (\<lambda>u. \<not> ?P u \<and> js_lower (ur_email u) = js_lower (su_email current)) (ac_users db1)"
    using assms(3) users(2)
    by (simp add: ids users(1) update_where_def list_all_iff Bex_set [symmetric] active_user_def) blast
  have wrote: "auth_updateUser unique db1 (updated_user current None name None) later
      = (Inr (mapUser (?g r)), db1\<lparr>ac_users := update_where ?P ?g (ac_users db1)\<rparr>)"
    using r free cur(2) by (simp add: auth_updateUser_def Let_def updated_user_def)
  have "List.find (\<lambda>u. ur_id u = subject) (update_where ?P ?g (ac_users db1)) = Some (?g r)"
    using find_update_where [of ?P ?g "ac_users db1"] r unfolding ids by simp
  then show ?thesis
    unfolding wrote by (simp add: auth_getUser_def toAdapterUser_def mapUser_def)
qed

text \<open>
  Property C16: deleting an account is complete and final. Nothing that identifies the driver or
  lets them in is left: no login session, password, token, identity or name, and the address is
  replaced; the balance is kept. Afterwards, whatever is done to the tables (a session may even
  be written for the account), no password sign-in, no session and no page knows the account.
  (Every operation is a step of its own here; \<open>late_update_revives_account\<close> says what an update of
  the user does that had read the account before it was deleted.)
\<close>

theorem deleted_account_stays_out:
  assumes "users_ok db" and "deleteOwnAccount unique db subject now uuid = (Inr True, db1)" and "db2 = account_run v ops db1"
  shows "list_all (\<lambda>s. as_userId s \<noteq> subject) (ac_sessions db1) \<and> list_all (\<lambda>p. pw_userId p \<noteq> subject) (ac_passwords db1)
    \<and> list_all (\<lambda>t. tk_userId t \<noteq> subject) (ac_tokens db1) \<and> list_all (\<lambda>i. oi_userId i \<noteq> subject) (ac_oauth db1)
    \<and> list_all (\<lambda>n. nk_userId n \<noteq> subject) (ac_nicknames db1) \<and> ac_balances db1 = ac_balances db
    \<and> (\<forall>c. findPasswordSignIn db2 email = Some c \<longrightarrow> sc_userId c \<noteq> subject)
    \<and> (\<forall>s u db3. adapter_getSessionAndUser sha db2 raw now' = (Inr (Some (s, u)), db3) \<longrightarrow> ax_userId s \<noteq> subject)
    \<and> loadSessionUser missing db2 subject = (Inl (Thrown_error ''Session user is unavailable''), db2)"
proof -
  have ok1: "users_ok db1"
    using delete_users_next [of db unique subject now uuid] assms(1,2) by (simp add: users_next_def users_ok_def)
  have active: "list_ex (active_user subject) (ac_users db)"
    using assms(2) by (auto simp: deleteOwnAccount_def Let_def split: if_splits)
  then obtain u where u: "u \<in> set (ac_users db)" "active_user subject u" by (auto simp: list_ex_iff)
  let ?f = "\<lambda>u. u\<lparr>ur_email := ''deleted+'' @ uuid @ ''@'' @ deletedEmailDomain, ur_displayName := ''Deleted driver'',
      ur_emailVerifiedAt := None, ur_disabledAt := Some now, ur_updatedAt := now\<rparr>"
  have "ac_users db1 = update_where (active_user subject) ?f (ac_users db)"
    using assms(2) active by (auto simp: deleteOwnAccount_def Let_def split: if_splits)
  then have "?f u \<in> set (ac_users db1)" using u by (auto simp: in_update_where)
  then have gone: "?f u \<in> set (ac_users db2)" and ok2: "users_ok db2"
    using users_run [OF ok1, of v ops] assms(3) by simp_all
  have out: "\<not> (\<exists>x \<in> set (ac_users db2). ur_id x = subject \<and> ur_disabledAt x = None)"
  proof
    assume "\<exists>x \<in> set (ac_users db2). ur_id x = subject \<and> ur_disabledAt x = None"
    then obtain x where x: "x \<in> set (ac_users db2)" "ur_id x = subject" "ur_disabledAt x = None" by blast
    have "x = ?f u"
      by (rule distinct_map_eq [of ur_id, OF _ x(1) gone]) (use ok2 x(2) u(2) in \<open>simp_all add: users_ok_def active_user_def\<close>)
    then show False using x(3) by simp
  qed
  then have none: "toAdapterUser (auth_getUser db2 subject) = None" using adapter_user by (metis option.exhaust)
  have "loadSessionUser missing db2 subject = (Inl (Thrown_error ''Session user is unavailable''), db2)"
    by (simp add: loadSessionUser_def none)
  moreover have "sc_userId c \<noteq> subject" if "findPasswordSignIn db2 email = Some c" for c
    using sign_in_candidate [OF that] out by blast
  moreover have "ax_userId s \<noteq> subject" if "adapter_getSessionAndUser sha db2 raw now' = (Inr (Some (s, u)), db3)" for s u db3
    using session_of_active [OF that] out by blast
  moreover have "list_all (\<lambda>s. as_userId s \<noteq> subject) (ac_sessions db1) \<and> list_all (\<lambda>p. pw_userId p \<noteq> subject) (ac_passwords db1)
    \<and> list_all (\<lambda>t. tk_userId t \<noteq> subject) (ac_tokens db1) \<and> list_all (\<lambda>i. oi_userId i \<noteq> subject) (ac_oauth db1)
    \<and> list_all (\<lambda>n. nk_userId n \<noteq> subject) (ac_nicknames db1) \<and> ac_balances db1 = ac_balances db"
    using assms(2) active by (auto simp: deleteOwnAccount_def Let_def list_all_iff split: if_splits)
  ultimately show ?thesis by blast
qed

text \<open>
  Property C31: a window of a rate limit admits exactly its limit. Of any attempts by any keys in
  any order, those of one key and kind that fall in one window are allowed exactly until the
  limit is reached, whatever the others do.
\<close>

theorem rate_limit_admits_its_limit:
  assumes "positive_safe w" and "positive_safe l" and "list_all (\<lambda>(h, k, now). is_hmac_digest h) as"
    and "ac_limits db = []" and "length as \<le> 2147483647"
  shows "int (length (filter was_allowed (map snd (filter (in_window key kind started (int_of_js w) \<circ> fst) (zip as (run_attempts overflow w l db as)))))) =
     min (int (length (filter (in_window key kind started (int_of_js w)) as))) (int_of_js l)"
proof -
  have "0 \<le> int_of_js l"
    using assms(2) by (cases l) (auto simp: positive_safe_def js_int_def)
  moreover have "attempts_of db key kind s = 0" for key kind s
    by (simp add: attempts_of_def assms(4))
  ultimately show ?thesis
    using allowed_attempts [OF assms(1-3), of db key kind started overflow] assms(5) by simp
qed

text \<open>
  an error is retried exactly when it or one of its causes has a code of a
  serialization failure. The search ends for every heap of error objects, cyclic causes
  included, and equals the mathematical reachability along the causes.
\<close>

theorem retryable_is_reachable_code:
  "isRetryableTransactionError heap [] (Some i) \<longleftrightarrow>
     (\<exists>n j. cause_at heap i n = Some j \<and> j < length heap \<and> retryable_code (heap ! j))"
proof
  assume "isRetryableTransactionError heap [] (Some i)"
  then show "\<exists>n j. cause_at heap i n = Some j \<and> j < length heap \<and> retryable_code (heap ! j)"
    by (rule walk_finds [unfolded retryable_at_def])
next
  assume found: "\<exists>n j. cause_at heap i n = Some j \<and> j < length heap \<and> retryable_code (heap ! j)"
  show "isRetryableTransactionError heap [] (Some i)"
  proof (rule ccontr)
    assume "\<not> isRetryableTransactionError heap [] (Some i)"
    from walk_complete [OF this] found show False unfolding retryable_at_def by (simp only: list.set ball_empty) blast
  qed
qed

text \<open>
  a transaction is tried at most three times. The result is that of the first try
  that did not fail with a retryable error, or of the third; tries that failed leave no trace.
\<close>

theorem transaction_tried_at_most_thrice:
  "\<exists>k. k \<in> {1, 2, 3} \<and> list_all (\<lambda>m. failed_retryably (operation m s)) [1..<k]
     \<and> runTransaction operation 1 s = (case operation k s of (Inr v, s') \<Rightarrow> (Inr v, s') | (Inl e, s') \<Rightarrow> (Inl e, s))
     \<and> \<not> (k < 3 \<and> failed_retryably (operation k s))"
proof -
  consider "\<not> failed_retryably (operation 1 s)" | "failed_retryably (operation 1 s)" "\<not> failed_retryably (operation 2 s)"
    | "failed_retryably (operation 1 s)" "failed_retryably (operation 2 s)" by blast
  then show ?thesis
  proof cases
    case 1
    then show ?thesis using transaction_stops [of 1 operation s] by (intro exI [of _ 1]) simp
  next
    case 2
    then have "list_all (\<lambda>m. failed_retryably (operation m s)) [1..<2]" by (simp only: first_tries list.pred_inject simp_thms)
    then show ?thesis
      using 2 transaction_stops [of 2 operation s] transaction_goes_on [of 1 operation s] unfolding Suc_1 by (intro exI [of _ 2]) simp
  next
    case 3
    then have "list_all (\<lambda>m. failed_retryably (operation m s)) [1..<3]" by (simp only: first_tries list.pred_inject simp_thms)
    then show ?thesis
      using 3 transaction_stops [of 3 operation s] transaction_goes_on [of 1 operation s] transaction_goes_on [of 2 operation s]
      unfolding Suc_1 eval_nat_numeral(3) [symmetric] by (intro exI [of _ 3]) simp
  qed
qed

subsection \<open>A concrete account\<close>

definition sample_accounts :: accounts_db where
  "sample_accounts = \<lparr>ac_users = [\<lparr>ur_id = ''u1'', ur_email = ''a@b.c'', ur_displayName = ''A'', ur_role = ''user'',
       ur_emailVerifiedAt = Some 10, ur_disabledAt = None, ur_volumePercent = 100, ur_muted = False, ur_audioRevision = 0,
       ur_createdAt = 0, ur_updatedAt = 10\<rparr>],
     ac_oauth = [], ac_sessions = [\<lparr>as_userId = ''u1'', as_tokenHash = ''s'', as_expiresAt = 90000, as_lastSeenAt = 20\<rparr>],
     ac_balances = [\<lparr>ab_userId = ''u1'', ab_currency = ''USD'', ab_amountMinor = 7\<rparr>],
     ac_passwords = [\<lparr>pw_userId = ''u1'', pw_hash = ''old'', pw_changedAt = 0, pw_verifiedAt = Some 10, pw_updatedAt = 10\<rparr>],
     ac_tokens = [\<lparr>tk_id = ''t1'', tk_userId = ''u1'', tk_kind = Reset_password, tk_tokenHash = ''h1'', tk_expiresAt = 5000,
       tk_consumedAt = None, tk_createdAt = 100\<rparr>],
     ac_limits = [], ac_nicknames = [], ac_consents = []\<rparr>"

definition sample_account_env :: account_env where
  "sample_account_env = \<lparr>en_unique = [Some ''23505''], en_missing = [Some ''23503''], en_overflow = [Some ''22003''], en_sha256 = rev\<rparr>"

lemma sample_reset: "\<exists>a db1. replacePasswordAndRevokeSessions sample_accounts ''h1'' ''new'' 1000 = (Inr (Some a), db1)
    \<and> ac_sessions db1 = [] \<and> map pw_hash (ac_passwords db1) = [''new'']"
  by (simp add: replacePasswordAndRevokeSessions_def sample_accounts_def resettable_token_def open_action_token_def Let_def
      active_user_def update_where_def)

theorem action_token_works_once_witness:
  "fst (replacePasswordAndRevokeSessions (snd (replacePasswordAndRevokeSessions sample_accounts ''h1'' ''new'' 1000)) ''h1'' ''again'' 2000) = Inr None"
proof -
  obtain a db1 where run: "replacePasswordAndRevokeSessions sample_accounts ''h1'' ''new'' 1000 = (Inr (Some a), db1)"
    using sample_reset by blast
  have ok: "hashes_ok sample_accounts" by (simp add: hashes_ok_def sample_accounts_def)
  show ?thesis
    using action_token_works_once [OF ok disjI2 [OF run], of "[]" db1 sample_account_env Verify_email 2000 "''again''"] by (simp add: run)
qed

theorem passwords_change_only_with_tokens_witness:
  "\<exists>t. t \<in> set (ac_tokens sample_accounts) \<and> open_action_token ''h1'' Reset_password 1000 t \<and> tk_userId t = ''u1''"
proof -
  from sample_reset obtain a db1 where run: "replacePasswordAndRevokeSessions sample_accounts ''h1'' ''new'' 1000 = (Inr (Some a), db1)"
      "map pw_hash (ac_passwords db1) = [''new'']"
    by (elim exE conjE)
  then obtain p' where p': "p' \<in> set (ac_passwords db1)" "pw_hash p' = ''new''" by (cases "ac_passwords db1") auto
  then have "p' \<in> set (ac_passwords (account_step sample_account_env (Reset_With ''h1'' ''new'' 1000) sample_accounts))"
    using run(1) by simp
  from passwords_change_only_with_tokens [OF this] p'(2) show ?thesis
    by (auto simp: sample_accounts_def)
qed

theorem deleted_account_stays_out_witness:
  "fst (loadSessionUser [] (account_step sample_account_env (Open_Session ''u1'' ''raw'' 9000 1500)
     (snd (deleteOwnAccount [Some ''23505''] sample_accounts ''u1'' 1000 ''d''))) ''u1'') = Inl (Thrown_error ''Session user is unavailable'')"
proof -
  have ok: "users_ok sample_accounts" by (simp add: users_ok_def sample_accounts_def)
  obtain db1 where run: "deleteOwnAccount [Some ''23505''] sample_accounts ''u1'' 1000 ''d'' = (Inr True, db1)"
    by (simp add: deleteOwnAccount_def sample_accounts_def active_user_def Let_def)
  show ?thesis
    using deleted_account_stays_out [OF ok run, of _ sample_account_env "[Open_Session ''u1'' ''raw'' 9000 1500]"] by (simp add: run)
qed

theorem rate_limit_admits_its_limit_witness:
  "let k = replicate 64 CHR ''a''; as = [(k, L_sign_in, 5), (k, L_sign_in, 7), (k, L_sign_in, 9)] in
   length (filter was_allowed (map snd (filter (in_window k L_sign_in 0 100 \<circ> fst)
     (zip as (run_attempts [] (js_int 100) (js_int 2) sample_accounts as))))) = 2"
proof -
  define k where "k = replicate 64 CHR ''a''"
  let ?as = "[(k, L_sign_in, 5), (k, L_sign_in, 7), (k, L_sign_in, 9)]"
  have digest: "is_hmac_digest k" by (simp add: is_hmac_digest_def k_def hex_digit_def list_all_iff)
  have lower: "js_lower k = k" by (simp add: js_lower_def k_def lower_char_def)
  have safe: "positive_safe (js_int 100)" "positive_safe (js_int 2)" by (simp_all add: positive_safe_def js_int_def)
  have int: "int_of_js (js_int 100) = 100" "int_of_js (js_int 2) = 2" by (simp_all add: js_int_def)
  have "int (length (filter was_allowed (map snd (filter (in_window k L_sign_in 0 (int_of_js (js_int 100)) \<circ> fst)
      (zip ?as (run_attempts [] (js_int 100) (js_int 2) sample_accounts ?as)))))) =
     min (int (length (filter (in_window k L_sign_in 0 (int_of_js (js_int 100))) ?as))) (int_of_js (js_int 2))"
    by (rule rate_limit_admits_its_limit [OF safe]) (simp_all add: digest sample_accounts_def)
  also have "\<dots> = 2" unfolding int by (simp add: in_window_def lower window_start_def)
  finally show ?thesis unfolding Let_def k_def [symmetric] int by linarith
qed

end
