(* ===== verification/DeviceAuth.thy ===== *)
theory DeviceAuth
  imports DeviceUpdates GatewayStore
begin

section \<open>Secrets, tickets and relay credentials\<close>

text \<open>
  \<open>packages/device-auth/src/index.ts\<close> and \<open>apps/web/app/drive-session-ticket.ts\<close>: the ticket with
  which a browser that started a drive in the web application proves it to the gateway, and
  the short-lived credentials of the relay servers. Parameters: the keyed digests of the
  platform (\<open>hmac256 key text\<close> in the alphabet of base64url, \<open>hmac1\<close> in base64), the JSON printer
  and reader of the language, random texts. Texts are ASCII, so a character is a byte. A
  call that throws gives \<open>Inl\<close> of its message.
\<close>

subsection \<open>base64url\<close>

definition url_char :: "nat \<Rightarrow> char" where
  "url_char n = char_of (if n < 26 then n + 65 else if n < 52 then n + 71 else if n < 62 then n - 4
     else if n = 62 then 45 else (95 :: nat))"

fun base64url :: "nat list \<Rightarrow> string" where
  "base64url (a # b # c # rest) =
     [url_char (a div 4), url_char ((a mod 4) * 16 + b div 16), url_char ((b mod 16) * 4 + c div 64), url_char (c mod 64)]
     @ base64url rest"
| "base64url [a, b] = [url_char (a div 4), url_char ((a mod 4) * 16 + b div 16), url_char ((b mod 16) * 4)]"
| "base64url [a] = [url_char (a div 4), url_char ((a mod 4) * 16)]"
| "base64url [] = []"

definition text_bytes :: "string \<Rightarrow> nat list" where
  "text_bytes s = map of_char s"

definition bytes_text :: "nat list \<Rightarrow> string" where
  "bytes_text bs = map char_of bs"

subsection \<open>Opaque secrets\<close>

definition generateOpaqueSecret :: "(nat \<Rightarrow> nat list) \<Rightarrow> jsnum \<Rightarrow> string + string" where
  "generateOpaqueSecret randomBytes bytes =
     (if \<not> js_is_integer bytes \<or> js_lt bytes (js_int 16)
      then Inl ''Opaque secrets must contain at least 16 random bytes''
      else Inr (base64url (randomBytes (nat (int_of_js bytes)))))"

definition hashOpaqueSecret :: "(string \<Rightarrow> string \<Rightarrow> string) \<Rightarrow> string \<Rightarrow> string \<Rightarrow> string + string" where
  "hashOpaqueSecret hmac256 secret pepper =
     (if secret = [] then Inl ''secret must not be empty''
      else if pepper = [] then Inl ''pepper must not be empty''
      else Inr (hmac256 pepper secret))"

definition verifyOpaqueSecret :: "(string \<Rightarrow> string \<Rightarrow> string) \<Rightarrow> string \<Rightarrow> string \<Rightarrow> string \<Rightarrow> bool" where
  "verifyOpaqueSecret hmac256 secret digest pepper =
     (case hashOpaqueSecret hmac256 secret pepper of
        Inl e \<Rightarrow> False
      | Inr h \<Rightarrow> base64url_bytes h = base64url_bytes digest)"

subsection \<open>Browser tickets\<close>

record ticket =
  bt_aud :: string
  bt_sub :: ident
  bt_role :: string
  bt_carId :: ident
  bt_sessionId :: ident
  bt_iat :: jsnum
  bt_exp :: jsnum

definition ticket_json :: "ticket \<Rightarrow> json" where
  "ticket_json t = JObj [(''aud'', JStr (bt_aud t)), (''sub'', JStr (bt_sub t)), (''role'', JStr (bt_role t)),
     (''carId'', JStr (bt_carId t)), (''sessionId'', JStr (bt_sessionId t)),
     (''iat'', JNum (bt_iat t)), (''exp'', JNum (bt_exp t))]"

definition ticketFields :: "string list" where
  "ticketFields = [''aud'', ''sub'', ''role'', ''carId'', ''sessionId'', ''iat'', ''exp'']"

text \<open>The keys of an object are its distinct names; a later property of one name replaces the earlier.\<close>

definition object_field :: "(string \<times> json) list \<Rightarrow> string \<Rightarrow> json option" where
  "object_field fs k = map_of (rev fs) k"

definition validateBrowserTicketPayload :: "json \<Rightarrow> ticket option" where
  "validateBrowserTicketPayload value =
     (case value of
        JObj fs \<Rightarrow>
          if card (set (map fst fs)) \<noteq> length ticketFields then None
          else
            (case (object_field fs ''aud'', object_field fs ''sub'', object_field fs ''role'', object_field fs ''carId'',
                object_field fs ''sessionId'', object_field fs ''iat'', object_field fs ''exp'') of
               (Some (JStr aud), Some (JStr sub), Some (JStr role), Some (JStr carId), Some (JStr sessionId),
                Some (JNum iat), Some (JNum expiry)) \<Rightarrow>
                 if (role = ''user'' \<or> role = ''admin'') \<and> js_is_integer iat \<and> js_is_integer expiry \<and> \<not> js_le expiry iat
                   \<and> sub \<noteq> [] \<and> carId \<noteq> [] \<and> sessionId \<noteq> []
                 then Some \<lparr>bt_aud = aud, bt_sub = sub, bt_role = role, bt_carId = carId, bt_sessionId = sessionId,
                   bt_iat = iat, bt_exp = expiry\<rparr>
                 else None
             | _ \<Rightarrow> None)
      | _ \<Rightarrow> None)"

definition signBrowserTicket ::
  "(string \<Rightarrow> string \<Rightarrow> string) \<Rightarrow> (json \<Rightarrow> string) \<Rightarrow> ticket \<Rightarrow> string \<Rightarrow> string + string" where
  "signBrowserTicket hmac256 stringify payload secret =
     (if secret = [] then Inl ''ticket secret must not be empty''
      else if validateBrowserTicketPayload (ticket_json payload) = None then Inl ''Invalid browser ticket payload''
      else let body = base64url (text_bytes (stringify (ticket_json payload))) in Inr (body @ ''.'' @ hmac256 secret body))"

definition verifyBrowserTicket ::
  "(string \<Rightarrow> string \<Rightarrow> string) \<Rightarrow> (string \<Rightarrow> json option) \<Rightarrow> string \<Rightarrow> string \<Rightarrow> int \<Rightarrow> string + ticket" where
  "verifyBrowserTicket hmac256 parse ticket secret nowSeconds =
     (if secret = [] then Inl ''ticket secret must not be empty''
      else
        (case split_on CHR ''.'' ticket of
           [body, encodedSignature] \<Rightarrow>
             if body = [] \<or> encodedSignature = [] then Inl ''Invalid browser ticket format''
             else if base64url_bytes (hmac256 secret body) \<noteq> base64url_bytes encodedSignature
             then Inl ''Invalid browser ticket signature''
             else
               (case parse (bytes_text (base64url_bytes body)) of
                  None \<Rightarrow> Inl ''Invalid browser ticket payload''
                | Some value \<Rightarrow>
                   (case validateBrowserTicketPayload value of
                      None \<Rightarrow> Inl ''Invalid browser ticket payload''
                    | Some payload \<Rightarrow>
                        if bt_aud payload \<noteq> ''rcmania-gateway'' then Inl ''Invalid browser ticket audience''
                        else if js_lt (bt_exp payload) (js_int nowSeconds) then Inl ''Browser ticket expired''
                        else if js_lt (js_int nowSeconds) (bt_iat payload) then Inl ''Browser ticket was issued in the future''
                        else Inr payload))
         | _ \<Rightarrow> Inl ''Invalid browser ticket format''))"

definition new_ticket :: "ident \<Rightarrow> string \<Rightarrow> ident \<Rightarrow> ident \<Rightarrow> date \<Rightarrow> ticket" where
  "new_ticket userId role carId sessionId now =
     (let iat = now div 1000 in
      \<lparr>bt_aud = ''rcmania-gateway'', bt_sub = userId, bt_role = role, bt_carId = carId, bt_sessionId = sessionId,
       bt_iat = js_int iat, bt_exp = js_int (iat + 120)\<rparr>)"

definition createDriveSessionTicket ::
  "(string \<Rightarrow> string \<Rightarrow> string) \<Rightarrow> (json \<Rightarrow> string) \<Rightarrow> ident \<Rightarrow> string \<Rightarrow> ident \<Rightarrow> ident \<Rightarrow> date \<Rightarrow> string \<Rightarrow> string + string" where
  "createDriveSessionTicket hmac256 stringify userId role carId sessionId now secret =
     signBrowserTicket hmac256 stringify (new_ticket userId role carId sessionId now) secret"

subsection \<open>Credentials for relay servers\<close>

record turn_credentials =
  tc_username :: string
  tc_credential :: string
  tc_expiresAt :: date

definition subject_char :: "char \<Rightarrow> bool" where
  "subject_char c = (is_digit c \<or> char_between 65 90 c \<or> char_between 97 122 c \<or> c = CHR ''.'' \<or> c = CHR ''_'' \<or> c = CHR ''-'')"

definition createTurnRestCredentials ::
  "(string \<Rightarrow> string \<Rightarrow> string) \<Rightarrow> string \<Rightarrow> string \<Rightarrow> date \<Rightarrow> jsnum option \<Rightarrow> string + turn_credentials" where
  "createTurnRestCredentials hmac1 secret subject now ttl =
     (if length secret < 32 then Inl ''TURN shared secret must contain at least 32 characters''
      else if subject = [] \<or> 128 < length subject \<or> \<not> list_all subject_char subject
      then Inl ''TURN credential subject must contain only safe identifier characters''
      else let ttlSeconds = (case ttl of None \<Rightarrow> js_int 600 | Some t \<Rightarrow> t) in
        if \<not> js_is_integer ttlSeconds \<or> js_lt ttlSeconds (js_int 60) \<or> js_lt (js_int 3600) ttlSeconds
        then Inl ''TURN credential lifetime must be between 60 and 3600 seconds''
        else let expiresAt = now + int_of_js ttlSeconds * 1000;
                 username = string_of_int (expiresAt div 1000) @ '':'' @ subject
          in Inr \<lparr>tc_username = username, tc_credential = hmac1 secret username, tc_expiresAt = expiresAt\<rparr>)"

fun urlsOf :: "ice_urls \<Rightarrow> string list" where
  "urlsOf (Url u) = [u]"
| "urlsOf (Urls us) = us"

definition isTurnUrl :: "string \<Rightarrow> bool" where
  "isTurnUrl url = (starts_with url ''turn:'' \<or> starts_with url ''turns:'')"

definition is_turn :: "ice_server \<Rightarrow> bool" where
  "is_turn s = list_ex isTurnUrl (urlsOf (is_urls s))"

definition createSessionIceServers ::
  "(string \<Rightarrow> string \<Rightarrow> string) \<Rightarrow> ice_server list \<Rightarrow> string option \<Rightarrow> string \<Rightarrow> date \<Rightarrow> jsnum option \<Rightarrow> string + ice_server list" where
  "createSessionIceServers hmac1 templates secret subject now ttl =
     (if list_ex (\<lambda>t. is_username t \<noteq> None \<or> is_credential t \<noteq> None) templates
      then Inl ''Static ICE credentials are not allowed''
      else if \<not> list_ex is_turn templates then Inr templates
      else
        (case secret of
           None \<Rightarrow> Inl ''TURN shared secret is required when TURN URLs are configured''
         | Some key \<Rightarrow>
             if key = [] then Inl ''TURN shared secret is required when TURN URLs are configured''
             else
               (case createTurnRestCredentials hmac1 key subject now ttl of
                  Inl e \<Rightarrow> Inl e
                | Inr c \<Rightarrow> Inr (map (\<lambda>t. if is_turn t
                    then t\<lparr>is_username := Some (tc_username c), is_credential := Some (tc_credential c)\<rparr> else t) templates))))"

subsection \<open>Laws\<close>

lemma url_char_code:
  "n < 64 \<Longrightarrow> (of_char (url_char n) :: nat) = (if n < 26 then n + 65 else if n < 52 then n + 71 else if n < 62 then n - 4
     else if n = 62 then 45 else 95)"
  by (simp add: url_char_def)

lemma sextet_url_char: "n < 64 \<Longrightarrow> sextet (url_char n) = Some n"
  unfolding sextet_def Let_def by (auto simp: url_char_code)

lemma url_char_sign:
  assumes "n < 64"
  shows "url_char n \<noteq> CHR ''='' \<and> url_char n \<noteq> CHR ''.''"
proof -
  have "(of_char (url_char n) :: nat) \<noteq> 61 \<and> (of_char (url_char n) :: nat) \<noteq> 46"
    using assms by (auto simp: url_char_code)
  then show ?thesis by auto
qed

lemma sextet_bounds: "x mod 64 < (64 :: nat)" "y mod 16 * 4 < (64 :: nat)" "z mod 4 * 16 < (64 :: nat)"
  by presburger+

lemma base64url_chars: "\<forall>b \<in> set bs. b < 256 \<Longrightarrow> \<forall>c \<in> set (base64url bs). \<exists>n < 64. c = url_char n"
proof (induction bs rule: base64url.induct)
  case (1 a b c rest)
  have "a div 4 < 64" "(a mod 4) * 16 + b div 16 < 64" "(b mod 16) * 4 + c div 64 < 64" "c mod 64 < 64"
    using 1 by auto
  then show ?case using 1 sextet_bounds by (simp, blast)
next
  case (2 a b)
  have "a div 4 < 64" "(a mod 4) * 16 + b div 16 < 64" "(b mod 16) * 4 < 64"
    using 2 by auto
  then show ?case using sextet_bounds by (simp, blast)
next
  case (3 a)
  have "a div 4 < 64" "(a mod 4) * 16 < 64"
    using 3 by auto
  then show ?case using sextet_bounds by (simp, blast)
qed simp

lemma base64url_sextets: "\<forall>b \<in> set bs. b < 256 \<Longrightarrow> sextets_bytes (List.map_filter sextet (base64url bs)) = bs"
proof (induction bs rule: base64url.induct)
  case (1 a b c rest)
  have "a div 4 < 64" "(a mod 4) * 16 + b div 16 < 64" "(b mod 16) * 4 + c div 64 < 64" "c mod 64 < 64"
    using 1 by auto
  moreover have "a div 4 * 4 + ((a mod 4) * 16 + b div 16) div 16 = a"
    "((a mod 4) * 16 + b div 16) mod 16 * 16 + ((b mod 16) * 4 + c div 64) div 4 = b"
    "((b mod 16) * 4 + c div 64) mod 4 * 64 + c mod 64 = c"
    using 1 by auto
  ultimately show ?case using 1 by (simp add: List.map_filter_simps sextet_url_char)
next
  case (2 a b)
  have "a div 4 < 64" "(a mod 4) * 16 + b div 16 < 64" "(b mod 16) * 4 < 64"
    using 2 by auto
  moreover have "a div 4 * 4 + ((a mod 4) * 16 + b div 16) div 16 = a"
    "((a mod 4) * 16 + b div 16) mod 16 * 16 + (b mod 16) * 4 div 4 = b"
    using 2 by auto
  ultimately show ?case by (simp add: List.map_filter_simps sextet_url_char)
next
  case (3 a)
  have "a div 4 < 64" "(a mod 4) * 16 < 64"
    using 3 by auto
  moreover have "a div 4 * 4 + (a mod 4) * 16 div 16 = a" by auto
  ultimately show ?case by (simp add: List.map_filter_simps sextet_url_char)
qed (simp add: List.map_filter_simps)

text \<open>Decoding what was encoded gives the bytes back.\<close>

lemma base64url_roundtrip:
  assumes "\<forall>b \<in> set bs. b < 256"
  shows "base64url_bytes (base64url bs) = bs"
proof -
  have "CHR ''='' \<notin> set (base64url bs)"
    using base64url_chars [OF assms] url_char_sign by metis
  then have "takeWhile (\<lambda>c. c \<noteq> CHR ''='') (base64url bs) = base64url bs"
    by (auto simp: takeWhile_eq_all_conv)
  then show ?thesis
    unfolding base64url_bytes_def by (simp only: base64url_sextets [OF assms])
qed

lemma text_bytes_less: "\<forall>b \<in> set (text_bytes s). b < 256"
  by (auto simp: text_bytes_def)

lemma text_roundtrip [simp]: "bytes_text (base64url_bytes (base64url (text_bytes s))) = s"
  by (simp add: base64url_roundtrip [OF text_bytes_less]) (simp add: bytes_text_def text_bytes_def comp_def)

lemma base64url_no_dot: "CHR ''.'' \<notin> set (base64url (text_bytes s))"
  using base64url_chars [OF text_bytes_less] url_char_sign by metis

lemma base64url_Nil: "base64url (text_bytes s) = [] \<longleftrightarrow> s = []"
  by (cases "text_bytes s" rule: base64url.cases) (auto simp: text_bytes_def)

lemma split_on_none: "c \<notin> set w \<Longrightarrow> split_on c w = [w]"
  by (induction w) auto

lemma split_on_word: "c \<notin> set v \<Longrightarrow> split_on c (v @ c # w) = v # split_on c w"
  by (induction v) auto

lemma split_on_pair: "c \<notin> set v \<Longrightarrow> c \<notin> set w \<Longrightarrow> split_on c (v @ c # w) = [v, w]"
  by (simp add: split_on_word split_on_none)


lemma split_on_not_Nil [simp]: "split_on c s \<noteq> []"
  by (induction s) (auto split: list.splits)

lemma split_on_one: "split_on c s = [a] \<Longrightarrow> s = a \<and> c \<notin> set a"
  by (induction s arbitrary: a) (auto split: if_splits list.splits)

lemma last_part:
  assumes "x @ c # v = y @ c # w" "c \<notin> set v" "c \<notin> set w"
  shows "w = v"
proof -
  have tail: "takeWhile (\<lambda>d. d \<noteq> c) (rev (z @ c # u)) = rev u" if "c \<notin> set u" for z u
    using that by (simp add: takeWhile_append takeWhile_eq_all_conv)
  show ?thesis
    using tail [of v x] tail [of w y] assms by simp
qed

lemma split_on_back: "split_on c s = [a, b] \<Longrightarrow> s = a @ c # b \<and> c \<notin> set a \<and> c \<notin> set b"
proof (induction s arbitrary: a)
  case (Cons x s)
  then show ?case
    by (cases "split_on c s") (auto split: if_splits dest: split_on_one)
qed simp

lemma validate_ticket_json:
  "validateBrowserTicketPayload (ticket_json t) =
     (if (bt_role t = ''user'' \<or> bt_role t = ''admin'') \<and> js_is_integer (bt_iat t) \<and> js_is_integer (bt_exp t)
         \<and> \<not> js_le (bt_exp t) (bt_iat t) \<and> bt_sub t \<noteq> [] \<and> bt_carId t \<noteq> [] \<and> bt_sessionId t \<noteq> []
      then Some t else None)"
  by (cases t) (simp add: validateBrowserTicketPayload_def ticket_json_def object_field_def ticketFields_def)

lemma validate_new_ticket:
  "(role = ''user'' \<or> role = ''admin'') \<Longrightarrow> userId \<noteq> [] \<Longrightarrow> carId \<noteq> [] \<Longrightarrow> sessionId \<noteq> [] \<Longrightarrow>
   validateBrowserTicketPayload (ticket_json (new_ticket userId role carId sessionId now)) = Some (new_ticket userId role carId sessionId now)"
  by (simp add: validate_ticket_json new_ticket_def Let_def)

lemma new_ticket_fields [simp]:
  "bt_aud (new_ticket u r c s now) = ''rcmania-gateway''" "bt_sub (new_ticket u r c s now) = u"
  "bt_carId (new_ticket u r c s now) = c" "bt_sessionId (new_ticket u r c s now) = s"
  "bt_iat (new_ticket u r c s now) = js_int (now div 1000)" "bt_exp (new_ticket u r c s now) = js_int (now div 1000 + 120)"
  by (simp_all add: new_ticket_def Let_def)

text \<open>What opening a ticket takes: the signature of its body under the secret, and its window.\<close>

lemma verify_Inr:
  assumes "verifyBrowserTicket hmac256 parse text secret s = Inr t"
  obtains body signature v where "text = body @ ''.'' @ signature" "CHR ''.'' \<notin> set body" "CHR ''.'' \<notin> set signature" "body \<noteq> []"
    "base64url_bytes (hmac256 secret body) = base64url_bytes signature"
    "parse (bytes_text (base64url_bytes body)) = Some v" "validateBrowserTicketPayload v = Some t"
    "bt_aud t = ''rcmania-gateway''" "\<not> js_lt (bt_exp t) (js_int s)" "\<not> js_lt (js_int s) (bt_iat t)"
proof -
  obtain body signature where parts: "split_on CHR ''.'' text = [body, signature]"
    using assms by (auto simp: verifyBrowserTicket_def split: if_splits list.splits)
  obtain v where v: "parse (bytes_text (base64url_bytes body)) = Some v" "validateBrowserTicketPayload v = Some t"
    using assms by (auto simp: verifyBrowserTicket_def parts split: if_splits option.splits)
  have "body \<noteq> []" "base64url_bytes (hmac256 secret body) = base64url_bytes signature" "bt_aud t = ''rcmania-gateway''"
    "\<not> js_lt (bt_exp t) (js_int s)" "\<not> js_lt (js_int s) (bt_iat t)"
    using assms v by (auto simp: verifyBrowserTicket_def parts split: if_splits)
  then show ?thesis
    using split_on_back [OF parts] v by (intro that [of body signature v]) simp_all
qed

text \<open>
  Property C23: a ticket opens the gateway for two minutes. The ticket the web application makes
  for a drive is accepted by the gateway, with exactly the user, car and session it was made
  for, from the second it was made until 120 seconds later, and is refused before and after.
\<close>

theorem drive_ticket_opens_for_two_minutes:
  assumes "secret \<noteq> []" and "role = ''user'' \<or> role = ''admin''" and "userId \<noteq> []" and "carId \<noteq> []" and "sessionId \<noteq> []"
    and reader: "parse (stringify (ticket_json (new_ticket userId role carId sessionId now))) = Some (ticket_json (new_ticket userId role carId sessionId now))"
    and empty_text: "parse [] = None"
    and digests: "\<And>body. hmac256 secret body \<noteq> [] \<and> CHR ''.'' \<notin> set (hmac256 secret body)"
  shows "\<exists>text. createDriveSessionTicket hmac256 stringify userId role carId sessionId now secret = Inr text
     \<and> verifyBrowserTicket hmac256 parse text secret s =
         (if s < now div 1000 then Inl ''Browser ticket was issued in the future''
          else if now div 1000 + 120 < s then Inl ''Browser ticket expired''
          else Inr (new_ticket userId role carId sessionId now))"
proof -
  let ?t = "new_ticket userId role carId sessionId now"
  let ?body = "base64url (text_bytes (stringify (ticket_json ?t)))"
  have valid: "validateBrowserTicketPayload (ticket_json ?t) = Some ?t"
    by (rule validate_new_ticket) (use assms in auto)
  have "stringify (ticket_json ?t) \<noteq> []" using reader empty_text by (metis option.distinct(1))
  then have body: "?body \<noteq> []" by (simp add: base64url_Nil)
  have parts: "split_on CHR ''.'' (?body @ ''.'' @ hmac256 secret ?body) = [?body, hmac256 secret ?body]"
    using split_on_pair [OF base64url_no_dot, of "hmac256 secret ?body"] digests by simp
  have "verifyBrowserTicket hmac256 parse (?body @ ''.'' @ hmac256 secret ?body) secret s =
      (if now div 1000 + 120 < s then Inl ''Browser ticket expired''
       else if s < now div 1000 then Inl ''Browser ticket was issued in the future'' else Inr ?t)"
    unfolding verifyBrowserTicket_def parts using digests body assms(1) by (simp add: reader valid)
  then show ?thesis
    using assms(1) valid by (auto simp: createDriveSessionTicket_def signBrowserTicket_def Let_def)
qed

text \<open>
  a signature fits one ticket. If different bodies have different signatures, then
  whatever text carries the signature of a ticket of the web application is refused by the
  gateway unless it stands for that very ticket.
\<close>

theorem ticket_signature_fits_one_ticket:
  assumes made: "createDriveSessionTicket hmac256 stringify userId role carId sessionId now secret = Inr (body @ ''.'' @ signature)"
    and "CHR ''.'' \<notin> set body" and "CHR ''.'' \<notin> set signature"
    and reader: "parse (stringify (ticket_json (new_ticket userId role carId sessionId now))) = Some (ticket_json (new_ticket userId role carId sessionId now))"
    and digests: "\<And>b. CHR ''.'' \<notin> set (hmac256 secret b)"
    and collision_free: "\<And>b b'. base64url_bytes (hmac256 secret b) = base64url_bytes (hmac256 secret b') \<Longrightarrow> b = b'"
    and accepted: "verifyBrowserTicket hmac256 parse (body' @ ''.'' @ signature) secret s = Inr t"
  shows "t = new_ticket userId role carId sessionId now"
proof -
  let ?t = "new_ticket userId role carId sessionId now"
  let ?body = "base64url (text_bytes (stringify (ticket_json ?t)))"
  have valid: "validateBrowserTicketPayload (ticket_json ?t) \<noteq> None"
    and whole: "body @ ''.'' @ signature = ?body @ ''.'' @ hmac256 secret ?body"
    using made by (auto simp: createDriveSessionTicket_def signBrowserTicket_def Let_def split: if_splits)
  have "[body, signature] = [?body, hmac256 secret ?body]"
    using arg_cong [OF whole, of "split_on CHR ''.''"] assms(2,3) base64url_no_dot digests
    by (simp add: split_on_pair)
  then have signed: "signature = hmac256 secret ?body" by simp
  obtain b g v where opened: "body' @ ''.'' @ signature = b @ ''.'' @ g" "CHR ''.'' \<notin> set g"
      "base64url_bytes (hmac256 secret b) = base64url_bytes g"
      "parse (bytes_text (base64url_bytes b)) = Some v" "validateBrowserTicketPayload v = Some t"
    using accepted by (rule verify_Inr)
  have "g = signature"
    using last_part [of "body'" "CHR ''.''" signature b g] opened(1,2) assms(3) by simp
  then have "b = ?body" using opened(3) signed collision_free by metis
  then have "v = ticket_json ?t" using opened(4) reader by simp
  then show ?thesis
    using opened(5) valid by (simp add: validate_ticket_json split: if_splits)
qed

subsection \<open>Samples\<close>

definition sample_digest :: "string \<Rightarrow> string \<Rightarrow> string" where
  "sample_digest key body = CHR ''x'' # base64url (text_bytes body)"

definition sample_print :: "json \<Rightarrow> string" where
  "sample_print j = ''{}''"

definition sample_read :: "json \<Rightarrow> string \<Rightarrow> json option" where
  "sample_read j s = (if s = ''{}'' then Some j else None)"

theorem drive_ticket_opens_for_two_minutes_witness:
  "\<exists>text. createDriveSessionTicket sample_digest sample_print ''u'' ''user'' ''c'' ''s'' 5000 ''k'' = Inr text
     \<and> verifyBrowserTicket sample_digest (sample_read (ticket_json (new_ticket ''u'' ''user'' ''c'' ''s'' 5000))) text ''k'' 125 =
         Inr (new_ticket ''u'' ''user'' ''c'' ''s'' 5000)"
proof -
  have digests: "sample_digest k body \<noteq> [] \<and> CHR ''.'' \<notin> set (sample_digest k body)" for k body
    using base64url_no_dot by (simp add: sample_digest_def)
  show ?thesis
    using drive_ticket_opens_for_two_minutes [of "''k''" "''user''" "''u''" "''c''" "''s''"
        "sample_read (ticket_json (new_ticket ''u'' ''user'' ''c'' ''s'' 5000))" sample_print 5000 sample_digest 125] digests
    by (simp add: sample_read_def sample_print_def)
qed

definition plain_digest :: "string \<Rightarrow> string \<Rightarrow> string" where
  "plain_digest key body = base64url (text_bytes body)"

theorem ticket_signature_fits_one_ticket_witness:
  "\<exists>body signature. createDriveSessionTicket plain_digest sample_print ''u'' ''user'' ''c'' ''s'' 5000 ''k'' = Inr (body @ ''.'' @ signature)
     \<and> verifyBrowserTicket plain_digest (sample_read (ticket_json (new_ticket ''u'' ''user'' ''c'' ''s'' 5000))) (body @ ''.'' @ signature) ''k'' 60 =
         Inr (new_ticket ''u'' ''user'' ''c'' ''s'' 5000)"
proof -
  let ?t = "new_ticket ''u'' ''user'' ''c'' ''s'' 5000"
  let ?body = "base64url (text_bytes ''{}'')"
  let ?sig = "base64url (text_bytes ?body)"
  have made: "createDriveSessionTicket plain_digest sample_print ''u'' ''user'' ''c'' ''s'' 5000 ''k'' = Inr (?body @ ''.'' @ ?sig)"
    using validate_new_ticket [of "''user''" "''u''" "''c''" "''s''" 5000]
    by (simp add: createDriveSessionTicket_def signBrowserTicket_def Let_def sample_print_def plain_digest_def)
  have parts: "split_on CHR ''.'' (?body @ ''.'' @ ?sig) = [?body, ?sig]"
    using split_on_pair [OF base64url_no_dot base64url_no_dot, of "''{}''" ?body] by simp
  have valid: "validateBrowserTicketPayload (ticket_json ?t) = Some ?t" by (rule validate_new_ticket) simp_all
  have accepted: "verifyBrowserTicket plain_digest (sample_read (ticket_json ?t)) (?body @ ''.'' @ ?sig) ''k'' 60 = Inr ?t"
    unfolding verifyBrowserTicket_def parts by (simp add: base64url_Nil plain_digest_def sample_read_def valid)
  then obtain t where t: "verifyBrowserTicket plain_digest (sample_read (ticket_json ?t)) (?body @ ''.'' @ ?sig) ''k'' 60 = Inr t"
    by blast
  have inj: "b = b'" if "base64url_bytes (plain_digest k b) = base64url_bytes (plain_digest k b')" for k b b'
    using arg_cong [OF that, of bytes_text] by (simp add: plain_digest_def)
  have no_dot: "CHR ''.'' \<notin> set (plain_digest k b)" for k b
    using base64url_no_dot by (simp add: plain_digest_def)
  have "t = ?t"
    by (rule ticket_signature_fits_one_ticket [OF made base64url_no_dot base64url_no_dot _ no_dot inj t])
      (simp_all add: sample_read_def sample_print_def)
  with made t show ?thesis by blast
qed

end
