(* ===== verification/AccountService.thy ===== *)
theory AccountService
  imports Accounts DeviceAuth
begin

section \<open>The account service\<close>

text \<open>
  \<open>apps/web/auth/account-service.ts\<close> with \<open>password.ts\<close>, \<open>account-token.ts\<close>, \<open>rate-limit.ts\<close> and
  the cleanup of \<open>account-runtime.ts\<close>. A request is a program: it makes a call (to the store, the
  mail service, the reports of deliveries) and goes on with the answer, hands a delivery to be
  done after the response, returns or throws. Programs of many requests and deliveries run
  interleaved, a call at a time, with anything else that is done to the tables. The two attempts
  of a rate limit are started at once in the code; here the first is performed before the second.
\<close>

subsection \<open>Passwords, tokens and keys\<close>

definition hasValidPasswordLength :: "string \<Rightarrow> bool" where
  "hasValidPasswordLength password = (12 \<le> length password \<and> length password \<le> 128)"

text \<open>
  \<open>argon\<close> gives the digest with the salt the library draws for this call; programs that hash
  one password take it from their environment. \<open>check\<close> is the verification, which may throw.
\<close>

definition hashPassword :: "(string \<Rightarrow> string) \<Rightarrow> string \<Rightarrow> string + string" where
  "hashPassword argon password =
     (if hasValidPasswordLength password then Inr (argon password)
      else Inl ''Password must contain 12 to 128 characters'')"

definition all_digits :: "string \<Rightarrow> bool" where
  "all_digits s = (s \<noteq> [] \<and> list_all (\<lambda>c. CHR ''0'' \<le> c \<and> c \<le> CHR ''9'') s)"

definition digits_value :: "string \<Rightarrow> nat" where
  "digits_value s = foldl (\<lambda>n c. 10 * n + (of_char c - 48)) 0 s"

definition cost_field :: "char \<Rightarrow> string \<Rightarrow> nat option" where
  "cost_field k s = (case s of a # b # ds \<Rightarrow> if a = k \<and> b = CHR ''='' \<and> all_digits ds then Some (digits_value ds) else None | _ \<Rightarrow> None)"

text \<open>The text of a digest: \<open>$argon2id$v=19$m=..,t=..,p=..$salt$digest\<close>.\<close>

definition matchesPasswordPolicy :: "string \<Rightarrow> bool" where
  "matchesPasswordPolicy storedHash =
     (case split_on CHR ''$'' storedHash of
        [before, algorithm, version, costs, salt, digest] \<Rightarrow>
          before = [] \<and> algorithm = ''argon2id'' \<and> version = ''v=19'' \<and> salt \<noteq> [] \<and> digest \<noteq> []
          \<and> (case split_on CHR '','' costs of
               [m, t, p] \<Rightarrow>
                (case (cost_field CHR ''m'' m, cost_field CHR ''t'' t, cost_field CHR ''p'' p) of
                   (Some memory, Some time, Some parallelism) \<Rightarrow>
                     19456 \<le> memory \<and> 2 \<le> time \<and> parallelism = 1 \<and> 32 \<le> length (base64url_bytes digest)
                 | _ \<Rightarrow> False)
             | _ \<Rightarrow> False)
      | _ \<Rightarrow> False)"

record password_check =
  pc_valid :: bool
  pc_needsRehash :: bool

definition verifyPassword :: "(string \<Rightarrow> string \<Rightarrow> bool option) \<Rightarrow> string \<Rightarrow> string \<Rightarrow> password_check" where
  "verifyPassword check storedHash password =
     (if \<not> hasValidPasswordLength password then \<lparr>pc_valid = False, pc_needsRehash = False\<rparr>
      else
       (case check storedHash password of
          None \<Rightarrow> \<lparr>pc_valid = False, pc_needsRehash = False\<rparr>
        | Some valid \<Rightarrow> \<lparr>pc_valid = valid, pc_needsRehash = valid \<and> \<not> matchesPasswordPolicy storedHash\<rparr>))"

record account_token =
  at_raw :: string
  at_hash :: string

definition hashAccountToken :: "(string \<Rightarrow> string) \<Rightarrow> string \<Rightarrow> string" where
  "hashAccountToken sha256 raw = sha256 raw"

definition createAccountToken :: "(string \<Rightarrow> string) \<Rightarrow> (nat \<Rightarrow> nat list) \<Rightarrow> account_token" where
  "createAccountToken sha256 random =
     (let raw = base64url (random 32) in \<lparr>at_raw = raw, at_hash = hashAccountToken sha256 raw\<rparr>)"

definition hashRateLimitKey :: "(string \<Rightarrow> string \<Rightarrow> string) \<Rightarrow> string \<Rightarrow> string \<Rightarrow> string" where
  "hashRateLimitKey hmac256 secret v = hmac256 secret (js_lower (js_trim v))"

subsection \<open>Programs\<close>

datatype template_kind = M_verification | M_password_reset | M_password_changed | M_account_deleted

datatype status_class = SC_success | SC_network | SC_4xx | SC_5xx | SC_other

record delivery_signal =
  dg_templateKind :: template_kind
  dg_success :: bool
  dg_statusClass :: status_class

record mail =
  ml_kind :: template_kind
  ml_to :: string
  ml_token :: "string option"

text \<open>A failed mail has the status of its answer, or none when there was no answer.\<close>

datatype service_error =
    Store_error account_error
  | Mail_error "int option"
  | Other_error string

datatype service_call =
    S_attempt string limit_kind date int int
  | S_register pending_registration
  | S_rotate string token_kind string date date
  | S_consume token_kind string date
  | S_replace string string date
  | S_find string
  | S_profile ident
  | S_delete ident
  | S_session session_row
  | S_mail mail
  | S_report delivery_signal

datatype service_answer =
    N_attempt rate_attempt
  | N_registered account_action
  | N_action "account_action option"
  | N_candidate "sign_in_candidate option"
  | N_profile "own_profile option"
  | N_bool bool
  | N_done
  | N_error service_error

datatype delivery =
    Deliver_registration pending_registration string
  | Deliver_rotation template_kind token_kind string string string date date
  | Deliver_notice template_kind string

datatype account_reply =
    Accepted
  | Rate_limited
  | Verified
  | Invalid
  | Reset_done
  | Authenticated string date
  | Deleted
  | Unavailable
  | Delivered

datatype 'a prog =
    Return 'a
  | Throw service_error
  | Call service_call "service_answer \<Rightarrow> 'a prog"
  | Schedule delivery "bool \<Rightarrow> 'a prog"

text \<open>An answer that is not an error and not of the kind of the call does not occur.\<close>

definition wrong_answer :: "service_answer \<Rightarrow> 'a prog" where
  "wrong_answer x = (case x of N_error e \<Rightarrow> Throw e | _ \<Rightarrow> Throw (Other_error ''unexpected answer''))"

subsection \<open>Deliveries\<close>

definition deliveryFailureClass :: "service_error \<Rightarrow> status_class" where
  "deliveryFailureClass e =
     (case e of
        Mail_error None \<Rightarrow> SC_network
      | Mail_error (Some status) \<Rightarrow>
          if 400 \<le> status \<and> status < 500 then SC_4xx
          else if 500 \<le> status \<and> status < 600 then SC_5xx else SC_other
      | _ \<Rightarrow> SC_other)"

definition safelyReportDelivery :: "delivery_signal \<Rightarrow> account_reply prog" where
  "safelyReportDelivery sig = Call (S_report sig) (\<lambda>x. Return Delivered)"

definition report_success :: "template_kind \<Rightarrow> account_reply prog" where
  "report_success k = safelyReportDelivery \<lparr>dg_templateKind = k, dg_success = True, dg_statusClass = SC_success\<rparr>"

definition report_failure :: "template_kind \<Rightarrow> service_error \<Rightarrow> account_reply prog" where
  "report_failure k e = safelyReportDelivery \<lparr>dg_templateKind = k, dg_success = False, dg_statusClass = deliveryFailureClass e\<rparr>"

definition send_mail :: "mail \<Rightarrow> account_reply prog" where
  "send_mail m = Call (S_mail m) (\<lambda>x. case x of N_error e \<Rightarrow> report_failure (ml_kind m) e | _ \<Rightarrow> report_success (ml_kind m))"

fun error_of :: "service_answer \<Rightarrow> service_error" where
  "error_of (N_error e) = e"
| "error_of x = Other_error ''unexpected answer''"

fun delivery_prog :: "delivery \<Rightarrow> account_reply prog" where
  "delivery_prog (Deliver_registration input raw) =
     Call (S_register input) (\<lambda>x. case x of
         N_registered account \<Rightarrow> send_mail \<lparr>ml_kind = M_verification, ml_to = aa_email account, ml_token = Some raw\<rparr>
       | N_error (Store_error Registration_unavailable) \<Rightarrow> Return Delivered
       | _ \<Rightarrow> report_failure M_verification (error_of x))"
| "delivery_prog (Deliver_rotation template kind email hash raw expiresAt now) =
     Call (S_rotate email kind hash expiresAt now) (\<lambda>x. case x of
         N_action None \<Rightarrow> Return Delivered
       | N_action (Some account) \<Rightarrow> send_mail \<lparr>ml_kind = template, ml_to = aa_email account, ml_token = Some raw\<rparr>
       | _ \<Rightarrow> report_failure template (error_of x))"
| "delivery_prog (Deliver_notice template to) = send_mail \<lparr>ml_kind = template, ml_to = to, ml_token = None\<rparr>"

text \<open>Handing a delivery over may throw; the deletion of an account goes on then.\<close>

definition scheduleDeliveryWork :: "delivery \<Rightarrow> account_reply prog \<Rightarrow> account_reply prog" where
  "scheduleDeliveryWork d k = Schedule d (\<lambda>ok. if ok then k else Throw (Other_error ''not scheduled''))"

definition scheduleBestEffortDeliveryWork :: "template_kind \<Rightarrow> delivery \<Rightarrow> account_reply prog \<Rightarrow> account_reply prog" where
  "scheduleBestEffortDeliveryWork template d k = Schedule d (\<lambda>ok. if ok then k
     else Call (S_report \<lparr>dg_templateKind = template, dg_success = False, dg_statusClass = SC_other\<rparr>) (\<lambda>x. k))"

subsection \<open>Requests\<close>

definition verificationTtlMs :: int where "verificationTtlMs = 24 * 60 * 60 * 1000"
definition passwordResetTtlMs :: int where "passwordResetTtlMs = 30 * 60 * 1000"
definition sessionTtlMs :: int where "sessionTtlMs = 7 * 24 * 60 * 60 * 1000"

text \<open>Limits and windows of the service; those for nicknames are of the route of the profile.\<close>

fun policy_limit :: "limit_kind \<Rightarrow> int" where
  "policy_limit L_registration = 5"
| "policy_limit L_sign_in = 10"
| "policy_limit L_resend = 3"
| "policy_limit L_reset_request = 3"
| "policy_limit L_reset_submit = 5"
| "policy_limit L_deletion = 3"
| "policy_limit L_nickname = 5"

fun policy_window :: "limit_kind \<Rightarrow> int" where
  "policy_window L_sign_in = 15 * 60 * 1000"
| "policy_window L_reset_submit = 15 * 60 * 1000"
| "policy_window L_deletion = 15 * 60 * 1000"
| "policy_window L_nickname = 60000"
| "policy_window k = 60 * 60 * 1000"

record limit_keys =
  lk_ip :: string
  lk_account :: string

definition normalizeEmail :: "string \<Rightarrow> string" where
  "normalizeEmail email = js_lower (js_trim email)"

definition passesRateLimit :: "limit_kind \<Rightarrow> limit_keys \<Rightarrow> date \<Rightarrow> (bool \<Rightarrow> 'a prog) \<Rightarrow> 'a prog" where
  "passesRateLimit kind keys now k =
     Call (S_attempt (lk_ip keys) kind now (policy_limit kind) (policy_window kind)) (\<lambda>x.
     Call (S_attempt (lk_account keys) kind now (policy_limit kind) (policy_window kind)) (\<lambda>y.
       case (x, y) of
         (N_attempt a, N_attempt b) \<Rightarrow> k (ra_allowed a \<and> ra_allowed b)
       | (N_attempt a, _) \<Rightarrow> wrong_answer y
       | _ \<Rightarrow> wrong_answer x))"

text \<open>The libraries the service is given, and what it draws for a request.\<close>

record service_env =
  se_tables :: account_env
  se_argon :: "string \<Rightarrow> string"
  se_check :: "string \<Rightarrow> string \<Rightarrow> bool option"
  se_dummyHash :: string

definition register_request ::
  "service_env \<Rightarrow> string \<Rightarrow> string \<Rightarrow> string \<Rightarrow> limit_keys \<Rightarrow> date \<Rightarrow> account_token \<Rightarrow> account_reply prog" where
  "register_request v email password legalRevision keys now token =
     passesRateLimit L_registration keys now (\<lambda>passes.
       if \<not> passes then Return Rate_limited
       else case hashPassword (se_argon v) password of
           Inl e \<Rightarrow> Throw (Other_error e)
         | Inr passwordHash \<Rightarrow> scheduleDeliveryWork (Deliver_registration
               \<lparr>rg_email = normalizeEmail email, rg_passwordHash = passwordHash, rg_tokenHash = at_hash token,
                rg_tokenExpiresAt = now + verificationTtlMs, rg_legalRevision = legalRevision\<rparr> (at_raw token)) (Return Accepted))"

definition resend_request :: "string \<Rightarrow> limit_keys \<Rightarrow> date \<Rightarrow> account_token \<Rightarrow> account_reply prog" where
  "resend_request email keys now token =
     passesRateLimit L_resend keys now (\<lambda>passes.
       if \<not> passes then Return Rate_limited
       else scheduleDeliveryWork (Deliver_rotation M_verification Verify_email (normalizeEmail email) (at_hash token) (at_raw token)
              (now + verificationTtlMs) now) (Return Accepted))"

definition reset_request :: "string \<Rightarrow> limit_keys \<Rightarrow> date \<Rightarrow> account_token \<Rightarrow> account_reply prog" where
  "reset_request email keys now token =
     passesRateLimit L_reset_request keys now (\<lambda>passes.
       if \<not> passes then Return Rate_limited
       else scheduleDeliveryWork (Deliver_rotation M_password_reset Reset_password (normalizeEmail email) (at_hash token) (at_raw token)
              (now + passwordResetTtlMs) now) (Return Accepted))"

definition verify_request :: "service_env \<Rightarrow> string \<Rightarrow> date \<Rightarrow> account_reply prog" where
  "verify_request v raw now =
     Call (S_consume Verify_email (hashAccountToken (en_sha256 (se_tables v)) raw) now) (\<lambda>x. case x of
         N_action account \<Rightarrow> Return (if account = None then Invalid else Verified)
       | _ \<Rightarrow> wrong_answer x)"

definition resetPassword_request :: "service_env \<Rightarrow> string \<Rightarrow> string \<Rightarrow> limit_keys \<Rightarrow> date \<Rightarrow> account_reply prog" where
  "resetPassword_request v raw password keys now =
     passesRateLimit L_reset_submit keys now (\<lambda>passes.
       if \<not> passes then Return Rate_limited
       else case hashPassword (se_argon v) password of
           Inl e \<Rightarrow> Throw (Other_error e)
         | Inr newPasswordHash \<Rightarrow>
             Call (S_replace (hashAccountToken (en_sha256 (se_tables v)) raw) newPasswordHash now) (\<lambda>x. case x of
                 N_action None \<Rightarrow> Return Invalid
               | N_action (Some account) \<Rightarrow>
                   scheduleDeliveryWork (Deliver_notice M_password_changed (aa_email account)) (Return Reset_done)
               | _ \<Rightarrow> wrong_answer x))"

text \<open>An unknown address is checked against a dummy digest.\<close>

definition signed_in :: "service_env \<Rightarrow> sign_in_candidate \<Rightarrow> date \<Rightarrow> string \<Rightarrow> account_reply prog" where
  "signed_in v candidate now rawToken =
     (case hashSessionToken (en_sha256 (se_tables v)) rawToken of
        Inl e \<Rightarrow> Throw (Other_error e)
      | Inr tokenHash \<Rightarrow>
          Call (S_session \<lparr>as_userId = sc_userId candidate, as_tokenHash = tokenHash, as_expiresAt = now + sessionTtlMs, as_lastSeenAt = now\<rparr>)
            (\<lambda>x. case x of N_done \<Rightarrow> Return (Authenticated rawToken (now + sessionTtlMs)) | _ \<Rightarrow> wrong_answer x))"

definition password_checked :: "service_env \<Rightarrow> string \<Rightarrow> date \<Rightarrow> string \<Rightarrow> sign_in_candidate option \<Rightarrow> account_reply prog" where
  "password_checked v password now rawToken candidate =
     (let checkedHash = (case candidate of None \<Rightarrow> se_dummyHash v | Some c \<Rightarrow> sc_passwordHash c);
          checked = verifyPassword (se_check v) checkedHash password in
      case candidate of
        None \<Rightarrow> Return Invalid
      | Some c \<Rightarrow> if \<not> pc_valid checked then Return Invalid else signed_in v c now rawToken)"

definition find_and_check :: "service_env \<Rightarrow> string \<Rightarrow> string \<Rightarrow> date \<Rightarrow> string \<Rightarrow> account_reply prog" where
  "find_and_check v email password now rawToken =
     Call (S_find (normalizeEmail email)) (\<lambda>x. case x of
         N_candidate candidate \<Rightarrow> password_checked v password now rawToken candidate
       | _ \<Rightarrow> wrong_answer x)"

definition signIn_request :: "service_env \<Rightarrow> string \<Rightarrow> string \<Rightarrow> limit_keys \<Rightarrow> date \<Rightarrow> string \<Rightarrow> account_reply prog" where
  "signIn_request v email password keys now rawToken =
     passesRateLimit L_sign_in keys now (\<lambda>passes.
       if \<not> passes then Return Rate_limited else find_and_check v email password now rawToken)"

definition delete_request :: "ident \<Rightarrow> limit_keys \<Rightarrow> date \<Rightarrow> account_reply prog" where
  "delete_request subject keys now =
     passesRateLimit L_deletion keys now (\<lambda>passes.
       if \<not> passes then Return Rate_limited
       else Call (S_profile subject) (\<lambda>x. case x of
           N_profile None \<Rightarrow> Return Unavailable
         | N_profile (Some profile) \<Rightarrow>
             Call (S_delete subject) (\<lambda>y. case y of
                 N_bool False \<Rightarrow> Return Unavailable
               | N_bool True \<Rightarrow> scheduleBestEffortDeliveryWork M_account_deleted
                   (Deliver_notice M_account_deleted (op_email profile)) (Return Deleted)
               | _ \<Rightarrow> wrong_answer y)
         | _ \<Rightarrow> wrong_answer x))"

subsection \<open>Calls on the tables\<close>

text \<open>What the store draws for a call: the clock, identifiers; and what the mail service answers.\<close>

record draw =
  dw_now :: date
  dw_userId :: ident
  dw_names :: "ident list"
  dw_tokenId :: ident
  dw_deletedId :: string
  dw_failure :: "service_error option"

fun service_op :: "draw \<Rightarrow> service_call \<Rightarrow> account_op option" where
  "service_op d (S_attempt key kind now limit window) = Some (Attempt key kind now (js_int window) (js_int limit))"
| "service_op d (S_register input) = Some (Register input (dw_now d) (dw_userId d) (dw_names d) (dw_tokenId d))"
| "service_op d (S_rotate email kind hash expiresAt now) = Some (Rotate email kind hash expiresAt now (dw_tokenId d))"
| "service_op d (S_consume kind hash now) = Some (Consume kind hash now)"
| "service_op d (S_replace hash password now) = Some (Reset_With hash password now)"
| "service_op d (S_delete subject) = Some (Delete_Account subject (dw_now d) (dw_deletedId d))"
| "service_op d (S_session s) = Some (Put_Session s)"
| "service_op d c = None"

definition answered :: "('b \<Rightarrow> service_answer) \<Rightarrow> account_error + 'b \<Rightarrow> service_answer" where
  "answered f r = (case r of Inl e \<Rightarrow> N_error (Store_error e) | Inr x \<Rightarrow> f x)"

fun service_answers :: "account_env \<Rightarrow> draw \<Rightarrow> service_call \<Rightarrow> accounts_db \<Rightarrow> service_answer" where
  "service_answers v d (S_attempt key kind now limit window) db =
     answered N_attempt (fst (takeRateLimitAttempt (en_overflow v) db key kind now (js_int window) (js_int limit)))"
| "service_answers v d (S_register input) db =
     answered N_registered (fst (registerPendingAccount (en_unique v) db input (dw_now d) (dw_userId d) (dw_names d) (dw_tokenId d)))"
| "service_answers v d (S_rotate email kind hash expiresAt now) db =
     answered N_action (fst (createOrRotateActionToken (en_unique v) db email kind hash expiresAt now (dw_tokenId d)))"
| "service_answers v d (S_consume kind hash now) db = answered N_action (fst (consumeActionToken db kind hash now))"
| "service_answers v d (S_replace hash password now) db =
     answered N_action (fst (replacePasswordAndRevokeSessions db hash password now))"
| "service_answers v d (S_find email) db = N_candidate (findPasswordSignIn db email)"
| "service_answers v d (S_profile subject) db = N_profile (loadOwnProfile db subject)"
| "service_answers v d (S_delete subject) db =
     answered N_bool (fst (deleteOwnAccount (en_unique v) db subject (dw_now d) (dw_deletedId d)))"
| "service_answers v d (S_session s) db =
     answered (\<lambda>_. N_done) (fst (auth_createSession (en_unique v) (en_missing v) db s))"
| "service_answers v d c db = (case dw_failure d of None \<Rightarrow> N_done | Some e \<Rightarrow> N_error e)"

definition service_step_db :: "account_env \<Rightarrow> draw \<Rightarrow> service_call \<Rightarrow> accounts_db \<Rightarrow> accounts_db" where
  "service_step_db v d c db = (case service_op d c of None \<Rightarrow> db | Some op \<Rightarrow> account_step v op db)"

subsection \<open>Running one program, and many\<close>

text \<open>Alone: the reply or error, what was handed over, the calls that were made, the tables.\<close>

primrec run_prog :: "account_env \<Rightarrow> draw \<Rightarrow> 'a prog \<Rightarrow> accounts_db \<Rightarrow> (service_error + 'a) \<times> delivery list \<times> service_call list \<times> accounts_db" where
  "run_prog v d (Return r) db = (Inr r, [], [], db)"
| "run_prog v d (Throw e) db = (Inl e, [], [], db)"
| "run_prog v d (Call c k) db =
     (case run_prog v d (k (service_answers v d c db)) (service_step_db v d c db) of
        (r, ds, cs, db') \<Rightarrow> (r, ds, c # cs, db'))"
| "run_prog v d (Schedule t k) db =
     (case run_prog v d (k True) db of (r, ds, cs, db') \<Rightarrow> (r, t # ds, cs, db'))"

record service =
  sv_db :: accounts_db
  sv_running :: "account_reply prog list"
  sv_calls :: "service_call list"

text \<open>
  \<open>Advance i d\<close> performs the next step of the \<open>i\<close>-th program; a delivery that is handed over
  joins the programs, \<open>Refuse i\<close> is handing over that throws. \<open>Elsewhere\<close> is any other operation
  on the tables.
\<close>

datatype service_event =
    Begin "account_reply prog"
  | Advance nat draw
  | Refuse nat
  | Elsewhere account_op

fun service_step :: "account_env \<Rightarrow> service_event \<Rightarrow> service \<Rightarrow> service" where
  "service_step v (Begin p) s = s\<lparr>sv_running := sv_running s @ [p]\<rparr>"
| "service_step v (Advance i d) s =
     (if i < length (sv_running s) then
       (case sv_running s ! i of
          Call c k \<Rightarrow> s\<lparr>sv_running := (sv_running s)[i := k (service_answers v d c (sv_db s))],
             sv_calls := sv_calls s @ [c], sv_db := service_step_db v d c (sv_db s)\<rparr>
        | Schedule t k \<Rightarrow> s\<lparr>sv_running := (sv_running s)[i := k True] @ [delivery_prog t]\<rparr>
        | _ \<Rightarrow> s)
      else s)"
| "service_step v (Refuse i) s =
     (if i < length (sv_running s) then
       (case sv_running s ! i of
          Schedule t k \<Rightarrow> s\<lparr>sv_running := (sv_running s)[i := k False]\<rparr>
        | _ \<Rightarrow> s)
      else s)"
| "service_step v (Elsewhere op) s = s\<lparr>sv_db := account_step v op (sv_db s)\<rparr>"

definition service_run :: "account_env \<Rightarrow> service_event list \<Rightarrow> service \<Rightarrow> service" where
  "service_run v evs s = foldl (\<lambda>s ev. service_step v ev s) s evs"

definition start_service :: "accounts_db \<Rightarrow> service" where
  "start_service db = \<lparr>sv_db = db, sv_running = [], sv_calls = []\<rparr>"

subsection \<open>The cleanup\<close>

definition accountCleanupBatchSize :: nat where "accountCleanupBatchSize = 100"
definition accountCleanupIntervalMs :: int where "accountCleanupIntervalMs = 60 * 60 * 1000"
definition accountCleanupRetryMs :: int where "accountCleanupRetryMs = 5 * 60 * 1000"

text \<open>A sweep stops after a batch that was not full, or at the tenth; the list holds the clock of each.\<close>

fun cleanup_sweep :: "date list \<Rightarrow> accounts_db \<Rightarrow> accounts_db" where
  "cleanup_sweep [] db = db"
| "cleanup_sweep (now # ts) db =
     (case cleanupExpiredAccountData db now (js_int (int accountCleanupBatchSize)) of
        (Inl e, db') \<Rightarrow> db'
      | (Inr r, db') \<Rightarrow>
          if cu_tokensDeleted r < accountCleanupBatchSize \<and> cu_rateLimitRowsDeleted r < accountCleanupBatchSize
            \<and> cu_accountsDeleted r < accountCleanupBatchSize then db'
          else cleanup_sweep ts db')"

definition maxCleanupBatchesPerSweep :: nat where "maxCleanupBatchesPerSweep = 10"

definition cleanupExpired :: "date list \<Rightarrow> accounts_db \<Rightarrow> accounts_db" where
  "cleanupExpired ts db = cleanup_sweep (take maxCleanupBatchesPerSweep ts) db"

text \<open>The delay until the next sweep and the delay it would retry with, after a sweep that failed or not.\<close>

definition next_cleanup :: "bool \<Rightarrow> int \<Rightarrow> int \<times> int" where
  "next_cleanup failed failureRetryMs =
     (if failed then (failureRetryMs, min (failureRetryMs * 2) accountCleanupIntervalMs)
      else (accountCleanupIntervalMs, accountCleanupRetryMs))"

text \<open>After the sweep at the start.\<close>

definition first_cleanup :: "bool \<Rightarrow> int \<times> int" where
  "first_cleanup failed =
     (if failed then (accountCleanupRetryMs, accountCleanupRetryMs * 2) else (accountCleanupIntervalMs, accountCleanupRetryMs))"

end
