(* ===== verification/AccountFlows.thy ===== *)
theory AccountFlows
  imports AccountService
begin

section \<open>Account requests and deliveries in any order\<close>

text \<open>
  Runs of the account service are runs of the operations on the tables, programs finish after few
  steps, replies do not tell who has an account, an address that was registered can be verified
  and used; and what a sign-in that is under way may still do.
\<close>

lemma service_run_simps [simp]:
  "service_run v [] s = s" "service_run v (ev # evs) s = service_run v evs (service_step v ev s)"
  by (simp_all add: service_run_def)

subsection \<open>The tables\<close>

lemma account_run_append: "account_run v (a @ b) db = account_run v b (account_run v a db)"
  by (simp add: account_run_def)

lemma service_step_db_ops: "service_step_db v d c db = account_run v (case service_op d c of None \<Rightarrow> [] | Some op \<Rightarrow> [op]) db"
  by (simp add: service_step_db_def split: option.split)

lemma service_step_ops: "\<exists>ops. sv_db (service_step v ev s) = account_run v ops (sv_db s)"
proof (cases ev)
  case (Advance i d)
  then show ?thesis
    by (auto simp: service_step_db_ops split: prog.split intro: exI [of _ "[]"])
next
  case (Refuse i)
  then show ?thesis by (auto split: prog.split intro: exI [of _ "[]"])
next
  case (Elsewhere op)
  then show ?thesis by (auto intro: exI [of _ "[op]"])
qed (auto intro: exI [of _ "[]"])

lemma service_run_ops: "\<exists>ops. sv_db (service_run v evs s) = account_run v ops (sv_db s)"
proof (induction evs arbitrary: s)
  case Nil
  then show ?case by (auto intro: exI [of _ "[]"])
next
  case (Cons ev evs)
  obtain a where a: "sv_db (service_step v ev s) = account_run v a (sv_db s)" using service_step_ops by blast
  obtain b where "sv_db (service_run v evs (service_step v ev s)) = account_run v b (sv_db (service_step v ev s))"
    using Cons.IH by blast
  with a show ?case by (auto simp: account_run_append intro!: exI [of _ "a @ b"])
qed

subsection \<open>Programs finish\<close>

fun finished :: "'a prog \<Rightarrow> bool" where
  "finished (Return r) = True"
| "finished (Throw e) = True"
| "finished p = False"

text \<open>A program that has finished after that many steps, whatever is answered, and how it ends.\<close>

fun ends_in :: "('a prog \<Rightarrow> bool) \<Rightarrow> nat \<Rightarrow> 'a prog \<Rightarrow> bool" where
  "ends_in Q n (Return r) = Q (Return r)"
| "ends_in Q n (Throw e) = Q (Throw e)"
| "ends_in Q 0 p = False"
| "ends_in Q (Suc n) (Call c k) = (\<forall>x. ends_in Q n (k x))"
| "ends_in Q (Suc n) (Schedule t k) = (\<forall>ok. ends_in Q n (k ok))"

lemma ends_0: "ends_in Q 0 p = (finished p \<and> Q p)"
  by (cases p) simp_all

lemma ends_mono: "ends_in Q n p \<Longrightarrow> n \<le> m \<Longrightarrow> ends_in Q m p"
proof (induction Q n p arbitrary: m rule: ends_in.induct)
  case (4 Q n c k)
  then show ?case by (cases m) auto
next
  case (5 Q n t k)
  then show ?case by (cases m) auto
qed simp_all

abbreviation ends :: "nat \<Rightarrow> 'a prog \<Rightarrow> bool" where
  "ends \<equiv> ends_in (\<lambda>p. True)"

abbreviation delivers :: "nat \<Rightarrow> account_reply prog \<Rightarrow> bool" where
  "delivers \<equiv> ends_in (\<lambda>p. p = Return Delivered)"

lemma ends_wrong [simp]: "ends n (wrong_answer x)"
  by (cases x) (simp_all add: wrong_answer_def)

lemma ends_limit: "(\<And>b. ends n (k b)) \<Longrightarrow> ends (Suc (Suc n)) (passesRateLimit kind keys now k)"
  by (simp add: passesRateLimit_def split: service_answer.split)

lemma delivers_send: "delivers (Suc (Suc n)) (send_mail m)"
  by (simp add: send_mail_def report_success_def report_failure_def safelyReportDelivery_def split: service_answer.split)

lemma delivers_report: "delivers (Suc n) (report_failure k e)" "delivers (Suc n) (report_success k)"
  by (simp_all add: report_success_def report_failure_def safelyReportDelivery_def)

lemma delivers_delivery: "delivers 3 (delivery_prog t)"
  by (cases t) (auto simp: eval_nat_numeral delivers_send delivers_report
      split: service_answer.split option.split service_error.split account_error.split)

lemma ends_weaken: "ends_in Q n p \<Longrightarrow> ends n p"
  by (induction Q n p rule: ends_in.induct) simp_all

lemma ends_schedule: "ends (Suc n) (scheduleDeliveryWork t (Return r))"
  by (simp add: scheduleDeliveryWork_def)

lemma ends_signed_in: "ends (Suc 0) (signed_in v c now raw)"
  by (simp add: signed_in_def split: sum.split service_answer.split)

lemma ends_checked: "ends (Suc 0) (password_checked v password now raw c)"
  using ends_signed_in by (simp add: password_checked_def Let_def split: option.split)

lemma ends_find: "ends 2 (find_and_check v email password now raw)"
  using ends_checked by (simp add: find_and_check_def numeral_2_eq_2 split: service_answer.split)

text \<open>The requests and deliveries of the service.\<close>

datatype request =
    R_register string string string limit_keys date account_token
  | R_resend string limit_keys date account_token
  | R_reset string limit_keys date account_token
  | R_verify string date
  | R_resetPassword string string limit_keys date
  | R_signIn string string limit_keys date string
  | R_delete ident limit_keys date
  | R_delivery delivery

fun request_prog :: "service_env \<Rightarrow> request \<Rightarrow> account_reply prog" where
  "request_prog v (R_register email password revision keys now token) = register_request v email password revision keys now token"
| "request_prog v (R_resend email keys now token) = resend_request email keys now token"
| "request_prog v (R_reset email keys now token) = reset_request email keys now token"
| "request_prog v (R_verify raw now) = verify_request v raw now"
| "request_prog v (R_resetPassword raw password keys now) = resetPassword_request v raw password keys now"
| "request_prog v (R_signIn email password keys now raw) = signIn_request v email password keys now raw"
| "request_prog v (R_delete subject keys now) = delete_request subject keys now"
| "request_prog v (R_delivery t) = delivery_prog t"

lemma ends_request: "ends 6 (request_prog v r)"
proof -
  have limit: "ends 6 (passesRateLimit kind keys now k)" if "\<And>b. ends 4 (k b)" for kind keys now and k :: "bool \<Rightarrow> account_reply prog"
    using ends_limit [of 4 k kind keys now] that by (simp add: eval_nat_numeral)
  have one: "ends 4 p" if "ends (Suc 0) p" for p :: "account_reply prog"
    by (rule ends_mono [OF that]) simp
  have best: "ends (Suc (Suc 0)) (scheduleBestEffortDeliveryWork k d (Return x))" for k d and x :: account_reply
    by (simp add: scheduleBestEffortDeliveryWork_def)
  show ?thesis
  proof (cases r)
    case R_register
    then show ?thesis
      using one [OF ends_schedule] by (auto simp: register_request_def intro!: limit split: sum.split)
  next
    case R_resend
    then show ?thesis using one [OF ends_schedule] by (auto simp: resend_request_def intro!: limit)
  next
    case R_reset
    then show ?thesis using one [OF ends_schedule] by (auto simp: reset_request_def intro!: limit)
  next
    case R_verify
    then show ?thesis by (auto simp: verify_request_def eval_nat_numeral split: service_answer.split)
  next
    case R_resetPassword
    then show ?thesis
      by (simp only: request_prog.simps resetPassword_request_def, intro limit)
        (simp add: eval_nat_numeral ends_schedule split: sum.split service_answer.split option.split)
  next
    case R_signIn
    then show ?thesis using ends_mono [OF ends_find, of 4] by (auto simp: signIn_request_def intro!: limit)
  next
    case R_delete
    then show ?thesis
      by (simp only: request_prog.simps delete_request_def, intro limit)
        (simp add: eval_nat_numeral best split: service_answer.split option.split bool.split)
  next
    case R_delivery
    then show ?thesis using ends_mono [OF ends_weaken [OF delivers_delivery], of 6] by simp
  qed
qed

text \<open>The steps of one program among those of others.\<close>

fun own_step :: "nat \<Rightarrow> service_event \<Rightarrow> bool" where
  "own_step i (Advance j d) = (j = i)"
| "own_step i ev = False"

lemma other_steps:
  assumes "i < length (sv_running s)" "ends_in Q n (sv_running s ! i)"
  shows "i < length (sv_running (service_step v ev s)) \<and> ends_in Q (n - (if own_step i ev then 1 else 0)) (sv_running (service_step v ev s) ! i)"
proof (cases ev)
  case (Advance j d)
  show ?thesis
  proof (cases "j = i")
    case True
    then show ?thesis
      using assms Advance by (cases n; cases "sv_running s ! i") (auto simp: nth_append)
  next
    case False
    then show ?thesis
      using assms Advance by (auto simp: nth_append split: prog.split)
  qed
next
  case (Refuse j)
  then show ?thesis
    using assms by (cases n; cases "j = i"; cases "sv_running s ! i") (auto simp: nth_list_update intro: ends_mono split: prog.split)
qed (use assms in \<open>auto simp: nth_append\<close>)

lemma steps_finish:
  assumes "i < length (sv_running s)" "ends_in Q n (sv_running s ! i)" "n \<le> length (filter (own_step i) evs)"
  shows "finished (sv_running (service_run v evs s) ! i) \<and> Q (sv_running (service_run v evs s) ! i)"
  using assms
proof (induction evs arbitrary: s n)
  case Nil
  then show ?case using ends_0 by (metis filter.simps(1) le_zero_eq list.size(3) service_run_simps(1))
next
  case (Cons ev evs)
  have "n - (if own_step i ev then 1 else 0) \<le> length (filter (own_step i) evs)" using Cons.prems(3) by (auto split: if_splits)
  then show ?case using Cons.IH other_steps [OF Cons.prems(1,2), of v ev] by auto
qed

subsection \<open>Rate limits of a request\<close>

lemma attempt_limits:
  "ac_limits db = ac_limits db' \<Longrightarrow>
   fst (takeRateLimitAttempt o' db h k now w l) = fst (takeRateLimitAttempt o' db' h k now w l)
   \<and> ac_limits (snd (takeRateLimitAttempt o' db h k now w l)) = ac_limits (snd (takeRateLimitAttempt o' db' h k now w l))"
  by (simp add: takeRateLimitAttempt_def Let_def split: option.split)

lemma attempt_only_limits:
  "snd (takeRateLimitAttempt o' db h k now w l) = db\<lparr>ac_limits := ac_limits (snd (takeRateLimitAttempt o' db h k now w l))\<rparr>"
  by (simp add: takeRateLimitAttempt_def Let_def split: option.split)

text \<open>What the limit lets pass, and the tables after its two attempts.\<close>

definition limit_check :: "account_env \<Rightarrow> limit_kind \<Rightarrow> limit_keys \<Rightarrow> date \<Rightarrow> accounts_db \<Rightarrow> (service_error + bool) \<times> accounts_db" where
  "limit_check v kind keys now db =
     (case takeRateLimitAttempt (en_overflow v) db (lk_ip keys) kind now (js_int (policy_window kind)) (js_int (policy_limit kind)) of
        (x, db1) \<Rightarrow>
       (case takeRateLimitAttempt (en_overflow v) db1 (lk_account keys) kind now (js_int (policy_window kind)) (js_int (policy_limit kind)) of
          (y, db2) \<Rightarrow>
           (case (x, y) of
              (Inr a, Inr b) \<Rightarrow> (Inr (ra_allowed a \<and> ra_allowed b), db2)
            | (Inr a, Inl e) \<Rightarrow> (Inl (Store_error e), db2)
            | (Inl e, _) \<Rightarrow> (Inl (Store_error e), db2))))"

definition limit_calls :: "limit_kind \<Rightarrow> limit_keys \<Rightarrow> date \<Rightarrow> service_call list" where
  "limit_calls kind keys now = [S_attempt (lk_ip keys) kind now (policy_limit kind) (policy_window kind),
     S_attempt (lk_account keys) kind now (policy_limit kind) (policy_window kind)]"

lemma run_limit:
  "run_prog v d (passesRateLimit kind keys now k) db =
     (case limit_check v kind keys now db of
        (Inl e, db2) \<Rightarrow> (Inl e, [], limit_calls kind keys now, db2)
      | (Inr b, db2) \<Rightarrow> (case run_prog v d (k b) db2 of (r, ds, cs, db3) \<Rightarrow> (r, ds, limit_calls kind keys now @ cs, db3)))"
  by (simp add: passesRateLimit_def limit_check_def limit_calls_def answered_def wrong_answer_def service_step_db_def
      split: sum.split prod.split)

lemma limit_check_limits:
  assumes "ac_limits db = ac_limits db'"
  shows "fst (limit_check v kind keys now db) = fst (limit_check v kind keys now db')"
    and "snd (limit_check v kind keys now db) = db\<lparr>ac_limits := ac_limits (snd (limit_check v kind keys now db))\<rparr>"
    and "ac_limits (snd (limit_check v kind keys now db)) = ac_limits (snd (limit_check v kind keys now db'))"
proof -
  let ?t = "\<lambda>db h. takeRateLimitAttempt (en_overflow v) db h kind now (js_int (policy_window kind)) (js_int (policy_limit kind))"
  have one: "fst (?t db h) = fst (?t db' h)" "ac_limits (snd (?t db h)) = ac_limits (snd (?t db' h))"
    if "ac_limits db = ac_limits db'" for db db' h using attempt_limits [OF that] by blast+
  have first: "fst (?t db (lk_ip keys)) = fst (?t db' (lk_ip keys))" by (rule one [OF assms])
  have second: "fst (?t (snd (?t db (lk_ip keys))) (lk_account keys)) = fst (?t (snd (?t db' (lk_ip keys))) (lk_account keys))"
    by (rule one(1) [OF one(2) [OF assms]])
  show "fst (limit_check v kind keys now db) = fst (limit_check v kind keys now db')"
    using first second by (simp add: limit_check_def split_beta split: sum.split)
  have db2: "snd (limit_check v kind keys now d) = snd (?t (snd (?t d (lk_ip keys))) (lk_account keys))" for d
    by (simp add: limit_check_def split_beta split: sum.split)
  show "ac_limits (snd (limit_check v kind keys now db)) = ac_limits (snd (limit_check v kind keys now db'))"
    unfolding db2 by (rule one(2) [OF one(2) [OF assms]])
  show "snd (limit_check v kind keys now db) = db\<lparr>ac_limits := ac_limits (snd (limit_check v kind keys now db))\<rparr>"
    unfolding db2 using attempt_only_limits [of _ db] attempt_only_limits [of _ "snd (?t db (lk_ip keys))"]
    by (metis (no_types, lifting) accounts_db.surjective accounts_db.update_convs(7))
qed

subsection \<open>From a registration to a sign-in\<close>

definition account_keys :: "accounts_db \<Rightarrow> bool" where
  "account_keys db = (distinct (map ur_id (ac_users db)) \<and> distinct (map (\<lambda>u. js_lower (ur_email u)) (ac_users db))
     \<and> distinct (map pw_userId (ac_passwords db)) \<and> distinct (map tk_tokenHash (ac_tokens db)))"

lemma js_lower_twice [simp]: "js_lower (js_lower s) = js_lower s"
proof -
  have "lower_char (lower_char c) = lower_char c" for c
  proof (cases "65 \<le> (of_char c :: nat) \<and> (of_char c :: nat) \<le> 90")
    case False
    then have "lower_char c = c" unfolding lower_char_def by auto
    then show ?thesis by simp
  next
    case True
    then have "of_char (lower_char c) = (of_char c :: nat) + 32"
      by (simp add: lower_char_def of_char_of)
    then show ?thesis using True by (simp add: lower_char_def [of "lower_char c"])
  qed
  then show ?thesis by (simp add: js_lower_def)
qed

definition has_pending :: "accounts_db \<Rightarrow> pending_registration \<Rightarrow> date \<Rightarrow> ident \<Rightarrow> user_row \<Rightarrow> bool" where
  "has_pending db i now t x = (x \<in> set (ac_users db) \<and> ur_disabledAt x = None
     \<and> js_lower (ur_email x) = normalizeAccountEmail (rg_email i)
     \<and> new_password (ur_id x) (rg_passwordHash i) now \<in> set (ac_passwords db)
     \<and> verification_token t (ur_id x) i now \<in> set (ac_tokens db))"

lemma finish_pending:
  assumes "finish_registration unique db0 db userId email i now t = (Inr a, s)" "account_keys db"
    and "x \<in> set (ac_users db)" "ur_id x = userId" "ur_disabledAt x = None" "js_lower (ur_email x) = normalizeAccountEmail (rg_email i)"
    and "new_password userId (rg_passwordHash i) now \<in> set (ac_passwords db)"
  shows "account_keys s \<and> has_pending s i now t x"
proof -
  obtain tokens where "add_row same_action_token (verification_token t userId i now) (ac_tokens db) = Some tokens"
      "ac_tokens s = tokens" "ac_users s = ac_users db" "ac_passwords s = ac_passwords db"
    using assms(1) by (auto simp: finish_registration_def split: option.splits)
  then show ?thesis
    using assms(2-) by (auto simp: account_keys_def has_pending_def add_row_Some same_action_token_def list_ex_iff)
qed

lemma registered:
  assumes "registerPendingAccount unique db i now u ns t = (Inr a, s)" "account_keys db"
  shows "account_keys s \<and> (\<exists>x. has_pending s i now t x)"
proof -
  have run: "register_body unique db i now u ns t = (Inr a, s)"
    using assms(1) by (auto simp: registerPendingAccount_def split: prod.splits sum.splits)
  show ?thesis
  proof (rule register_body_cases [OF run])
    fix x :: user_row
    let ?db = "db\<lparr>ac_passwords := ac_passwords db @ [new_password (ur_id x) (rg_passwordHash i) now]\<rparr>"
    assume find: "List.find (\<lambda>x. js_lower (ur_email x) = normalizeAccountEmail (rg_email i)) (ac_users db) = Some x" "ur_disabledAt x = None"
      and fresh: "pw_userId (new_password (ur_id x) (rg_passwordHash i) now) \<notin> pw_userId ` set (ac_passwords db)"
      and fin: "finish_registration unique db ?db (ur_id x) (ur_email x) i now t = (Inr a, s)"
    have x: "x \<in> set (ac_users db)" "js_lower (ur_email x) = normalizeAccountEmail (rg_email i)"
      using find(1) by (auto dest!: find_in_set)
    have "account_keys ?db" using assms(2) fresh by (auto simp: account_keys_def)
    from finish_pending [OF fin this, of x] show ?thesis using x find(2) by auto
  next
    fix balances names
    let ?x = "new_user u (normalizeAccountEmail (rg_email i)) now"
    let ?db = "db\<lparr>ac_users := ac_users db @ [?x], ac_passwords := ac_passwords db @ [new_password u (rg_passwordHash i) now],
        ac_balances := balances, ac_nicknames := names\<rparr>"
    assume none: "\<not> list_ex (same_user ?x) (ac_users db)"
      and fresh: "pw_userId (new_password u (rg_passwordHash i) now) \<notin> pw_userId ` set (ac_passwords db)"
      and fin: "finish_registration unique db ?db u (normalizeAccountEmail (rg_email i)) i now t = (Inr a, s)"
    have "account_keys ?db"
      using assms(2) none fresh by (auto simp: account_keys_def list_ex_iff same_user_def)
    from finish_pending [OF fin this, of ?x] show ?thesis by (auto simp: new_user_def normalizeAccountEmail_def)
  qed
qed

lemma found_one:
  assumes "x \<in> set xs" "P x" "\<And>y. y \<in> set xs \<Longrightarrow> P y \<Longrightarrow> y = x"
  shows "List.find P xs = Some x"
proof -
  obtain y where y: "List.find P xs = Some y" using assms(1,2) by (metis find_None_iff option.exhaust)
  then have "y = x" using assms(3) find_in_set by metis
  with y show ?thesis by blast
qed

lemma first_filter_unique:
  assumes "x \<in> set xs" "P x" "\<And>y. y \<in> set xs \<Longrightarrow> P y \<Longrightarrow> y = x"
  shows "first_row (filter P xs) = Some x"
proof -
  obtain y ys where y: "filter P xs = y # ys" using assms(1,2) by (metis filter_empty_conv list.exhaust)
  then have "y \<in> set xs \<and> P y" by (metis filter_eq_ConsD in_set_conv_decomp)
  then have "y = x" using assms(3) by blast
  with y show ?thesis by simp
qed

lemma pending_verifies:
  assumes keys: "account_keys s" and pending: "has_pending s i now t x" and time: "now3 < rg_tokenExpiresAt i"
  shows "\<exists>a s3. consumeActionToken s Verify_email (rg_tokenHash i) now3 = (Inr (Some a), s3)
    \<and> findPasswordSignIn s3 (rg_email i) = Some \<lparr>sc_userId = ur_id x, sc_email = normalizeAccountEmail (ur_email x), sc_passwordHash = rg_passwordHash i\<rparr>
    \<and> ac_sessions s3 = ac_sessions s \<and> x \<in> set (ac_users s)"
proof -
  let ?P = "open_action_token (rg_tokenHash i) Verify_email now3" and ?token = "verification_token t (ur_id x) i now"
  let ?pw = "new_password (ur_id x) (rg_passwordHash i) now"
  let ?s1 = "spend_tokens ?P now3 s"
  let ?U = "active_user (ur_id x)" and ?f = "\<lambda>u. u\<lparr>ur_emailVerifiedAt := Some now3, ur_updatedAt := now3\<rparr>"
  let ?Q = "\<lambda>p. pw_userId p = ur_id x \<and> pw_verifiedAt p = None" and ?g = "\<lambda>p. p\<lparr>pw_verifiedAt := Some now3, pw_updatedAt := now3\<rparr>"
  let ?s3 = "?s1\<lparr>ac_users := update_where ?U ?f (ac_users s), ac_passwords := update_where ?Q ?g (ac_passwords s)\<rparr>"
  note p = pending [unfolded has_pending_def]
  have tokens: "distinct (map tk_tokenHash (ac_tokens s))" and ids: "distinct (map ur_id (ac_users s))"
    and emails: "distinct (map (\<lambda>u. js_lower (ur_email u)) (ac_users s))" and pws: "distinct (map pw_userId (ac_passwords s))"
    using keys by (simp_all add: account_keys_def)
  have token: "first_row (filter ?P (ac_tokens s)) = Some ?token"
  proof (rule first_filter_unique)
    show "?token \<in> set (ac_tokens s)" using p by simp
    show "?P ?token" using time by (simp add: open_action_token_def verification_token_def)
    fix y assume "y \<in> set (ac_tokens s)" "?P y"
    then show "y = ?token"
      using distinct_map_eq [OF tokens, of y ?token] p by (simp add: open_action_token_def verification_token_def)
  qed
  have user: "List.find ?U (ac_users s) = Some x"
  proof (rule found_one)
    fix y assume "y \<in> set (ac_users s)" "?U y"
    then show "y = x" using distinct_map_eq [OF ids, of y x] p by (simp add: active_user_def)
  qed (use p in \<open>simp_all add: active_user_def\<close>)
  have has: "list_ex ?Q (ac_passwords s)" using p by (auto simp: list_ex_iff new_password_def intro!: bexI [of _ ?pw])
  have s1: "ac_users ?s1 = ac_users s" "ac_passwords ?s1 = ac_passwords s" "ac_sessions ?s1 = ac_sessions s"
    by (simp_all add: spend_tokens_def)
  have consume: "consumeActionToken s Verify_email (rg_tokenHash i) now3 =
      (Inr (Some \<lparr>aa_userId = ur_id x, aa_email = normalizeAccountEmail (ur_email x)\<rparr>), ?s3)"
    using has by (simp add: consumeActionToken_def Let_def token verification_token_def s1 user)
  let ?x' = "?f x" and ?pw' = "?g ?pw" and ?E = "sign_in_eligible (normalizeAccountEmail (rg_email i))"
  have find: "List.find ?E (List.product (ac_users ?s3) (ac_passwords ?s3)) = Some (?x', ?pw')"
  proof (rule found_one)
    have "?x' \<in> set (ac_users ?s3)"
      using p by (auto simp: in_update_where active_user_def intro!: bexI [of _ x])
    moreover have "?pw' \<in> set (ac_passwords ?s3)"
      using p by (auto simp: in_update_where new_password_def intro!: bexI [of _ ?pw])
    ultimately show "(?x', ?pw') \<in> set (List.product (ac_users ?s3) (ac_passwords ?s3))" by simp
    show "?E (?x', ?pw')" using p by (simp add: sign_in_eligible_def new_password_def)
    fix y assume y: "y \<in> set (List.product (ac_users ?s3) (ac_passwords ?s3))" "?E y"
    obtain y1 y2 where y12: "y = (y1, y2)" by (cases y)
    obtain z1 where z1: "z1 \<in> set (ac_users s)" "y1 = (if ?U z1 then ?f z1 else z1)"
      using y(1) y12 by (auto simp: in_update_where)
    obtain z2 where z2: "z2 \<in> set (ac_passwords s)" "y2 = (if ?Q z2 then ?g z2 else z2)"
      using y(1) y12 by (auto simp: in_update_where)
    have "js_lower (ur_email z1) = js_lower (ur_email x)" using y(2) y12 z1(2) p by (auto simp: sign_in_eligible_def split: if_splits)
    then have "z1 = x" using distinct_map_eq [OF emails z1(1), of x] p by simp
    then have "y1 = ?x'" using z1(2) p by (simp add: active_user_def)
    moreover have "pw_userId z2 = ur_id x" using y(2) y12 z2(2) \<open>y1 = ?x'\<close> by (auto simp: sign_in_eligible_def split: if_splits)
    then have "z2 = ?pw" using distinct_map_eq [OF pws z2(1), of ?pw] p by (simp add: new_password_def)
    then have "y2 = ?pw'" using z2(2) by (simp add: new_password_def)
    ultimately show "y = (?x', ?pw')" using y12 by simp
  qed
  have "findPasswordSignIn ?s3 (rg_email i) = Some \<lparr>sc_userId = ur_id x, sc_email = normalizeAccountEmail (ur_email x), sc_passwordHash = rg_passwordHash i\<rparr>"
    unfolding findPasswordSignIn_def find by (simp add: new_password_def)
  moreover have "ac_sessions ?s3 = ac_sessions s" using s1 by simp
  ultimately show ?thesis using consume p by blast
qed

lemma run_find:
  "run_prog t d (find_and_check v email password now raw) db =
     (case run_prog t d (password_checked v password now raw (findPasswordSignIn db (normalizeEmail email))) db of
        (r, ds, cs, db') \<Rightarrow> (r, ds, S_find (normalizeEmail email) # cs, db'))"
  by (simp add: find_and_check_def service_step_db_def)

lemma run_signed_in:
  "run_prog t d (signed_in v c now raw) db =
     (let row = \<lparr>as_userId = sc_userId c, as_tokenHash = en_sha256 (se_tables v) raw, as_expiresAt = now + sessionTtlMs, as_lastSeenAt = now\<rparr> in
      if raw = [] then (Inl (Other_error ''Session token is required''), [], [], db)
      else case auth_createSession (en_unique t) (en_missing t) db row of
        (Inl e, db') \<Rightarrow> (Inl (Store_error e), [], [S_session row], db')
      | (Inr x, db') \<Rightarrow> (Inr (Authenticated raw (now + sessionTtlMs)), [], [S_session row], db'))"
  by (simp add: signed_in_def hashSessionToken_def answered_def wrong_answer_def service_step_db_def Let_def split: sum.split prod.split)

section \<open>Properties\<close>

text \<open>
  whatever requests, deliveries and other operations run in whatever order, what the
  account service does to the tables is a run of the store's operations, so no identifier of a
  user is ever given twice and a disabled account stays disabled.
\<close>

theorem service_run_is_account_run:
  assumes "users_ok (sv_db s)"
  shows "(\<exists>ops. sv_db (service_run v evs s) = account_run v ops (sv_db s)) \<and> users_ok (sv_db (service_run v evs s))
    \<and> (\<forall>u. u \<in> set (ac_users (sv_db s)) \<and> ur_disabledAt u \<noteq> None \<longrightarrow> u \<in> set (ac_users (sv_db (service_run v evs s))))"
proof -
  obtain ops where ops: "sv_db (service_run v evs s) = account_run v ops (sv_db s)" using service_run_ops by blast
  then show ?thesis using users_run [OF assms, of v ops] by auto
qed

text \<open>
  Property C33: every request and every delivery finishes after at most six steps of its own,
  whatever the answers are and whatever runs in between; a delivery never ends in an error.
\<close>

theorem service_programs_finish:
  assumes "6 \<le> length (filter (own_step (length (sv_running s))) evs)"
  shows "finished (sv_running (service_run t evs (service_step t (Begin (request_prog v r)) s)) ! length (sv_running s))
    \<and> (\<forall>d. r = R_delivery d \<longrightarrow>
         sv_running (service_run t evs (service_step t (Begin (request_prog v r)) s)) ! length (sv_running s) = Return Delivered)"
proof -
  let ?s = "service_step t (Begin (request_prog v r)) s" and ?i = "length (sv_running s)"
  have here: "?i < length (sv_running ?s)" "sv_running ?s ! ?i = request_prog v r" by simp_all
  have "finished (sv_running (service_run t evs ?s) ! ?i)"
    using steps_finish [of ?i ?s "\<lambda>p. True" 6 evs t] here ends_request assms by simp
  moreover have "sv_running (service_run t evs ?s) ! ?i = Return Delivered" if "r = R_delivery d" for d
    using steps_finish [of ?i ?s "\<lambda>p. p = Return Delivered" 3 evs t] here delivers_delivery [of d] that assms by simp
  ultimately show ?thesis by blast
qed

definition signs_in :: "service_env \<Rightarrow> accounts_db \<Rightarrow> string \<Rightarrow> string \<Rightarrow> bool" where
  "signs_in v db email password = (case findPasswordSignIn db (normalizeEmail email) of
      None \<Rightarrow> False | Some c \<Rightarrow> pc_valid (verifyPassword (se_check v) (sc_passwordHash c) password))"

fun secretive :: "service_env \<Rightarrow> request \<Rightarrow> accounts_db \<Rightarrow> bool" where
  "secretive v (R_register email password revision keys now token) db = True"
| "secretive v (R_resend email keys now token) db = True"
| "secretive v (R_reset email keys now token) db = True"
| "secretive v (R_signIn email password keys now raw) db = (\<not> signs_in v db email password)"
| "secretive v r db = False"

text \<open>
  Property C34: replies do not tell who has an account. Registering, asking for another
  verification mail, asking to reset a password, and signing in with an address that is unknown
  or a password that is wrong: the reply, the calls that are made and what is handed over for
  later depend on the rate limits alone, and of the tables only the rate limits change.
\<close>

theorem replies_hide_accounts:
  assumes "secretive v r db" "secretive v r db'" "ac_limits db = ac_limits db'"
  shows "case run_prog t d (request_prog v r) db of (reply, ds, cs, db1) \<Rightarrow>
    case run_prog t d (request_prog v r) db' of (reply', ds', cs', db1') \<Rightarrow>
      reply = reply' \<and> ds = ds' \<and> cs = cs' \<and> db1 = db\<lparr>ac_limits := ac_limits db1'\<rparr>"
proof -
  note limits = assms(3)
  have same: ?thesis
    if r: "request_prog v r = passesRateLimit kind keys now k"
      and k: "\<And>b. \<exists>r ds cs. run_prog t d (k b) (snd (limit_check t kind keys now db)) = (r, ds, cs, snd (limit_check t kind keys now db))
        \<and> run_prog t d (k b) (snd (limit_check t kind keys now db')) = (r, ds, cs, snd (limit_check t kind keys now db'))" for kind keys now k
  proof -
    obtain x db2 where x: "limit_check t kind keys now db = (x, db2)" by (cases "limit_check t kind keys now db")
    obtain x' db2' where x': "limit_check t kind keys now db' = (x', db2')" by (cases "limit_check t kind keys now db'")
    have "x' = x" "db2 = db\<lparr>ac_limits := ac_limits db2'\<rparr>"
      using limit_check_limits [OF limits, of t kind keys now] x x' by simp_all
    then show ?thesis
    proof (cases x)
      case (Inr b)
      then obtain r ds cs where "run_prog t d (k b) db2 = (r, ds, cs, db2)" "run_prog t d (k b) db2' = (r, ds, cs, db2')"
        using k [of b] x x' by auto
      then show ?thesis using r x x' Inr \<open>x' = x\<close> \<open>db2 = _\<close> by (simp add: run_limit)
    qed (use r x x' in \<open>simp add: run_limit\<close>)
  qed
  have find: "findPasswordSignIn (snd (limit_check t kind keys now d)) e = findPasswordSignIn d e" for kind keys now d e
    by (subst limit_check_limits(2) [OF refl]) (simp add: findPasswordSignIn_def)
  have wrong: "run_prog t d (password_checked v password now raw (findPasswordSignIn x (normalizeEmail email))) y = (Inr Invalid, [], [], y)"
    if "\<not> signs_in v x email password" for x y email password now raw
    using that by (simp add: signs_in_def password_checked_def Let_def split: option.splits)
  show ?thesis
  proof (cases r)
    case (R_register email password revision keys now token)
    then show ?thesis
      by (intro same) (auto simp: register_request_def scheduleDeliveryWork_def split: sum.split)
  next
    case (R_resend email keys now token)
    then show ?thesis by (intro same) (auto simp: resend_request_def scheduleDeliveryWork_def)
  next
    case (R_reset email keys now token)
    then show ?thesis by (intro same) (auto simp: reset_request_def scheduleDeliveryWork_def)
  next
    case (R_signIn email password keys now raw)
    then have out: "\<not> signs_in v db email password" "\<not> signs_in v db' email password" using assms(1,2) by simp_all
    have "\<exists>r ds cs. run_prog t d (if \<not> b then Return Rate_limited else find_and_check v email password now raw) (snd (limit_check t L_sign_in keys now db))
          = (r, ds, cs, snd (limit_check t L_sign_in keys now db))
        \<and> run_prog t d (if \<not> b then Return Rate_limited else find_and_check v email password now raw) (snd (limit_check t L_sign_in keys now db'))
          = (r, ds, cs, snd (limit_check t L_sign_in keys now db'))" for b
      using wrong [OF out(1)] wrong [OF out(2)] by (cases b) (simp_all add: run_find find)
    then show ?thesis using R_signIn by (intro same) (auto simp: signIn_request_def)
  qed (use assms in simp_all)
qed

lemma sign_in_row:
  assumes "findPasswordSignIn db email = Some c"
  shows "\<exists>u \<in> set (ac_users db). \<exists>p \<in> set (ac_passwords db). ur_id u = sc_userId c \<and> pw_userId p = ur_id u
     \<and> pw_hash p = sc_passwordHash c \<and> js_lower (ur_email u) = normalizeAccountEmail email
     \<and> ur_disabledAt u = None \<and> pw_verifiedAt p \<noteq> None"
proof -
  obtain x where x: "List.find (sign_in_eligible (normalizeAccountEmail email)) (List.product (ac_users db) (ac_passwords db)) = Some x"
      "c = \<lparr>sc_userId = ur_id (fst x), sc_email = normalizeAccountEmail (ur_email (fst x)), sc_passwordHash = pw_hash (snd x)\<rparr>"
    using assms by (auto simp: findPasswordSignIn_def split: option.splits)
  have "sign_in_eligible (normalizeAccountEmail email) x" "x \<in> set (List.product (ac_users db) (ac_passwords db))"
    using x(1) unfolding find_Some_iff by (blast, metis nth_mem)
  then show ?thesis
    unfolding x(2) sign_in_eligible_def by (cases x) auto
qed

lemma password_accepted:
  "pc_valid (verifyPassword check digest password) \<longleftrightarrow>
     12 \<le> length password \<and> length password \<le> 128 \<and> check digest password = Some True"
  by (auto simp: verifyPassword_def hasValidPasswordLength_def split: option.split)

text \<open>
  Property C9: nobody signs in without the password. If a sign-in is answered with a token, both
  rate limits let it pass, the tables hold a user with the given address (trimmed, in lower case)
  who is not disabled and a verified credential of that user, the password has 12 to 128
  characters and the library answered for the credential's digest and the password that they
  fit (it did not throw), and exactly one session was written, for that user, under the digest of
  the token, for seven days; nothing but the counters of the limits changed besides.
\<close>

theorem sign_in_needs_password:
  assumes "run_prog t d (signIn_request v email password keys now raw) db = (Inr (Authenticated token expiresAt), ds, cs, db')"
  shows "token = raw \<and> expiresAt = now + sessionTtlMs \<and> fst (limit_check t L_sign_in keys now db) = Inr True
    \<and> 12 \<le> length password \<and> length password \<le> 128
    \<and> (\<exists>u \<in> set (ac_users db). \<exists>p \<in> set (ac_passwords db).
        js_lower (ur_email u) = normalizeAccountEmail (normalizeEmail email) \<and> ur_disabledAt u = None
        \<and> pw_userId p = ur_id u \<and> pw_verifiedAt p \<noteq> None \<and> se_check v (pw_hash p) password = Some True
        \<and> ac_sessions db' = ac_sessions db @ [\<lparr>as_userId = ur_id u, as_tokenHash = en_sha256 (se_tables v) raw,
            as_expiresAt = expiresAt, as_lastSeenAt = now\<rparr>]
        \<and> db' = db\<lparr>ac_limits := ac_limits db', ac_sessions := ac_sessions db'\<rparr>)"
proof -
  obtain x db2 where x: "limit_check t L_sign_in keys now db = (x, db2)" by (cases "limit_check t L_sign_in keys now db")
  have db2: "db2 = db\<lparr>ac_limits := ac_limits db2\<rparr>" using limit_check_limits(2) [OF refl, of t L_sign_in keys now db] x by simp
  then have find: "findPasswordSignIn db2 e = findPasswordSignIn db e" for e
    by (metis (no_types, lifting) accounts_db.select_convs(1,5) accounts_db.surjective accounts_db.update_convs(7) findPasswordSignIn_def)
  have "x = Inr True"
    using assms x by (auto simp: signIn_request_def run_limit split: sum.splits prod.splits if_splits)
  with assms x find obtain c where c: "findPasswordSignIn db (normalizeEmail email) = Some c"
      "pc_valid (verifyPassword (se_check v) (sc_passwordHash c) password)"
      "\<exists>cs'. run_prog t d (signed_in v c now raw) db2 = (Inr (Authenticated token expiresAt), ds, cs', db')"
    by (auto simp: signIn_request_def run_limit run_find password_checked_def Let_def split: prod.splits option.splits if_splits)
  then obtain cs' where "run_prog t d (signed_in v c now raw) db2 = (Inr (Authenticated token expiresAt), ds, cs', db')" by blast
  then have "token = raw \<and> expiresAt = now + sessionTtlMs \<and> ac_sessions db' = ac_sessions db2 @ [\<lparr>as_userId = sc_userId c, as_tokenHash = en_sha256 (se_tables v) raw,
            as_expiresAt = expiresAt, as_lastSeenAt = now\<rparr>] \<and> db' = db2\<lparr>ac_sessions := ac_sessions db'\<rparr>"
    by (auto simp: run_signed_in Let_def auth_createSession_def add_row_Some split: if_splits option.splits prod.splits sum.splits)
  then have written: "ac_sessions db' = ac_sessions db @ [\<lparr>as_userId = sc_userId c, as_tokenHash = en_sha256 (se_tables v) raw,
            as_expiresAt = expiresAt, as_lastSeenAt = now\<rparr>] \<and> db' = db\<lparr>ac_limits := ac_limits db', ac_sessions := ac_sessions db'\<rparr>"
      "token = raw \<and> expiresAt = now + sessionTtlMs"
    using db2 by (metis (no_types, lifting) accounts_db.select_convs(3,7) accounts_db.surjective accounts_db.update_convs(3,7))+
  moreover have "fst (limit_check t L_sign_in keys now db) = Inr True" using x \<open>x = Inr True\<close> by simp
  ultimately show ?thesis
    using sign_in_row [OF c(1)] c(2) unfolding password_accepted by metis
qed

text \<open>
  Property C35: an address that is registered can be used. If a registration was accepted and the
  mail of its delivery was sent, then the token in the mail verifies the address until it
  expires, and after that signing in with the same address and password succeeds unless the
  rate limits refuse it.
\<close>

theorem registration_leads_to_sign_in:
  assumes "account_keys db"
    and "run_prog (se_tables v) d0 (register_request v email password revision keys now (createAccountToken (en_sha256 (se_tables v)) random)) db
      = (Inr Accepted, ds, cs, db1)"
    and "run_prog (se_tables v) d1 (delivery_prog (hd ds)) db1 = (Inr Delivered, ds1, cs1, db2)" "S_mail m \<in> set cs1"
    and "ml_token m = Some raw" "now3 < now + verificationTtlMs"
    and "run_prog (se_tables v) d2 (verify_request v raw now3) db2 = (reply, ds3, cs3, db3)"
    and "se_check v (se_argon v password) password = Some True"
    and "limit_check (se_tables v) L_sign_in keys' now4 db3 = (Inr True, db4)" "session \<noteq> []"
    and "en_sha256 (se_tables v) session \<notin> as_tokenHash ` set (ac_sessions db3)"
  shows "reply = Inr Verified
    \<and> fst (run_prog (se_tables v) d3 (signIn_request v email password keys' now4 session) db3) = Inr (Authenticated session (now4 + sessionTtlMs))"
proof -
  let ?t = "se_tables v" and ?token = "createAccountToken (en_sha256 (se_tables v)) random"
  let ?input = "\<lparr>rg_email = normalizeEmail email, rg_passwordHash = se_argon v password, rg_tokenHash = at_hash ?token,
      rg_tokenExpiresAt = now + verificationTtlMs, rg_legalRevision = revision\<rparr>"
  obtain x db0 where x: "limit_check ?t L_registration keys now db = (x, db0)" by (cases "limit_check ?t L_registration keys now db")
  have length: "hasValidPasswordLength password" and ds: "ds = [Deliver_registration ?input (at_raw ?token)]" and db1: "db1 = db0"
    using assms(2) x by (auto simp: register_request_def run_limit scheduleDeliveryWork_def hashPassword_def
        split: sum.splits if_splits prod.splits)
  have "db0 = db\<lparr>ac_limits := ac_limits db0\<rparr>" using limit_check_limits(2) [OF refl, of ?t L_registration keys now db] x by simp
  then have "account_keys db0" using assms(1) by (metis (no_types, lifting) account_keys_def accounts_db.select_convs(1,5,6) accounts_db.surjective accounts_db.update_convs(7))
  then have keys: "account_keys db1" using db1 by simp
  have mails: "\<exists>a. registerPendingAccount (en_unique ?t) db1 ?input (dw_now d1) (dw_userId d1) (dw_names d1) (dw_tokenId d1) = (Inr a, db2)
      \<and> raw = at_raw ?token"
    using assms(3-5) unfolding ds
    by (auto simp: service_step_db_def answered_def send_mail_def report_failure_def report_success_def safelyReportDelivery_def
        prod_eq_iff split: sum.splits prod.splits account_error.splits option.splits)
  then obtain u where u: "account_keys db2" "has_pending db2 ?input (dw_now d1) (dw_tokenId d1) u" and raw: "raw = at_raw ?token"
    using registered keys by blast
  have hash: "rg_tokenHash ?input = hashAccountToken (en_sha256 ?t) raw"
    by (simp add: raw createAccountToken_def Let_def)
  obtain a s3 where v: "consumeActionToken db2 Verify_email (rg_tokenHash ?input) now3 = (Inr (Some a), s3)"
      "findPasswordSignIn s3 (rg_email ?input) = Some \<lparr>sc_userId = ur_id u, sc_email = normalizeAccountEmail (ur_email u), sc_passwordHash = rg_passwordHash ?input\<rparr>"
    using pending_verifies [OF u, of now3] assms(6) by auto
  then have verify: "reply = Inr Verified" "db3 = s3"
    using assms(7) v(1) [unfolded hash] by (auto simp: verify_request_def answered_def service_step_db_def)
  let ?c = "\<lparr>sc_userId = ur_id u, sc_email = normalizeAccountEmail (ur_email u), sc_passwordHash = se_argon v password\<rparr>"
  have find: "findPasswordSignIn db3 (normalizeEmail email) = Some ?c" using v(2) verify(2) by simp
  have db4: "db4 = db3\<lparr>ac_limits := ac_limits db4\<rparr>" using limit_check_limits(2) [OF refl, of ?t L_sign_in keys' now4 db3] assms(9) by simp
  have users: "ac_users db4 = ac_users db3" "ac_sessions db4 = ac_sessions db3" by (subst db4, simp)+
  have find4: "findPasswordSignIn db4 (normalizeEmail email) = Some ?c"
    by (subst db4) (use find in \<open>simp add: findPasswordSignIn_def\<close>)
  have "list_ex (\<lambda>x. ur_id x = ur_id u) (ac_users db4)" using sign_in_candidate [OF find4] by (auto simp: list_ex_iff)
  moreover have "pc_valid (verifyPassword (se_check v) (se_argon v password) password)"
    using length assms(8) by (simp add: verifyPassword_def)
  ultimately have "fst (run_prog ?t d3 (signIn_request v email password keys' now4 session) db3) = Inr (Authenticated session (now4 + sessionTtlMs))"
    using assms(9-11) users
    by (auto simp: signIn_request_def run_limit run_find find4 password_checked_def run_signed_in auth_createSession_def add_row_def
        same_session_def list_ex_iff Let_def split: prod.split)
  then show ?thesis using verify(1) by blast
qed

text \<open>
  Property C36: a sign-in that is under way outlives a reset of the password. If the store was
  asked for the digest before the reset and the session is written after it, the sign-in with the
  old password succeeds and its session exists, though the reset ended all sessions of the account.
\<close>

theorem running_sign_in_survives_reset:
  assumes "i < length (sv_running s)" "sv_running s ! i = find_and_check v email password now raw"
    and "findPasswordSignIn (sv_db s) (normalizeEmail email) = Some c"
    and "pc_valid (verifyPassword (se_check v) (sc_passwordHash c) password)" "raw \<noteq> []"
    and "replacePasswordAndRevokeSessions (sv_db s) resetHash newHash now' = (Inr (Some a), db1)" "aa_userId a = sc_userId c"
    and "en_sha256 (se_tables v) raw \<notin> as_tokenHash ` set (ac_sessions db1)"
  shows "let s' = service_run t [Advance i d1, Elsewhere (Reset_With resetHash newHash now'), Advance i d2] s in
    list_all (\<lambda>x. as_userId x \<noteq> sc_userId c) (ac_sessions db1)
    \<and> sv_running s' ! i = Return (Authenticated raw (now + sessionTtlMs))
    \<and> \<lparr>as_userId = sc_userId c, as_tokenHash = en_sha256 (se_tables v) raw, as_expiresAt = now + sessionTtlMs, as_lastSeenAt = now\<rparr>
        \<in> set (ac_sessions (sv_db s'))"
proof -
  let ?row = "\<lparr>as_userId = sc_userId c, as_tokenHash = en_sha256 (se_tables v) raw, as_expiresAt = now + sessionTtlMs, as_lastSeenAt = now\<rparr>"
  have users: "ac_users db1 = ac_users (sv_db s)" and gone: "list_all (\<lambda>x. as_userId x \<noteq> sc_userId c) (ac_sessions db1)"
    using assms(6,7) by (auto simp: replacePasswordAndRevokeSessions_def Let_def list_all_iff split: option.splits if_splits)
  have user: "list_ex (\<lambda>u. ur_id u = sc_userId c) (ac_users db1)"
    using sign_in_candidate [OF assms(3)] users by (auto simp: list_ex_iff)
  let ?s1 = "service_step t (Advance i d1) s"
  have s1: "?s1 = s\<lparr>sv_running := (sv_running s)[i := signed_in v c now raw], sv_calls := sv_calls s @ [S_find (normalizeEmail email)]\<rparr>"
    using assms(1-4) by (simp add: find_and_check_def service_step_db_def password_checked_def Let_def)
  let ?s2 = "service_step t (Elsewhere (Reset_With resetHash newHash now')) ?s1"
  have s2: "sv_db ?s2 = db1" "sv_running ?s2 = (sv_running s)[i := signed_in v c now raw]"
    unfolding s1 using assms(6) by simp_all
  have insert: "auth_createSession (en_unique t) (en_missing t) db1 ?row = (Inr ?row, db1\<lparr>ac_sessions := ac_sessions db1 @ [?row]\<rparr>)"
    using user assms(8) by (auto simp: auth_createSession_def add_row_def same_session_def list_ex_iff)
  have "sv_running (service_step t (Advance i d2) x) ! i = Return (Authenticated raw (now + sessionTtlMs))
      \<and> sv_db (service_step t (Advance i d2) x) = db1\<lparr>ac_sessions := ac_sessions db1 @ [?row]\<rparr>"
    if "sv_db x = db1" "sv_running x = (sv_running s)[i := signed_in v c now raw]" for x
    using that assms(1,5) insert by (simp add: signed_in_def hashSessionToken_def service_step_db_def answered_def)
  from this [OF s2] show ?thesis
    unfolding Let_def service_run_simps using gone by (simp del: service_step.simps)
qed

subsection \<open>A sample of each\<close>

definition sample_service :: service_env where
  "sample_service = \<lparr>se_tables = sample_account_env, se_argon = (\<lambda>p. p), se_check = (\<lambda>h p. Some (h = p \<or> h = ''old'')), se_dummyHash = ''-''\<rparr>"

definition sample_keys :: limit_keys where
  "sample_keys = \<lparr>lk_ip = replicate 64 CHR ''a'', lk_account = replicate 64 CHR ''b''\<rparr>"

definition sample_draw :: draw where
  "sample_draw = \<lparr>dw_now = 1000, dw_userId = ''u2'', dw_names = [''n2''], dw_tokenId = ''t2'', dw_deletedId = ''x'', dw_failure = None\<rparr>"

definition sample_random :: "nat \<Rightarrow> nat list" where
  "sample_random n = [1, 2, 3]"

definition sample_token :: account_token where
  "sample_token = createAccountToken (en_sha256 (se_tables sample_service)) sample_random"

definition no_accounts :: accounts_db where
  "no_accounts = \<lparr>ac_users = [], ac_oauth = [], ac_sessions = [], ac_balances = [], ac_passwords = [], ac_tokens = [],
     ac_limits = [], ac_nicknames = [], ac_consents = []\<rparr>"

theorem service_run_is_account_run_witness:
  "users_ok (sv_db (service_run sample_account_env [Begin (request_prog sample_service (R_reset ''a@b.c'' sample_keys 1000 sample_token)),
     Advance 0 sample_draw, Advance 0 sample_draw, Elsewhere (Cleanup 2000 (js_int 5))] (start_service sample_accounts)))"
proof -
  have "users_ok (sv_db (start_service sample_accounts))" by (simp add: users_ok_def start_service_def sample_accounts_def)
  from service_run_is_account_run [OF this] show ?thesis by blast
qed

theorem service_programs_finish_witness:
  "sv_running (service_run sample_account_env (replicate 6 (Advance 0 sample_draw))
     (service_step sample_account_env (Begin (request_prog sample_service (R_delivery (Deliver_notice M_password_changed ''a@b.c''))))
       (start_service sample_accounts))) ! 0 = Return Delivered"
proof -
  have none: "length (sv_running (start_service sample_accounts)) = 0" by (simp add: start_service_def)
  have "6 \<le> length (filter (own_step (length (sv_running (start_service sample_accounts)))) (replicate 6 (Advance 0 sample_draw)))"
    unfolding none by simp
  from service_programs_finish [OF this, of sample_account_env sample_service "R_delivery (Deliver_notice M_password_changed ''a@b.c'')"]
  show ?thesis unfolding none by blast
qed

theorem replies_hide_accounts_witness:
  "fst (run_prog sample_account_env sample_draw (request_prog sample_service (R_reset ''a@b.c'' sample_keys 1000 sample_token)) sample_accounts) =
   fst (run_prog sample_account_env sample_draw (request_prog sample_service (R_reset ''a@b.c'' sample_keys 1000 sample_token)) no_accounts)"
proof -
  have "ac_limits sample_accounts = ac_limits no_accounts" by (simp add: sample_accounts_def no_accounts_def)
  from replies_hide_accounts [OF _ _ this, of sample_service "R_reset ''a@b.c'' sample_keys 1000 sample_token" sample_account_env sample_draw]
  show ?thesis by (auto split: prod.splits)
qed

abbreviation sample_sign_in :: "(service_error + account_reply) \<times> delivery list \<times> service_call list \<times> accounts_db" where
  "sample_sign_in \<equiv> run_prog sample_account_env sample_draw (signIn_request sample_service ''A@b.c'' ''secretsecret'' sample_keys 1000 ''tok'') sample_accounts"

theorem sign_in_needs_password_witness:
  "\<exists>p \<in> set (ac_passwords sample_accounts). pw_verifiedAt p \<noteq> None \<and> se_check sample_service (pw_hash p) ''secretsecret'' = Some True"
proof -
  have "fst sample_sign_in = Inr (Authenticated ''tok'' (1000 + sessionTtlMs))" by code_simp
  then have "sample_sign_in = (Inr (Authenticated ''tok'' (1000 + sessionTtlMs)), fst (snd sample_sign_in), fst (snd (snd sample_sign_in)), snd (snd (snd sample_sign_in)))"
    by (metis prod.collapse)
  from sign_in_needs_password [OF this] show ?thesis by blast
qed

definition sample_request :: "account_reply prog" where
  "sample_request = register_request sample_service ''B@b.c'' ''secretsecret'' ''r1'' sample_keys 1000
     (createAccountToken (en_sha256 (se_tables sample_service)) sample_random)"

definition sample_mail :: mail where
  "sample_mail = \<lparr>ml_kind = M_verification, ml_to = ''b@b.c'', ml_token = Some (at_raw sample_token)\<rparr>"

text \<open>The walk from the request to the tables before the sign-in.\<close>

definition sample_walk :: bool where
  "sample_walk = (case run_prog (se_tables sample_service) sample_draw sample_request sample_accounts of (r1, ds1, cs1, db1) \<Rightarrow>
     case run_prog (se_tables sample_service) sample_draw (delivery_prog (hd ds1)) db1 of (r2, ds2, cs2, db2) \<Rightarrow>
     case run_prog (se_tables sample_service) sample_draw (verify_request sample_service (at_raw sample_token) 2000) db2 of (r3, ds3, cs3, db3) \<Rightarrow>
       r1 = Inr Accepted \<and> r2 = Inr Delivered \<and> list_ex ((=) (S_mail sample_mail)) cs2
       \<and> fst (limit_check (se_tables sample_service) L_sign_in sample_keys 3000 db3) = Inr True
       \<and> \<not> list_ex (\<lambda>x. as_tokenHash x = en_sha256 (se_tables sample_service) ''tok'') (ac_sessions db3))"

theorem registration_leads_to_sign_in_witness:
  "\<exists>db3. fst (run_prog (se_tables sample_service) sample_draw (signIn_request sample_service ''B@b.c'' ''secretsecret'' sample_keys 3000 ''tok'') db3)
     = Inr (Authenticated ''tok'' (3000 + sessionTtlMs))"
proof -
  have walk: sample_walk by code_simp
  obtain r1 ds1 cs1 db1 where 1: "run_prog (se_tables sample_service) sample_draw sample_request sample_accounts = (r1, ds1, cs1, db1)"
    by (metis prod_cases4)
  obtain r2 ds2 cs2 db2 where 2: "run_prog (se_tables sample_service) sample_draw (delivery_prog (hd ds1)) db1 = (r2, ds2, cs2, db2)"
    by (metis prod_cases4)
  obtain r3 ds3 cs3 db3 where 3: "run_prog (se_tables sample_service) sample_draw (verify_request sample_service (at_raw sample_token) 2000) db2 = (r3, ds3, cs3, db3)"
    by (metis prod_cases4)
  obtain x db4 where 4: "limit_check (se_tables sample_service) L_sign_in sample_keys 3000 db3 = (x, db4)" by force
  from walk have facts: "r1 = Inr Accepted" "r2 = Inr Delivered" "S_mail sample_mail \<in> set cs2" "x = Inr True"
      "en_sha256 (se_tables sample_service) ''tok'' \<notin> as_tokenHash ` set (ac_sessions db3)"
    by (simp_all add: sample_walk_def 1 2 3 4 list_ex_iff image_iff eq_commute [of "en_sha256 (se_tables sample_service) ''tok''"])
  have keys: "account_keys sample_accounts" by (simp add: account_keys_def sample_accounts_def)
  have token: "ml_token sample_mail = Some (at_raw sample_token)" and time: "2000 < 1000 + verificationTtlMs" and tok: "''tok'' \<noteq> []"
    and check: "se_check sample_service (se_argon sample_service ''secretsecret'') ''secretsecret'' = Some True"
    by (simp_all add: sample_mail_def verificationTtlMs_def sample_service_def)
  from registration_leads_to_sign_in [OF keys 1 [unfolded sample_request_def facts(1)] 2 [unfolded facts(2)] facts(3) token time 3 check
      4 [unfolded facts(4)] tok facts(5)]
  show ?thesis by blast
qed

definition racing :: service where
  "racing = \<lparr>sv_db = sample_accounts, sv_running = [find_and_check sample_service ''a@b.c'' ''secretsecret'' 1000 ''tok''], sv_calls = []\<rparr>"

theorem running_sign_in_survives_reset_witness:
  "sv_running (service_run sample_account_env [Advance 0 sample_draw, Elsewhere (Reset_With ''h1'' ''new'' 1000), Advance 0 sample_draw] racing) ! 0
     = Return (Authenticated ''tok'' (1000 + sessionTtlMs))"
proof -
  let ?c = "\<lparr>sc_userId = ''u1'', sc_email = ''a@b.c'', sc_passwordHash = ''old''\<rparr>"
  let ?r = "replacePasswordAndRevokeSessions (sv_db racing) ''h1'' ''new'' 1000"
  have here: "0 < length (sv_running racing)" "sv_running racing ! 0 = find_and_check sample_service ''a@b.c'' ''secretsecret'' 1000 ''tok''"
    by (simp_all add: racing_def)
  have find: "findPasswordSignIn (sv_db racing) (normalizeEmail ''a@b.c'') = Some ?c" by code_simp
  have valid: "pc_valid (verifyPassword (se_check sample_service) (sc_passwordHash ?c) ''secretsecret'')" by code_simp
  have tok: "''tok'' \<noteq> []" by simp
  have "fst ?r = Inr (Some \<lparr>aa_userId = ''u1'', aa_email = ''a@b.c''\<rparr>)" by code_simp
  then have reset: "?r = (Inr (Some \<lparr>aa_userId = ''u1'', aa_email = ''a@b.c''\<rparr>), snd ?r)" by (metis prod.collapse)
  have same: "aa_userId \<lparr>aa_userId = ''u1'', aa_email = ''a@b.c''\<rparr> = sc_userId ?c" by simp
  have fresh: "en_sha256 (se_tables sample_service) ''tok'' \<notin> as_tokenHash ` set (ac_sessions (snd ?r))" by code_simp
  from running_sign_in_survives_reset [OF here find valid tok reset same fresh, of sample_account_env sample_draw sample_draw]
  show ?thesis unfolding Let_def by blast
qed

subsection \<open>What the cleanup leaves alone\<close>

text \<open>Accounts a cleanup at that time must not delete.\<close>

definition protected_account :: "accounts_db \<Rightarrow> date \<Rightarrow> user_row \<Rightarrow> bool" where
  "protected_account db now u = (ur_emailVerifiedAt u \<noteq> None \<or> ur_disabledAt u \<noteq> None
     \<or> now - 7 * 24 * 60 * 60 * 1000 \<le> ur_createdAt u \<or> list_ex (\<lambda>i. oi_userId i = ur_id u) (ac_oauth db))"

definition keeps_account :: "date \<Rightarrow> ident \<Rightarrow> accounts_db \<Rightarrow> accounts_db \<Rightarrow> bool" where
  "keeps_account now userId db db' = (ac_oauth db' = ac_oauth db
     \<and> (\<forall>x. x \<in> set (ac_users db) \<and> ur_id x = userId \<longrightarrow> x \<in> set (ac_users db'))
     \<and> (\<forall>x. x \<in> set (ac_passwords db) \<and> pw_userId x = userId \<longrightarrow> x \<in> set (ac_passwords db'))
     \<and> (\<forall>x. x \<in> set (ac_sessions db) \<and> as_userId x = userId \<longrightarrow> x \<in> set (ac_sessions db'))
     \<and> (\<forall>x. x \<in> set (ac_balances db) \<and> ab_userId x = userId \<longrightarrow> x \<in> set (ac_balances db'))
     \<and> (\<forall>x. x \<in> set (ac_nicknames db) \<and> nk_userId x = userId \<longrightarrow> x \<in> set (ac_nicknames db'))
     \<and> (\<forall>x. x \<in> set (ac_tokens db) \<and> tk_userId x = userId \<and> now \<le> tk_expiresAt x \<longrightarrow> x \<in> set (ac_tokens db')))"

lemma keeps_trans: "keeps_account now u db db' \<Longrightarrow> keeps_account now u db' db'' \<Longrightarrow> keeps_account now u db db''"
  unfolding keeps_account_def by simp

lemma keeps_refl [simp]: "keeps_account now u db db"
  by (simp add: keeps_account_def)

lemma batch_keeps:
  assumes ids: "users_ok db" and tokens: "distinct (map tk_id (ac_tokens db))" and u: "u \<in> set (ac_users db)" "protected_account db now u" and t: "t \<le> now"
  shows "keeps_account now (ur_id u) db (snd (cleanup_body db t batch))"
proof -
  let ?spent = "map tk_id (take batch (filter (\<lambda>t'. tk_expiresAt t' < t) (ac_tokens db)))"
  define db1 where "db1 = db\<lparr>ac_tokens := filter (\<lambda>t. tk_id t \<notin> set ?spent) (ac_tokens db),
      ac_limits := filter (\<lambda>r. \<not> list_ex (\<lambda>r'. limit_key (rl_keyHash r') (rl_kind r') (rl_windowStartedAt r') r)
        (take batch (filter (\<lambda>r. rl_expiresAt r < t) (ac_limits db)))) (ac_limits db)\<rparr>"
  let ?stale = "map (ur_id \<circ> fst) (take batch (filter (stale_account db1 (t - 7 * 24 * 60 * 60 * 1000)) (List.product (ac_users db1) (ac_passwords db1))))"
  have body: "snd (cleanup_body db t batch) = delete_users ?stale db1"
    unfolding cleanup_body_def Let_def db1_def snd_conv ..
  have "ur_id u \<notin> set ?stale"
  proof
    assume "ur_id u \<in> set ?stale"
    then obtain x p where x: "x \<in> set (ac_users db)" "ur_id x = ur_id u" "stale_account db1 (t - 7 * 24 * 60 * 60 * 1000) (x, p)"
      by (auto simp: db1_def dest!: in_set_takeD)
    have "x = u" by (rule distinct_map_eq [OF ids [unfolded users_ok_def] x(1) u(1) x(2)])
    then show False using x(3) u(2) t by (auto simp: stale_account_def protected_account_def db1_def)
  qed
  moreover have "x \<in> set (ac_tokens db1)" if "x \<in> set (ac_tokens db)" "now \<le> tk_expiresAt x" for x
  proof -
    have "tk_id x \<notin> set ?spent"
    proof
      assume "tk_id x \<in> set ?spent"
      then obtain y where "y \<in> set (ac_tokens db)" "tk_id y = tk_id x" "tk_expiresAt y < t" by (auto dest!: in_set_takeD)
      then show False using distinct_map_eq [OF tokens _ that(1)] that(2) t by force
    qed
    then show ?thesis using that(1) by (simp add: db1_def)
  qed
  ultimately show ?thesis
    unfolding body keeps_account_def by (simp add: delete_users_def) (simp add: db1_def)
qed

lemma batch_tables:
  assumes "users_ok db" "distinct (map tk_id (ac_tokens db))"
  shows "users_ok (snd (cleanup_body db t batch)) \<and> distinct (map tk_id (ac_tokens (snd (cleanup_body db t batch))))"
proof -
  have "\<exists>ids P Q. snd (cleanup_body db t batch) =
      delete_users ids (db\<lparr>ac_tokens := filter P (ac_tokens db), ac_limits := filter Q (ac_limits db)\<rparr>)"
    unfolding cleanup_body_def Let_def snd_conv by blast
  then obtain ids P Q where body: "snd (cleanup_body db t batch) =
      delete_users ids (db\<lparr>ac_tokens := filter P (ac_tokens db), ac_limits := filter Q (ac_limits db)\<rparr>)" by blast
  show ?thesis
    unfolding body using assms by (simp add: delete_users_def users_ok_def distinct_map_filter)
qed

lemma sweep_keeps:
  assumes "users_ok db" "distinct (map tk_id (ac_tokens db))" "u \<in> set (ac_users db)" "protected_account db now u"
    and "list_all (\<lambda>t. t \<le> now) ts"
  shows "keeps_account now (ur_id u) db (cleanup_sweep ts db)"
  using assms
proof (induction ts db rule: cleanup_sweep.induct)
  case (2 t ts db)
  let ?db = "snd (cleanup_body db t (cleanup_batch (rat_of_int (int accountCleanupBatchSize))))"
  have keep: "keeps_account now (ur_id u) db ?db" using 2(2-6) by (intro batch_keeps) simp_all
  have tables: "users_ok ?db \<and> distinct (map tk_id (ac_tokens ?db))" using 2(2,3) by (rule batch_tables)
  have "u \<in> set (ac_users ?db)" "protected_account ?db now u"
    using keep 2(4,5) by (simp_all add: keeps_account_def protected_account_def)
  then have rest: "keeps_account now (ur_id u) ?db (cleanup_sweep ts ?db)"
    if "cleanupExpiredAccountData db t (js_int (int accountCleanupBatchSize)) = (Inr r, ?db)"
      "\<not> (cu_tokensDeleted r < accountCleanupBatchSize \<and> cu_rateLimitRowsDeleted r < accountCleanupBatchSize \<and> cu_accountsDeleted r < accountCleanupBatchSize)" for r
    using 2(1) [OF that(1) [symmetric] refl] that(2) tables 2(6) by simp
  obtain r where r: "cleanupExpiredAccountData db t (js_int (int accountCleanupBatchSize)) = (Inr r, ?db)"
    by (simp add: cleanupExpiredAccountData_def js_int_def prod_eq_iff split: prod.split)
  show ?case using keep keeps_trans [OF keep rest [OF r]] by (simp add: r)
qed simp

text \<open>
  Property C37: the hourly cleanup deletes no account that is verified, disabled, younger than a
  week or bound to Google, nor anything that belongs to it: its credentials, sessions, balance,
  name, and its tokens that have not expired stay, whatever is in the tables and however many
  batches the sweep takes.
\<close>

theorem cleanup_keeps_the_living:
  assumes "users_ok db" "distinct (map tk_id (ac_tokens db))" "u \<in> set (ac_users db)" "protected_account db now u"
    and "list_all (\<lambda>t. t \<le> now) ts"
  shows "keeps_account now (ur_id u) db (cleanupExpired ts db)"
  unfolding cleanupExpired_def using assms by (intro sweep_keeps) (auto simp: list_all_iff dest: in_set_takeD)

theorem cleanup_keeps_the_living_witness:
  "keeps_account 9000000000 ''u1'' sample_accounts (cleanupExpired [8000000000, 9000000000] sample_accounts)"
proof -
  let ?u = "hd (ac_users sample_accounts)"
  have u: "users_ok sample_accounts" "distinct (map tk_id (ac_tokens sample_accounts))" "?u \<in> set (ac_users sample_accounts)"
      "protected_account sample_accounts 9000000000 ?u" "list_all (\<lambda>t. t \<le> 9000000000) [8000000000, 9000000000 :: int]"
    by (simp_all add: users_ok_def sample_accounts_def protected_account_def)
  have "ur_id ?u = ''u1''" by (simp add: sample_accounts_def)
  then show ?thesis using cleanup_keeps_the_living [OF u] by (simp only:)
qed

end
