(* ===== verification/GatewayConfig.thy ===== *)
theory GatewayConfig
  imports DeviceAuth
begin

section \<open>Configuration of the gateway and relay servers of both programs\<close>

text \<open>
  \<open>apps/gateway/src/config.ts\<close> and the ICE part of \<open>apps/web/app/drive-session-ticket.ts\<close>: both
  programs read the relay servers and their secret from the same variables. An environment
  maps names to values; what the platform does with texts (\<open>Number\<close>, \<open>JSON.parse\<close>, \<open>new URL\<close>,
  reading a file, the keyed digest) is a record of functions. A call that throws gives \<open>Inl\<close>
  of its message.
\<close>

type_synonym env = "string \<Rightarrow> string option"

record platform =
  pf_number :: "string \<Rightarrow> jsnum"
  pf_parse :: "string \<Rightarrow> json option"
  pf_url :: url_parser
  pf_read :: "string \<Rightarrow> string option"
  pf_hmac1 :: "string \<Rightarrow> string \<Rightarrow> string"

record gateway_config =
  gc_host :: string
  gc_port :: int
  gc_publicGatewayUrl :: string
  gc_deviceAuthPepper :: string
  gc_browserTicketSecret :: string
  gc_authTimeoutMs :: int
  gc_staleAfterMs :: int
  gc_viewerCapacity :: int
  gc_viewerOrigin :: string
  gc_iceServerTemplates :: "ice_server list"
  gc_turnSharedSecret :: "string option"
  gc_turnCredentialTtlSeconds :: int

text \<open>A text that is absent or empty counts as absent.\<close>

fun truthy :: "string option \<Rightarrow> string option" where
  "truthy (Some (c # s)) = Some (c # s)"
| "truthy s = None"

definition readInteger :: "(string \<Rightarrow> jsnum) \<Rightarrow> string option \<Rightarrow> int \<Rightarrow> int \<Rightarrow> int \<Rightarrow> string + int" where
  "readInteger number v fallback minimum maximum =
     (case v of
        None \<Rightarrow> Inr fallback
      | Some s \<Rightarrow>
          let parsed = number s in
          if \<not> js_is_integer parsed \<or> js_lt parsed (js_int minimum) \<or> js_lt (js_int maximum) parsed
          then Inl (''Expected an integer between '' @ string_of_int minimum @ '' and '' @ string_of_int maximum)
          else Inr (int_of_js parsed))"

definition required :: "string option \<Rightarrow> string \<Rightarrow> string + string" where
  "required v name = (case truthy v of None \<Rightarrow> Inl (name @ '' is required'') | Some s \<Rightarrow> Inr s)"

definition requiredSecret :: "string option \<Rightarrow> string \<Rightarrow> string + string" where
  "requiredSecret v name =
     (case required v name of
        Inl e \<Rightarrow> Inl e
      | Inr result \<Rightarrow> if length result < 24 then Inl (name @ '' must contain at least 24 characters'') else Inr result)"

definition requiredCanonicalHttpsOrigin :: "url_parser \<Rightarrow> string option \<Rightarrow> string \<Rightarrow> string + string" where
  "requiredCanonicalHttpsOrigin parse_url v name =
     (case required v name of
        Inl e \<Rightarrow> Inl e
      | Inr result \<Rightarrow>
         (case parse_url result of
            None \<Rightarrow> Inl (name @ '' must be a canonical HTTPS origin'')
          | Some (protocol, origin, pathname) \<Rightarrow>
              if protocol \<noteq> ''https:'' \<or> origin \<noteq> result then Inl (name @ '' must be a canonical HTTPS origin'')
              else Inr origin))"

subsection \<open>Relay servers\<close>

fun IceUrlsSchema :: "ice_urls schema" where
  "IceUrlsSchema (Some (JArr js)) =
     (if length js < 1 \<or> 8 < length js then None
      else map_option Urls (those (map (\<lambda>j. z_string 1 512 (Some j)) js)))"
| "IceUrlsSchema j = map_option Url (z_string 1 512 j)"

fun IceServerSchema :: "json \<Rightarrow> ice_server option" where
  "IceServerSchema (JObj fs) = do {
     z_strict [''urls'', ''username'', ''credential''] fs;
     us \<leftarrow> IceUrlsSchema (map_of fs ''urls'');
     n \<leftarrow> z_optional (z_string 1 256) (map_of fs ''username'');
     c \<leftarrow> z_optional (z_string 1 512) (map_of fs ''credential'');
     Some \<lparr>is_urls = us, is_username = n, is_credential = c\<rparr>
   }"
| "IceServerSchema j = None"

definition stun_default :: "ice_server list" where
  "stun_default = [\<lparr>is_urls = Url ''stun:stun.l.google.com:19302'', is_username = None, is_credential = None\<rparr>]"

definition parseIceServers :: "(string \<Rightarrow> json option) \<Rightarrow> string option \<Rightarrow> string + ice_server list" where
  "parseIceServers parse v =
     (case truthy v of
        None \<Rightarrow> Inr stun_default
      | Some s \<Rightarrow>
         (case parse s of
            None \<Rightarrow> Inl ''SyntaxError''
          | Some (JArr js) \<Rightarrow>
              if 8 < length js then Inl ''GATEWAY_ICE_SERVERS_JSON must be an array with at most eight entries''
              else (case those (map IceServerSchema js) of None \<Rightarrow> Inl ''ZodError'' | Some ts \<Rightarrow> Inr ts)
          | Some j \<Rightarrow> Inl ''GATEWAY_ICE_SERVERS_JSON must be an array with at most eight entries''))"

text \<open>The secret of the relay servers: no path, no secret; a file that cannot be read throws.\<close>

definition turn_secret :: "(string \<Rightarrow> string option) \<Rightarrow> string option \<Rightarrow> string + string option" where
  "turn_secret read_file path =
     (case truthy (map_option js_trim path) of
        None \<Rightarrow> Inr None
      | Some p \<Rightarrow> (case read_file p of None \<Rightarrow> Inl ''ENOENT'' | Some text \<Rightarrow> Inr (Some (js_trim text))))"

definition createGatewayIceServers :: "platform \<Rightarrow> gateway_config \<Rightarrow> string \<Rightarrow> date \<Rightarrow> string + ice_server list" where
  "createGatewayIceServers p c subject now =
     createSessionIceServers (pf_hmac1 p) (gc_iceServerTemplates c) (truthy (gc_turnSharedSecret c)) subject now
       (Some (js_int (gc_turnCredentialTtlSeconds c)))"

subsection \<open>Loading the configuration\<close>

text \<open>The fields of the result are evaluated in their order; the first that throws decides.\<close>

definition loadGatewayConfig :: "platform \<Rightarrow> env \<Rightarrow> string + gateway_config" where
  "loadGatewayConfig p env =
     (case parseIceServers (pf_parse p) (env ''GATEWAY_ICE_SERVERS_JSON'') of Inl e \<Rightarrow> Inl e | Inr templates \<Rightarrow>
      (case turn_secret (pf_read p) (env ''TURN_SHARED_SECRET_FILE'') of Inl e \<Rightarrow> Inl e | Inr secret \<Rightarrow>
      (case readInteger (pf_number p) (env ''TURN_CREDENTIAL_TTL_SECONDS'') 600 60 3600 of Inl e \<Rightarrow> Inl e | Inr ttl \<Rightarrow>
      (case createSessionIceServers (pf_hmac1 p) templates (truthy secret) ''configuration-check'' 0 (Some (js_int ttl)) of Inl e \<Rightarrow> Inl e | Inr check \<Rightarrow>
      (case readInteger (pf_number p) (env ''PORT'') 3002 0 65535 of Inl e \<Rightarrow> Inl e | Inr port \<Rightarrow>
      (case required (env ''GATEWAY_PUBLIC_URL'') ''GATEWAY_PUBLIC_URL'' of Inl e \<Rightarrow> Inl e | Inr url \<Rightarrow>
      (case requiredSecret (env ''DEVICE_AUTH_PEPPER'') ''DEVICE_AUTH_PEPPER'' of Inl e \<Rightarrow> Inl e | Inr pepper \<Rightarrow>
      (case requiredSecret (env ''GATEWAY_SESSION_SECRET'') ''GATEWAY_SESSION_SECRET'' of Inl e \<Rightarrow> Inl e | Inr ticketSecret \<Rightarrow>
      (case readInteger (pf_number p) (env ''GATEWAY_AUTH_TIMEOUT_MS'') 5000 100 30000 of Inl e \<Rightarrow> Inl e | Inr auth \<Rightarrow>
      (case readInteger (pf_number p) (env ''GATEWAY_STALE_AFTER_MS'') 15000 5000 120000 of Inl e \<Rightarrow> Inl e | Inr stale \<Rightarrow>
      (case readInteger (pf_number p) (env ''GATEWAY_VIEWER_CAPACITY'') 500 1 500 of Inl e \<Rightarrow> Inl e | Inr capacity \<Rightarrow>
      (case requiredCanonicalHttpsOrigin (pf_url p) (env ''GATEWAY_VIEWER_ORIGIN'') ''GATEWAY_VIEWER_ORIGIN'' of Inl e \<Rightarrow> Inl e | Inr origin \<Rightarrow>
        Inr \<lparr>gc_host = (case env ''HOST'' of None \<Rightarrow> ''0.0.0.0'' | Some h \<Rightarrow> h), gc_port = port, gc_publicGatewayUrl = url,
          gc_deviceAuthPepper = pepper, gc_browserTicketSecret = ticketSecret, gc_authTimeoutMs = auth, gc_staleAfterMs = stale,
          gc_viewerCapacity = capacity, gc_viewerOrigin = origin, gc_iceServerTemplates = templates,
          gc_turnSharedSecret = secret, gc_turnCredentialTtlSeconds = ttl\<rparr>))))))))))))"

subsection \<open>The same servers in the web application\<close>

definition readTurnCredentialTtl :: "(string \<Rightarrow> jsnum) \<Rightarrow> string option \<Rightarrow> string + jsnum" where
  "readTurnCredentialTtl number v =
     (case v of
        None \<Rightarrow> Inr (js_int 600)
      | Some s \<Rightarrow>
          let parsed = number s in
          if \<not> js_is_integer parsed \<or> js_lt parsed (js_int 60) \<or> js_lt (js_int 3600) parsed
          then Inl ''TURN_CREDENTIAL_TTL_SECONDS must be between 60 and 3600''
          else Inr parsed)"

definition readIceServerTemplates :: "(string \<Rightarrow> json option) \<Rightarrow> string option \<Rightarrow> string + ice_server list" where
  "readIceServerTemplates parse v =
     (case v of
        None \<Rightarrow> Inr stun_default
      | Some [] \<Rightarrow> Inr stun_default
      | Some (ch # s) \<Rightarrow>
         (case parse (ch # s) of
            Some (JArr js) \<Rightarrow>
              if length js \<le> 8
              then (case those (map IceServerSchema js) of Some ts \<Rightarrow> Inr ts | None \<Rightarrow> Inl ''ZodError'')
              else Inl ''GATEWAY_ICE_SERVERS_JSON must be an array with at most eight entries''
          | Some j \<Rightarrow> Inl ''GATEWAY_ICE_SERVERS_JSON must be an array with at most eight entries''
          | None \<Rightarrow> Inl ''SyntaxError''))"

definition createPublicIceServers :: "platform \<Rightarrow> env \<Rightarrow> string \<Rightarrow> date \<Rightarrow> string + ice_server list" where
  "createPublicIceServers p env subject now =
     (case readIceServerTemplates (pf_parse p) (env ''GATEWAY_ICE_SERVERS_JSON'') of
        Inl e \<Rightarrow> Inl e
      | Inr templates \<Rightarrow>
         (case turn_secret (pf_read p) (env ''TURN_SHARED_SECRET_FILE'') of
            Inl e \<Rightarrow> Inl e
          | Inr secret \<Rightarrow>
             (case readTurnCredentialTtl (pf_number p) (env ''TURN_CREDENTIAL_TTL_SECONDS'') of
                Inl e \<Rightarrow> Inl e
              | Inr ttl \<Rightarrow> createSessionIceServers (pf_hmac1 p) templates (truthy secret) subject now (Some ttl))))"

definition readIceTransportPolicy :: "env \<Rightarrow> string + string" where
  "readIceTransportPolicy env =
     (let v = (case truthy (map_option js_trim (env ''WEBRTC_ICE_TRANSPORT_POLICY'')) of None \<Rightarrow> ''all'' | Some s \<Rightarrow> s) in
      if v \<noteq> ''all'' \<and> v \<noteq> ''relay'' then Inl ''WEBRTC_ICE_TRANSPORT_POLICY must be all or relay'' else Inr v)"

subsection \<open>What a loaded configuration promises\<close>

lemma readInteger_bounds:
  "readInteger number v f lo hi = Inr n \<Longrightarrow> lo \<le> f \<Longrightarrow> f \<le> hi \<Longrightarrow> lo \<le> n \<and> n \<le> hi"
proof (cases v)
  case (Some t)
  assume "readInteger number v f lo hi = Inr n"
  then have n: "js_is_integer (number t)" "\<not> js_lt (number t) (js_int lo)" "\<not> js_lt (js_int hi) (number t)" "n = int_of_js (number t)"
    by (auto simp: readInteger_def Some Let_def split: if_splits)
  then show ?thesis using js_integer_int [OF n(1)] by (metis js_lt_int linorder_not_less)
qed (simp add: readInteger_def)

lemma required_Inr: "required v name = Inr s \<Longrightarrow> v = Some s \<and> s \<noteq> []"
  by (cases v rule: truthy.cases) (auto simp: required_def)

lemma requiredSecret_Inr: "requiredSecret v name = Inr s \<Longrightarrow> 24 \<le> length s"
  by (auto simp: requiredSecret_def split: sum.splits if_splits)

lemma sum_case_Inr: "(case x of Inl e \<Rightarrow> Inl e | Inr v \<Rightarrow> f v) = Inr c \<longleftrightarrow> (\<exists>v. x = Inr v \<and> f v = Inr c)"
  by (cases x) auto

lemma load_Inr:
  "loadGatewayConfig p env = Inr c \<Longrightarrow>
     parseIceServers (pf_parse p) (env ''GATEWAY_ICE_SERVERS_JSON'') = Inr (gc_iceServerTemplates c)
   \<and> turn_secret (pf_read p) (env ''TURN_SHARED_SECRET_FILE'') = Inr (gc_turnSharedSecret c)
   \<and> readInteger (pf_number p) (env ''TURN_CREDENTIAL_TTL_SECONDS'') 600 60 3600 = Inr (gc_turnCredentialTtlSeconds c)
   \<and> (\<exists>check. createSessionIceServers (pf_hmac1 p) (gc_iceServerTemplates c) (truthy (gc_turnSharedSecret c)) ''configuration-check'' 0
        (Some (js_int (gc_turnCredentialTtlSeconds c))) = Inr check)
   \<and> readInteger (pf_number p) (env ''PORT'') 3002 0 65535 = Inr (gc_port c)
   \<and> required (env ''GATEWAY_PUBLIC_URL'') ''GATEWAY_PUBLIC_URL'' = Inr (gc_publicGatewayUrl c)
   \<and> requiredSecret (env ''DEVICE_AUTH_PEPPER'') ''DEVICE_AUTH_PEPPER'' = Inr (gc_deviceAuthPepper c)
   \<and> requiredSecret (env ''GATEWAY_SESSION_SECRET'') ''GATEWAY_SESSION_SECRET'' = Inr (gc_browserTicketSecret c)
   \<and> readInteger (pf_number p) (env ''GATEWAY_AUTH_TIMEOUT_MS'') 5000 100 30000 = Inr (gc_authTimeoutMs c)
   \<and> readInteger (pf_number p) (env ''GATEWAY_STALE_AFTER_MS'') 15000 5000 120000 = Inr (gc_staleAfterMs c)
   \<and> readInteger (pf_number p) (env ''GATEWAY_VIEWER_CAPACITY'') 500 1 500 = Inr (gc_viewerCapacity c)
   \<and> requiredCanonicalHttpsOrigin (pf_url p) (env ''GATEWAY_VIEWER_ORIGIN'') ''GATEWAY_VIEWER_ORIGIN'' = Inr (gc_viewerOrigin c)"
  unfolding loadGatewayConfig_def sum_case_Inr by auto

definition subject_ok :: "string \<Rightarrow> bool" where
  "subject_ok s = (s \<noteq> [] \<and> length s \<le> 128 \<and> list_all subject_char s)"

text \<open>Whether the credentials can be made does not depend on whom they are for and when.\<close>

lemma ice_servers_any_subject:
  assumes "createSessionIceServers h ts secret subject now ttl = Inr servers" and "subject_ok subject'"
  shows "\<exists>servers'. createSessionIceServers h ts secret subject' now' ttl = Inr servers'"
  using assms
  by (auto simp: createSessionIceServers_def createTurnRestCredentials_def subject_ok_def Let_def
      split: if_splits option.splits sum.splits)

lemma check_subject: "subject_ok ''configuration-check''"
  by (simp add: subject_ok_def subject_char_def is_digit_def char_between_def)

lemma those_map: "those (map f js) = Some xs \<Longrightarrow> length xs = length js \<and> (\<forall>x \<in> set xs. \<exists>j \<in> set js. f j = Some x)"
proof (induction js arbitrary: xs)
  case (Cons j js)
  then obtain y ys where "f j = Some y" "those (map f js) = Some ys" "xs = y # ys"
    by (auto split: option.splits)
  with Cons.IH show ?case by fastforce
qed simp

subsection \<open>Servers on the wire\<close>

definition ice_ok :: "ice_server \<Rightarrow> bool" where
  "ice_ok s = ((case is_urls s of Url u \<Rightarrow> len_ok 1 512 u | Urls us \<Rightarrow> us \<noteq> [] \<and> length us \<le> 8 \<and> list_all (len_ok 1 512) us)
     \<and> pred_option (len_ok 1 256) (is_username s) \<and> pred_option (len_ok 1 512) (is_credential s))"

fun urls_json :: "ice_urls \<Rightarrow> json" where
  "urls_json (Url u) = JStr u"
| "urls_json (Urls us) = JArr (map JStr us)"

definition ice_json :: "ice_server \<Rightarrow> json" where
  "ice_json s = JObj ((''urls'', urls_json (is_urls s)) # j_opt ''username'' JStr (is_username s) @ j_opt ''credential'' JStr (is_credential s))"

lemma those_strings: "those (map (\<lambda>j. z_string 1 512 (Some j)) (map JStr us)) = (if list_all (len_ok 1 512) us then Some us else None)"
  by (induction us) auto

lemma ice_urls_json [simp]:
  "IceUrlsSchema (Some (urls_json us)) =
     (if (case us of Url u \<Rightarrow> len_ok 1 512 u | Urls us \<Rightarrow> us \<noteq> [] \<and> length us \<le> 8 \<and> list_all (len_ok 1 512) us) then Some us else None)"
  using those_strings by (cases us) (auto simp: Suc_le_eq simp del: map_map)

lemma ice_roundtrip: "IceServerSchema (ice_json s) = (if ice_ok s then Some s else None)"
  by (cases s) (auto simp: ice_json_def ice_ok_def)

lemma ice_urls_sound:
  "IceUrlsSchema j = Some us \<Longrightarrow> case us of Url u \<Rightarrow> len_ok 1 512 u | Urls us \<Rightarrow> us \<noteq> [] \<and> length us \<le> 8 \<and> list_all (len_ok 1 512) us"
proof (induction j rule: IceUrlsSchema.induct)
  case (1 js)
  then obtain xs where "those (map (\<lambda>j. z_string 1 512 (Some j)) js) = Some xs" "us = Urls xs" "js \<noteq> []" "length js \<le> 8"
    by (cases "js = []") (auto split: if_splits)
  with those_map [OF this(1)] show ?case by (auto simp: list_all_iff)
qed (auto split: if_splits)

lemma ice_sound: "IceServerSchema j = Some s \<Longrightarrow> ice_ok s"
  by (cases j rule: IceServerSchema.cases) (auto simp: bind_eq_Some_conv ice_ok_def dest: ice_urls_sound intro: z_bounds)

lemma templates_ok: "parseIceServers parse v = Inr ts \<Longrightarrow> length ts \<le> 8 \<and> list_all ice_ok ts"
proof -
  assume run: "parseIceServers parse v = Inr ts"
  have "ts = stun_default \<or> (\<exists>js. length js \<le> 8 \<and> those (map IceServerSchema js) = Some ts)"
    using run by (auto simp: parseIceServers_def split: option.splits json.splits if_splits)
  then show ?thesis
  proof
    assume "\<exists>js. length js \<le> 8 \<and> those (map IceServerSchema js) = Some ts"
    then show ?thesis using those_map [of IceServerSchema _ ts] ice_sound by (metis list_all_iff)
  qed (simp add: stun_default_def ice_ok_def len_ok_def)
qed

lemma length_string_of_nat: "n < 10 ^ k \<Longrightarrow> 0 < k \<Longrightarrow> length (string_of_nat n) \<le> k"
proof (induction k arbitrary: n)
  case (Suc k)
  show ?case
  proof (cases "n < 10")
    case False
    then have "n div 10 < 10 ^ k" "0 < k" using Suc.prems(1) by (auto intro: gr0I)
    then show ?thesis using Suc.IH False by (simp add: string_of_nat.simps [of n])
  qed (simp add: string_of_nat.simps [of n])
qed simp

text \<open>What the servers of a session are: the templates, those for relaying with fresh credentials.\<close>

lemma session_servers:
  assumes "createSessionIceServers h ts secret subject now (Some (js_int ttl)) = Inr servers"
  shows "list_all (\<lambda>t. is_username t = None \<and> is_credential t = None) ts
    \<and> (\<exists>n. servers = map (\<lambda>t. if is_turn t then t\<lparr>is_username := Some n, is_credential := Some (h (the secret) n)\<rparr> else t) ts
       \<and> (list_ex is_turn ts \<longrightarrow> n = string_of_int ((now + ttl * 1000) div 1000) @ '':'' @ subject \<and> 32 \<le> length (the secret)
            \<and> subject_ok subject \<and> 60 \<le> ttl \<and> ttl \<le> 3600))"
proof (cases "list_ex is_turn ts")
  case True
  then obtain key where key: "secret = Some key" using assms
    by (auto simp: createSessionIceServers_def split: if_splits option.splits)
  show ?thesis
    using assms True
    by (auto simp: createSessionIceServers_def createTurnRestCredentials_def key Let_def subject_ok_def list_all_iff list_ex_iff
        split: if_splits sum.splits)
next
  case False
  then have "map (\<lambda>t. if is_turn t then t\<lparr>is_username := Some n, is_credential := Some (h (the secret) n)\<rparr> else t) ts = ts" for n
    by (intro map_idI) (auto simp: list_ex_iff)
  then show ?thesis
    using assms False by (auto simp: createSessionIceServers_def list_all_iff list_ex_iff split: if_splits)
qed

text \<open>
  a loaded configuration is safe to run with. Every number is inside its bounds,
  the secrets are long enough, there are at most eight well-formed servers without fixed
  credentials, and the check at start-up means that making the servers of a session can never
  throw later, whoever it is for and whenever.
\<close>

theorem gateway_config_in_bounds:
  assumes "loadGatewayConfig p env = Inr c" and "subject_ok subject"
  shows "0 \<le> gc_port c \<and> gc_port c \<le> 65535 \<and> 100 \<le> gc_authTimeoutMs c \<and> gc_authTimeoutMs c \<le> 30000
    \<and> 5000 \<le> gc_staleAfterMs c \<and> gc_staleAfterMs c \<le> 120000 \<and> 1 \<le> gc_viewerCapacity c \<and> gc_viewerCapacity c \<le> 500
    \<and> 60 \<le> gc_turnCredentialTtlSeconds c \<and> gc_turnCredentialTtlSeconds c \<le> 3600
    \<and> 24 \<le> length (gc_deviceAuthPepper c) \<and> 24 \<le> length (gc_browserTicketSecret c) \<and> gc_publicGatewayUrl c \<noteq> []
    \<and> length (gc_iceServerTemplates c) \<le> 8
    \<and> list_all (\<lambda>t. ice_ok t \<and> is_username t = None \<and> is_credential t = None) (gc_iceServerTemplates c)
    \<and> (\<exists>servers. createGatewayIceServers p c subject now = Inr servers)"
proof -
  note loaded = load_Inr [OF assms(1)]
  then obtain check where check: "createSessionIceServers (pf_hmac1 p) (gc_iceServerTemplates c) (truthy (gc_turnSharedSecret c))
      ''configuration-check'' 0 (Some (js_int (gc_turnCredentialTtlSeconds c))) = Inr check" by blast
  have numbers: "0 \<le> gc_port c \<and> gc_port c \<le> 65535" "100 \<le> gc_authTimeoutMs c \<and> gc_authTimeoutMs c \<le> 30000"
    "5000 \<le> gc_staleAfterMs c \<and> gc_staleAfterMs c \<le> 120000" "1 \<le> gc_viewerCapacity c \<and> gc_viewerCapacity c \<le> 500"
    "60 \<le> gc_turnCredentialTtlSeconds c \<and> gc_turnCredentialTtlSeconds c \<le> 3600"
    by (rule readInteger_bounds [of _ _ _ 0 65535] readInteger_bounds [of _ _ _ 100 30000] readInteger_bounds [of _ _ _ 5000 120000]
        readInteger_bounds [of _ _ _ 1 500] readInteger_bounds [of _ _ _ 60 3600], use loaded in blast, simp, simp)+
  have "24 \<le> length (gc_deviceAuthPepper c)" "24 \<le> length (gc_browserTicketSecret c)" "gc_publicGatewayUrl c \<noteq> []"
    using loaded requiredSecret_Inr required_Inr by blast+
  moreover have "length (gc_iceServerTemplates c) \<le> 8 \<and> list_all ice_ok (gc_iceServerTemplates c)"
    by (rule templates_ok) (use loaded in blast)
  moreover have "list_all (\<lambda>t. is_username t = None \<and> is_credential t = None) (gc_iceServerTemplates c)"
    using session_servers [OF check] by blast
  moreover have "\<exists>servers. createGatewayIceServers p c subject now = Inr servers"
    unfolding createGatewayIceServers_def by (rule ice_servers_any_subject [OF check assms(2)])
  ultimately show ?thesis using numbers by (simp add: list_all_iff)
qed

lemma same_templates: "readIceServerTemplates parse v = parseIceServers parse v"
  by (cases v rule: truthy.cases) (auto simp: readIceServerTemplates_def parseIceServers_def split: option.splits json.splits)

lemma same_ttl: "readInteger number v 600 60 3600 = Inr n \<Longrightarrow> readTurnCredentialTtl number v = Inr (js_int n)"
  by (auto simp: readInteger_def readTurnCredentialTtl_def Let_def js_integer_int split: option.splits if_splits)

text \<open>
  driver and car are given the same servers. Whenever the gateway starts at all,
  the web application computes from the same variables, for one session at one instant, exactly
  the servers and credentials the gateway computes.
\<close>

theorem web_and_gateway_servers_agree:
  assumes "loadGatewayConfig p env = Inr c"
  shows "createPublicIceServers p env subject now = createGatewayIceServers p c subject now"
  using load_Inr [OF assms] same_ttl [of "pf_number p" "env ''TURN_CREDENTIAL_TTL_SECONDS''"]
  by (auto simp: createPublicIceServers_def createGatewayIceServers_def same_templates)

text \<open>
  Property C32: the servers of a session fit the message contract. What the gateway sends about
  them passes the schema both ends parse with, and every relay server among them carries a user
  name that expires after the configured lifetime and its digest as password, no other any.
\<close>

theorem session_servers_fit_contract:
  assumes "loadGatewayConfig p env = Inr c" and "createGatewayIceServers p c subject now = Inr servers"
    and "0 \<le> now" and "now < 10 ^ 20" and "\<And>k m. 1 \<le> length (pf_hmac1 p k m) \<and> length (pf_hmac1 p k m) \<le> 512"
  shows "length servers \<le> 8 \<and> list_all (\<lambda>s. IceServerSchema (ice_json s) = Some s
    \<and> (if is_turn s then is_username s = Some (string_of_int ((now + gc_turnCredentialTtlSeconds c * 1000) div 1000) @ '':'' @ subject)
         \<and> is_credential s = Some (pf_hmac1 p (the (gc_turnSharedSecret c)) (the (is_username s)))
       else is_username s = None \<and> is_credential s = None)) servers"
proof -
  note loaded = load_Inr [OF assms(1)]
  let ?ts = "gc_iceServerTemplates c" and ?ttl = "gc_turnCredentialTtlSeconds c"
  have templates: "length ?ts \<le> 8 \<and> list_all ice_ok ?ts" by (rule templates_ok) (use loaded in blast)
  obtain n where n: "servers = map (\<lambda>t. if is_turn t then t\<lparr>is_username := Some n,
        is_credential := Some (pf_hmac1 p (the (truthy (gc_turnSharedSecret c))) n)\<rparr> else t) ?ts"
      "list_all (\<lambda>t. is_username t = None \<and> is_credential t = None) ?ts"
      "list_ex is_turn ?ts \<longrightarrow> n = string_of_int ((now + ?ttl * 1000) div 1000) @ '':'' @ subject
         \<and> 32 \<le> length (the (truthy (gc_turnSharedSecret c))) \<and> subject_ok subject \<and> 60 \<le> ?ttl \<and> ?ttl \<le> 3600"
    using session_servers [OF assms(2) [unfolded createGatewayIceServers_def]] by blast
  have turn_facts: "length n \<le> 149 \<and> 1 \<le> length n \<and> truthy (gc_turnSharedSecret c) = gc_turnSharedSecret c" if turn: "list_ex is_turn ?ts"
  proof -
    have "length (string_of_int ((now + ?ttl * 1000) div 1000)) \<le> 20"
      using n(3) turn assms(3,4) by (auto simp: string_of_int_def intro!: length_string_of_nat)
    moreover have "truthy (gc_turnSharedSecret c) \<noteq> None"
      using assms(2) turn by (auto simp: createGatewayIceServers_def createSessionIceServers_def split: if_splits option.splits)
    then have "truthy (gc_turnSharedSecret c) = gc_turnSharedSecret c" by (cases "gc_turnSharedSecret c" rule: truthy.cases) auto
    ultimately show ?thesis using n(3) turn by (auto simp: subject_ok_def)
  qed
  have one: "IceServerSchema (ice_json s) = Some s
      \<and> (if is_turn s then is_username s = Some (string_of_int ((now + ?ttl * 1000) div 1000) @ '':'' @ subject)
         \<and> is_credential s = Some (pf_hmac1 p (the (gc_turnSharedSecret c)) (the (is_username s)))
       else is_username s = None \<and> is_credential s = None)"
    if t: "t \<in> set ?ts" and s: "s = (if is_turn t then t\<lparr>is_username := Some n,
        is_credential := Some (pf_hmac1 p (the (truthy (gc_turnSharedSecret c))) n)\<rparr> else t)" for s t
  proof (cases "is_turn t")
    case True
    then have "list_ex is_turn ?ts" using t by (auto simp: list_ex_iff)
    note facts = this turn_facts [OF this] mp [OF n(3) this]
    have "ice_ok t" "is_turn s" using templates t True by (auto simp: list_all_iff s is_turn_def)
    then show ?thesis
      using facts assms(5) True by (auto simp: ice_roundtrip ice_ok_def len_ok_def s)
  next
    case False
    then show ?thesis using t templates n(2) by (simp add: ice_roundtrip s list_all_iff)
  qed
  show ?thesis
    unfolding list_all_iff n(1) set_map length_map 
    by (rule conjI, simp only: templates, rule ballI, erule imageE, rule one, assumption, assumption)
qed

subsection \<open>Samples\<close>

definition sample_platform :: platform where
  "sample_platform = \<lparr>pf_number = (\<lambda>s. NaN), pf_parse = (\<lambda>s. Some (JArr [JObj [(''urls'', JStr ''turn:relay'')], JObj [(''urls'', JStr ''stun:one'')]])),
     pf_url = (\<lambda>s. Some (''https:'', s, ''/'')), pf_read = (\<lambda>s. Some (''kkkkkkkkkkkkkkkkkkkkkkkkkkkkkkkk'')), pf_hmac1 = (\<lambda>k m. ''digest'')\<rparr>"

definition sample_env :: env where
  "sample_env name =
     (if name = ''GATEWAY_ICE_SERVERS_JSON'' then Some ''[]'' else if name = ''TURN_SHARED_SECRET_FILE'' then Some ''/s''
      else if name = ''GATEWAY_PUBLIC_URL'' \<or> name = ''GATEWAY_VIEWER_ORIGIN'' then Some ''https://x''
      else if name = ''DEVICE_AUTH_PEPPER'' \<or> name = ''GATEWAY_SESSION_SECRET'' then Some (''pppppppppppppppppppppppp'') else None)"

definition sample_config :: gateway_config where
  "sample_config = \<lparr>gc_host = ''0.0.0.0'', gc_port = 3002, gc_publicGatewayUrl = ''https://x'', gc_deviceAuthPepper = ''pppppppppppppppppppppppp'',
     gc_browserTicketSecret = ''pppppppppppppppppppppppp'', gc_authTimeoutMs = 5000, gc_staleAfterMs = 15000, gc_viewerCapacity = 500,
     gc_viewerOrigin = ''https://x'',
     gc_iceServerTemplates = [\<lparr>is_urls = Url ''turn:relay'', is_username = None, is_credential = None\<rparr>,
       \<lparr>is_urls = Url ''stun:one'', is_username = None, is_credential = None\<rparr>],
     gc_turnSharedSecret = Some (''kkkkkkkkkkkkkkkkkkkkkkkkkkkkkkkk''), gc_turnCredentialTtlSeconds = 600\<rparr>"

lemma sample_templates: "parseIceServers (pf_parse sample_platform) (sample_env ''GATEWAY_ICE_SERVERS_JSON'') = Inr (gc_iceServerTemplates sample_config)"
  by (simp add: parseIceServers_def sample_platform_def sample_env_def sample_config_def z_strict_def len_ok_def)

lemma sample_secret: "turn_secret (pf_read sample_platform) (sample_env ''TURN_SHARED_SECRET_FILE'') = Inr (gc_turnSharedSecret sample_config)"
  by (simp add: turn_secret_def sample_platform_def sample_env_def sample_config_def js_trim_def js_space_def)

lemma sample_check:
  "createSessionIceServers (pf_hmac1 sample_platform) (gc_iceServerTemplates sample_config) (truthy (gc_turnSharedSecret sample_config))
     ''configuration-check'' 0 (Some (js_int 600)) = Inr
       [\<lparr>is_urls = Url ''turn:relay'', is_username = Some (string_of_int 600 @ '':configuration-check''), is_credential = Some ''digest''\<rparr>,
        \<lparr>is_urls = Url ''stun:one'', is_username = None, is_credential = None\<rparr>]"
  using check_subject
  by (simp add: createSessionIceServers_def createTurnRestCredentials_def sample_config_def sample_platform_def is_turn_def isTurnUrl_def
      starts_with_def subject_ok_def)

lemma sample_loaded: "loadGatewayConfig sample_platform sample_env = Inr sample_config"
  unfolding loadGatewayConfig_def sample_templates sample_secret
  by (simp add: sample_check readInteger_def required_def requiredSecret_def requiredCanonicalHttpsOrigin_def sample_env_def)
    (simp add: sample_platform_def sample_config_def sample_env_def)

theorem gateway_config_in_bounds_witness:
  "\<exists>servers. createGatewayIceServers sample_platform sample_config ''configuration-check'' 7 = Inr servers"
  using gateway_config_in_bounds [OF sample_loaded check_subject, of 7] by blast

theorem web_and_gateway_servers_agree_witness:
  "createPublicIceServers sample_platform sample_env ''configuration-check'' 0 = Inr
     [\<lparr>is_urls = Url ''turn:relay'', is_username = Some (string_of_int 600 @ '':configuration-check''), is_credential = Some ''digest''\<rparr>,
      \<lparr>is_urls = Url ''stun:one'', is_username = None, is_credential = None\<rparr>]"
  using web_and_gateway_servers_agree [OF sample_loaded, of "''configuration-check''" 0] sample_check
  by (simp add: createGatewayIceServers_def sample_config_def)

theorem session_servers_fit_contract_witness:
  "\<exists>servers. createGatewayIceServers sample_platform sample_config ''configuration-check'' 0 = Inr servers
     \<and> list_all (\<lambda>s. IceServerSchema (ice_json s) = Some s) servers"
proof -
  obtain servers where made: "createGatewayIceServers sample_platform sample_config ''configuration-check'' 0 = Inr servers"
    using sample_check by (simp add: createGatewayIceServers_def sample_config_def)
  have "1 \<le> length (pf_hmac1 sample_platform k m) \<and> length (pf_hmac1 sample_platform k m) \<le> 512" for k m
    by (simp add: sample_platform_def)
  from session_servers_fit_contract [OF sample_loaded made _ _ this] have "list_all (\<lambda>s. IceServerSchema (ice_json s) = Some s) servers"
    by (simp add: list_all_iff)
  with made show ?thesis by blast
qed

end
