(* ===== verification/GatewayServer.thy ===== *)
theory GatewayServer
  imports Fleet SessionRegistry GatewayConfig
begin

section \<open>The gateway process\<close>

text \<open>
  \<open>apps/gateway/src/server.ts\<close> and \<open>presence.ts\<close>: the sockets of devices and browsers, their
  authentication, and what their messages, pongs and closings do to the session registry, the
  presence registry and the store. A handler runs until it awaits the store; the call is then
  pending, is performed on the tables at some later moment (or fails), and the handler goes on
  at a later moment still. Other handlers, also of the same socket, run in between: every
  pending call is a task, a run is any sequence of events. A socket is its number; what is
  sent to and closed on sockets is a log. What a handler reads after an await it reads then.

  The iteration over the map of the presence registry is over the devices known when it began
  and reads each instant when it comes to it; devices that appear during it are fresh and would
  be left alone.
\<close>

record socket =
  sk_open :: bool
  sk_gone :: bool
  sk_armed :: bool
  sk_device :: "authenticated_device option"
  sk_session :: "ident option"

datatype store_call =
    C_authenticate ident string string device_capabilities date
  | C_claim ident "int option" date
  | C_authorize ident ident ident date
  | C_end ident string date
  | C_heartbeat ident device_health date
  | C_presence ident car_state date
  | C_status ident ident update_progress "string option" date
  | C_mark ident date
  | C_offline ident date
  | C_stale date date
  | C_expire date

datatype store_answer =
    A_device "authenticated_device option"
  | A_offer "update_offer option"
  | A_date "date option"
  | A_beat "(ident \<times> bool) option"
  | A_bool bool
  | A_done
  | A_threw

text \<open>Where a handler goes on after its call.\<close>

datatype after =
    After_authenticate peer
  | After_offer peer
  | After_authorize peer ticket
  | After_refused peer
  | After_heartbeat peer ident device_health date
  | After_presence peer device_health
  | After_status peer
  | After_end peer
  | After_mark peer date
  | After_mark_failed peer
  | After_close_session peer
  | After_close_presence peer
  | After_sweep date date "ident list"
  | Ignored

datatype task = Pending store_call after | Answered store_answer after

record gateway =
  gw_db :: fleet_db
  gw_registry :: registry
  gw_lastSeen :: "(ident, date) js_map"
  gw_devices :: "(ident, peer) js_map"
  gw_pings :: "(peer, rat option) js_map"
  gw_sockets :: "(peer, socket) js_map"
  gw_tasks :: "task list"
  gw_log :: "peer_effect list"
  gw_unhandled :: bool
  gw_closing :: bool

text \<open>What the process is run with: its configuration, the platform, and the libraries it calls.\<close>

record gateway_env =
  ge_config :: gateway_config
  ge_platform :: platform
  ge_hmac256 :: "string \<Rightarrow> string \<Rightarrow> string"
  ge_uuid :: "string \<Rightarrow> bool"

definition start_gateway :: "fleet_db \<Rightarrow> gateway" where
  "start_gateway db = \<lparr>gw_db = db, gw_registry = new_registry, gw_lastSeen = [], gw_devices = [], gw_pings = [],
     gw_sockets = [], gw_tasks = [], gw_log = [], gw_unhandled = False, gw_closing = False\<rparr>"

subsection \<open>Sockets\<close>

definition set_socket :: "peer \<Rightarrow> (socket \<Rightarrow> socket) \<Rightarrow> gateway \<Rightarrow> gateway" where
  "set_socket p f g =
     (case map_get (gw_sockets g) p of
        None \<Rightarrow> g
      | Some s \<Rightarrow> g\<lparr>gw_sockets := map_set (gw_sockets g) p (f s)\<rparr>)"

definition is_open :: "gateway \<Rightarrow> peer \<Rightarrow> bool" where
  "is_open g p = (case map_get (gw_sockets g) p of None \<Rightarrow> False | Some s \<Rightarrow> sk_open s)"

definition device_of :: "gateway \<Rightarrow> peer \<Rightarrow> authenticated_device option" where
  "device_of g p = (case map_get (gw_sockets g) p of None \<Rightarrow> None | Some s \<Rightarrow> sk_device s)"

text \<open>The session of a socket, if it has one (an empty identifier is none).\<close>

definition session_of :: "gateway \<Rightarrow> peer \<Rightarrow> ident option" where
  "session_of g p = (case map_get (gw_sockets g) p of None \<Rightarrow> None | Some s \<Rightarrow> truthy (sk_session s))"

definition gw_send :: "peer \<Rightarrow> server_message \<Rightarrow> gateway \<Rightarrow> gateway" where
  "gw_send p m g = (if is_open g p then g\<lparr>gw_log := gw_log g @ [Send p m]\<rparr> else g)"

definition gw_close :: "peer \<Rightarrow> int \<Rightarrow> string \<Rightarrow> gateway \<Rightarrow> gateway" where
  "gw_close p code reason g =
     (if is_open g p
      then set_socket p (\<lambda>s. s\<lparr>sk_open := False\<rparr>) (g\<lparr>gw_log := gw_log g @ [Close p code reason]\<rparr>)
      else g)"

definition gw_terminate :: "peer \<Rightarrow> gateway \<Rightarrow> gateway" where
  "gw_terminate p g = set_socket p (\<lambda>s. s\<lparr>sk_open := False\<rparr>) g"

fun gw_effect :: "peer_effect \<Rightarrow> gateway \<Rightarrow> gateway" where
  "gw_effect (Send p m) g = gw_send p m g"
| "gw_effect (Close p code reason) g = gw_close p code reason g"

definition gw_effects :: "peer_effect list \<Rightarrow> gateway \<Rightarrow> gateway" where
  "gw_effects es g = foldl (\<lambda>g e. gw_effect e g) g es"

definition await_store :: "store_call \<Rightarrow> after \<Rightarrow> gateway \<Rightarrow> gateway" where
  "await_store c a g = g\<lparr>gw_tasks := gw_tasks g @ [Pending c a]\<rparr>"

text \<open>The handler of messages catches everything that is thrown in it.\<close>

definition reject_message :: "peer \<Rightarrow> gateway \<Rightarrow> gateway" where
  "reject_message p g = gw_close p 4400 ''invalid message''
     (gw_send p (ErrorMessage ''invalid_message'' ''Malformed or invalid gateway message'') g)"

definition refuse_auth :: "peer \<Rightarrow> string \<Rightarrow> int \<Rightarrow> string \<Rightarrow> gateway \<Rightarrow> gateway" where
  "refuse_auth p reason code closing g = gw_close p code closing (gw_send p (AuthRejected reason) g)"

definition disarm :: "peer \<Rightarrow> gateway \<Rightarrow> gateway" where
  "disarm p = set_socket p (\<lambda>s. s\<lparr>sk_armed := False\<rparr>)"

subsection \<open>Messages\<close>

definition offerPendingUpdate :: "authenticated_device \<Rightarrow> peer \<Rightarrow> date \<Rightarrow> gateway \<Rightarrow> gateway" where
  "offerPendingUpdate d p now g =
     (case dc_otaRuntimeGeneration (ad_capabilities d) of
        None \<Rightarrow> g
      | Some generation \<Rightarrow>
          if hasActiveCar (gw_registry g) (ad_carId d) then g
          else await_store (C_claim (ad_deviceId d) (Some generation) now) (After_offer p) g)"

definition no_capabilities :: device_capabilities where
  "no_capabilities = \<lparr>dc_controlProtocolVersion = None, dc_otaRuntimeGeneration = None\<rparr>"

text \<open>A message of a socket that is neither a device nor a browser yet.\<close>

fun first_message :: "gateway_env \<Rightarrow> peer \<Rightarrow> client_message \<Rightarrow> date \<Rightarrow> gateway \<Rightarrow> gateway" where
  "first_message e p (DeviceAuthenticate deviceId secret agentVersion capabilities) now g =
     (case hashOpaqueSecret (ge_hmac256 e) secret (gc_deviceAuthPepper (ge_config e)) of
        Inl err \<Rightarrow> reject_message p g
      | Inr suppliedHash \<Rightarrow>
          await_store (C_authenticate deviceId suppliedHash agentVersion
            (case capabilities of None \<Rightarrow> no_capabilities | Some c \<Rightarrow> c) now) (After_authenticate p) g)"
| "first_message e p (BrowserAuthenticate text) now g =
     (case verifyBrowserTicket (ge_hmac256 e) (pf_parse (ge_platform e)) text (gc_browserTicketSecret (ge_config e)) (now div 1000) of
        Inl err \<Rightarrow> reject_message p g
      | Inr t \<Rightarrow> await_store (C_authorize (bt_sessionId t) (bt_sub t) (bt_carId t) now) (After_authorize p t) g)"
| "first_message e p m now g = refuse_auth p ''authentication required'' 4401 ''authentication required'' g"

definition unsupported_message :: "peer \<Rightarrow> gateway \<Rightarrow> gateway" where
  "unsupported_message p g = gw_send p (ErrorMessage ''unsupported_message'' ''Message is not valid for this connection'') g"

definition end_after_relay :: "peer \<Rightarrow> relay_message \<Rightarrow> date \<Rightarrow> gateway \<Rightarrow> gateway" where
  "end_after_relay p m now g =
     (case m of SessionEnd s reason \<Rightarrow> await_store (C_end s reason now) (After_end p) g | _ \<Rightarrow> g)"

definition relay_device :: "peer \<Rightarrow> authenticated_device \<Rightarrow> relay_message \<Rightarrow> date \<Rightarrow> gateway \<Rightarrow> gateway" where
  "relay_device p d m now g =
     (case relayFromDevice (gw_registry g) (ad_carId d) m of
        (ok, es, r) \<Rightarrow>
          let g' = gw_effects es (g\<lparr>gw_registry := r\<rparr>) in
          if ok then end_after_relay p m now g' else reject_message p g')"

definition relay_browser :: "peer \<Rightarrow> ident \<Rightarrow> relay_message \<Rightarrow> date \<Rightarrow> gateway \<Rightarrow> gateway" where
  "relay_browser p s m now g =
     (case relayFromBrowser (gw_registry g) s m of
        (ok, es, r) \<Rightarrow>
          let g' = gw_effects es (g\<lparr>gw_registry := r\<rparr>) in
          if ok then end_after_relay p m now g' else reject_message p g')"

definition session_connected :: "peer \<Rightarrow> ident \<Rightarrow> ident \<Rightarrow> date \<Rightarrow> gateway \<Rightarrow> gateway" where
  "session_connected p s claimed now g =
     (if claimed = s then await_store (C_mark s now) (After_mark p now) g else reject_message p g)"

definition later_message ::
  "peer \<Rightarrow> authenticated_device option \<Rightarrow> ident option \<Rightarrow> client_message \<Rightarrow> date \<Rightarrow> gateway \<Rightarrow> gateway" where
  "later_message p dev ses m now g =
     (case (dev, ses, m) of
        (Some d, _, DeviceHeartbeat health) \<Rightarrow>
          await_store (C_heartbeat (ad_deviceId d) health now) (After_heartbeat p (ad_deviceId d) health now) g
      | (Some d, _, DeviceUpdateStatus u status reason) \<Rightarrow>
          await_store (C_status (ad_deviceId d) u status reason now) (After_status p) g
      | (Some d, _, Relay r) \<Rightarrow> relay_device p d r now g
      | (None, Some s, Relay r) \<Rightarrow> relay_browser p s r now g
      | (_, Some s, SessionConnected claimed) \<Rightarrow> session_connected p s claimed now g
      | _ \<Rightarrow> unsupported_message p g)"

text \<open>A message that is binary or no JSON is \<open>None\<close>.\<close>

definition on_message :: "gateway_env \<Rightarrow> peer \<Rightarrow> json option \<Rightarrow> date \<Rightarrow> gateway \<Rightarrow> gateway" where
  "on_message e p raw now g =
     (case Option.bind raw (GatewayClientMessageSchema (ge_uuid e)) of
        None \<Rightarrow> reject_message p g
      | Some m \<Rightarrow>
          if device_of g p = None \<and> session_of g p = None then first_message e p m now g
          else later_message p (device_of g p) (session_of g p) m now g)"

subsection \<open>Presence\<close>

definition chooseState :: "bool \<Rightarrow> device_health \<Rightarrow> car_state" where
  "chooseState adminBlocked health =
     (if adminBlocked then ADMIN_BLOCKED
      else if \<not> dh_cameraReady health \<or> \<not> dh_gpioReady health \<or> \<not> dh_watchdogReady health then SAFETY_BLOCKED
      else AVAILABLE)"

fun sweep_presence :: "date \<Rightarrow> date \<Rightarrow> ident list \<Rightarrow> gateway \<Rightarrow> gateway" where
  "sweep_presence cutoff now [] g = await_store (C_stale cutoff now) Ignored g"
| "sweep_presence cutoff now (d # ds) g =
     (case map_get (gw_lastSeen g) d of
        None \<Rightarrow> sweep_presence cutoff now ds g
      | Some seenAt \<Rightarrow>
          if seenAt < cutoff
          then await_store (C_offline d now) (After_sweep cutoff now ds) (g\<lparr>gw_lastSeen := map_delete (gw_lastSeen g) d\<rparr>)
          else sweep_presence cutoff now ds g)"

definition presence_disconnect :: "peer \<Rightarrow> date \<Rightarrow> gateway \<Rightarrow> gateway" where
  "presence_disconnect p now g =
     (case device_of g p of
        None \<Rightarrow> g\<lparr>gw_unhandled := True\<rparr>
      | Some d \<Rightarrow> await_store (C_offline (ad_deviceId d) now) (After_close_presence p)
          (g\<lparr>gw_lastSeen := map_delete (gw_lastSeen g) (ad_deviceId d)\<rparr>))"

subsection \<open>Going on after a call\<close>

definition device_authenticated :: "peer \<Rightarrow> authenticated_device \<Rightarrow> date \<Rightarrow> gateway \<Rightarrow> gateway" where
  "device_authenticated p d now g =
     (let g1 = disarm p (set_socket p (\<lambda>s. s\<lparr>sk_device := Some d\<rparr>) g);
          g2 = (case map_get (gw_devices g1) (ad_deviceId d) of
              Some prior \<Rightarrow> if prior \<noteq> p then gw_close prior 4409 ''replaced by a new connection'' g1 else g1
            | None \<Rightarrow> g1);
          g3 = g2\<lparr>gw_devices := map_set (gw_devices g2) (ad_deviceId d) p\<rparr>;
          (es, r) = attachDevice (gw_registry g3) (ad_carId d) (ad_deviceId d) p;
          g4 = gw_effects es (g3\<lparr>gw_registry := r\<rparr>)
      in offerPendingUpdate d p now (gw_send p (AuthAccepted Device_peer) g4))"

definition browser_authorized :: "gateway_env \<Rightarrow> peer \<Rightarrow> ticket \<Rightarrow> date \<Rightarrow> date \<Rightarrow> gateway \<Rightarrow> gateway" where
  "browser_authorized e p t expiresAt now g =
     (case createGatewayIceServers (ge_platform e) (ge_config e) (bt_sessionId t) now of
        Inl err \<Rightarrow> reject_message p g
      | Inr servers \<Rightarrow>
         (case attachBrowser (gw_registry g) \<lparr>bs_sessionId = bt_sessionId t, bs_carId = bt_carId t, bs_userId = bt_sub t,
              bs_expiresAt = expiresAt, bs_iceServers = servers\<rparr> p now of
            (attached, es, r) \<Rightarrow>
              let g' = gw_effects es (g\<lparr>gw_registry := r\<rparr>) in
              if \<not> attached
              then await_store (C_end (bt_sessionId t) ''car device unavailable'' now) (After_refused p) g'
              else gw_send p (AuthAccepted Browser_peer)
                (disarm p (set_socket p (\<lambda>s. s\<lparr>sk_session := Some (bt_sessionId t)\<rparr>)
                  (g'\<lparr>gw_pings := map_set (gw_pings g') p None\<rparr>)))))"

definition marked_active :: "peer \<Rightarrow> bool \<Rightarrow> date \<Rightarrow> gateway \<Rightarrow> gateway" where
  "marked_active p databaseMarked now g =
     (case (databaseMarked, session_of g p) of
        (True, Some s) \<Rightarrow>
         (case markConnected (gw_registry g) s now of
            (True, r) \<Rightarrow> g\<lparr>gw_registry := r\<rparr>
          | (False, r) \<Rightarrow> await_store (C_end s ''connection timed out'' now) (After_mark_failed p) (g\<lparr>gw_registry := r\<rparr>))
      | _ \<Rightarrow> reject_message p g)"

definition telemetry_and_offer :: "peer \<Rightarrow> device_health \<Rightarrow> date \<Rightarrow> gateway \<Rightarrow> gateway" where
  "telemetry_and_offer p health now g =
     (case device_of g p of
        None \<Rightarrow> reject_message p g
      | Some d \<Rightarrow> offerPendingUpdate d p now
          (gw_effects (snd (sendDeviceTelemetry (gw_registry g) (ad_carId d)
             (Option.bind (dh_batteryVoltage health) (\<lambda>v. v)) (Option.bind (dh_batteryPercent health) (\<lambda>v. v)))) g))"

definition close_browser :: "peer \<Rightarrow> date \<Rightarrow> gateway \<Rightarrow> gateway" where
  "close_browser p now g =
     (case session_of g p of
        None \<Rightarrow> g
      | Some s \<Rightarrow>
         (case detachBrowser (gw_registry g) s ''browser disconnected'' of
            (es, r) \<Rightarrow> await_store (C_end s ''browser disconnected'' now) Ignored (gw_effects es (g\<lparr>gw_registry := r\<rparr>))))"

fun go_on :: "gateway_env \<Rightarrow> after \<Rightarrow> store_answer \<Rightarrow> date \<Rightarrow> gateway \<Rightarrow> gateway" where
  "go_on e (After_authenticate p) (A_device None) now g =
     refuse_auth p ''invalid device credentials'' 4403 ''invalid credentials'' (set_socket p (\<lambda>s. s\<lparr>sk_device := None\<rparr>) g)"
| "go_on e (After_authenticate p) (A_device (Some d)) now g = device_authenticated p d now g"
| "go_on e (After_offer p) (A_offer None) now g = g"
| "go_on e (After_offer p) (A_offer (Some offer)) now g = gw_send p (UpdateAvailable offer) g"
| "go_on e (After_authorize p t) (A_date None) now g =
     refuse_auth p ''drive session unavailable'' 4409 ''drive session unavailable'' g"
| "go_on e (After_authorize p t) (A_date (Some expiresAt)) now g = browser_authorized e p t expiresAt now g"
| "go_on e (After_refused p) A_done now g =
     refuse_auth p ''drive session unavailable'' 4409 ''drive session unavailable'' g"
| "go_on e (After_heartbeat p deviceId health beat) (A_beat None) now g = reject_message p g"
| "go_on e (After_heartbeat p deviceId health beat) (A_beat (Some (carId, adminBlocked))) now g =
     await_store (C_presence deviceId (chooseState adminBlocked health) beat) (After_presence p health)
       (g\<lparr>gw_lastSeen := map_set (gw_lastSeen g) deviceId beat\<rparr>)"
| "go_on e (After_presence p health) A_done now g = telemetry_and_offer p health now g"
| "go_on e (After_status p) (A_bool accepted) now g = (if accepted then g else reject_message p g)"
| "go_on e (After_end p) A_done now g = g"
| "go_on e (After_mark p beat) (A_bool marked) now g = marked_active p marked beat g"
| "go_on e (After_mark_failed p) A_done now g = reject_message p g"
| "go_on e (After_close_session p) answer now g = presence_disconnect p now g"
| "go_on e (After_close_presence p) answer now g = close_browser p now g"
| "go_on e (After_sweep cutoff began ds) A_done now g = sweep_presence cutoff began ds g"
| "go_on e (After_sweep cutoff began ds) answer now g = g"
| "go_on e Ignored answer now g = g"
| "go_on e (After_authenticate p) answer now g = reject_message p g"
| "go_on e (After_offer p) answer now g = reject_message p g"
| "go_on e (After_authorize p t) answer now g = reject_message p g"
| "go_on e (After_refused p) answer now g = reject_message p g"
| "go_on e (After_heartbeat p deviceId health beat) answer now g = reject_message p g"
| "go_on e (After_presence p health) answer now g = reject_message p g"
| "go_on e (After_status p) answer now g = reject_message p g"
| "go_on e (After_end p) answer now g = reject_message p g"
| "go_on e (After_mark p beat) answer now g = reject_message p g"
| "go_on e (After_mark_failed p) answer now g = reject_message p g"

subsection \<open>The store calls\<close>

text \<open>A call is the operation of the store of the same name, on the tables; \<open>call_answer\<close> is what it returns.\<close>

fun call_op :: "store_call \<Rightarrow> fleet_op" where
  "call_op (C_authenticate d h v c now) = Auth_Device d h v c now"
| "call_op (C_claim d generation now) = Claim_Update d generation now"
| "call_op (C_authorize s usr c now) = Authorize s usr c now"
| "call_op (C_end s reason now) = End_Drive s reason now"
| "call_op (C_heartbeat d h now) = Heartbeat d h now"
| "call_op (C_presence d s now) = Set_Presence d s now"
| "call_op (C_status d j s reason now) = Record_Status d j s reason now"
| "call_op (C_mark s now) = Mark_Active s now"
| "call_op (C_offline d now) = Go_Offline d now"
| "call_op (C_stale cutoff now) = Expire_Stale cutoff now"
| "call_op (C_expire now) = Expire_Drives now"

fun call_answer :: "store_call \<Rightarrow> fleet_db \<Rightarrow> store_answer" where
  "call_answer (C_authenticate d h v c now) db = A_device (fst (authenticateDevice db d h v c now))"
| "call_answer (C_claim d generation now) db = A_offer (fst (claimPendingUpdate db d generation now))"
| "call_answer (C_authorize s usr c now) db = A_date (fst (authorizeDriveSession db s usr c now))"
| "call_answer (C_heartbeat d h now) db =
     (case fst (recordHeartbeat db d h now) of Inl e \<Rightarrow> A_threw | Inr device \<Rightarrow> A_beat device)"
| "call_answer (C_status d j s reason now) db = A_bool (fst (recordUpdateStatus db d j s reason now))"
| "call_answer (C_mark s now) db = A_bool (fst (markDriveSessionActive db s now))"
| "call_answer c db = A_done"

subsection \<open>Closing and timers\<close>

definition on_close :: "peer \<Rightarrow> date \<Rightarrow> gateway \<Rightarrow> gateway" where
  "on_close p now g =
     (case map_get (gw_sockets g) p of
        None \<Rightarrow> g
      | Some s \<Rightarrow>
          if sk_gone s then g
          else
            let g1 = set_socket p (\<lambda>s. s\<lparr>sk_open := False, sk_gone := True, sk_armed := False\<rparr>)
                  (g\<lparr>gw_pings := map_delete (gw_pings g) p\<rparr>) in
            (case sk_device s of
               None \<Rightarrow> close_browser p now g1
             | Some d \<Rightarrow>
                 if map_get (gw_devices g1) (ad_deviceId d) \<noteq> Some p then close_browser p now g1
                 else
                   (case detachDevice (gw_registry g1) (ad_carId d) p of
                      (sessionId, es, r) \<Rightarrow>
                        let g2 = gw_effects es (g1\<lparr>gw_devices := map_delete (gw_devices g1) (ad_deviceId d), gw_registry := r\<rparr>) in
                        (case truthy sessionId of
                           Some ended \<Rightarrow> await_store (C_end ended ''device disconnected'' now) (After_close_session p) g2
                         | None \<Rightarrow> presence_disconnect p now g2))))"

definition on_pong :: "peer \<Rightarrow> gateway \<Rightarrow> gateway" where
  "on_pong p g = (if map_has (gw_pings g) p then g\<lparr>gw_pings := map_set (gw_pings g) p None\<rparr> else g)"

definition on_auth_timeout :: "peer \<Rightarrow> gateway \<Rightarrow> gateway" where
  "on_auth_timeout p g =
     (case map_get (gw_sockets g) p of
        None \<Rightarrow> g
      | Some s \<Rightarrow>
          if \<not> sk_armed s then g
          else
            (let g1 = disarm p g in
             if device_of g p = None \<and> session_of g p = None
             then gw_close p 4401 ''authentication required'' g1 else g1))"

definition end_expired :: "date \<Rightarrow> ident list \<Rightarrow> gateway \<Rightarrow> gateway" where
  "end_expired now ids g = foldl (\<lambda>g s. await_store (C_end s ''session expired'' now) Ignored g) g ids"

definition on_sweep :: "gateway_env \<Rightarrow> date \<Rightarrow> gateway \<Rightarrow> gateway" where
  "on_sweep e now g =
     (let g1 = sweep_presence (now - gc_staleAfterMs (ge_config e)) now (map_keys (gw_lastSeen g)) g;
          g2 = await_store (C_expire now) Ignored g1 in
      case registry_sweep (gw_registry g2) now of
        (ids, es, r) \<Rightarrow> end_expired now ids (gw_effects es (g2\<lparr>gw_registry := r\<rparr>)))"

text \<open>
  A browser that did not answer a ping for ten seconds is terminated; the first unanswered ping
  counts. \<open>fails\<close> are the sockets on which sending a ping throws.
\<close>

fun ping_loop :: "peer list \<Rightarrow> rat \<Rightarrow> (peer \<times> rat option) list \<Rightarrow> gateway \<Rightarrow> gateway" where
  "ping_loop fails t [] g = g"
| "ping_loop fails t ((p, pendingSince) # rest) g =
     (if (case pendingSince of None \<Rightarrow> False | Some since \<Rightarrow> 10000 \<le> t - since)
      then ping_loop fails t rest (gw_terminate p (g\<lparr>gw_pings := map_delete (gw_pings g) p\<rparr>))
      else
        let g1 = (if pendingSince = None then g\<lparr>gw_pings := map_set (gw_pings g) p (Some t)\<rparr> else g) in
        ping_loop fails t rest
          (if p \<in> set fails then gw_terminate p (g1\<lparr>gw_pings := map_delete (gw_pings g1) p\<rparr>) else g1))"

definition on_ping_timer :: "peer list \<Rightarrow> rat \<Rightarrow> gateway \<Rightarrow> gateway" where
  "on_ping_timer fails t g = ping_loop fails t (gw_pings g) g"

definition closeGatewaySockets :: "gateway \<Rightarrow> gateway" where
  "closeGatewaySockets g =
     (if gw_closing g then g
      else
        let g1 = foldl (\<lambda>g p. gw_terminate p g) (g\<lparr>gw_closing := True\<rparr>) (map_keys (gw_pings g)) in
        foldl (\<lambda>g p. gw_close p 1001 ''server shutdown'' g) (g1\<lparr>gw_pings := []\<rparr>) (map snd (gw_devices g1)))"

subsection \<open>Events and runs\<close>

text \<open>
  \<open>Web\<close> is any operation on the tables that the web application or the command line programs
  do. \<open>Perform i\<close> performs the \<open>i\<close>-th pending call, \<open>Store_fails i\<close> lets it fail without effect,
  \<open>Continue i\<close> lets its handler go on.
\<close>

datatype gw_event =
    Connected peer
  | Message peer "json option" date
  | Pong peer
  | Closed peer date
  | Auth_timeout peer
  | Sweep_timer date
  | Ping_timer "peer list" rat
  | Perform nat
  | Store_fails nat
  | Continue nat date
  | Web fleet_op
  | Shutdown

definition new_socket :: socket where
  "new_socket = \<lparr>sk_open = True, sk_gone = False, sk_armed = True, sk_device = None, sk_session = None\<rparr>"

definition listening :: "gateway \<Rightarrow> peer \<Rightarrow> bool" where
  "listening g p = (case map_get (gw_sockets g) p of None \<Rightarrow> False | Some s \<Rightarrow> \<not> sk_gone s)"

definition drop_task :: "nat \<Rightarrow> gateway \<Rightarrow> gateway" where
  "drop_task i g = g\<lparr>gw_tasks := take i (gw_tasks g) @ drop (Suc i) (gw_tasks g)\<rparr>"

definition answer_task :: "nat \<Rightarrow> store_answer \<Rightarrow> after \<Rightarrow> gateway \<Rightarrow> gateway" where
  "answer_task i answer a g = g\<lparr>gw_tasks := (gw_tasks g)[i := Answered answer a]\<rparr>"

definition nth_task :: "gateway \<Rightarrow> nat \<Rightarrow> task option" where
  "nth_task g i = (if i < length (gw_tasks g) then Some (gw_tasks g ! i) else None)"

fun gw_step :: "gateway_env \<Rightarrow> gw_event \<Rightarrow> gateway \<Rightarrow> gateway" where
  "gw_step e (Connected p) g =
     (if map_has (gw_sockets g) p then g else g\<lparr>gw_sockets := map_set (gw_sockets g) p new_socket\<rparr>)"
| "gw_step e (Message p raw now) g = (if listening g p then on_message e p raw now g else g)"
| "gw_step e (Pong p) g = on_pong p g"
| "gw_step e (Closed p now) g = on_close p now g"
| "gw_step e (Auth_timeout p) g = on_auth_timeout p g"
| "gw_step e (Sweep_timer now) g = (if gw_closing g then g else on_sweep e now g)"
| "gw_step e (Ping_timer fails t) g = (if gw_closing g then g else on_ping_timer fails t g)"
| "gw_step e (Perform i) g =
     (case nth_task g i of
        Some (Pending c a) \<Rightarrow>
          answer_task i (call_answer c (gw_db g)) a (g\<lparr>gw_db := fleet_step (pf_url (ge_platform e)) (call_op c) (gw_db g)\<rparr>)
      | _ \<Rightarrow> g)"
| "gw_step e (Store_fails i) g =
     (case nth_task g i of Some (Pending c a) \<Rightarrow> answer_task i A_threw a g | _ \<Rightarrow> g)"
| "gw_step e (Continue i now) g =
     (case nth_task g i of Some (Answered answer a) \<Rightarrow> go_on e a answer now (drop_task i g) | _ \<Rightarrow> g)"
| "gw_step e (Web op) g = g\<lparr>gw_db := fleet_step (pf_url (ge_platform e)) op (gw_db g)\<rparr>"
| "gw_step e Shutdown g = closeGatewaySockets g"

definition gw_run :: "gateway_env \<Rightarrow> gw_event list \<Rightarrow> gateway \<Rightarrow> gateway" where
  "gw_run e evs g = foldl (\<lambda>g ev. gw_step e ev g) g evs"

subsection \<open>Enrollment over HTTP\<close>

record enrollment_body =
  eb_enrollmentCode :: string
  eb_serialNumber :: string
  eb_agentVersion :: string
  eb_capabilities :: json

fun enrollmentSchema :: "json \<Rightarrow> enrollment_body option" where
  "enrollmentSchema (JObj fs) = do {
     z_strict [''enrollmentCode'', ''serialNumber'', ''agentVersion'', ''capabilities''] fs;
     code \<leftarrow> z_string 24 256 (map_of fs ''enrollmentCode'');
     serial \<leftarrow> z_string 4 128 (map_of fs ''serialNumber'');
     version \<leftarrow> z_string 1 64 (map_of fs ''agentVersion'');
     caps \<leftarrow> (case map_of fs ''capabilities'' of Some (JObj cs) \<Rightarrow> Some (JObj cs) | _ \<Rightarrow> None);
     Some \<lparr>eb_enrollmentCode = code, eb_serialNumber = serial, eb_agentVersion = version, eb_capabilities = caps\<rparr>
   }"
| "enrollmentSchema j = None"

datatype enroll_reply =
    Enroll_invalid
  | Enroll_unavailable
  | Enroll_failed
  | Enrolled ident ident string string

text \<open>\<open>random\<close> gives the bytes of the new secret; an exception is answered with status 500.\<close>

definition post_enroll ::
  "gateway_env \<Rightarrow> (nat \<Rightarrow> nat list) \<Rightarrow> json \<Rightarrow> date \<Rightarrow> ident \<Rightarrow> ident \<Rightarrow> fleet_db \<Rightarrow> enroll_reply \<times> fleet_db" where
  "post_enroll e random body now deviceId credentialId db =
     (case enrollmentSchema body of
        None \<Rightarrow> (Enroll_invalid, db)
      | Some b \<Rightarrow>
         (case generateOpaqueSecret random (js_int 32) of
            Inl err \<Rightarrow> (Enroll_failed, db)
          | Inr deviceSecret \<Rightarrow>
             (case (hashOpaqueSecret (ge_hmac256 e) (eb_enrollmentCode b) (gc_deviceAuthPepper (ge_config e)),
                 hashOpaqueSecret (ge_hmac256 e) deviceSecret (gc_deviceAuthPepper (ge_config e))) of
                (Inr tokenHash, Inr secretHash) \<Rightarrow>
                 (case consumeEnrollment db \<lparr>ei_tokenHash = tokenHash, ei_secretHash = secretHash,
                      ei_serialNumber = eb_serialNumber b, ei_agentVersion = eb_agentVersion b,
                      ei_capabilities = eb_capabilities b, ei_now = now\<rparr> deviceId credentialId of
                    (Inl err, db') \<Rightarrow> (Enroll_failed, db')
                  | (Inr None, db') \<Rightarrow> (Enroll_unavailable, db')
                  | (Inr (Some (d, c)), db') \<Rightarrow> (Enrolled d c deviceSecret (gc_publicGatewayUrl (ge_config e)), db'))
              | _ \<Rightarrow> (Enroll_failed, db))))"

end
