(* ===== verification/GatewayRun.thy ===== *)
theory GatewayRun
  imports GatewayServer
begin

section \<open>Runs of the gateway process\<close>

text \<open>
  Lemmas about every interleaving of the handlers of \<open>server.ts\<close>: what they do to the tables and
  to the session registry are operations of those components, so their invariants hold in
  every run; which calls a handler leaves pending; sessions come from tickets.
\<close>

lemma gw_run_simps [simp]:
  "gw_run e [] g = g" "gw_run e (ev # evs) g = gw_run e evs (gw_step e ev g)"
  by (simp_all add: gw_run_def)

lemma gw_run_append: "gw_run e (evs @ evs') g = gw_run e evs' (gw_run e evs g)"
  by (simp add: gw_run_def)

subsection \<open>What sending and closing leave alone\<close>

lemma set_socket_frame [simp]:
  "gw_db (set_socket p f g) = gw_db g" "gw_registry (set_socket p f g) = gw_registry g"
  "gw_lastSeen (set_socket p f g) = gw_lastSeen g" "gw_devices (set_socket p f g) = gw_devices g"
  "gw_pings (set_socket p f g) = gw_pings g" "gw_tasks (set_socket p f g) = gw_tasks g"
  "gw_log (set_socket p f g) = gw_log g" "gw_closing (set_socket p f g) = gw_closing g"
  by (simp_all add: set_socket_def split: option.split)

lemma gw_send_frame [simp]:
  "gw_db (gw_send p m g) = gw_db g" "gw_registry (gw_send p m g) = gw_registry g"
  "gw_lastSeen (gw_send p m g) = gw_lastSeen g" "gw_devices (gw_send p m g) = gw_devices g"
  "gw_pings (gw_send p m g) = gw_pings g" "gw_tasks (gw_send p m g) = gw_tasks g"
  "gw_sockets (gw_send p m g) = gw_sockets g" "gw_closing (gw_send p m g) = gw_closing g"
  by (simp_all add: gw_send_def)

lemma gw_close_frame [simp]:
  "gw_db (gw_close p c r g) = gw_db g" "gw_registry (gw_close p c r g) = gw_registry g"
  "gw_lastSeen (gw_close p c r g) = gw_lastSeen g" "gw_devices (gw_close p c r g) = gw_devices g"
  "gw_pings (gw_close p c r g) = gw_pings g" "gw_tasks (gw_close p c r g) = gw_tasks g"
  "gw_closing (gw_close p c r g) = gw_closing g"
  by (simp_all add: gw_close_def)

lemma gw_terminate_frame [simp]:
  "gw_db (gw_terminate p g) = gw_db g" "gw_registry (gw_terminate p g) = gw_registry g"
  "gw_lastSeen (gw_terminate p g) = gw_lastSeen g" "gw_devices (gw_terminate p g) = gw_devices g"
  "gw_pings (gw_terminate p g) = gw_pings g" "gw_tasks (gw_terminate p g) = gw_tasks g"
  "gw_closing (gw_terminate p g) = gw_closing g"
  by (simp_all add: gw_terminate_def)

lemma gw_effect_frame [simp]:
  "gw_db (gw_effect x g) = gw_db g" "gw_registry (gw_effect x g) = gw_registry g"
  "gw_lastSeen (gw_effect x g) = gw_lastSeen g" "gw_devices (gw_effect x g) = gw_devices g"
  "gw_pings (gw_effect x g) = gw_pings g" "gw_tasks (gw_effect x g) = gw_tasks g"
  "gw_closing (gw_effect x g) = gw_closing g"
  by (cases x; simp)+

lemma gw_effects_simps [simp]:
  "gw_effects [] g = g" "gw_effects (x # xs) g = gw_effects xs (gw_effect x g)"
  by (simp_all add: gw_effects_def)

lemma gw_effects_frame [simp]:
  "gw_db (gw_effects es g) = gw_db g" "gw_registry (gw_effects es g) = gw_registry g"
  "gw_lastSeen (gw_effects es g) = gw_lastSeen g" "gw_devices (gw_effects es g) = gw_devices g"
  "gw_pings (gw_effects es g) = gw_pings g" "gw_tasks (gw_effects es g) = gw_tasks g"
  "gw_closing (gw_effects es g) = gw_closing g"
  by (induction es arbitrary: g) simp_all

lemma disarm_frame [simp]:
  "gw_db (disarm p g) = gw_db g" "gw_registry (disarm p g) = gw_registry g"
  "gw_lastSeen (disarm p g) = gw_lastSeen g" "gw_devices (disarm p g) = gw_devices g"
  "gw_pings (disarm p g) = gw_pings g" "gw_tasks (disarm p g) = gw_tasks g"
  "gw_log (disarm p g) = gw_log g" "gw_closing (disarm p g) = gw_closing g"
  by (simp_all add: disarm_def)

lemma answers_frame [simp]:
  "gw_db (reject_message p g) = gw_db g" "gw_registry (reject_message p g) = gw_registry g"
  "gw_pings (reject_message p g) = gw_pings g" "gw_tasks (reject_message p g) = gw_tasks g"
  "gw_lastSeen (reject_message p g) = gw_lastSeen g" "gw_devices (reject_message p g) = gw_devices g"
  "gw_db (refuse_auth p s c r g) = gw_db g" "gw_registry (refuse_auth p s c r g) = gw_registry g"
  "gw_pings (refuse_auth p s c r g) = gw_pings g" "gw_tasks (refuse_auth p s c r g) = gw_tasks g"
  "gw_lastSeen (refuse_auth p s c r g) = gw_lastSeen g" "gw_devices (refuse_auth p s c r g) = gw_devices g"
  "gw_db (unsupported_message p g) = gw_db g" "gw_registry (unsupported_message p g) = gw_registry g"
  "gw_pings (unsupported_message p g) = gw_pings g" "gw_tasks (unsupported_message p g) = gw_tasks g"
  "gw_lastSeen (unsupported_message p g) = gw_lastSeen g" "gw_devices (unsupported_message p g) = gw_devices g"
  by (simp_all add: reject_message_def refuse_auth_def unsupported_message_def)

lemma await_frame [simp]:
  "gw_db (await_store c a g) = gw_db g" "gw_registry (await_store c a g) = gw_registry g"
  "gw_lastSeen (await_store c a g) = gw_lastSeen g" "gw_devices (await_store c a g) = gw_devices g"
  "gw_pings (await_store c a g) = gw_pings g" "gw_sockets (await_store c a g) = gw_sockets g"
  "gw_tasks (await_store c a g) = gw_tasks g @ [Pending c a]" "gw_log (await_store c a g) = gw_log g"
  "gw_closing (await_store c a g) = gw_closing g"
  by (simp_all add: await_store_def)

subsection \<open>Handlers do not touch the tables\<close>

lemma offer_db [simp]: "gw_db (offerPendingUpdate d p now g) = gw_db g" "gw_registry (offerPendingUpdate d p now g) = gw_registry g"
  by (simp_all add: offerPendingUpdate_def split: option.split)

lemma first_message_db [simp]:
  "gw_db (first_message e p m now g) = gw_db g" "gw_registry (first_message e p m now g) = gw_registry g"
  by (cases m; simp split: sum.split)+

lemma end_after_relay_db [simp]:
  "gw_db (end_after_relay p m now g) = gw_db g" "gw_registry (end_after_relay p m now g) = gw_registry g"
  by (cases m; simp add: end_after_relay_def)+

lemma relay_db [simp]: "gw_db (relay_device p d m now g) = gw_db g" "gw_db (relay_browser p s m now g) = gw_db g"
  by (simp_all add: relay_device_def relay_browser_def Let_def split: prod.split)

lemma later_message_db [simp]: "gw_db (later_message p d s m now g) = gw_db g"
  by (simp add: later_message_def session_connected_def split: option.split client_message.split)

lemma on_message_db [simp]: "gw_db (on_message e p raw now g) = gw_db g"
  by (simp add: on_message_def split: option.split)

lemma sweep_presence_db [simp]:
  "gw_db (sweep_presence cutoff now ds g) = gw_db g" "gw_registry (sweep_presence cutoff now ds g) = gw_registry g"
  "gw_pings (sweep_presence cutoff now ds g) = gw_pings g" "gw_sockets (sweep_presence cutoff now ds g) = gw_sockets g"
  by (induction ds) (simp_all split: option.split)

lemma presence_disconnect_db [simp]:
  "gw_db (presence_disconnect p now g) = gw_db g" "gw_registry (presence_disconnect p now g) = gw_registry g"
  by (simp_all add: presence_disconnect_def split: option.split)

lemma close_browser_db [simp]: "gw_db (close_browser p now g) = gw_db g"
  by (simp add: close_browser_def split: option.split prod.split)

lemma device_authenticated_db [simp]: "gw_db (device_authenticated p d now g) = gw_db g"
  by (simp add: device_authenticated_def Let_def split: option.split prod.split)

lemma browser_authorized_db [simp]: "gw_db (browser_authorized e p t x now g) = gw_db g"
  by (simp add: browser_authorized_def Let_def split: sum.split prod.split)

lemma marked_active_db [simp]: "gw_db (marked_active p b now g) = gw_db g"
  by (simp add: marked_active_def split: option.split prod.split bool.split)

lemma telemetry_db [simp]:
  "gw_db (telemetry_and_offer p h now g) = gw_db g" "gw_registry (telemetry_and_offer p h now g) = gw_registry g"
  by (simp_all add: telemetry_and_offer_def split: option.split)

lemma go_on_db [simp]: "gw_db (go_on e a x now g) = gw_db g"
  by (induction e a x now g rule: go_on.induct) simp_all

lemma on_close_db [simp]: "gw_db (on_close p now g) = gw_db g"
  by (simp add: on_close_def Let_def split: option.split prod.split)

lemma end_expired_frame [simp]:
  "gw_db (end_expired now ids g) = gw_db g" "gw_registry (end_expired now ids g) = gw_registry g"
  "gw_pings (end_expired now ids g) = gw_pings g" "gw_sockets (end_expired now ids g) = gw_sockets g"
  unfolding end_expired_def by (induction ids arbitrary: g) simp_all

lemma on_sweep_db [simp]: "gw_db (on_sweep e now g) = gw_db g"
  by (simp add: on_sweep_def Let_def split: prod.split)

lemma ping_loop_frame [simp]:
  "gw_db (ping_loop fails t xs g) = gw_db g" "gw_registry (ping_loop fails t xs g) = gw_registry g"
  "gw_tasks (ping_loop fails t xs g) = gw_tasks g"
  by (induction fails t xs g rule: ping_loop.induct) (simp_all add: Let_def)

lemma closeGatewaySockets_frame [simp]:
  "gw_db (closeGatewaySockets g) = gw_db g" "gw_registry (closeGatewaySockets g) = gw_registry g"
  "gw_tasks (closeGatewaySockets g) = gw_tasks g"
proof -
  have "gw_db (foldl (\<lambda>g p. gw_terminate p g) g ps) = gw_db g \<and> gw_registry (foldl (\<lambda>g p. gw_terminate p g) g ps) = gw_registry g
      \<and> gw_tasks (foldl (\<lambda>g p. gw_terminate p g) g ps) = gw_tasks g" for g ps
    by (induction ps arbitrary: g) simp_all
  moreover have "gw_db (foldl (\<lambda>g p. gw_close p 1001 s g) g ps) = gw_db g \<and> gw_registry (foldl (\<lambda>g p. gw_close p 1001 s g) g ps) = gw_registry g
      \<and> gw_tasks (foldl (\<lambda>g p. gw_close p 1001 s g) g ps) = gw_tasks g" for g s and ps :: "peer list"
    by (induction ps arbitrary: g) simp_all
  ultimately show "gw_db (closeGatewaySockets g) = gw_db g" "gw_registry (closeGatewaySockets g) = gw_registry g"
    "gw_tasks (closeGatewaySockets g) = gw_tasks g"
    by (simp_all add: closeGatewaySockets_def Let_def)
qed

subsection \<open>Handlers change the registry by its operations\<close>

definition reg_ran :: "registry \<Rightarrow> registry \<Rightarrow> bool" where
  "reg_ran r r' = (\<exists>calls. r' = registry_run r calls)"

lemma reg_ran_refl [simp, intro]: "reg_ran r r"
  unfolding reg_ran_def by (rule exI [of _ "[]"]) simp

lemma reg_ran_step: "r' = snd (registry_step r c) \<Longrightarrow> reg_ran r r'"
  unfolding reg_ran_def by (rule exI [of _ "[c]"]) simp

lemma reg_ran_trans: "reg_ran r r' \<Longrightarrow> reg_ran r' r'' \<Longrightarrow> reg_ran r r''"
  unfolding reg_ran_def registry_run_def by (metis foldl_append)

lemma relay_registry:
  "reg_ran (gw_registry g) (gw_registry (relay_device p d m now g))"
  "reg_ran (gw_registry g) (gw_registry (relay_browser p s m now g))"
proof -
  show "reg_ran (gw_registry g) (gw_registry (relay_device p d m now g))"
    by (rule reg_ran_step [of _ _ "FromDevice (ad_carId d) m"]) (simp add: relay_device_def Let_def split: prod.split)
  show "reg_ran (gw_registry g) (gw_registry (relay_browser p s m now g))"
    by (rule reg_ran_step [of _ _ "FromBrowser s m"]) (simp add: relay_browser_def Let_def split: prod.split)
qed

lemma later_message_registry: "reg_ran (gw_registry g) (gw_registry (later_message p d s m now g))"
  using relay_registry by (simp add: later_message_def session_connected_def split: option.split client_message.split)

lemma on_message_registry: "reg_ran (gw_registry g) (gw_registry (on_message e p raw now g))"
  by (simp add: on_message_def later_message_registry split: option.split)

lemma close_browser_registry: "reg_ran (gw_registry g) (gw_registry (close_browser p now g))"
proof (cases "session_of g p")
  case (Some s)
  show ?thesis
    by (rule reg_ran_step [of _ _ "DetachBrowser s ''browser disconnected''"]) (simp add: close_browser_def Some split: prod.split)
qed (simp add: close_browser_def)

lemma device_authenticated_registry: "reg_ran (gw_registry g) (gw_registry (device_authenticated p d now g))"
  by (rule reg_ran_step [of _ _ "AttachDevice (ad_carId d) (ad_deviceId d) p"])
    (simp add: device_authenticated_def Let_def split: option.split prod.split)

lemma browser_authorized_registry: "reg_ran (gw_registry g) (gw_registry (browser_authorized e p t x now g))"
proof (cases "createGatewayIceServers (ge_platform e) (ge_config e) (bt_sessionId t) now")
  case (Inr servers)
  show ?thesis
    by (rule reg_ran_step [of _ _ "AttachBrowser \<lparr>bs_sessionId = bt_sessionId t, bs_carId = bt_carId t, bs_userId = bt_sub t,
              bs_expiresAt = x, bs_iceServers = servers\<rparr> p now"])
      (simp add: browser_authorized_def Inr Let_def split: prod.split)
qed (simp add: browser_authorized_def)

lemma marked_active_registry: "reg_ran (gw_registry g) (gw_registry (marked_active p b now g))"
proof (cases "b \<and> session_of g p \<noteq> None")
  case True
  then obtain s where "b" "session_of g p = Some s" by blast
  then show ?thesis
    by (intro reg_ran_step [of _ _ "MarkConnected s now"]) (simp add: marked_active_def split: prod.split bool.split)
next
  case False
  then show ?thesis by (cases b; cases "session_of g p") (simp_all add: marked_active_def)
qed

lemma go_on_registry: "reg_ran (gw_registry g) (gw_registry (go_on e a x now g))"
proof -
  note them = device_authenticated_registry browser_authorized_registry marked_active_registry close_browser_registry
  show ?thesis
    using them by (induction e a x now g rule: go_on.induct) simp_all
qed

lemma on_close_registry: "reg_ran (gw_registry g) (gw_registry (on_close p now g))"
proof (cases "map_get (gw_sockets g) p")
  case (Some s)
  let ?g1 = "set_socket p (\<lambda>s. s\<lparr>sk_open := False, sk_gone := True, sk_armed := False\<rparr>) (g\<lparr>gw_pings := map_delete (gw_pings g) p\<rparr>)"
  have browser: "reg_ran (gw_registry g) (gw_registry (close_browser p now ?g1))"
    using close_browser_registry [of ?g1 p now] by simp
  have device: "reg_ran (gw_registry g) r" if "detachDevice (gw_registry g) car p = (ses, es, r)" for car ses es r
    by (rule reg_ran_step [of _ _ "DetachDevice car p"]) (simp add: that)
  show ?thesis
    using browser device by (simp add: on_close_def Some Let_def split: option.split prod.split)
qed (simp add: on_close_def)

lemma on_sweep_registry: "reg_ran (gw_registry g) (gw_registry (on_sweep e now g))"
  by (rule reg_ran_step [of _ _ "Sweep now"]) (simp add: on_sweep_def Let_def split: prod.split)

lemma small_events_registry [simp]:
  "gw_registry (on_pong p g) = gw_registry g" "gw_registry (on_auth_timeout p g) = gw_registry g"
  "gw_registry (on_ping_timer fails t g) = gw_registry g" "gw_db (on_pong p g) = gw_db g"
  "gw_db (on_auth_timeout p g) = gw_db g" "gw_db (on_ping_timer fails t g) = gw_db g"
  by (simp_all add: on_pong_def on_auth_timeout_def on_ping_timer_def Let_def split: option.split)

lemma task_frame [simp]:
  "gw_registry (answer_task i x a g) = gw_registry g" "gw_db (answer_task i x a g) = gw_db g"
  "gw_registry (drop_task i g) = gw_registry g" "gw_db (drop_task i g) = gw_db g"
  "gw_sockets (answer_task i x a g) = gw_sockets g" "gw_sockets (drop_task i g) = gw_sockets g"
  "gw_pings (answer_task i x a g) = gw_pings g" "gw_pings (drop_task i g) = gw_pings g"
  "gw_closing (answer_task i x a g) = gw_closing g" "gw_closing (drop_task i g) = gw_closing g"
  by (simp_all add: answer_task_def drop_task_def)

lemma gw_step_registry: "reg_ran (gw_registry g) (gw_registry (gw_step e ev g))"
proof (cases ev)
  case (Continue i now)
  then show ?thesis
    using go_on_registry [of "drop_task i g"] by (simp split: option.split task.split)
qed (simp_all add: on_message_registry on_close_registry on_sweep_registry split: option.split task.split)

text \<open>Only a call that is performed, or the web application, changes the tables, by one operation.\<close>

fun ops_of :: "gw_event \<Rightarrow> gateway \<Rightarrow> fleet_op list" where
  "ops_of (Perform i) g = (case nth_task g i of Some (Pending c a) \<Rightarrow> [call_op c] | _ \<Rightarrow> [])"
| "ops_of (Web op) g = [op]"
| "ops_of ev g = []"

lemma gw_step_db: "gw_db (gw_step e ev g) = fleet_run (pf_url (ge_platform e)) (ops_of ev g) (gw_db g)"
  by (cases ev) (simp_all del: fleet_step.simps split: option.split task.split)

fun event_ok :: "gw_event \<Rightarrow> bool" where
  "event_ok (Web op) = op_ok op"
| "event_ok ev = True"

lemma call_op_ok [simp]: "op_ok (call_op c)"
  by (cases c) simp_all

lemma ops_of_ok: "event_ok ev \<Longrightarrow> list_all op_ok (ops_of ev g)"
  by (cases ev) (simp_all split: option.split task.split)

lemma fleet_run_append: "fleet_run u (a @ b) db = fleet_run u b (fleet_run u a db)"
  by (simp add: fleet_run_def)

lemma gw_run_parts:
  assumes "list_all event_ok evs"
  shows "(\<exists>ops. list_all op_ok ops \<and> gw_db (gw_run e evs g) = fleet_run (pf_url (ge_platform e)) ops (gw_db g))
    \<and> reg_ran (gw_registry g) (gw_registry (gw_run e evs g))"
  using assms
proof (induction evs arbitrary: g)
  case Nil
  then show ?case by (auto intro: exI [of _ "[]"])
next
  case (Cons ev evs)
  then obtain ops where ops: "list_all op_ok ops"
      "gw_db (gw_run e evs (gw_step e ev g)) = fleet_run (pf_url (ge_platform e)) ops (gw_db (gw_step e ev g))"
      "reg_ran (gw_registry (gw_step e ev g)) (gw_registry (gw_run e evs (gw_step e ev g)))"
    by fastforce
  then show ?case
    using Cons.prems ops_of_ok gw_step_db gw_step_registry reg_ran_trans
    by (auto simp: fleet_run_append intro!: exI [of _ "ops_of ev g @ ops"]) blast
qed

subsection \<open>The calls a handler leaves pending\<close>

text \<open>How many more calls a handler can make, at most.\<close>

fun weight :: "after \<Rightarrow> nat" where
  "weight (After_heartbeat p d h b) = 3"
| "weight (After_close_session p) = 3"
| "weight (After_authenticate p) = 2"
| "weight (After_authorize p t) = 2"
| "weight (After_presence p h) = 2"
| "weight (After_mark p b) = 2"
| "weight (After_close_presence p) = 2"
| "weight (After_sweep cutoff now ds) = 2 + length ds"
| "weight a = 1"

fun authorizes :: "after \<Rightarrow> bool" where
  "authorizes (After_authorize p t) = True"
| "authorizes a = False"

definition adds :: "(after \<Rightarrow> bool) \<Rightarrow> gateway \<Rightarrow> gateway \<Rightarrow> bool" where
  "adds P g g' = (gw_tasks g' = gw_tasks g \<or> (\<exists>c a. P a \<and> gw_tasks g' = gw_tasks g @ [Pending c a]))"

lemma adds_same [simp]: "gw_tasks g' = gw_tasks g \<Longrightarrow> adds P g g'"
  by (simp add: adds_def)

lemma adds_one: "gw_tasks g' = gw_tasks g @ [Pending c a] \<Longrightarrow> P a \<Longrightarrow> adds P g g'"
  by (auto simp: adds_def)

lemma adds_weaken: "adds P g g' \<Longrightarrow> (\<And>a. P a \<Longrightarrow> Q a) \<Longrightarrow> adds Q g g'"
  by (auto simp: adds_def)

lemma adds_from: "adds P g1 g' \<Longrightarrow> gw_tasks g1 = gw_tasks g \<Longrightarrow> adds P g g'"
  by (simp add: adds_def)

lemma offer_adds: "adds (\<lambda>a. a = After_offer p) g (offerPendingUpdate d p now g)"
  by (auto simp: offerPendingUpdate_def intro: adds_one split: option.split)

lemma end_after_relay_adds: "adds (\<lambda>a. a = After_end p) g (end_after_relay p m now g)"
  by (cases m) (auto simp: end_after_relay_def intro: adds_one)

lemma relay_adds:
  "adds (\<lambda>a. a = After_end p) g (relay_device p d m now g)" "adds (\<lambda>a. a = After_end p) g (relay_browser p s m now g)"
  by (auto simp: relay_device_def relay_browser_def Let_def intro: adds_from [OF end_after_relay_adds] split: prod.split)

lemma later_message_adds: "adds (\<lambda>a. \<not> authorizes a) g (later_message p d s m now g)"
  using relay_adds [THEN adds_weaken, of p "\<lambda>a. \<not> authorizes a"]
  by (auto simp: later_message_def session_connected_def intro: adds_one split: option.split client_message.split)

lemma sweep_presence_adds:
  "\<exists>c a. gw_tasks (sweep_presence cutoff now ds g) = gw_tasks g @ [Pending c a] \<and> \<not> authorizes a \<and> weight a < 2 + length ds"
proof (induction ds)
  case (Cons d ds)
  then obtain c a where "gw_tasks (sweep_presence cutoff now ds g) = gw_tasks g @ [Pending c a]" "\<not> authorizes a" "weight a < 2 + length ds"
    by blast
  then show ?case by (auto split: option.split)
qed simp

lemma device_authenticated_adds: "adds (\<lambda>a. a = After_offer p) g (device_authenticated p d now g)"
  by (auto simp: device_authenticated_def Let_def intro: adds_from [OF offer_adds] split: option.split prod.split)

lemma browser_authorized_adds: "adds (\<lambda>a. a = After_refused p) g (browser_authorized e p t x now g)"
  by (auto simp: browser_authorized_def Let_def intro: adds_one split: sum.split prod.split)

lemma marked_active_adds: "adds (\<lambda>a. a = After_mark_failed p) g (marked_active p b now g)"
  by (auto simp: marked_active_def intro: adds_one split: option.split prod.split bool.split)

lemma telemetry_adds: "adds (\<lambda>a. a = After_offer p) g (telemetry_and_offer p h now g)"
  by (auto simp: telemetry_and_offer_def intro: adds_from [OF offer_adds] split: option.split)

lemma presence_disconnect_adds: "adds (\<lambda>a. a = After_close_presence p) g (presence_disconnect p now g)"
  by (auto simp: presence_disconnect_def intro: adds_one split: option.split)

lemma close_browser_adds: "adds (\<lambda>a. a = Ignored) g (close_browser p now g)"
  by (auto simp: close_browser_def intro: adds_one split: option.split prod.split)

lemma go_on_adds: "adds (\<lambda>b. weight b < weight a \<and> \<not> authorizes b) g (go_on e a x now g)"
proof -
  note them = device_authenticated_adds [THEN adds_weaken] browser_authorized_adds [THEN adds_weaken] marked_active_adds [THEN adds_weaken]
    telemetry_adds [THEN adds_weaken] presence_disconnect_adds [THEN adds_weaken] close_browser_adds [THEN adds_weaken]
  have sweep: "adds (\<lambda>b. weight b < weight (After_sweep cutoff began ds) \<and> \<not> authorizes b) g (sweep_presence cutoff began ds g)" for cutoff began ds g
    using sweep_presence_adds [of cutoff began ds g] by (auto intro: adds_one)
  show ?thesis
    by (induction e a x now g rule: go_on.induct) (auto intro: them adds_one sweep [unfolded weight.simps] simp: sweep [simplified] simp del: sweep_presence.simps)
qed

lemma first_message_adds:
  "adds (\<lambda>a. authorizes a \<longrightarrow> (\<exists>t. a = After_authorize p t)) g (first_message e p m now g)"
  by (cases m) (auto intro: adds_one split: sum.split)

lemma on_message_adds: "adds (\<lambda>a. authorizes a \<longrightarrow> (\<exists>t. a = After_authorize p t)) g (on_message e p raw now g)"
  using first_message_adds later_message_adds [THEN adds_weaken, of "\<lambda>a. authorizes a \<longrightarrow> (\<exists>t. a = After_authorize p t)"]
  by (auto simp: on_message_def split: option.split)

lemma on_close_adds: "adds (\<lambda>a. \<not> authorizes a) g (on_close p now g)"
proof (cases "map_get (gw_sockets g) p")
  case (Some s)
  have b: "adds (\<lambda>a. \<not> authorizes a) g (close_browser p now g1)" if "gw_tasks g1 = gw_tasks g" for g1
    by (rule adds_from [OF close_browser_adds [THEN adds_weaken] that]) simp
  have d: "adds (\<lambda>a. \<not> authorizes a) g (presence_disconnect p now g1)" if "gw_tasks g1 = gw_tasks g" for g1
    by (rule adds_from [OF presence_disconnect_adds [THEN adds_weaken] that]) simp
  show ?thesis
    by (auto simp: on_close_def Some Let_def intro!: b d intro: adds_one split: option.split prod.split)
qed (simp add: on_close_def)

lemma end_expired_tasks: "\<exists>new. gw_tasks (end_expired now ids g) = gw_tasks g @ new \<and> set new \<subseteq> {Pending c Ignored |c. True}"
  unfolding end_expired_def
proof (induction ids arbitrary: g)
  case (Cons s ids)
  from Cons.IH [of "await_store (C_end s ''session expired'' now) Ignored g"] show ?case by auto
qed simp

lemma on_sweep_tasks:
  "\<exists>new. gw_tasks (on_sweep e now g) = gw_tasks g @ new \<and> set new \<subseteq> {Pending c a |c a. \<not> authorizes a}"
proof -
  obtain c a where presence: "gw_tasks (sweep_presence (now - gc_staleAfterMs (ge_config e)) now (map_keys (gw_lastSeen g)) g) = gw_tasks g @ [Pending c a]"
      "\<not> authorizes a"
    using sweep_presence_adds by blast
  obtain ids es r where sweep: "registry_sweep (gw_registry g) now = (ids, es, r)" by (cases "registry_sweep (gw_registry g) now") auto
  let ?g = "gw_effects es (await_store (C_expire now) Ignored (sweep_presence (now - gc_staleAfterMs (ge_config e)) now (map_keys (gw_lastSeen g)) g)
      \<lparr>gw_registry := r\<rparr>)"
  obtain new where new: "gw_tasks (end_expired now ids ?g) = gw_tasks ?g @ new" "set new \<subseteq> {Pending c Ignored |c. True}"
    using end_expired_tasks by blast
  have "gw_tasks (on_sweep e now g) = gw_tasks g @ Pending c a # Pending (C_expire now) Ignored # new"
    using presence(1) new(1) by (simp add: on_sweep_def Let_def sweep)
  then show ?thesis
    using presence(2) new(2) by (intro exI [of _ "Pending c a # Pending (C_expire now) Ignored # new"]) auto
qed

text \<open>
  A message of the socket \<open>p\<close> among the events \<open>E\<close> carried the ticket \<open>t\<close>, whose signature and
  times were right at the moment it arrived.
\<close>

definition presents :: "gateway_env \<Rightarrow> json option \<Rightarrow> date \<Rightarrow> ticket \<Rightarrow> bool" where
  "presents e raw now t = (case Option.bind raw (GatewayClientMessageSchema (ge_uuid e)) of
       Some (BrowserAuthenticate text) \<Rightarrow>
         verifyBrowserTicket (ge_hmac256 e) (pf_parse (ge_platform e)) text (gc_browserTicketSecret (ge_config e)) (now div 1000) = Inr t
     | _ \<Rightarrow> False)"

lemma presents_text:
  assumes "presents e raw now t"
  obtains body where "Option.bind raw (GatewayClientMessageSchema (ge_uuid e)) = Some (BrowserAuthenticate body)"
    "verifyBrowserTicket (ge_hmac256 e) (pf_parse (ge_platform e)) body (gc_browserTicketSecret (ge_config e)) (now div 1000) = Inr t"
  using assms unfolding presents_def by (auto split: option.splits client_message.splits)

definition shown :: "gateway_env \<Rightarrow> gw_event set \<Rightarrow> peer \<Rightarrow> ticket \<Rightarrow> bool" where
  "shown e E p t = (\<exists>raw now. Message p raw now \<in> E \<and> presents e raw now t)"

definition authorize_call :: "gateway_env \<Rightarrow> gw_event set \<Rightarrow> peer \<Rightarrow> store_call \<Rightarrow> after \<Rightarrow> bool" where
  "authorize_call e E p c a = (authorizes a \<longrightarrow>
     (\<exists>t now. a = After_authorize p t \<and> shown e E p t \<and> c = C_authorize (bt_sessionId t) (bt_sub t) (bt_carId t) now))"

lemma on_message_tasks:
  "gw_tasks (on_message e p raw now g) = gw_tasks g
   \<or> (\<exists>c a. authorize_call e {Message p raw now} p c a \<and> gw_tasks (on_message e p raw now g) = gw_tasks g @ [Pending c a])"
proof (cases "Option.bind raw (GatewayClientMessageSchema (ge_uuid e))")
  case (Some m)
  have first: "gw_tasks (first_message e p m now g) = gw_tasks g
    \<or> (\<exists>c a. authorize_call e {Message p raw now} p c a \<and> gw_tasks (first_message e p m now g) = gw_tasks g @ [Pending c a])"
    using Some by (cases m) (auto simp: authorize_call_def shown_def presents_def split: sum.split)
  have later: "gw_tasks (later_message p d s m now g) = gw_tasks g
    \<or> (\<exists>c a. authorize_call e {Message p raw now} p c a \<and> gw_tasks (later_message p d s m now g) = gw_tasks g @ [Pending c a])" for d s
    using later_message_adds [of g p d s m now] by (auto simp: adds_def authorize_call_def)
  show ?thesis using first later by (simp add: on_message_def Some)
qed (simp add: on_message_def)

lemma nth_task_Some: "nth_task g i = Some t \<longleftrightarrow> i < length (gw_tasks g) \<and> gw_tasks g ! i = t"
  by (auto simp: nth_task_def)

lemma nth_task_in: "nth_task g i = Some t \<Longrightarrow> t \<in> set (gw_tasks g)"
  by (auto simp: nth_task_Some)

lemma set_drop_task: "set (gw_tasks (drop_task i g)) \<subseteq> set (gw_tasks g)"
  by (auto simp: drop_task_def dest: in_set_takeD in_set_dropD)

lemma on_timeout_tasks [simp]: "gw_tasks (on_auth_timeout p g) = gw_tasks g" "gw_tasks (on_pong p g) = gw_tasks g"
  "gw_tasks (on_ping_timer fails t g) = gw_tasks g"
  by (simp_all add: on_auth_timeout_def on_pong_def on_ping_timer_def Let_def split: option.split)

text \<open>Where the tasks after a step come from.\<close>

lemma gw_step_tasks:
  assumes "t \<in> set (gw_tasks (gw_step e ev g))"
  shows "t \<in> set (gw_tasks g) \<or> (\<exists>c a. t = Pending c a \<and> \<not> authorizes a)
    \<or> (\<exists>p raw now c a. ev = Message p raw now \<and> t = Pending c a \<and> authorize_call e {ev} p c a)
    \<or> (\<exists>i c a. ev = Perform i \<and> nth_task g i = Some (Pending c a) \<and> t = Answered (call_answer c (gw_db g)) a)
    \<or> (\<exists>i c a. nth_task g i = Some (Pending c a) \<and> t = Answered A_threw a)"
proof (cases ev)
  case (Message p raw now)
  then show ?thesis
    using assms on_message_tasks [of e p raw now g] by (auto split: if_splits)
next
  case (Closed p now)
  then show ?thesis
    using assms on_close_adds [of g p now] by (auto simp: adds_def)
next
  case (Sweep_timer now)
  then show ?thesis
    using assms on_sweep_tasks [of e now g] by (auto split: if_splits)
next
  case (Perform i)
  then show ?thesis
    using assms by (auto simp: answer_task_def split: option.splits task.splits dest!: set_update_subset_insert [THEN subsetD])
next
  case (Store_fails i)
  then show ?thesis
    using assms by (auto simp: answer_task_def split: option.splits task.splits dest!: set_update_subset_insert [THEN subsetD])
next
  case (Continue i now)
  show ?thesis
  proof (cases "\<exists>x a. nth_task g i = Some (Answered x a)")
    case True
    then obtain x a where "nth_task g i = Some (Answered x a)" by blast
    with assms Continue have "t \<in> set (gw_tasks (go_on e a x now (drop_task i g)))" by simp
    then show ?thesis
      using go_on_adds [of a "drop_task i g" e x now] set_drop_task [of i g] by (auto simp: adds_def)
  next
    case False
    then show ?thesis using assms Continue by (simp split: option.splits task.splits)
  qed
qed (use assms in \<open>auto split: if_splits\<close>)

lemma update_keeps: "t \<in> set ts \<Longrightarrow> (\<forall>u. t \<in> set (ts[i := u])) \<or> i < length ts \<and> ts ! i = t"
  by (metis in_set_conv_nth length_list_update nth_list_update_neq)

lemma drop_keeps: "i < length ts \<Longrightarrow> t \<in> set ts \<Longrightarrow> t \<noteq> ts ! i \<Longrightarrow> t \<in> set (take i ts @ drop (Suc i) ts)"
  using arg_cong [OF id_take_nth_drop, of i ts set] by auto

text \<open>A pending call stays until it is performed or fails.\<close>

lemma pending_stays:
  assumes "Pending c a \<in> set (gw_tasks g)"
  shows "Pending c a \<in> set (gw_tasks (gw_step e ev g))
    \<or> (\<exists>i. (ev = Perform i \<or> ev = Store_fails i) \<and> nth_task g i = Some (Pending c a))"
proof (cases ev)
  case (Message p raw now)
  then show ?thesis
    using assms on_message_tasks [of e p raw now g] by auto
next
  case (Closed p now)
  then show ?thesis
    using assms on_close_adds [of g p now] by (auto simp: adds_def)
next
  case (Sweep_timer now)
  then show ?thesis
    using assms on_sweep_tasks [of e now g] by auto
next
  case (Perform i)
  show ?thesis
  proof (cases "\<exists>c' a'. nth_task g i = Some (Pending c' a')")
    case True
    then obtain c' a' where i: "nth_task g i = Some (Pending c' a')" by blast
    then have "\<exists>u. gw_tasks (gw_step e ev g) = (gw_tasks g)[i := u]" using Perform by (auto simp: answer_task_def)
    then obtain u where u: "gw_tasks (gw_step e ev g) = (gw_tasks g)[i := u]" by blast
    from update_keeps [OF assms, of i] show ?thesis
    proof
      assume "\<forall>u. Pending c a \<in> set ((gw_tasks g)[i := u])"
      then show ?thesis by (simp add: u)
    next
      assume "i < length (gw_tasks g) \<and> gw_tasks g ! i = Pending c a"
      then have "nth_task g i = Some (Pending c a)" by (simp add: nth_task_Some)
      then show ?thesis using Perform by blast
    qed
  next
    case False
    then show ?thesis using assms Perform by (simp split: option.split task.split)
  qed
next
  case (Store_fails i)
  show ?thesis
  proof (cases "\<exists>c' a'. nth_task g i = Some (Pending c' a')")
    case True
    then obtain c' a' where i: "nth_task g i = Some (Pending c' a')" by blast
    then have "\<exists>u. gw_tasks (gw_step e ev g) = (gw_tasks g)[i := u]" using Store_fails by (auto simp: answer_task_def)
    then obtain u where u: "gw_tasks (gw_step e ev g) = (gw_tasks g)[i := u]" by blast
    from update_keeps [OF assms, of i] show ?thesis
    proof
      assume "\<forall>u. Pending c a \<in> set ((gw_tasks g)[i := u])"
      then show ?thesis by (simp add: u)
    next
      assume "i < length (gw_tasks g) \<and> gw_tasks g ! i = Pending c a"
      then have "nth_task g i = Some (Pending c a)" by (simp add: nth_task_Some)
      then show ?thesis using Store_fails by blast
    qed
  next
    case False
    then show ?thesis using assms Store_fails by (simp split: option.split task.split)
  qed
next
  case (Continue i now)
  show ?thesis
  proof (cases "\<exists>x b. nth_task g i = Some (Answered x b)")
    case True
    then obtain x b where i: "nth_task g i = Some (Answered x b)" by blast
    have "Pending c a \<in> set (gw_tasks (drop_task i g))"
      using drop_keeps [of i "gw_tasks g" "Pending c a"] assms i by (simp add: drop_task_def nth_task_Some)
    then show ?thesis
      using go_on_adds [of b "drop_task i g" e x now] Continue i by (auto simp: adds_def)
  next
    case False
    then show ?thesis using assms Continue by (simp split: option.split task.split)
  qed
qed (use assms in auto)

subsection \<open>Sessions of the registry and of sockets\<close>

definition drive_of :: "'a browser_session_scheme \<Rightarrow> ident \<times> ident \<times> ident \<times> date" where
  "drive_of s = (bs_sessionId s, bs_userId s, bs_carId s, bs_expiresAt s)"

text \<open>A session with the socket of its driver.\<close>

definition owner_of :: "active_session \<Rightarrow> (ident \<times> ident \<times> ident \<times> date) \<times> peer" where
  "owner_of a = (drive_of a, as_browser a)"

text \<open>Every session after was there before, for the same drive and the same driver's socket.\<close>

definition reg_keeps :: "registry \<Rightarrow> registry \<Rightarrow> bool" where
  "reg_keeps r r' = (\<forall>s a. map_get (sr_sessions r') s = Some a \<longrightarrow> (\<exists>b. map_get (sr_sessions r) s = Some b \<and> owner_of b = owner_of a))"

lemma reg_keeps_same [simp]: "sr_sessions r' = sr_sessions r \<Longrightarrow> reg_keeps r r'"
  by (simp add: reg_keeps_def)

lemma reg_keeps_trans: "reg_keeps r r' \<Longrightarrow> reg_keeps r' r'' \<Longrightarrow> reg_keeps r r''"
  unfolding reg_keeps_def by metis

lemma session_end_keeps: "reg_keeps r (snd (session_end r s reason n))"
  by (auto simp: session_end_def reg_keeps_def Let_def split: option.split)

lemma end_if_keeps: "reg_keeps r (snd (end_if_ended r s m))"
  by (cases m) (simp_all add: end_if_ended_def session_end_keeps)

lemma sweep_sessions_keeps: "reg_keeps r (snd (snd (sweep_sessions now xs (ids, es, r))))"
proof (induction xs arbitrary: ids es r)
  case (Cons x xs)
  obtain s a where x: "x = (s, a)" by (cases x)
  have "reg_keeps r (snd (snd (sweep_sessions now xs (ids', es', snd (session_end r s reason n)))))" for ids' es' reason n
    using reg_keeps_trans [OF session_end_keeps Cons.IH] by blast
  then show ?case
    using Cons.IH by (auto simp: x split: prod.split) (metis snd_conv)+
qed simp

lemma registry_step_sessions:
  "(case c of AttachBrowser b p now \<Rightarrow> False | _ \<Rightarrow> True) \<Longrightarrow> reg_keeps r (snd (registry_step r c))"
proof (cases c)
  case (FromBrowser s m)
  then show ?thesis
    using end_if_keeps [of r s m] by (auto simp: relayFromBrowser_def split: option.split prod.split)
next
  case (FromDevice car m)
  then show ?thesis
    using end_if_keeps [of r _ m] by (auto simp: relayFromDevice_def split: option.split prod.split) (metis snd_conv)
next
  case (DetachDevice car p)
  have "reg_keeps r (snd (session_end (r\<lparr>sr_devicesByCar := d\<rparr>) s reason n))" for d s reason n
    using reg_keeps_trans [OF reg_keeps_same session_end_keeps] by simp
  then show ?thesis
    using DetachDevice by (auto simp: detachDevice_def Let_def split: option.split)
next
  case (MarkConnected s now)
  then show ?thesis
    by (auto simp: markConnected_def reg_keeps_def owner_of_def drive_of_def split: option.split)
next
  case (Sweep now)
  then show ?thesis by (simp add: registry_sweep_def sweep_sessions_keeps)
qed (simp_all add: attachDevice_def detachBrowser_def session_end_keeps)

lemma attachBrowser_sessions:
  "map_get (sr_sessions (snd (snd (attachBrowser r b p now)))) s = Some a \<Longrightarrow>
   map_get (sr_sessions r) s = Some a \<or> fst (attachBrowser r b p now) \<and> s = bs_sessionId b \<and> owner_of a = (drive_of b, p)"
  by (auto simp: attachBrowser_def Let_def owner_of_def drive_of_def browser_session.extend_def split: option.splits if_splits)

lemma session_of_frame [simp]:
  "session_of (g\<lparr>gw_db := a\<rparr>) p = session_of g p" "session_of (g\<lparr>gw_registry := b\<rparr>) p = session_of g p"
  "session_of (g\<lparr>gw_lastSeen := c\<rparr>) p = session_of g p" "session_of (g\<lparr>gw_devices := d\<rparr>) p = session_of g p"
  "session_of (g\<lparr>gw_pings := f\<rparr>) p = session_of g p" "session_of (g\<lparr>gw_tasks := h\<rparr>) p = session_of g p"
  "session_of (g\<lparr>gw_log := i\<rparr>) p = session_of g p" "session_of (g\<lparr>gw_unhandled := j\<rparr>) p = session_of g p"
  "session_of (g\<lparr>gw_closing := k\<rparr>) p = session_of g p"
  by (simp_all add: session_of_def)

lemma session_of_set: "(\<And>s. sk_session (f s) = sk_session s) \<Longrightarrow> session_of (set_socket q f g) p = session_of g p"
  by (simp add: session_of_def set_socket_def split: option.split)

lemma session_of_steps [simp]:
  "session_of (gw_send q m g) p = session_of g p" "session_of (gw_close q c r g) p = session_of g p"
  "session_of (gw_terminate q g) p = session_of g p" "session_of (disarm q g) p = session_of g p"
  "session_of (await_store c' a g) p = session_of g p" "session_of (drop_task i g) p = session_of g p"
  "session_of (answer_task i x a g) p = session_of g p"
  "session_of (set_socket q (\<lambda>s. s\<lparr>sk_device := d\<rparr>) g) p = session_of g p"
  "session_of (set_socket q (\<lambda>s. s\<lparr>sk_open := False, sk_gone := True, sk_armed := False\<rparr>) g) p = session_of g p"
  by (simp_all add: gw_send_def gw_close_def gw_terminate_def disarm_def await_store_def drop_task_def answer_task_def session_of_set)

lemma session_of_effect [simp]: "session_of (gw_effect x g) p = session_of g p"
  by (cases x) simp_all

lemma session_of_effects [simp]: "session_of (gw_effects es g) p = session_of g p"
  by (induction es arbitrary: g) simp_all

lemma session_of_answers [simp]:
  "session_of (reject_message q g) p = session_of g p" "session_of (refuse_auth q s c r g) p = session_of g p"
  "session_of (unsupported_message q g) p = session_of g p" "session_of (offerPendingUpdate d q now g) p = session_of g p"
  "session_of (presence_disconnect q now g) p = session_of g p" "session_of (close_browser q now g) p = session_of g p"
  "session_of (end_after_relay q m now g) p = session_of g p"
  by (simp_all add: reject_message_def refuse_auth_def unsupported_message_def offerPendingUpdate_def presence_disconnect_def
      close_browser_def end_after_relay_def split: option.split prod.split relay_message.split)

lemma session_of_handlers [simp]:
  "session_of (relay_device q d r now g) p = session_of g p" "session_of (relay_browser q s r now g) p = session_of g p"
  "session_of (session_connected q s s' now g) p = session_of g p" "session_of (device_authenticated q d now g) p = session_of g p"
  "session_of (marked_active q b now g) p = session_of g p" "session_of (telemetry_and_offer q h now g) p = session_of g p"
  by (simp_all add: relay_device_def relay_browser_def session_connected_def device_authenticated_def marked_active_def
      telemetry_and_offer_def Let_def split: option.split prod.split bool.split)

lemma session_of_message [simp]: "session_of (on_message e q raw now g) p = session_of g p"
proof -
  have "session_of (first_message e q m now g) p = session_of g p" for m
    by (cases m) (simp_all split: sum.split)
  moreover have "session_of (later_message q d s m now g) p = session_of g p" for d s m
    by (simp add: later_message_def split: option.split client_message.split)
  ultimately show ?thesis by (simp add: on_message_def split: option.split)
qed

lemma session_of_sweep_presence [simp]: "session_of (sweep_presence cutoff now ds g) p = session_of g p"
  by (induction ds) (simp_all split: option.split)

lemma session_of_assign:
  "session_of (set_socket q (\<lambda>s. s\<lparr>sk_session := Some v\<rparr>) g) p = Some s \<Longrightarrow> session_of g p = Some s \<or> p = q \<and> s = v"
  by (auto simp: session_of_def set_socket_def split: option.splits if_splits elim: truthy.elims)

lemma session_of_authorized:
  "session_of (browser_authorized e q t x now g) p = Some s \<Longrightarrow> session_of g p = Some s \<or> p = q \<and> s = bt_sessionId t"
  by (auto simp: browser_authorized_def Let_def dest: session_of_assign split: sum.splits prod.splits if_splits)

lemma go_on_session_of:
  "session_of (go_on e a x now g) p = Some s \<Longrightarrow>
   session_of g p = Some s \<or> (\<exists>t expiry. a = After_authorize p t \<and> x = A_date (Some expiry) \<and> s = bt_sessionId t)"
  by (induction e a x now g rule: go_on.induct) (auto dest: session_of_authorized simp del: sweep_presence.simps split: if_splits)

lemma session_of_events [simp]:
  "session_of (on_close q now g) p = session_of g p" "session_of (on_pong q g) p = session_of g p"
  "session_of (on_auth_timeout q g) p = session_of g p"
  by (simp_all add: on_close_def on_pong_def on_auth_timeout_def Let_def split: option.split prod.split)

lemma session_of_ping_loop [simp]: "session_of (ping_loop fails t xs g) p = session_of g p"
  by (induction fails t xs g rule: ping_loop.induct) (simp_all add: Let_def)

lemma session_of_end_expired [simp]: "session_of (end_expired now ids g) p = session_of g p"
  by (simp add: session_of_def)

lemma session_of_timers [simp]:
  "session_of (on_sweep e now g) p = session_of g p" "session_of (on_ping_timer fails t g) p = session_of g p"
  by (simp_all add: on_sweep_def on_ping_timer_def Let_def split: prod.split)

lemma session_of_shutdown [simp]: "session_of (closeGatewaySockets g) p = session_of g p"
proof -
  have "session_of (foldl (\<lambda>g p. gw_terminate p g) g ps) p = session_of g p" for g ps
    by (induction ps arbitrary: g) simp_all
  moreover have "session_of (foldl (\<lambda>g p. gw_close p 1001 s g) g ps) p = session_of g p" for g s and ps :: "peer list"
    by (induction ps arbitrary: g) simp_all
  ultimately show ?thesis by (simp add: closeGatewaySockets_def Let_def)
qed

lemma session_of_connected: "session_of (gw_step e (Connected q) g) p = session_of g p"
  by (auto simp: session_of_def new_socket_def)

subsection \<open>Sessions come from tickets\<close>

lemma device_authenticated_keeps: "reg_keeps (gw_registry g) (gw_registry (device_authenticated p d now g))"
  using registry_step_sessions [of "AttachDevice (ad_carId d) (ad_deviceId d) p" "gw_registry g"]
  by (auto simp: device_authenticated_def Let_def split: option.split prod.split)

lemma marked_active_keeps: "reg_keeps (gw_registry g) (gw_registry (marked_active p b now g))"
proof -
  have "reg_keeps (gw_registry g) (snd (markConnected (gw_registry g) s now))" for s
    using registry_step_sessions [of "MarkConnected s now" "gw_registry g"] by simp
  then show ?thesis by (simp add: marked_active_def split: option.split prod.split bool.split) (metis snd_conv)
qed

lemma close_browser_keeps: "reg_keeps (gw_registry g) (gw_registry (close_browser p now g))"
proof -
  have "reg_keeps (gw_registry g) (snd (detachBrowser (gw_registry g) s r))" for s r
    by (simp add: detachBrowser_def session_end_keeps)
  then show ?thesis by (simp add: close_browser_def split: option.split prod.split) (metis snd_conv)
qed

lemma relay_keeps:
  "reg_keeps (gw_registry g) (gw_registry (relay_device p d m now g))" "reg_keeps (gw_registry g) (gw_registry (relay_browser p s m now g))"
proof -
  show "reg_keeps (gw_registry g) (gw_registry (relay_device p d m now g))"
    using registry_step_sessions [of "FromDevice (ad_carId d) m" "gw_registry g"]
    by (auto simp: relay_device_def Let_def split: prod.split)
  show "reg_keeps (gw_registry g) (gw_registry (relay_browser p s m now g))"
    using registry_step_sessions [of "FromBrowser s m" "gw_registry g"]
    by (auto simp: relay_browser_def Let_def split: prod.split)
qed

lemma on_message_keeps: "reg_keeps (gw_registry g) (gw_registry (on_message e p raw now g))"
  using relay_keeps
  by (simp add: on_message_def later_message_def session_connected_def split: option.split client_message.split)

lemma on_close_keeps: "reg_keeps (gw_registry g) (gw_registry (on_close p now g))"
proof -
  have browser: "reg_keeps (gw_registry g) (gw_registry (close_browser p now g1))" if "gw_registry g1 = gw_registry g" for g1
    using close_browser_keeps [of g1 p now] that by simp
  have device: "reg_keeps (gw_registry g) r" if "detachDevice (gw_registry g) car p = (ses, es, r)" for car ses es r
    using registry_step_sessions [of "DetachDevice car p" "gw_registry g"] that by simp
  show ?thesis
    using browser device by (simp add: on_close_def Let_def split: option.split prod.split)
qed

lemma on_sweep_keeps: "reg_keeps (gw_registry g) (gw_registry (on_sweep e now g))"
  using registry_step_sessions [of "Sweep now" "gw_registry g"]
  by (auto simp: on_sweep_def Let_def split: prod.split)

lemma browser_authorized_sessions:
  "map_get (sr_sessions (gw_registry (browser_authorized e p t x now g))) s = Some a \<Longrightarrow>
   map_get (sr_sessions (gw_registry g)) s = Some a \<or> s = bt_sessionId t \<and> owner_of a = ((bt_sessionId t, bt_sub t, bt_carId t, x), p)"
proof (cases "createGatewayIceServers (ge_platform e) (ge_config e) (bt_sessionId t) now")
  case (Inr servers)
  let ?b = "\<lparr>bs_sessionId = bt_sessionId t, bs_carId = bt_carId t, bs_userId = bt_sub t, bs_expiresAt = x, bs_iceServers = servers\<rparr>"
  assume "map_get (sr_sessions (gw_registry (browser_authorized e p t x now g))) s = Some a"
  then have "map_get (sr_sessions (snd (snd (attachBrowser (gw_registry g) ?b p now)))) s = Some a"
    by (auto simp: browser_authorized_def Inr Let_def split: prod.splits if_splits)
  from attachBrowser_sessions [OF this] show ?thesis by (auto simp: drive_of_def)
qed (simp add: browser_authorized_def)

text \<open>A session after a handler went on was there before or is the one just authorized.\<close>

definition came_from :: "gateway \<Rightarrow> after \<Rightarrow> store_answer \<Rightarrow> ident \<Rightarrow> active_session \<Rightarrow> bool" where
  "came_from g a x s act = ((\<exists>b. map_get (sr_sessions (gw_registry g)) s = Some b \<and> owner_of b = owner_of act)
     \<or> (\<exists>p t expiry. a = After_authorize p t \<and> x = A_date (Some expiry) \<and> s = bt_sessionId t
          \<and> owner_of act = ((bt_sessionId t, bt_sub t, bt_carId t, expiry), p)))"

lemma go_on_sessions:
  "map_get (sr_sessions (gw_registry (go_on e a x now g))) s = Some act \<Longrightarrow> came_from g a x s act"
proof -
  have keep: "came_from g a x s act" if "reg_keeps (gw_registry g) r" "map_get (sr_sessions r) s = Some act" for g a x r
    using that by (auto simp: reg_keeps_def came_from_def)
  note keeps = keep [OF device_authenticated_keeps] keep [OF marked_active_keeps] keep [OF close_browser_keeps]
  have same: "came_from g a x s act" if "map_get (sr_sessions (gw_registry g)) s = Some act" for g a x
    using that by (auto simp: came_from_def)
  have auth: "came_from g (After_authorize p t) (A_date (Some expiry)) s act"
    if "map_get (sr_sessions (gw_registry (browser_authorized e p t expiry now g))) s = Some act" for e p t expiry now g
    using browser_authorized_sessions [OF that] by (auto simp: came_from_def)
  show "map_get (sr_sessions (gw_registry (go_on e a x now g))) s = Some act \<Longrightarrow> ?thesis"
    by (induction e a x now g rule: go_on.induct)
      (auto dest: keeps auth same simp del: sweep_presence.simps split: if_splits)
qed

definition has_row :: "fleet_db \<Rightarrow> ident \<times> ident \<times> ident \<times> date \<Rightarrow> bool" where
  "has_row db d = (case d of (s, usr, c, x) \<Rightarrow>
     \<exists>r \<in> set (db_drives db). ds_id r = s \<and> ds_userId r = usr \<and> ds_carId r = c \<and> ds_expiresAt r = x)"

fun task_ok :: "gateway_env \<Rightarrow> gw_event set \<Rightarrow> fleet_db \<Rightarrow> task \<Rightarrow> bool" where
  "task_ok e E db (Pending c (After_authorize p t)) =
     (shown e E p t \<and> (\<exists>now. c = C_authorize (bt_sessionId t) (bt_sub t) (bt_carId t) now))"
| "task_ok e E db (Answered (A_date (Some x)) (After_authorize p t)) =
     (shown e E p t \<and> has_row db (bt_sessionId t, bt_sub t, bt_carId t, x))"
| "task_ok e E db t = True"

definition session_ok :: "gateway_env \<Rightarrow> gw_event set \<Rightarrow> fleet_db \<Rightarrow> ident \<Rightarrow> active_session \<Rightarrow> bool" where
  "session_ok e E db s a = (bs_sessionId a = s \<and> has_row db (drive_of a)
     \<and> (\<exists>t. shown e E (as_browser a) t \<and> bt_sessionId t = s \<and> bt_sub t = bs_userId a \<and> bt_carId t = bs_carId a))"

text \<open>What holds after the events \<open>E\<close>.\<close>

definition gw_ok :: "gateway_env \<Rightarrow> gw_event set \<Rightarrow> gateway \<Rightarrow> bool" where
  "gw_ok e E g = (fleet_inv (gw_db g)
     \<and> (\<forall>s a. map_get (sr_sessions (gw_registry g)) s = Some a \<longrightarrow> session_ok e E (gw_db g) s a)
     \<and> (\<forall>p s. session_of g p = Some s \<longrightarrow> s \<in> ds_id ` set (db_drives (gw_db g)))
     \<and> (\<forall>t \<in> set (gw_tasks g). task_ok e E (gw_db g) t))"

lemma gw_ok_start: "fleet_inv db \<Longrightarrow> gw_ok e E (start_gateway db)"
  by (simp add: gw_ok_def start_gateway_def new_registry_def session_of_def)

lemma shown_mono: "E \<subseteq> E' \<Longrightarrow> shown e E p t \<Longrightarrow> shown e E' p t"
  by (auto simp: shown_def)

lemma first_row_updated: "first_row (returning P f rows) = Some r \<Longrightarrow> r \<in> set (update_where P f rows)"
  using first_returning [of P f rows r] by (auto simp: in_update_where)

lemma authorize_has_row:
  assumes "fst (authorizeDriveSession db s usr c now) = Some x"
  shows "has_row (snd (authorizeDriveSession db s usr c now)) (s, usr, c, x)"
proof -
  let ?P = "\<lambda>d. ds_id d = s \<and> ds_userId d = usr \<and> ds_carId d = c \<and> ds_status d = D_created \<and> now < ds_expiresAt d"
  let ?f = "\<lambda>d :: drive_row. d\<lparr>ds_status := D_negotiating, ds_startedAt := Some now, ds_updatedAt := now\<rparr>"
  obtain r where r: "first_row (returning ?P ?f (db_drives db)) = Some r" "x = ds_expiresAt r"
    using assms by (auto simp: authorizeDriveSession_def Let_def split: option.splits)
  have "ds_id r = s \<and> ds_userId r = usr \<and> ds_carId r = c" using first_returning [OF r(1)] by auto
  moreover have "db_drives (snd (authorizeDriveSession db s usr c now)) = update_where ?P ?f (db_drives db)"
    using r(1) by (simp add: authorizeDriveSession_def Let_def set_car_def)
  ultimately show ?thesis
    using first_row_updated [OF r(1)] r(2) by (auto simp: has_row_def)
qed

lemma fleet_step_row:
  assumes "fleet_inv db" "op_ok op" "r \<in> set (db_drives db)"
  shows "\<exists>r' \<in> set (db_drives (fleet_step u op db)). same_drive r r' \<and> (ds_status r = D_ended \<longrightarrow> r' = r)"
  using fleet_step_drives [OF assms(1,2), of u] assms(3) unfolding drives_go_on_def by auto

lemma fleet_step_has_row: "fleet_inv db \<Longrightarrow> op_ok op \<Longrightarrow> has_row db d \<Longrightarrow> has_row (fleet_step u op db) d"
  unfolding has_row_def same_drive_def using fleet_step_row [of db op _ u, unfolded same_drive_def] by (cases d) (simp, metis)

lemma fleet_step_ids:
  assumes "fleet_inv db" "op_ok op" "s \<in> ds_id ` set (db_drives db)"
  shows "s \<in> ds_id ` set (db_drives (fleet_step u op db))"
proof -
  obtain r where "r \<in> set (db_drives db)" "s = ds_id r" using assms(3) by blast
  with fleet_step_row [OF assms(1,2), of r u] show ?thesis by (auto simp: same_drive_def image_iff) metis
qed

lemma fleet_run_row:
  assumes "fleet_inv db" "list_all op_ok ops" "r \<in> set (db_drives db)"
  shows "\<exists>r' \<in> set (db_drives (fleet_run u ops db)). same_drive r r' \<and> (ds_status r = D_ended \<longrightarrow> r' = r)"
  using fleet_run_drives [OF assms, of u] by (auto simp: later_drive_def)

lemma fleet_run_has_row: "fleet_inv db \<Longrightarrow> list_all op_ok ops \<Longrightarrow> has_row db d \<Longrightarrow> has_row (fleet_run u ops db) d"
  unfolding has_row_def using fleet_run_row [of db ops _ u, unfolded same_drive_def] by (cases d) (simp, metis)

lemma fleet_run_ids: "fleet_inv db \<Longrightarrow> list_all op_ok ops \<Longrightarrow> s \<in> ds_id ` set (db_drives db) \<Longrightarrow> s \<in> ds_id ` set (db_drives (fleet_run u ops db))"
  using fleet_run_row [of db ops _ u, unfolded same_drive_def] by (simp add: image_iff) metis

lemma task_ok_mono: "(\<And>d. has_row db d \<Longrightarrow> has_row db' d) \<Longrightarrow> E \<subseteq> E' \<Longrightarrow> task_ok e E db t \<Longrightarrow> task_ok e E' db' t"
  by (induction e E db t rule: task_ok.induct) (auto intro: shown_mono)

lemma task_ok_simple [simp]: "\<not> authorizes a \<Longrightarrow> task_ok e E db (Pending c a)" "task_ok e E db (Answered A_threw a)"
  by (cases a; simp)+

lemma task_ok_call: "authorize_call e {ev} p c a \<Longrightarrow> task_ok e (insert ev E) db (Pending c a)"
  by (cases a) (auto simp: authorize_call_def intro: shown_mono [of "{ev}"])

lemma task_ok_performed:
  "task_ok e E db (Pending c a) \<Longrightarrow> task_ok e E (fleet_step u (call_op c) db) (Answered (call_answer c db) a)"
proof (cases a)
  case (After_authorize p t)
  assume "task_ok e E db (Pending c a)"
  then obtain now where c: "c = C_authorize (bt_sessionId t) (bt_sub t) (bt_carId t) now" "shown e E p t"
    using After_authorize by auto
  then show ?thesis
    using authorize_has_row [of db "bt_sessionId t" "bt_sub t" "bt_carId t" now] After_authorize
    by (cases "fst (authorizeDriveSession db (bt_sessionId t) (bt_sub t) (bt_carId t) now)") auto
qed (cases "call_answer c db"; simp)+

lemma gw_step_keeps:
  "(\<nexists>i now x a. ev = Continue i now \<and> nth_task g i = Some (Answered x a)) \<Longrightarrow> reg_keeps (gw_registry g) (gw_registry (gw_step e ev g))"
  by (cases ev) (simp_all add: on_message_keeps on_close_keeps on_sweep_keeps split: option.split task.split)

lemma gw_step_sessions:
  assumes "map_get (sr_sessions (gw_registry (gw_step e ev g))) s = Some act"
  shows "(\<exists>b. map_get (sr_sessions (gw_registry g)) s = Some b \<and> owner_of b = owner_of act)
    \<or> (\<exists>p t expiry. Answered (A_date (Some expiry)) (After_authorize p t) \<in> set (gw_tasks g) \<and> s = bt_sessionId t
         \<and> owner_of act = ((bt_sessionId t, bt_sub t, bt_carId t, expiry), p))"
proof (cases "\<exists>i now x a. ev = Continue i now \<and> nth_task g i = Some (Answered x a)")
  case True
  then obtain i now x a where i: "ev = Continue i now" "nth_task g i = Some (Answered x a)" by blast
  then have "Answered x a \<in> set (gw_tasks g)" by (simp add: nth_task_in)
  moreover have "came_from (drop_task i g) a x s act"
    using assms i by (intro go_on_sessions) simp
  ultimately show ?thesis by (auto simp: came_from_def)
next
  case False
  then have "reg_keeps (gw_registry g) (gw_registry (gw_step e ev g))" by (rule gw_step_keeps)
  then show ?thesis using assms by (auto simp: reg_keeps_def)
qed

lemma gw_step_session_of:
  assumes "session_of (gw_step e ev g) p = Some s"
  shows "session_of g p = Some s
    \<or> (\<exists>t expiry. Answered (A_date (Some expiry)) (After_authorize p t) \<in> set (gw_tasks g) \<and> s = bt_sessionId t)"
proof (cases "\<exists>i now x a. ev = Continue i now \<and> nth_task g i = Some (Answered x a)")
  case True
  then obtain i now x a where i: "ev = Continue i now" "nth_task g i = Some (Answered x a)" by blast
  then have "Answered x a \<in> set (gw_tasks g)" by (simp add: nth_task_in)
  then show ?thesis
    using go_on_session_of [of e a x now "drop_task i g" p s] assms i by auto
next
  case False
  then show ?thesis
    using assms session_of_connected by (cases ev) (auto split: option.splits task.splits if_splits simp del: gw_step.simps(1))
qed

lemma session_ok_mono:
  "(\<And>d. has_row db d \<Longrightarrow> has_row db' d) \<Longrightarrow> E \<subseteq> E' \<Longrightarrow> session_ok e E db s a \<Longrightarrow> session_ok e E' db' s a"
  unfolding session_ok_def by (blast intro: shown_mono)

lemma session_ok_owner: "owner_of b = owner_of a \<Longrightarrow> session_ok e E db s b \<Longrightarrow> session_ok e E db s a"
  by (auto simp: session_ok_def owner_of_def drive_of_def)

lemma gw_ok_mono: "E \<subseteq> E' \<Longrightarrow> gw_ok e E g \<Longrightarrow> gw_ok e E' g"
  unfolding gw_ok_def by (blast intro: session_ok_mono task_ok_mono)

lemma gw_ok_step:
  assumes ok: "gw_ok e E g" and ev: "event_ok ev"
  shows "gw_ok e (insert ev E) (gw_step e ev g)"
proof -
  let ?g' = "gw_step e ev g"
  have inv: "fleet_inv (gw_db g)" using ok by (simp add: gw_ok_def)
  have inv': "fleet_inv (gw_db ?g')" unfolding gw_step_db by (rule fleet_run_inv [OF inv ops_of_ok [OF ev]])
  have rows: "has_row (gw_db ?g') d" if "has_row (gw_db g) d" for d
    unfolding gw_step_db by (rule fleet_run_has_row [OF inv ops_of_ok [OF ev] that])
  have E: "E \<subseteq> insert ev E" by blast
  have auth: "shown e E p t \<and> has_row (gw_db g) (bt_sessionId t, bt_sub t, bt_carId t, x)"
    if "Answered (A_date (Some x)) (After_authorize p t) \<in> set (gw_tasks g)" for x p t
    using ok that by (auto simp: gw_ok_def)
  have sessions: "session_ok e (insert ev E) (gw_db ?g') s a" if a: "map_get (sr_sessions (gw_registry ?g')) s = Some a" for s a
    using gw_step_sessions [OF a]
  proof (elim disjE exE conjE)
    fix b
    assume "map_get (sr_sessions (gw_registry g)) s = Some b" "owner_of b = owner_of a"
    with ok have "session_ok e E (gw_db g) s a" by (intro session_ok_owner [of b a]) (auto simp: gw_ok_def)
    then show ?thesis by (rule session_ok_mono [OF _ E, rotated]) (rule rows)
  next
    fix p t x
    assume "Answered (A_date (Some x)) (After_authorize p t) \<in> set (gw_tasks g)" "s = bt_sessionId t"
      "owner_of a = ((bt_sessionId t, bt_sub t, bt_carId t, x), p)"
    moreover have "shown e (insert ev E) p t" "has_row (gw_db ?g') (bt_sessionId t, bt_sub t, bt_carId t, x)"
      using auth [of x p t] rows shown_mono [OF E] calculation by blast+
    ultimately show ?thesis by (auto simp: session_ok_def owner_of_def drive_of_def)
  qed
  moreover have "s \<in> ds_id ` set (db_drives (gw_db ?g'))" if s: "session_of ?g' p = Some s" for p s
  proof -
    have "s \<in> ds_id ` set (db_drives (gw_db g))"
      using gw_step_session_of [OF s]
    proof (elim disjE exE conjE)
      assume "session_of g p = Some s"
      then show ?thesis using ok by (simp add: gw_ok_def)
    next
      fix t x
      assume "Answered (A_date (Some x)) (After_authorize p t) \<in> set (gw_tasks g)" "s = bt_sessionId t"
      with auth [of x p t] have "\<exists>r \<in> set (db_drives (gw_db g)). ds_id r = s" by (auto simp: has_row_def)
      then show ?thesis by auto
    qed
    then show ?thesis unfolding gw_step_db by (rule fleet_run_ids [OF inv ops_of_ok [OF ev]])
  qed
  moreover have "task_ok e (insert ev E) (gw_db ?g') t" if t: "t \<in> set (gw_tasks ?g')" for t
    using gw_step_tasks [OF t]
  proof (elim disjE exE conjE)
    assume "t \<in> set (gw_tasks g)"
    with ok have "task_ok e E (gw_db g) t" by (simp add: gw_ok_def)
    then show ?thesis by (rule task_ok_mono [OF _ E, rotated]) (rule rows)
  next
    fix i c a
    assume i: "ev = Perform i" "nth_task g i = Some (Pending c a)" "t = Answered (call_answer c (gw_db g)) a"
    then have "task_ok e E (gw_db g) (Pending c a)" using ok nth_task_in by (auto simp: gw_ok_def simp del: task_ok.simps)
    then have "task_ok e (insert ev E) (gw_db g) (Pending c a)" by (rule task_ok_mono [OF _ E, rotated])
    from task_ok_performed [OF this] show ?thesis using i by simp
  qed (simp_all add: task_ok_call)
  ultimately show ?thesis using inv' by (simp add: gw_ok_def)
qed

lemma gw_ok_run: "gw_ok e E g \<Longrightarrow> list_all event_ok evs \<Longrightarrow> gw_ok e (E \<union> set evs) (gw_run e evs g)"
proof (induction evs arbitrary: E g)
  case (Cons ev evs)
  then show ?case using Cons.IH [of "insert ev E" "gw_step e ev g"] by (simp add: gw_ok_step)
qed simp

end
