(* ===== verification/GatewayLife.thy ===== *)
theory GatewayLife
  imports GatewayRun
begin

section \<open>Life and death of connections\<close>

text \<open>
  Pending work always drains, a closed socket ends its drive, silence is noticed; the properties of
  the gateway process as a whole, on all runs of \<open>GatewayServer\<close>.
\<close>

subsection \<open>Pending work drains\<close>

text \<open>A task takes at most two steps for every call its handler still makes.\<close>

fun task_work :: "task \<Rightarrow> nat" where
  "task_work (Pending c a) = 2 * weight a"
| "task_work (Answered x a) = 2 * weight a - 1"

definition work :: "gateway \<Rightarrow> nat" where
  "work g = sum_list (map task_work (gw_tasks g))"

lemma weight_pos: "0 < weight a"
  by (cases a) simp_all

fun effective :: "gw_event \<Rightarrow> gateway \<Rightarrow> bool" where
  "effective (Perform i) g = (case nth_task g i of Some (Pending c a) \<Rightarrow> True | _ \<Rightarrow> False)"
| "effective (Store_fails i) g = (case nth_task g i of Some (Pending c a) \<Rightarrow> True | _ \<Rightarrow> False)"
| "effective (Continue i now) g = (case nth_task g i of Some (Answered x a) \<Rightarrow> True | _ \<Rightarrow> False)"
| "effective ev g = False"

lemma work_update: "nth_task g i = Some (Pending c a) \<Longrightarrow> work (answer_task i x a g) < work g"
  using weight_pos [of a] arg_cong [OF id_take_nth_drop, of i "gw_tasks g" "\<lambda>ts. sum_list (map task_work ts)"]
  by (simp add: work_def answer_task_def nth_task_Some upd_conv_take_nth_drop)

lemma task_list_db [simp]: "nth_task (g\<lparr>gw_db := db\<rparr>) i = nth_task g i" "work (g\<lparr>gw_db := db\<rparr>) = work g"
  by (simp_all add: nth_task_def work_def)

lemma work_drop: "nth_task g i = Some (Answered x a) \<Longrightarrow> work (drop_task i g) + (2 * weight a - 1) = work g"
  using arg_cong [OF id_take_nth_drop, of i "gw_tasks g" "\<lambda>ts. sum_list (map task_work ts)"]
  by (simp add: work_def drop_task_def nth_task_Some)

lemma effective_work: "effective ev g \<Longrightarrow> work (gw_step e ev g) < work g"
proof (cases ev)
  case (Perform i)
  assume "effective ev g"
  then obtain c a where "nth_task g i = Some (Pending c a)" using Perform by (auto split: option.splits task.splits)
  then show ?thesis
    using work_update [of "g\<lparr>gw_db := fleet_step (pf_url (ge_platform e)) (call_op c) (gw_db g)\<rparr>" i c a] Perform
    by simp
next
  case (Store_fails i)
  assume "effective ev g"
  then obtain c a where "nth_task g i = Some (Pending c a)" using Store_fails by (auto split: option.splits task.splits)
  then show ?thesis using work_update Store_fails by simp
next
  case (Continue i now)
  assume "effective ev g"
  then obtain x a where t: "nth_task g i = Some (Answered x a)" using Continue by (auto split: option.splits task.splits)
  have "work (go_on e a x now (drop_task i g)) \<le> work (drop_task i g) + 2 * (weight a - 1)"
    using go_on_adds [of a "drop_task i g" e x now] by (auto simp: adds_def work_def)
  then show ?thesis
    using work_drop [OF t] weight_pos [of a] Continue t by simp
qed simp_all

lemma effective_exists: "gw_tasks g \<noteq> [] \<Longrightarrow> effective (Perform 0) g \<or> effective (Continue 0 now) g"
  by (cases "gw_tasks g ! 0") (simp_all add: nth_task_def)

lemma scheduler_drains:
  assumes "\<And>g. gw_tasks g \<noteq> [] \<Longrightarrow> effective (pick g) g"
  shows "\<exists>n \<le> work g. gw_tasks (((\<lambda>g. gw_step e (pick g) g) ^^ n) g) = []"
proof (induction "work g" arbitrary: g rule: less_induct)
  case less
  show ?case
  proof (cases "gw_tasks g = []")
    case False
    let ?g = "gw_step e (pick g) g"
    have "work ?g < work g" by (rule effective_work [OF assms [OF False]])
    then obtain n where "n \<le> work ?g" "gw_tasks (((\<lambda>g. gw_step e (pick g) g) ^^ n) ?g) = []" using less by blast
    then show ?thesis
      using \<open>work ?g < work g\<close> by (intro exI [of _ "Suc n"]) (simp add: funpow_Suc_right del: funpow.simps)
  qed (intro exI [of _ 0], simp)
qed

subsection \<open>A closed socket ends its drive\<close>

definition ended :: "fleet_db \<Rightarrow> ident \<Rightarrow> bool" where
  "ended db s = (\<exists>r \<in> set (db_drives db). ds_id r = s \<and> ds_status r = D_ended)"

lemma ended_final: "fleet_inv db \<Longrightarrow> ended db s \<Longrightarrow> \<not> (\<exists>r \<in> set (db_drives db). ds_id r = s \<and> open_drive r)"
  unfolding ended_def fleet_inv_def drives_ok_def open_drive_def
  by (metis distinct_map_eq drive_status.distinct(5) drive_status.distinct(9) drive_status.distinct(11))

lemma ended_run: "fleet_inv db \<Longrightarrow> list_all op_ok ops \<Longrightarrow> ended db s \<Longrightarrow> ended (fleet_run u ops db) s"
  unfolding ended_def using fleet_run_row [of db ops _ u] by metis

lemma release_drives [simp]: "db_drives (release_session now db s) = db_drives db"
  by (simp add: release_session_def set_car_def Let_def split: option.split)

lemma end_ends: "s \<in> ds_id ` set (db_drives db) \<Longrightarrow> ended (endDriveSession db s reason now) s"
proof -
  let ?P = "\<lambda>r. ds_id r = s \<and> open_drive r"
  assume "s \<in> ds_id ` set (db_drives db)"
  then obtain r where r: "r \<in> set (db_drives db)" "ds_id r = s" by blast
  have drives: "db_drives (endDriveSession db s reason now) = update_where ?P (end_drive now) (db_drives db)"
    by (simp add: endDriveSession_def Let_def update_where_none split: option.split)
  have "(if ?P r then end_drive now r else r) \<in> set (db_drives (endDriveSession db s reason now))"
    unfolding drives in_update_where using r(1) by blast
  moreover have "ds_status (if ?P r then end_drive now r else r) = D_ended" "ds_id (if ?P r then end_drive now r else r) = s"
    using r(2) by (cases "ds_status r"; simp add: end_drive_def open_drive_def)+
  ultimately show ?thesis unfolding ended_def by blast
qed

definition ending :: "ident \<Rightarrow> gateway \<Rightarrow> bool" where
  "ending s g = ((\<exists>reason now a. Pending (C_end s reason now) a \<in> set (gw_tasks g)) \<or> ended (gw_db g) s)"

lemma ending_step:
  assumes "gw_ok e E g" "event_ok ev" "\<forall>i. ev \<noteq> Store_fails i" "s \<in> ds_id ` set (db_drives (gw_db g))" "ending s g"
  shows "ending s (gw_step e ev g)"
  using assms(5) unfolding ending_def
proof (elim disjE exE)
  fix reason now a
  assume pending: "Pending (C_end s reason now) a \<in> set (gw_tasks g)"
  show "(\<exists>reason now a. Pending (C_end s reason now) a \<in> set (gw_tasks (gw_step e ev g))) \<or> ended (gw_db (gw_step e ev g)) s"
    using pending_stays [OF pending, of e ev]
  proof (elim disjE exE conjE)
    fix i
    assume i: "ev = Perform i" "nth_task g i = Some (Pending (C_end s reason now) a)"
    then have "gw_db (gw_step e ev g) = endDriveSession (gw_db g) s reason now" by simp
    then show ?thesis using end_ends [OF assms(4)] by simp
  qed (use assms(3) in blast)+
next
  assume "ended (gw_db g) s"
  moreover have "fleet_inv (gw_db g)" using assms(1) by (simp add: gw_ok_def)
  ultimately have "ended (gw_db (gw_step e ev g)) s"
    unfolding gw_step_db by (intro ended_run ops_of_ok assms(2))
  then show "(\<exists>reason now a. Pending (C_end s reason now) a \<in> set (gw_tasks (gw_step e ev g))) \<or> ended (gw_db (gw_step e ev g)) s" ..
qed

lemma ids_step:
  "gw_ok e E g \<Longrightarrow> event_ok ev \<Longrightarrow> s \<in> ds_id ` set (db_drives (gw_db g)) \<Longrightarrow> s \<in> ds_id ` set (db_drives (gw_db (gw_step e ev g)))"
  unfolding gw_step_db gw_ok_def by (blast intro: fleet_run_ids ops_of_ok)

text \<open>\<open>pick\<close> chooses the next event.\<close>

definition scheduled :: "gateway_env \<Rightarrow> (gateway \<Rightarrow> gw_event) \<Rightarrow> nat \<Rightarrow> gateway \<Rightarrow> gateway" where
  "scheduled e pick n g = ((\<lambda>g. gw_step e (pick g) g) ^^ n) g"

lemma ending_scheduled:
  assumes "gw_ok e UNIV g" "s \<in> ds_id ` set (db_drives (gw_db g))" "ending s g"
    and "\<And>g. event_ok (pick g) \<and> (\<forall>i. pick g \<noteq> Store_fails i)"
  shows "gw_ok e UNIV (scheduled e pick n g) \<and> s \<in> ds_id ` set (db_drives (gw_db (scheduled e pick n g))) \<and> ending s (scheduled e pick n g)"
proof (induction n)
  case (Suc n)
  then show ?case
    using assms(4) [of "scheduled e pick n g"] gw_ok_step [of e UNIV "scheduled e pick n g" "pick (scheduled e pick n g)"]
      ids_step [of e UNIV "scheduled e pick n g"] ending_step [of e UNIV "scheduled e pick n g"]
    by (simp add: scheduled_def insert_UNIV)
qed (use assms in \<open>simp add: scheduled_def\<close>)

lemma effective_ok: "effective ev g \<Longrightarrow> event_ok ev"
  by (cases ev) simp_all

text \<open>
  The drive a socket is responsible for: that of a browser, or that of the car whose device it
  is, if it still is.
\<close>

definition responsible :: "gateway \<Rightarrow> peer \<Rightarrow> ident \<Rightarrow> bool" where
  "responsible g p s = (case device_of g p of
      None \<Rightarrow> session_of g p = Some s
    | Some d \<Rightarrow> map_get (gw_devices g) (ad_deviceId d) = Some p
        \<and> (\<exists>c. map_get (sr_devicesByCar (gw_registry g)) (ad_carId d) = Some c \<and> cn_peer c = p)
        \<and> map_get (sr_sessionsByCar (gw_registry g)) (ad_carId d) = Some s)"

lemma shown_nonempty: "shown e E p t \<Longrightarrow> bt_sessionId t \<noteq> []"
  unfolding shown_def
  by (elim exE conjE, erule presents_text, erule verify_Inr)
    (auto simp: validateBrowserTicketPayload_def split: json.splits option.splits if_splits)

lemma closing_starts:
  assumes ok: "gw_ok e E g" "registry_ok (gw_registry g)" and here: "listening g p" "responsible g p s"
  shows "s \<in> ds_id ` set (db_drives (gw_db g)) \<and> ending s (gw_step e (Closed p now) g)"
proof -
  obtain k where k: "map_get (gw_sockets g) p = Some k" "\<not> sk_gone k"
    using here(1) by (auto simp: listening_def split: option.splits)
  show ?thesis
  proof (cases "device_of g p")
    case None
    then have s: "session_of g p = Some s" "sk_device k = None" using here(2) k by (auto simp: responsible_def device_of_def)
    then show ?thesis
      using ok(1) k by (auto simp: ending_def on_close_def close_browser_def gw_ok_def Let_def split: prod.split)
  next
    case (Some d)
    then have d: "sk_device k = Some d" "map_get (gw_devices g) (ad_deviceId d) = Some p"
        "map_get (sr_sessionsByCar (gw_registry g)) (ad_carId d) = Some s"
        "\<exists>c. map_get (sr_devicesByCar (gw_registry g)) (ad_carId d) = Some c \<and> cn_peer c = p"
      using here(2) k by (auto simp: responsible_def device_of_def)
    obtain act where act: "map_get (sr_sessions (gw_registry g)) s = Some act"
      using ok(2) d(3) unfolding registry_ok_def by blast
    then have "session_ok e E (gw_db g) s act" using ok(1) by (auto simp: gw_ok_def)
    then have "s \<noteq> []" "\<exists>r \<in> set (db_drives (gw_db g)). ds_id r = s"
      using shown_nonempty by (auto simp: session_ok_def has_row_def drive_of_def)
    moreover from this(2) have "s \<in> ds_id ` set (db_drives (gw_db g))" by blast
    moreover have "truthy (Some s) = Some s" using \<open>s \<noteq> []\<close> by (cases s) simp_all
    ultimately show ?thesis
      using k d by (auto simp: ending_def on_close_def detachDevice_def Let_def split: prod.split) blast
  qed
qed

subsection \<open>Silence is noticed\<close>

lemma is_open_frame [simp]:
  "is_open (g\<lparr>gw_db := a\<rparr>) p = is_open g p" "is_open (g\<lparr>gw_registry := b\<rparr>) p = is_open g p"
  "is_open (g\<lparr>gw_lastSeen := c\<rparr>) p = is_open g p" "is_open (g\<lparr>gw_devices := d\<rparr>) p = is_open g p"
  "is_open (g\<lparr>gw_pings := f\<rparr>) p = is_open g p" "is_open (g\<lparr>gw_tasks := h\<rparr>) p = is_open g p"
  "is_open (g\<lparr>gw_log := i\<rparr>) p = is_open g p" "is_open (g\<lparr>gw_unhandled := j\<rparr>) p = is_open g p"
  "is_open (g\<lparr>gw_closing := k\<rparr>) p = is_open g p"
  by (simp_all add: is_open_def)

lemma is_open_set: "(\<And>s. sk_open (f s) = sk_open s) \<Longrightarrow> is_open (set_socket q f g) p = is_open g p"
  by (simp add: is_open_def set_socket_def split: option.split)

lemma is_open_steps [simp]:
  "is_open (gw_send q m g) p = is_open g p" "is_open (gw_close q c r g) p = (is_open g p \<and> p \<noteq> q)"
  "is_open (gw_terminate q g) p = (is_open g p \<and> p \<noteq> q)" "is_open (disarm q g) p = is_open g p"
  "is_open (await_store c' a g) p = is_open g p" "is_open (drop_task i g) p = is_open g p"
  "is_open (answer_task i x a g) p = is_open g p"
  "is_open (set_socket q (\<lambda>s. s\<lparr>sk_device := d\<rparr>) g) p = is_open g p"
  "is_open (set_socket q (\<lambda>s. s\<lparr>sk_session := v\<rparr>) g) p = is_open g p"
  "is_open (set_socket q (\<lambda>s. s\<lparr>sk_open := False, sk_gone := True, sk_armed := False\<rparr>) g) p = (is_open g p \<and> p \<noteq> q)"
  by (auto simp: gw_send_def gw_close_def gw_terminate_def disarm_def await_store_def drop_task_def answer_task_def is_open_set)
    (auto simp: is_open_def set_socket_def split: option.splits if_splits)

lemma is_open_effects [dest!]: "is_open (gw_effects es g) p \<Longrightarrow> is_open g p"
proof (induction es arbitrary: g)
  case (Cons x es)
  then have "is_open (gw_effect x g) p" by simp
  then show ?case by (cases x) auto
qed simp

lemma is_open_sweep_presence [simp]: "is_open (sweep_presence cutoff now ds g) p = is_open g p"
  by (induction cutoff now ds g rule: sweep_presence.induct) (simp_all split: option.split)

lemma is_open_end_expired [simp]: "is_open (end_expired now ids g) p = is_open g p"
proof -
  have "is_open (foldl (\<lambda>g s. await_store (C_end s r now) Ignored g) g ids) p = is_open g p" for r
    by (induction ids arbitrary: g) simp_all
  then show ?thesis by (simp add: end_expired_def)
qed

lemma is_open_answers [simp]:
  "is_open (reject_message q g) p = (is_open g p \<and> p \<noteq> q)" "is_open (refuse_auth q s c r g) p = (is_open g p \<and> p \<noteq> q)"
  "is_open (unsupported_message q g) p = is_open g p" "is_open (offerPendingUpdate d q now g) p = is_open g p"
  "is_open (presence_disconnect q now g) p = is_open g p" "is_open (end_after_relay q m now g) p = is_open g p"
  by (simp_all add: reject_message_def refuse_auth_def unsupported_message_def offerPendingUpdate_def presence_disconnect_def
      end_after_relay_def split: option.split relay_message.split)

lemma is_open_handlers [dest!]:
  "is_open (close_browser q now g) p \<Longrightarrow> is_open g p" "is_open (relay_device q d r now g) p \<Longrightarrow> is_open g p"
  "is_open (relay_browser q s r now g) p \<Longrightarrow> is_open g p" "is_open (session_connected q s s' now g) p \<Longrightarrow> is_open g p"
  "is_open (device_authenticated q d now g) p \<Longrightarrow> is_open g p" "is_open (marked_active q b now g) p \<Longrightarrow> is_open g p"
  "is_open (telemetry_and_offer q h now g) p \<Longrightarrow> is_open g p" "is_open (browser_authorized e q t x now g) p \<Longrightarrow> is_open g p"
  by (auto simp: close_browser_def relay_device_def relay_browser_def session_connected_def device_authenticated_def marked_active_def
      telemetry_and_offer_def browser_authorized_def Let_def split: option.splits prod.splits bool.splits sum.splits if_splits)

lemma is_open_authorized [dest!]: "is_open (first_message e q m now g) p \<Longrightarrow> is_open g p"
  by (cases m) (auto split: sum.splits)

lemma is_open_later [dest!]: "is_open (later_message q d s m now g) p \<Longrightarrow> is_open g p"
  by (auto simp: later_message_def split: option.splits client_message.splits)

lemma is_open_on_message [dest!]: "is_open (on_message e q raw now g) p \<Longrightarrow> is_open g p"
  by (auto simp: on_message_def split: option.splits if_splits)

lemma is_open_go_on [dest!]: "is_open (go_on e a x now g) p \<Longrightarrow> is_open g p"
  by (induction e a x now g rule: go_on.induct) (auto split: if_splits)

lemma is_open_on_close: "is_open (on_close q now g) p \<Longrightarrow> is_open g p \<and> (p = q \<longrightarrow> \<not> listening g q)"
  by (auto simp: on_close_def listening_def Let_def split: option.splits prod.splits if_splits)

lemma is_open_on_timeout [dest!]: "is_open (on_auth_timeout q g) p \<Longrightarrow> is_open g p"
  by (auto simp: on_auth_timeout_def Let_def split: option.splits if_splits)

lemma is_open_on_sweep [dest!]: "is_open (on_sweep e now g) p \<Longrightarrow> is_open g p"
  by (auto simp: on_sweep_def Let_def split: prod.splits)

lemma is_open_ping_loop: "is_open (ping_loop fails t xs g) p \<Longrightarrow> is_open g p"
  by (induction fails t xs g rule: ping_loop.induct) (auto simp: Let_def split: if_splits)

lemma is_open_foldl_close:
  "is_open (foldl (\<lambda>g p. gw_close p c r g) g qs) p = (is_open g p \<and> p \<notin> set qs)"
  "is_open (foldl (\<lambda>g p. gw_terminate p g) g qs) p = (is_open g p \<and> p \<notin> set qs)"
  by (induction qs arbitrary: g) auto

lemma is_open_shutdown:
  "is_open (closeGatewaySockets g) p \<Longrightarrow> is_open g p \<and> (gw_closing g \<or> \<not> map_has (gw_pings g) p)"
  by (auto simp: closeGatewaySockets_def Let_def is_open_foldl_close map_keys_def map_get_None_notin split: if_splits)

lemma is_open_connected [simp]: "p \<noteq> q \<Longrightarrow> is_open (g\<lparr>gw_sockets := map_set (gw_sockets g) q k\<rparr>) p = is_open g p"
  by (simp add: is_open_def)

lemma is_open_step: "is_open (gw_step e ev g) p \<Longrightarrow> ev \<noteq> Connected p \<Longrightarrow> is_open g p"
  by (cases ev) (auto dest: is_open_on_close is_open_ping_loop is_open_shutdown simp: on_pong_def on_ping_timer_def
      split: if_splits option.splits task.splits)

text \<open>The deadlines of the browsers.\<close>

definition same_pings :: "gateway \<Rightarrow> gateway \<Rightarrow> bool" where
  "same_pings g g' = (gw_pings g' = gw_pings g \<and> gw_closing g' = gw_closing g)"

lemma pings_set [simp]: "gw_pings (set_socket q f g) = gw_pings g" "gw_closing (set_socket q f g) = gw_closing g"
  by (simp_all add: set_socket_def split: option.split)

lemma pings_steps [simp]:
  "gw_pings (gw_send q m g) = gw_pings g" "gw_pings (gw_close q c r g) = gw_pings g" "gw_pings (gw_terminate q g) = gw_pings g"
  "gw_pings (disarm q g) = gw_pings g" "gw_pings (await_store c' a g) = gw_pings g" "gw_pings (drop_task i g) = gw_pings g"
  "gw_pings (answer_task i x a g) = gw_pings g" "gw_closing (gw_send q m g) = gw_closing g"
  "gw_closing (gw_close q c r g) = gw_closing g" "gw_closing (gw_terminate q g) = gw_closing g" "gw_closing (disarm q g) = gw_closing g"
  "gw_closing (await_store c' a g) = gw_closing g" "gw_closing (drop_task i g) = gw_closing g"
  "gw_closing (answer_task i x a g) = gw_closing g"
  by (simp_all add: gw_send_def gw_close_def gw_terminate_def disarm_def await_store_def drop_task_def answer_task_def)

lemma pings_effects [simp]: "gw_pings (gw_effects es g) = gw_pings g" "gw_closing (gw_effects es g) = gw_closing g"
proof -
  have one: "gw_pings (gw_effect x g) = gw_pings g \<and> gw_closing (gw_effect x g) = gw_closing g" for x g
    by (cases x) simp_all
  have "gw_pings (gw_effects es g) = gw_pings g \<and> gw_closing (gw_effects es g) = gw_closing g"
    by (induction es arbitrary: g) (simp_all add: one)
  then show "gw_pings (gw_effects es g) = gw_pings g" "gw_closing (gw_effects es g) = gw_closing g" by simp_all
qed

lemma pings_answers [simp]:
  "gw_pings (reject_message q g) = gw_pings g" "gw_pings (refuse_auth q s c r g) = gw_pings g"
  "gw_pings (unsupported_message q g) = gw_pings g" "gw_pings (offerPendingUpdate d q now g) = gw_pings g"
  "gw_pings (presence_disconnect q now g) = gw_pings g" "gw_pings (end_after_relay q m now g) = gw_pings g"
  "gw_closing (reject_message q g) = gw_closing g" "gw_closing (refuse_auth q s c r g) = gw_closing g"
  "gw_closing (unsupported_message q g) = gw_closing g" "gw_closing (offerPendingUpdate d q now g) = gw_closing g"
  "gw_closing (presence_disconnect q now g) = gw_closing g" "gw_closing (end_after_relay q m now g) = gw_closing g"
  by (simp_all add: reject_message_def refuse_auth_def unsupported_message_def offerPendingUpdate_def presence_disconnect_def
      end_after_relay_def split: option.split relay_message.split)

lemma pings_handlers [simp]:
  "gw_pings (close_browser q now g) = gw_pings g" "gw_pings (relay_device q d r now g) = gw_pings g"
  "gw_pings (relay_browser q s r now g) = gw_pings g" "gw_pings (session_connected q s s' now g) = gw_pings g"
  "gw_pings (device_authenticated q d now g) = gw_pings g" "gw_pings (marked_active q b now g) = gw_pings g"
  "gw_pings (telemetry_and_offer q h now g) = gw_pings g"
  "gw_closing (close_browser q now g) = gw_closing g" "gw_closing (relay_device q d r now g) = gw_closing g"
  "gw_closing (relay_browser q s r now g) = gw_closing g" "gw_closing (session_connected q s s' now g) = gw_closing g"
  "gw_closing (device_authenticated q d now g) = gw_closing g" "gw_closing (marked_active q b now g) = gw_closing g"
  "gw_closing (telemetry_and_offer q h now g) = gw_closing g" "gw_closing (browser_authorized e q t x now g) = gw_closing g"
  by (auto simp: close_browser_def relay_device_def relay_browser_def session_connected_def device_authenticated_def marked_active_def
      telemetry_and_offer_def browser_authorized_def Let_def split: option.split prod.split bool.split sum.split)

lemma pings_first [simp]: "same_pings g (first_message e q m now g)"
  by (cases m) (simp_all add: same_pings_def split: sum.split)

lemma pings_later [simp]: "same_pings g (later_message q d s m now g)"
  by (simp add: same_pings_def later_message_def split: option.split client_message.split)

lemma pings_message [simp]: "same_pings g (on_message e q raw now g)"
  by (simp add: on_message_def split: option.split) (simp add: same_pings_def)

lemma pings_sweep_presence [simp]:
  "gw_pings (sweep_presence cutoff now ds g) = gw_pings g" "gw_closing (sweep_presence cutoff now ds g) = gw_closing g"
  by (induction cutoff now ds g rule: sweep_presence.induct) (simp_all split: option.split)

lemma pings_authorized:
  "gw_pings (browser_authorized e q t x now g) = gw_pings g \<or> gw_pings (browser_authorized e q t x now g) = map_set (gw_pings g) q None"
  by (auto simp: browser_authorized_def Let_def split: sum.split prod.split)

lemma pings_go_on:
  "same_pings g (go_on e a x now g)
    \<or> authorizes a \<and> (\<exists>q t. a = After_authorize q t \<and> gw_pings (go_on e a x now g) = map_set (gw_pings g) q None
        \<and> gw_closing (go_on e a x now g) = gw_closing g)"
  by (induction e a x now g rule: go_on.induct) (use pings_authorized in \<open>auto simp: same_pings_def\<close>)

lemma pings_sweep [simp]: "same_pings g (on_sweep e now g)"
proof -
  have "same_pings g (foldl (\<lambda>g s. await_store (C_end s r now) Ignored g) g ids)" for r ids g
    by (induction ids arbitrary: g) (auto simp: same_pings_def)
  then show ?thesis by (simp add: on_sweep_def end_expired_def same_pings_def Let_def split: prod.split)
qed

lemma pings_timeout [simp]: "same_pings g (on_auth_timeout q g)"
  by (simp add: on_auth_timeout_def same_pings_def Let_def split: option.split)

lemma pings_close:
  "same_pings g (on_close q now g) \<and> \<not> listening g q
    \<or> gw_pings (on_close q now g) = map_delete (gw_pings g) q \<and> gw_closing (on_close q now g) = gw_closing g"
  by (auto simp: on_close_def same_pings_def listening_def Let_def split: option.split prod.split)

text \<open>
  A browser is attached: its socket has a session, and no further authentication of the socket is
  under way (such a one would restart its deadline).
\<close>

definition attached :: "peer \<Rightarrow> gateway \<Rightarrow> bool" where
  "attached p g = (session_of g p \<noteq> None \<and> (\<forall>c k. Pending c (After_authorize p k) \<notin> set (gw_tasks g))
     \<and> (\<forall>x k. Answered x (After_authorize p k) \<notin> set (gw_tasks g)))"

definition silent :: "peer \<Rightarrow> rat \<Rightarrow> gateway \<Rightarrow> bool" where
  "silent p t g = (\<not> is_open g p \<or> \<not> gw_closing g \<and> map_get (gw_pings g) p = Some (Some t))"

lemma session_of_other: "(\<forall>k. a \<noteq> After_authorize p k) \<Longrightarrow> session_of (go_on e a x now g) p = session_of g p"
proof (induction e a x now g rule: go_on.induct)
  case (6 e q t expiresAt now g)
  then have "p \<noteq> q" by simp
  then have "session_of (set_socket q f g) p = session_of g p" for f and g :: gateway
    by (simp add: session_of_def set_socket_def split: option.split)
  then show ?case by (auto simp: browser_authorized_def Let_def split: sum.split prod.split)
qed (simp_all del: sweep_presence.simps)

lemma later_tasks: "session_of g p \<noteq> None \<Longrightarrow> adds (\<lambda>a. \<not> authorizes a) g (on_message e p raw now g)"
  using later_message_adds by (auto simp: on_message_def split: option.split)

lemma attached_step:
  assumes "attached p g"
  shows "attached p (gw_step e ev g)"
proof -
  have none: "\<forall>k. a \<noteq> After_authorize p k" if "Answered x a \<in> set (gw_tasks g) \<or> Pending c a \<in> set (gw_tasks g)" for x c a
    using assms that by (auto simp: attached_def)
  have "session_of (gw_step e ev g) p = session_of g p"
  proof (cases ev)
    case (Continue i now)
    have "session_of (go_on e a x now (drop_task i g)) p = session_of g p" if "nth_task g i = Some (Answered x a)" for x a
      using session_of_other [of a p e x now "drop_task i g"] none nth_task_in [OF that] by auto
    with Continue show ?thesis by (simp split: option.split task.split)
  next
    case (Connected q)
    then show ?thesis
      using assms by (auto simp: attached_def session_of_def split: option.split)
  qed (simp_all split: option.split task.split)
  moreover have "t \<notin> set (gw_tasks (gw_step e ev g))"
    if k: "t = Pending c (After_authorize p k) \<or> t = Answered x (After_authorize p k)" for t c x k
  proof
    assume t: "t \<in> set (gw_tasks (gw_step e ev g))"
    show False
      using gw_step_tasks [OF t]
  proof (elim disjE exE conjE)
    assume "t \<in> set (gw_tasks g)"
    then show ?thesis using k assms by (auto simp: attached_def)
  next
    fix q raw now c' a
    assume m: "ev = Message q raw now" "t = Pending c' a" "authorize_call e {ev} q c' a"
    show ?thesis
    proof (cases "q = p")
      case True
      then have "adds (\<lambda>a. \<not> authorizes a) g (gw_step e ev g)"
        using m(1) assms later_tasks by (simp add: attached_def)
      then show ?thesis
        using t k m(2) assms by (auto simp: adds_def attached_def)
    qed (use m k in \<open>auto simp: authorize_call_def\<close>)
  next
    fix c' a
    assume "t = Pending c' a" "\<not> authorizes a"
    then show ?thesis using k by auto
  next
    fix i c' a
    assume i: "nth_task g i = Some (Pending c' a)" "t = Answered (call_answer c' (gw_db g)) a"
    have "a \<noteq> After_authorize p k" using none [of undefined a c'] nth_task_in [OF i(1)] by blast
    then show ?thesis using i(2) k by auto
  next
    fix i c' a
    assume i: "nth_task g i = Some (Pending c' a)" "t = Answered A_threw a"
    have "a \<noteq> After_authorize p k" using none [of undefined a c'] nth_task_in [OF i(1)] by blast
    then show ?thesis using i(2) k by auto
  qed
  qed
  ultimately show ?thesis using assms by (auto simp: attached_def)
qed

lemma ping_loop_closing [simp]: "gw_closing (ping_loop fails t xs g) = gw_closing g"
  by (induction fails t xs g rule: ping_loop.induct) (simp_all add: Let_def)

lemma ping_loop_other: "p \<notin> fst ` set xs \<Longrightarrow> map_get (gw_pings (ping_loop fails t xs g)) p = map_get (gw_pings g) p"
  by (induction fails t xs g rule: ping_loop.induct) (simp_all add: Let_def)

lemma ping_loop_shut: "\<not> is_open g p \<Longrightarrow> \<not> is_open (ping_loop fails t xs g) p"
  using is_open_ping_loop by blast

text \<open>What the timer does to a browser that owes an answer, and to one that does not.\<close>

lemma ping_loop_this:
  assumes "(p, since) \<in> set xs" "distinct (map fst xs)" "map_get (gw_pings g) p = Some since"
  shows "(case since of None \<Rightarrow> False | Some t0 \<Rightarrow> 10000 \<le> t - t0) \<Longrightarrow> \<not> is_open (ping_loop fails t xs g) p"
    and "\<not> is_open (ping_loop fails t xs g) p
      \<or> map_get (gw_pings (ping_loop fails t xs g)) p = Some (Some (case since of None \<Rightarrow> t | Some t0 \<Rightarrow> t0))"
proof -
  have "((case since of None \<Rightarrow> False | Some t0 \<Rightarrow> 10000 \<le> t - t0) \<longrightarrow> \<not> is_open (ping_loop fails t xs g) p)
    \<and> (\<not> is_open (ping_loop fails t xs g) p
      \<or> map_get (gw_pings (ping_loop fails t xs g)) p = Some (Some (case since of None \<Rightarrow> t | Some t0 \<Rightarrow> t0)))"
    using assms
  proof (induction xs arbitrary: g)
    case (Cons x xs)
    obtain q s where x: "x = (q, s)" by force
    show ?case
    proof (cases "q = p")
      case True
      then have "p \<notin> fst ` set xs" "s = since" using Cons.prems x by (auto simp: rev_image_eqI)
      then show ?thesis
        using Cons.prems(3) True x ping_loop_shut
        by (auto simp: Let_def ping_loop_other split: option.splits)
    next
      case False
      then have "(p, since) \<in> set xs" "distinct (map fst xs)" using Cons.prems x by auto
      then show ?thesis
        using Cons.IH Cons.prems(3) False x by (simp add: Let_def)
    qed
  qed simp
  then show "(case since of None \<Rightarrow> False | Some t0 \<Rightarrow> 10000 \<le> t - t0) \<Longrightarrow> \<not> is_open (ping_loop fails t xs g) p"
    and "\<not> is_open (ping_loop fails t xs g) p
      \<or> map_get (gw_pings (ping_loop fails t xs g)) p = Some (Some (case since of None \<Rightarrow> t | Some t0 \<Rightarrow> t0))" by blast+
qed

definition deadlines_ok :: "gateway \<Rightarrow> bool" where
  "deadlines_ok g = map_ok (gw_pings g)"

lemma ping_loop_ok: "deadlines_ok g \<Longrightarrow> deadlines_ok (ping_loop fails t xs g)"
  by (induction fails t xs g rule: ping_loop.induct) (simp_all add: Let_def deadlines_ok_def)

lemma same_pings_ok: "same_pings g g' \<Longrightarrow> deadlines_ok g \<Longrightarrow> deadlines_ok g'"
  by (simp add: same_pings_def deadlines_ok_def)

lemma pings_step:
  assumes "\<forall>fails t. ev \<noteq> Ping_timer fails t" "ev \<noteq> Shutdown"
  shows "same_pings g (gw_step e ev g)
    \<or> (\<exists>q. ev = Pong q \<and> map_has (gw_pings g) q \<and> gw_step e ev g = g\<lparr>gw_pings := map_set (gw_pings g) q None\<rparr>)
    \<or> (\<exists>q now. ev = Closed q now \<and> listening g q \<and> gw_pings (gw_step e ev g) = map_delete (gw_pings g) q \<and> gw_closing (gw_step e ev g) = gw_closing g)
    \<or> (\<exists>i now x q t. ev = Continue i now \<and> nth_task g i = Some (Answered x (After_authorize q t))
        \<and> gw_pings (gw_step e ev g) = map_set (gw_pings g) q None \<and> gw_closing (gw_step e ev g) = gw_closing g)"
proof (cases ev)
  case (Message q raw now)
  then show ?thesis using pings_message [of g e q raw now] by (simp add: same_pings_def)
next
  case (Closed q now)
  then show ?thesis using pings_close [of g q now] by (cases "listening g q") (auto simp: same_pings_def on_close_def listening_def split: option.splits)
next
  case (Continue i now)
  show ?thesis
  proof (cases "\<exists>x a. nth_task g i = Some (Answered x a)")
    case True
    then obtain x a where i: "nth_task g i = Some (Answered x a)" by blast
    have "same_pings g (drop_task i g)" by (simp add: same_pings_def)
    then show ?thesis
      using pings_go_on [of "drop_task i g" e a x now] i Continue by (auto simp: same_pings_def)
  qed (use Continue in \<open>simp add: same_pings_def split: option.split task.split\<close>)
qed (use assms pings_timeout pings_sweep in \<open>auto simp: same_pings_def on_pong_def split: option.split task.split\<close>)

lemma deadlines_step: "deadlines_ok g \<Longrightarrow> deadlines_ok (gw_step e ev g)"
proof -
  assume ok: "deadlines_ok g"
  show ?thesis
  proof (cases "(\<exists>fails t. ev = Ping_timer fails t) \<or> ev = Shutdown")
    case True
    have many: "gw_pings (foldl (\<lambda>g p. gw_close p c r g) h ps) = gw_pings h" for c r h and ps :: "peer list"
      by (induction ps arbitrary: h) simp_all
    show ?thesis
      using True ok ping_loop_ok by (auto simp: on_ping_timer_def closeGatewaySockets_def many deadlines_ok_def Let_def)
  next
    case False
    then show ?thesis
      using pings_step [of ev g e] ok same_pings_ok by (auto simp: deadlines_ok_def)
  qed
qed

lemma silent_step:
  assumes "silent p t g" "attached p g" "ev \<noteq> Pong p" "deadlines_ok g"
  shows "silent p t (gw_step e ev g)"
proof (cases "is_open (gw_step e ev g) p")
  case True
  have "ev \<noteq> Connected p \<or> gw_step e ev g = g"
    using assms(2) by (auto simp: attached_def session_of_def split: option.splits)
  then have "is_open g p" using True is_open_step by metis
  then have here: "\<not> gw_closing g" "map_get (gw_pings g) p = Some (Some t)" using assms(1) by (simp_all add: silent_def)
  show ?thesis
  proof (cases "(\<exists>fails t. ev = Ping_timer fails t) \<or> ev = Shutdown")
    case t: True
    then show ?thesis
    proof (elim disjE exE)
      fix fails t'
      assume ev: "ev = Ping_timer fails t'"
      have "(p, Some t) \<in> set (gw_pings g)" "distinct (map fst (gw_pings g))"
        using here(2) assms(4) by (simp_all add: deadlines_ok_def map_get_mem map_ok_def map_keys_def)
      from ping_loop_this(2) [OF this here(2), of fails t'] show ?thesis
        using ev here True by (simp add: silent_def on_ping_timer_def)
    next
      assume "ev = Shutdown"
      then show ?thesis using True is_open_shutdown [of g p] here by simp
    qed
  next
    case False
    then show ?thesis
      using pings_step [of ev g e] here assms(2,3) True
      by (auto simp: silent_def same_pings_def attached_def dest!: nth_task_in) (metis is_open_on_close)
  qed
qed (simp add: silent_def)

lemma silent_run:
  assumes "silent p t g" "attached p g" "deadlines_ok g" "Pong p \<notin> set evs"
  shows "silent p t (gw_run e evs g) \<and> deadlines_ok (gw_run e evs g)"
  using assms
proof (induction evs arbitrary: g)
  case (Cons ev evs)
  then show ?case
    using silent_step [of p t g ev e] attached_step [of p g e ev] deadlines_step [of g e ev] by auto
qed simp

lemma deadlines_run: "deadlines_ok g \<Longrightarrow> deadlines_ok (gw_run e evs g)"
  by (induction evs arbitrary: g) (simp_all add: deadlines_step)

lemma deadlines_start: "deadlines_ok (start_gateway db)"
  by (simp add: deadlines_ok_def start_gateway_def)

lemma timer_keeps_attached: "attached p g \<Longrightarrow> attached p (gw_step e (Ping_timer fails t) g)"
  by (rule attached_step)

lemma ping_starts_deadline:
  assumes "deadlines_ok g" "\<not> gw_closing g" "map_get (gw_pings g) p = Some None"
  shows "silent p t (gw_step e (Ping_timer fails t) g)"
proof -
  have "(p, None) \<in> set (gw_pings g)" "distinct (map fst (gw_pings g))"
    using assms(1,3) by (simp_all add: deadlines_ok_def map_get_mem map_ok_def map_keys_def)
  from ping_loop_this(2) [OF this assms(3), of fails t] show ?thesis
    using assms(2) by (simp add: silent_def on_ping_timer_def)
qed

lemma deadline_passes:
  assumes "deadlines_ok g" "silent p t g" "10000 \<le> t' - t"
  shows "\<not> is_open (gw_step e (Ping_timer fails t') g) p"
proof (cases "is_open g p")
  case True
  then have here: "\<not> gw_closing g" "map_get (gw_pings g) p = Some (Some t)" using assms(2) by (simp_all add: silent_def)
  then have "(p, Some t) \<in> set (gw_pings g)" "distinct (map fst (gw_pings g))"
    using assms(1) by (simp_all add: deadlines_ok_def map_get_mem map_ok_def map_keys_def)
  from ping_loop_this(1) [OF this here(2), of t' fails] show ?thesis
    using here(1) assms(3) by (simp add: on_ping_timer_def)
next
  case False
  then show ?thesis using is_open_step [of e "Ping_timer fails t'" g p] by auto
qed

subsection \<open>A sample run\<close>

text \<open>A device and a browser authenticate; the libraries are constants that fit.\<close>

definition demo_ticket :: ticket where
  "demo_ticket = \<lparr>bt_aud = ''rcmania-gateway'', bt_sub = ''alice'', bt_role = ''user'', bt_carId = ''car'',
     bt_sessionId = ''s1'', bt_iat = js_int 0, bt_exp = js_int 120\<rparr>"

definition demo_env :: gateway_env where
  "demo_env = \<lparr>ge_config = \<lparr>gc_host = ''h'', gc_port = 1, gc_publicGatewayUrl = ''u'', gc_deviceAuthPepper = ''pepper'',
       gc_browserTicketSecret = ''secret'', gc_authTimeoutMs = 5000, gc_staleAfterMs = 15000, gc_viewerCapacity = 1, gc_viewerOrigin = ''o'',
       gc_iceServerTemplates = [], gc_turnSharedSecret = None, gc_turnCredentialTtlSeconds = 600\<rparr>,
     ge_platform = \<lparr>pf_number = (\<lambda>s. js_int 0), pf_parse = (\<lambda>s. Some (ticket_json demo_ticket)), pf_url = (\<lambda>s. None),
       pf_read = (\<lambda>s. None), pf_hmac1 = (\<lambda>k s. [])\<rparr>,
     ge_hmac256 = (\<lambda>k s. ''QUJD''), ge_uuid = (\<lambda>s. True)\<rparr>"

definition demo_db :: fleet_db where
  "demo_db = \<lparr>db_sites = [],
     db_cars = [\<lparr>cr_id = ''car'', cr_siteId = ''site'', cr_slug = ''car'', cr_name = ''Car'', cr_state = RESERVED,
       cr_batteryPercent = None, cr_adminBlocked = False, cr_steeringTrimPercent = 0, cr_updatedAt = 0\<rparr>],
     db_devices = [\<lparr>dv_id = ''dev'', dv_carId = Some ''car'', dv_siteId = ''site'', dv_kind = ''pi'', dv_serialNumber = ''sn'',
       dv_state = AVAILABLE, dv_lastSeenAt = Some 0, dv_metadata = JObj [], dv_agentVersion = None, dv_health = None,
       dv_connectedAt = None, dv_updatedAt = 0\<rparr>],
     db_firmware = [], db_jobs = [], db_tokens = [],
     db_credentials = [\<lparr>dk_id = ''k'', dk_deviceId = ''dev'', dk_secretHash = ''QUJD'', dk_status = ''active'', dk_revokedAt = None,
       dk_lastAuthenticatedAt = None, dk_updatedAt = 0\<rparr>],
     db_queue = [\<lparr>qe_id = ''e1'', qe_userId = ''alice'', qe_status = Q_accepted, qe_joinedAt = 0, qe_expiresAt = 1000, qe_updatedAt = 0\<rparr>],
     db_drives = [\<lparr>ds_id = ''s1'', ds_userId = ''alice'', ds_carId = ''car'', ds_queueEntryId = Some ''e1'', ds_status = D_created,
       ds_expiresAt = 300000, ds_startedAt = None, ds_endedAt = None, ds_createdAt = 0, ds_updatedAt = 0\<rparr>]\<rparr>"

definition demo_device :: "json option" where
  "demo_device = Some (client_json (DeviceAuthenticate ''dev'' ''00000000001111111111222222222233'' ''1'' None))"

definition demo_browser :: "json option" where
  "demo_browser = Some (client_json (BrowserAuthenticate ''AAAAAAAAAABBBBBBBBBBCCCCCCCC.QUJD''))"

definition demo_start :: "gw_event list" where
  "demo_start = [Connected 1, Message 1 demo_device 1000, Perform 0, Continue 0 1000,
     Connected 2, Message 2 demo_browser 2000, Perform 0, Continue 0 2000]"

definition demo :: gateway where
  "demo = gw_run demo_env demo_start (start_gateway demo_db)"

lemma demo_inv: "fleet_inv demo_db"
  by (simp add: fleet_inv_def demo_db_def drives_ok_def cars_ok_def accepted_ok_def open_drives_def queue_ok_def live_entry_def open_drive_def driven_by_def)

lemma demo_events_ok: "list_all event_ok demo_start"
  by (simp add: demo_start_def)

lemma listening_frame [simp]:
  "listening (g\<lparr>gw_db := a\<rparr>) p = listening g p" "listening (g\<lparr>gw_registry := b\<rparr>) p = listening g p"
  "listening (g\<lparr>gw_devices := d\<rparr>) p = listening g p" "listening (g\<lparr>gw_tasks := h\<rparr>) p = listening g p"
  "listening (g\<lparr>gw_log := i\<rparr>) p = listening g p"
  by (simp_all add: listening_def)

lemma listening_set: "(\<And>s. sk_gone (f s) = sk_gone s) \<Longrightarrow> listening (set_socket q f g) p = listening g p"
  by (simp add: listening_def set_socket_def split: option.split)

lemma listening_steps [simp]:
  "listening (gw_send q m g) p = listening g p" "listening (gw_close q c r g) p = listening g p"
  "listening (gw_terminate q g) p = listening g p" "listening (disarm q g) p = listening g p"
  "listening (await_store c' a g) p = listening g p" "listening (drop_task i g) p = listening g p"
  "listening (set_socket q (\<lambda>s. s\<lparr>sk_device := d\<rparr>) g) p = listening g p"
  by (simp_all add: gw_send_def gw_close_def gw_terminate_def disarm_def await_store_def drop_task_def listening_set)

lemma listening_effects [simp]: "listening (gw_effects es g) p = listening g p"
proof (induction es arbitrary: g)
  case (Cons x es)
  then show ?case by (cases x) simp_all
qed simp

lemma device_authenticated_listening [simp]: "listening (device_authenticated q d now g) p = listening g p"
  by (simp add: device_authenticated_def offerPendingUpdate_def Let_def split: option.split prod.split)

lemma devices_steps [simp]:
  "gw_devices (gw_send q m g) = gw_devices g" "gw_devices (gw_close q c r g) = gw_devices g"
  "gw_devices (set_socket q f g) = gw_devices g" "gw_devices (disarm q g) = gw_devices g"
  "gw_devices (await_store c' a g) = gw_devices g" "gw_devices (offerPendingUpdate d q now g) = gw_devices g"
proof -
  show set: "gw_devices (set_socket q f g) = gw_devices g" for q f g by (simp add: set_socket_def split: option.split)
  show "gw_devices (gw_send q m g) = gw_devices g" "gw_devices (gw_close q c r g) = gw_devices g" "gw_devices (disarm q g) = gw_devices g"
    by (simp_all add: gw_send_def gw_close_def disarm_def set)
  show await: "gw_devices (await_store c' a g) = gw_devices g" for c' a by (simp add: await_store_def)
  show "gw_devices (offerPendingUpdate d q now g) = gw_devices g" by (simp add: offerPendingUpdate_def await split: option.split)
qed

lemma device_authenticated_stands:
  "map_get (gw_devices (device_authenticated p d now g)) (ad_deviceId d) = Some p"
  "map_get (sr_devicesByCar (gw_registry (device_authenticated p d now g))) (ad_carId d) = Some \<lparr>cn_deviceId = ad_deviceId d, cn_peer = p\<rparr>"
  by (simp_all add: device_authenticated_def attachDevice_def Let_def split: option.split prod.split)

lemma device_of_set: "(\<And>s. sk_device (f s) = sk_device s) \<Longrightarrow> device_of (set_socket q f g) p = device_of g p"
  by (simp add: device_of_def set_socket_def split: option.split)

lemma device_of_frame [simp]:
  "device_of (g\<lparr>gw_db := a\<rparr>) p = device_of g p" "device_of (g\<lparr>gw_registry := b\<rparr>) p = device_of g p"
  "device_of (g\<lparr>gw_devices := d\<rparr>) p = device_of g p" "device_of (g\<lparr>gw_tasks := h\<rparr>) p = device_of g p"
  "device_of (g\<lparr>gw_log := i\<rparr>) p = device_of g p"
  by (simp_all add: device_of_def)

lemma device_of_steps [simp]:
  "device_of (gw_send q m g) p = device_of g p" "device_of (gw_close q c r g) p = device_of g p"
  "device_of (disarm q g) p = device_of g p" "device_of (await_store c' a g) p = device_of g p"
  "device_of (offerPendingUpdate d q now g) p = device_of g p"
  by (simp_all add: gw_send_def gw_close_def disarm_def await_store_def offerPendingUpdate_def device_of_set split: option.split)

lemma device_authenticated_device:
  "map_get (gw_sockets g) p \<noteq> None \<Longrightarrow> device_of (device_authenticated p d now g) p = Some d"
proof -
  assume "map_get (gw_sockets g) p \<noteq> None"
  then have "device_of (set_socket p (\<lambda>s. s\<lparr>sk_device := Some d\<rparr>) g) p = Some d"
    by (auto simp: device_of_def set_socket_def)
  then show ?thesis by (simp add: device_authenticated_def attachDevice_def Let_def split: option.split)
qed

lemma enrolled_credential:
  assumes "consumeEnrollment db i d k = (Inr (Some (d', c)), db')" "c \<noteq> []"
  shows "d' = d \<and> fst (authenticateDevice db' d (ei_secretHash i) v caps now)
      = Some \<lparr>ad_deviceId = d, ad_carId = c, ad_agentVersion = v, ad_capabilities = caps\<rparr>"
proof -
  obtain token car where t: "first_row (returning (open_token i) (\<lambda>t. t\<lparr>et_consumedAt := Some (ei_now i)\<rparr>) (db_tokens db)) = Some token"
      "List.find (\<lambda>c. cr_id c = et_carId token) (db_cars db) = Some car"
    using assms(1) by (auto simp: consumeEnrollment_def split: option.splits)
  let ?P = "\<lambda>k'. active_credential d k'"
  have other: "\<not> list_ex (\<lambda>d'. dv_id d' = d \<or> dv_serialNumber d' = ei_serialNumber i) (db_devices db)"
      "\<not> list_ex (\<lambda>k'. dk_id k' = k \<or> dk_secretHash k' = ei_secretHash i
        \<or> (dk_deviceId k' = d \<and> dk_status k' = ''active'' \<and> dk_revokedAt k' = None)) (db_credentials db)"
    using assms(1) t by (auto simp: consumeEnrollment_def Let_def split: if_splits)
  obtain dev cred where new: "d' = d" "db_devices db' = db_devices db @ [dev]" "db_credentials db' = db_credentials db @ [cred]"
      "dv_id dev = d" "dv_carId dev = Some c" "active_credential d cred" "dk_deviceId cred = d" "dk_secretHash cred = ei_secretHash i"
    using assms(1) t other by (auto simp: consumeEnrollment_def Let_def active_credential_def)
  have "\<not> active_credential d k'" if "k' \<in> set (db_credentials db)" for k'
    using other(2) that by (auto simp: list_ex_iff active_credential_def)
  then have old: "concat (map (\<lambda>k'. if active_credential d k' then f k' else []) (db_credentials db)) = []" for f :: "credential_row \<Rightarrow> 'a list"
    by (simp add: concat_eq_Nil_conv)
  have devs: "concat (map (\<lambda>d'. if dv_id d' = d then f d' else []) (db_devices db)) = []" for f :: "device_row \<Rightarrow> 'b list"
    using other(1) by (auto simp: concat_eq_Nil_conv list_ex_iff)
  have "concat (map (\<lambda>k. if active_credential d k
      then concat (map (\<lambda>d'. if dv_id d' = dk_deviceId k then [(k, d')] else []) (db_devices db')) else []) (db_credentials db')) = [(cred, dev)]"
    by (simp add: new devs old del: concat_eq_Nil_conv)
  then show ?thesis
    using assms(2) by (simp add: authenticateDevice_def safeDigestEqual_def new(1,4-8))
qed

lemma post_enroll_Enrolled:
  "post_enroll e random body now deviceId credentialId db = (Enrolled d c secret url, db') \<Longrightarrow>
   \<exists>input. consumeEnrollment db input deviceId credentialId = (Inr (Some (d, c)), db')
     \<and> hashOpaqueSecret (ge_hmac256 e) secret (gc_deviceAuthPepper (ge_config e)) = Inr (ei_secretHash input)"
  by (auto simp: post_enroll_def split: option.splits sum.splits prod.splits)

lemma on_close_gone: "\<not> listening g p \<Longrightarrow> on_close p now g = g"
  by (simp add: on_close_def listening_def split: option.splits)

section \<open>Properties\<close>

text \<open>What a socket's handler of messages makes of a value that carries a relayed message.\<close>

lemma browser_relays:
  assumes "listening g b" "device_of g b = None" "session_of g b = Some s"
    and "GatewayClientMessageSchema (ge_uuid e) j = Some (Relay m)"
  shows "gw_step e (Message b (Some j) now) g = relay_browser b s m now g"
  using assms by (simp add: on_message_def later_message_def)

lemma device_relays:
  assumes "listening g p" "device_of g p = Some d"
    and "GatewayClientMessageSchema (ge_uuid e) j = Some (Relay m)"
  shows "gw_step e (Message p (Some j) now) g = relay_device p d m now g"
  using assms by (simp add: on_message_def later_message_def split: option.split)

lemma forwarded:
  assumes "\<nexists>s' reason. m = SessionEnd s' reason"
  shows "map_get (sr_sessions (gw_registry g)) s = Some a \<Longrightarrow> relay_sessionId m = s \<Longrightarrow> \<not> is_answer m \<Longrightarrow> is_open g (as_device a) \<Longrightarrow>
      relay_browser b s m now g = g\<lparr>gw_log := gw_log g @ [Send (as_device a) (Relayed m)]\<rparr>"
    and "session_of_car (gw_registry g) (ad_carId d) = Some (s, a) \<Longrightarrow> relay_sessionId m = s \<Longrightarrow> \<not> is_offer m \<Longrightarrow> is_open g (as_browser a) \<Longrightarrow>
      relay_device p d m now g = g\<lparr>gw_log := gw_log g @ [Send (as_browser a) (Relayed m)]\<rparr>"
proof -
  have plain: "end_if_ended r s m = ([], r)" "end_after_relay q m now h = h" for r s q h
    using assms by (cases m; simp add: end_if_ended_def end_after_relay_def)+
  have opens: "is_open (g\<lparr>gw_registry := r\<rparr>) q = is_open g q" for r q by (simp add: is_open_def)
  show "map_get (sr_sessions (gw_registry g)) s = Some a \<Longrightarrow> relay_sessionId m = s \<Longrightarrow> \<not> is_answer m \<Longrightarrow> is_open g (as_device a) \<Longrightarrow>
      relay_browser b s m now g = g\<lparr>gw_log := gw_log g @ [Send (as_device a) (Relayed m)]\<rparr>"
    by (simp add: relay_browser_def relayFromBrowser_def plain gw_send_def opens Let_def)
  show "session_of_car (gw_registry g) (ad_carId d) = Some (s, a) \<Longrightarrow> relay_sessionId m = s \<Longrightarrow> \<not> is_offer m \<Longrightarrow> is_open g (as_browser a) \<Longrightarrow>
      relay_device p d m now g = g\<lparr>gw_log := gw_log g @ [Send (as_browser a) (Relayed m)]\<rparr>"
    by (simp add: relay_device_def relayFromDevice_def plain gw_send_def opens Let_def)
qed

text \<open>The browser and the device of a session are there and each is authenticated as what it is.\<close>

definition both_there :: "gateway \<Rightarrow> ident \<Rightarrow> active_session \<Rightarrow> bool" where
  "both_there g s a = (map_get (sr_sessions (gw_registry g)) s = Some a
     \<and> listening g (as_browser a) \<and> is_open g (as_browser a) \<and> device_of g (as_browser a) = None \<and> session_of g (as_browser a) = Some s
     \<and> listening g (as_device a) \<and> is_open g (as_device a)
     \<and> (case device_of g (as_device a) of None \<Rightarrow> False | Some d \<Rightarrow> ad_carId d = bs_carId a))"

lemma both_there_car:
  assumes "both_there g s a" "registry_ok (gw_registry g)"
  shows "session_of_car (gw_registry g) (bs_carId a) = Some (s, a)"
proof -
  have "s \<noteq> []" using assms(1) by (auto simp: both_there_def session_of_def split: option.splits elim: truthy.elims)
  then show ?thesis using assms by (auto simp: both_there_def registry_ok_def session_of_car_def)
qed

text \<open>
  Property C3: signalling gets through. In every reachable state in which the browser and the device
  of a session are both there, the offer and the candidates the browser writes are sent to the
  device, and any value that carries an answer or candidates of the device is sent to the browser:
  that message and nothing else, to nobody else, and nothing else changes. The end the browser
  writes is sent to both, the registry forgets the session and the end of the drive is handed to
  the store.
\<close>

theorem signalling_passes_through:
  assumes "list_all event_ok evs" "g = gw_run e evs (start_gateway db)" "both_there g s a" "ge_uuid e s"
  shows "(len_ok 1 1000000 sdp \<longrightarrow> gw_step e (Message (as_browser a) (Some (browser_offer s sdp)) now) g
        = g\<lparr>gw_log := gw_log g @ [Send (as_device a) (Relayed (SignalOffer s sdp))]\<rparr>)
    \<and> (len_ok 0 4096 candidate \<and> pred_option (len_ok 0 256) mid \<and> pred_option (int_ok 0 128) line \<longrightarrow>
        gw_step e (Message (as_browser a) (Some (browser_candidate s candidate mid line)) now) g
        = g\<lparr>gw_log := gw_log g @ [Send (as_device a) (Relayed (SignalIce s (Some candidate) mid line))]\<rparr>)
    \<and> (relay_ok (ge_uuid e) m \<and> carries_relay m j \<and> (m = SignalAnswer s sdp \<or> m = SignalIce s c mid line) \<longrightarrow>
        gw_step e (Message (as_device a) (Some j) now) g = g\<lparr>gw_log := gw_log g @ [Send (as_browser a) (Relayed m)]\<rparr>)
    \<and> (len_ok 1 256 reason \<longrightarrow> (let g' = gw_step e (Message (as_browser a) (Some (browser_end s reason)) now) g in
        gw_log g' = gw_log g @ [Send (as_device a) (Relayed (SessionEnd s reason)), Send (as_browser a) (Relayed (SessionEnd s reason))]
        \<and> \<not> hasSession (gw_registry g') s \<and> \<not> hasActiveCar (gw_registry g') (bs_carId a)
        \<and> gw_tasks g' = gw_tasks g @ [Pending (C_end s reason now) (After_end (as_browser a))]))"
proof (intro conjI impI)
  have reg: "registry_ok (gw_registry g)"
    using gw_run_parts [OF assms(1), of e "start_gateway db"] registry_ok_run [OF registry_ok_new]
    unfolding assms(2) reg_ran_def by (auto simp: start_gateway_def)
  note there = assms(3) [unfolded both_there_def]
  note parsed = browser_parsed(3-5) [where uuid = "ge_uuid e" and s = s, OF assms(4)]
  note relays = browser_relays [where e = e and now = now, of g "as_browser a" s]
  show "gw_step e (Message (as_browser a) (Some (browser_offer s sdp)) now) g
        = g\<lparr>gw_log := gw_log g @ [Send (as_device a) (Relayed (SignalOffer s sdp))]\<rparr>" if "len_ok 1 1000000 sdp"
    using relays [OF _ _ _ parsed(1) [OF that]] forwarded(1) [of "SignalOffer s sdp" g s a] there by simp
  show "gw_step e (Message (as_browser a) (Some (browser_candidate s candidate mid line)) now) g
        = g\<lparr>gw_log := gw_log g @ [Send (as_device a) (Relayed (SignalIce s (Some candidate) mid line))]\<rparr>"
    if "len_ok 0 4096 candidate \<and> pred_option (len_ok 0 256) mid \<and> pred_option (int_ok 0 128) line"
    using relays [OF _ _ _ parsed(2), of candidate mid line] that
      forwarded(1) [of "SignalIce s (Some candidate) mid line" g s a] there by simp
  show "gw_step e (Message (as_device a) (Some j) now) g = g\<lparr>gw_log := gw_log g @ [Send (as_browser a) (Relayed m)]\<rparr>"
    if m: "relay_ok (ge_uuid e) m \<and> carries_relay m j \<and> (m = SignalAnswer s sdp \<or> m = SignalIce s c mid line)"
  proof -
    have parsed: "GatewayClientMessageSchema (ge_uuid e) j = Some (Relay m)" using m by (simp only: client_exact client_ok.simps carries.simps)
    obtain d where d: "device_of g (as_device a) = Some d" "ad_carId d = bs_carId a" using there by (auto split: option.splits)
    show ?thesis
      using device_relays [OF _ d(1) parsed, of now] forwarded(2) [of m g d s a "as_device a" now] m there both_there_car [OF assms(3) reg] d
      by auto
  qed
  show "let g' = gw_step e (Message (as_browser a) (Some (browser_end s reason)) now) g in
        gw_log g' = gw_log g @ [Send (as_device a) (Relayed (SessionEnd s reason)), Send (as_browser a) (Relayed (SessionEnd s reason))]
        \<and> \<not> hasSession (gw_registry g') s \<and> \<not> hasActiveCar (gw_registry g') (bs_carId a)
        \<and> gw_tasks g' = gw_tasks g @ [Pending (C_end s reason now) (After_end (as_browser a))]" if "len_ok 1 256 reason"
    using relays [OF _ _ _ parsed(3) [OF that]] there
    by (simp add: relay_browser_def relayFromBrowser_def end_if_ended_def session_end_def gw_send_def is_open_def Let_def
        end_after_relay_def await_store_def hasSession_def hasActiveCar_def)
qed

theorem signalling_passes_through_witness:
  "gw_log (gw_step demo_env (Message 2 (Some (browser_offer ''s1'' ''sdp'')) 3000) demo) = gw_log demo @ [Send 1 (Relayed (SignalOffer ''s1'' ''sdp''))]"
proof -
  have "(case map_get (sr_sessions (gw_registry demo)) ''s1'' of None \<Rightarrow> False | Some a \<Rightarrow> both_there demo ''s1'' a \<and> as_browser a = 2 \<and> as_device a = 1)"
    by code_simp
  then obtain a where a: "both_there demo ''s1'' a" "as_browser a = 2" "as_device a = 1" by (auto split: option.splits)
  have "ge_uuid demo_env ''s1''" "len_ok 1 1000000 ''sdp''" by (simp_all add: demo_env_def len_ok_def)
  with signalling_passes_through [OF demo_events_ok demo_def a(1)] a show ?thesis by simp
qed

text \<open>
  Property C5: every session of the registry was opened with a ticket. In every reachable state of
  the gateway a session belongs to a drive of the tables with the same user, car and expiry,
  and among the messages received so far is one, from the very socket the session's browser is,
  that carried a ticket for that session, user and car, whose signature and times were right
  when it arrived.
\<close>

theorem registry_sessions_have_tickets:
  assumes "fleet_inv db" "list_all event_ok evs"
    and "map_get (sr_sessions (gw_registry (gw_run e evs (start_gateway db)))) s = Some a"
  shows "bs_sessionId a = s
    \<and> (\<exists>r \<in> set (db_drives (gw_db (gw_run e evs (start_gateway db)))).
        ds_id r = s \<and> ds_userId r = bs_userId a \<and> ds_carId r = bs_carId a \<and> ds_expiresAt r = bs_expiresAt a)
    \<and> (\<exists>raw now text t. Message (as_browser a) raw now \<in> set evs
        \<and> Option.bind raw (GatewayClientMessageSchema (ge_uuid e)) = Some (BrowserAuthenticate text)
        \<and> verifyBrowserTicket (ge_hmac256 e) (pf_parse (ge_platform e)) text
            (gc_browserTicketSecret (ge_config e)) (now div 1000) = Inr t
        \<and> bt_sessionId t = s \<and> bt_sub t = bs_userId a \<and> bt_carId t = bs_carId a)"
proof -
  have "gw_ok e ({} \<union> set evs) (gw_run e evs (start_gateway db))"
    by (rule gw_ok_run [OF gw_ok_start [OF assms(1)] assms(2)])
  with assms(3) have ok: "session_ok e (set evs) (gw_db (gw_run e evs (start_gateway db))) s a"
    by (simp add: gw_ok_def)
  then obtain raw now t where t: "Message (as_browser a) raw now \<in> set evs" "presents e raw now t"
      "bt_sessionId t = s" "bt_sub t = bs_userId a" "bt_carId t = bs_carId a"
    by (auto simp: session_ok_def shown_def)
  from t(2) show ?thesis
  proof (rule presents_text)
    fix body
    assume "Option.bind raw (GatewayClientMessageSchema (ge_uuid e)) = Some (BrowserAuthenticate body)"
      "verifyBrowserTicket (ge_hmac256 e) (pf_parse (ge_platform e)) body (gc_browserTicketSecret (ge_config e)) (now div 1000) = Inr t"
    then show ?thesis using ok t unfolding session_ok_def has_row_def drive_of_def by auto
  qed
qed

theorem registry_sessions_have_tickets_witness:
  "\<exists>a. map_get (sr_sessions (gw_registry demo)) ''s1'' = Some a \<and> bs_userId a = ''alice''
     \<and> (\<exists>r \<in> set (db_drives (gw_db demo)). ds_id r = ''s1'' \<and> ds_expiresAt r = bs_expiresAt a)
     \<and> (\<exists>raw now. Message (as_browser a) raw now \<in> set demo_start)"
proof -
  have "(case map_get (sr_sessions (gw_registry demo)) ''s1'' of None \<Rightarrow> False | Some a \<Rightarrow> bs_userId a = ''alice'')" by code_simp
  then obtain a where a: "map_get (sr_sessions (gw_registry demo)) ''s1'' = Some a" "bs_userId a = ''alice''"
    by (auto split: option.splits)
  then show ?thesis
    using registry_sessions_have_tickets [OF demo_inv demo_events_ok, of demo_env "''s1''" a] unfolding demo_def
    by blast
qed

text \<open>
  Property C10: a browser that answered every ping so far is cut off when it stays silent: if the
  timer sends it a ping and it sends no pong, whatever else happens (messages of its own
  included), it is not connected any more after a timer that fires ten seconds later, unless
  an authentication of the same socket was still under way.
\<close>

theorem silent_browser_is_cut_off:
  assumes "attached p (gw_run e evs (start_gateway db))" "\<not> gw_closing (gw_run e evs (start_gateway db))"
    and "map_get (gw_pings (gw_run e evs (start_gateway db))) p = Some None"
    and "Pong p \<notin> set later" "10000 \<le> t' - t"
  shows "\<not> is_open (gw_run e (evs @ [Ping_timer fails t] @ later @ [Ping_timer fails' t']) (start_gateway db)) p"
proof -
  let ?g = "gw_run e evs (start_gateway db)"
  let ?h = "gw_step e (Ping_timer fails t) ?g"
  have ok: "deadlines_ok ?g" by (rule deadlines_run [OF deadlines_start])
  have "silent p t (gw_run e later ?h) \<and> deadlines_ok (gw_run e later ?h)"
    by (intro silent_run ping_starts_deadline attached_step deadlines_step ok assms)
  then show ?thesis
    using deadline_passes [of "gw_run e later ?h" p t t' e fails'] assms(5) by (simp add: gw_run_append)
qed

theorem silent_browser_is_cut_off_witness:
  "is_open demo 2 \<and> \<not> is_open (gw_run demo_env (demo_start @ [Ping_timer [] 5] @ [Ping_timer [] 5005] @ [Ping_timer [] 10005]) (start_gateway demo_db)) 2"
proof
  show "is_open demo 2" by code_simp
  have none: "gw_tasks demo = []" and here: "session_of demo 2 \<noteq> None" by code_simp+
  have "attached 2 demo" unfolding attached_def none using here by simp
  moreover have "\<not> gw_closing demo" "map_get (gw_pings demo) 2 = Some None" by code_simp+
  ultimately show "\<not> is_open (gw_run demo_env (demo_start @ [Ping_timer [] 5] @ [Ping_timer [] 5005] @ [Ping_timer [] 10005]) (start_gateway demo_db)) 2"
    using silent_browser_is_cut_off [of 2 demo_env demo_start demo_db "[Ping_timer [] 5005]" 10005 5 "[]" "[]"]
    unfolding demo_def by simp
qed

text \<open>
  Property C4: when the socket of a browser closes, or that of the device of a car in use, its
  drive ends: whatever order the pending calls are performed in and whatever the web
  application does in between, if no call of the store fails and every event that is chosen while
  calls are pending performs or finishes one, then a moment comes when nothing is pending and
  the drive is not open, nor will it be again.
\<close>

theorem closed_socket_ends_drive:
  assumes "fleet_inv db" "list_all event_ok evs"
    and "g = gw_run e evs (start_gateway db)" "listening g p" "responsible g p s"
    and "\<And>h. gw_tasks h \<noteq> [] \<Longrightarrow> effective (pick h) h" "\<And>h. event_ok (pick h)" "\<And>h i. pick h \<noteq> Store_fails i"
  shows "\<exists>n. gw_tasks (scheduled e pick n (gw_step e (Closed p now) g)) = []
    \<and> \<not> (\<exists>r \<in> set (db_drives (gw_db (scheduled e pick n (gw_step e (Closed p now) g)))). ds_id r = s \<and> open_drive r)"
proof -
  have ok: "gw_ok e UNIV g" using gw_ok_run [OF gw_ok_start [OF assms(1)] assms(2), of e UNIV] assms(3) by simp
  have "registry_ok (gw_registry g)"
    using gw_run_parts [OF assms(2), of e "start_gateway db"] registry_ok_run [OF registry_ok_new]
    unfolding assms(3) reg_ran_def by (auto simp: start_gateway_def)
  from closing_starts [OF ok this assms(4,5)]
  have start: "s \<in> ds_id ` set (db_drives (gw_db g))" "ending s (gw_step e (Closed p now) g)" by blast+
  let ?h = "gw_step e (Closed p now) g"
  obtain n where n: "gw_tasks (scheduled e pick n ?h) = []"
    using scheduler_drains [of pick ?h e] assms(6) unfolding scheduled_def by blast
  have "gw_ok e UNIV ?h" "s \<in> ds_id ` set (db_drives (gw_db ?h))"
    using gw_ok_step [OF ok, of "Closed p now"] ids_step [OF ok _ start(1), of "Closed p now"] by (simp_all del: gw_step.simps add: insert_UNIV)
  from ending_scheduled [OF this start(2)] assms(7,8)
  have "gw_ok e UNIV (scheduled e pick n ?h)" "ending s (scheduled e pick n ?h)" by blast+
  then have "ended (gw_db (scheduled e pick n ?h)) s" "fleet_inv (gw_db (scheduled e pick n ?h))"
    using n by (simp_all add: ending_def gw_ok_def)
  from ended_final [OF this(2,1)] n show ?thesis by blast
qed

definition first_task :: "gateway \<Rightarrow> gw_event" where
  "first_task g = (case gw_tasks g of Answered x a # ts \<Rightarrow> Continue 0 3000 | _ \<Rightarrow> Perform 0)"

theorem closed_socket_ends_drive_witness:
  "\<exists>n. \<not> (\<exists>r \<in> set (db_drives (gw_db (scheduled demo_env first_task n (gw_step demo_env (Closed 1 3000) demo)))). ds_id r = ''s1'' \<and> open_drive r)"
proof -
  have here: "listening demo 1" by code_simp
  have "(case device_of demo 1 of None \<Rightarrow> False
    | Some d \<Rightarrow> map_get (gw_devices demo) (ad_deviceId d) = Some 1
        \<and> (case map_get (sr_devicesByCar (gw_registry demo)) (ad_carId d) of None \<Rightarrow> False | Some c \<Rightarrow> cn_peer c = 1)
        \<and> map_get (sr_sessionsByCar (gw_registry demo)) (ad_carId d) = Some ''s1'')" by code_simp
  then have resp: "responsible demo 1 ''s1''" by (auto simp: responsible_def split: option.splits)
  have pick: "effective (first_task h) h" if "gw_tasks h \<noteq> []" for h
    using that by (cases "gw_tasks h") (auto simp: first_task_def nth_task_def split: task.split)
  have others: "event_ok (first_task h)" "first_task h \<noteq> Store_fails i" for h i
    by (simp_all add: first_task_def split: list.split task.split)
  show ?thesis
    using closed_socket_ends_drive [OF demo_inv demo_events_ok demo_def here resp pick others, where now = 3000] by blast
qed

text \<open>
  what is missing after the first await of an authentication. The connection of a
  device that closes while its authentication is awaited is attached to its car all the same when
  the answer comes: its socket is closed, yet it stands as the connection of the car in the
  registry, and nothing that still happens on that socket removes it.
\<close>

theorem late_device_is_never_detached:
  assumes "listening g p" "device_of g p = None" "session_of g p = None"
    and "nth_task g i = Some (Answered (A_device (Some d)) (After_authenticate p))"
  shows "let g' = gw_run e [Closed p t1, Continue i t2, Closed p t3] g in
    \<not> is_open g' p \<and> map_get (gw_devices g') (ad_deviceId d) = Some p
    \<and> map_get (sr_devicesByCar (gw_registry g')) (ad_carId d) = Some \<lparr>cn_deviceId = ad_deviceId d, cn_peer = p\<rparr>"
proof -
  obtain k where k: "map_get (gw_sockets g) p = Some k" "\<not> sk_gone k"
    using assms(1) by (auto simp: listening_def split: option.splits)
  then have none: "sk_device k = None" "truthy (sk_session k) = None"
    using assms(2,3) by (simp_all add: device_of_def session_of_def)
  let ?h = "gw_step e (Closed p t1) g"
  have tasks: "gw_tasks ?h = gw_tasks g" and shut: "\<not> is_open ?h p"
    and gone: "map_get (gw_sockets ?h) p = Some (k\<lparr>sk_open := False, sk_gone := True, sk_armed := False\<rparr>)"
    using k none by (simp_all add: on_close_def close_browser_def session_of_def set_socket_def is_open_def)
  let ?d = "drop_task i ?h"
  have go: "gw_step e (Continue i t2) ?h = device_authenticated p d t2 ?d"
  proof -
    have "nth_task ?h i = Some (Answered (A_device (Some d)) (After_authenticate p))"
      using assms(4) tasks by (simp add: nth_task_def split: if_splits)
    then show ?thesis by simp
  qed
  have "\<not> is_open (device_authenticated p d t2 ?d) p" using shut by auto
  moreover have "\<not> listening ?h p" unfolding listening_def gone by simp
  then have "\<not> listening (device_authenticated p d t2 ?d) p" by simp
  ultimately show ?thesis
    using go device_authenticated_stands [of p d t2 ?d] by (simp add: on_close_gone)
qed

definition late :: gateway where
  "late = gw_run demo_env [Connected 1, Message 1 demo_device 1000, Perform 0] (start_gateway demo_db)"

theorem late_device_is_never_detached_witness:
  "\<not> is_open (gw_run demo_env [Closed 1 1500, Continue 0 2000, Closed 1 2500] late) 1
   \<and> map_get (gw_devices (gw_run demo_env [Closed 1 1500, Continue 0 2000, Closed 1 2500] late)) ''dev'' = Some 1"
proof -
  have here: "listening late 1" "device_of late 1 = None" "session_of late 1 = None" by code_simp+
  have "nth_task late 0 = Some (Answered (A_device (Some \<lparr>ad_deviceId = ''dev'', ad_carId = ''car'', ad_agentVersion = ''1'',
      ad_capabilities = no_capabilities\<rparr>)) (After_authenticate 1))" by code_simp
  from late_device_is_never_detached [OF here this, of demo_env 1500 2000 2500] show ?thesis
    unfolding Let_def authenticated_device.select_convs by blast
qed

text \<open>
  Property C19: the secret an enrollment answers with authenticates the new device. Right after
  the enrollment the device that shows it over a fresh connection is accepted, and stands as the
  connection of the car of the token.
\<close>

theorem enrolled_device_authenticates:
  assumes "post_enroll e random body now deviceId credentialId (gw_db g) = (Enrolled d c secret url, db')" "c \<noteq> []"
    and "listening g p" "device_of g p = None" "session_of g p = None" "gw_tasks g = []"
    and "Option.bind raw (GatewayClientMessageSchema (ge_uuid e)) = Some (DeviceAuthenticate d secret v caps)"
  shows "let g' = gw_run e [Message p raw t1, Perform 0, Continue 0 t2] (g\<lparr>gw_db := db'\<rparr>) in
    (\<exists>a. device_of g' p = Some a \<and> ad_deviceId a = d \<and> ad_carId a = c)
    \<and> map_get (gw_devices g') d = Some p
    \<and> map_get (sr_devicesByCar (gw_registry g')) c = Some \<lparr>cn_deviceId = d, cn_peer = p\<rparr>"
proof -
  obtain input where post: "consumeEnrollment (gw_db g) input deviceId credentialId = (Inr (Some (d, c)), db')"
      "hashOpaqueSecret (ge_hmac256 e) secret (gc_deviceAuthPepper (ge_config e)) = Inr (ei_secretHash input)"
    using post_enroll_Enrolled [OF assms(1)] by blast
  let ?g = "g\<lparr>gw_db := db'\<rparr>" and ?caps = "case caps of None \<Rightarrow> no_capabilities | Some k \<Rightarrow> k"
  let ?a = "\<lparr>ad_deviceId = d, ad_carId = c, ad_agentVersion = v, ad_capabilities = ?caps\<rparr>"
  have found: "fst (authenticateDevice db' d (ei_secretHash input) v ?caps t1) = Some ?a"
    using enrolled_credential [OF post(1) assms(2)] by blast
  have fresh: "listening ?g p" "device_of ?g p = None" "session_of ?g p = None"
    using assms(3-5) by simp_all
  let ?g1 = "gw_step e (Message p raw t1) ?g"
  have g1: "?g1 = ?g\<lparr>gw_tasks := [Pending (C_authenticate d (ei_secretHash input) v ?caps t1) (After_authenticate p)]\<rparr>"
    using fresh assms(6,7) post(2) by (simp add: on_message_def await_store_def)
  let ?g2 = "gw_step e (Perform 0) ?g1"
  have g2: "gw_tasks ?g2 = [Answered (A_device (Some ?a)) (After_authenticate p)]" "gw_sockets ?g2 = gw_sockets g"
    unfolding g1 using found by (simp_all add: nth_task_def answer_task_def del: fleet_step.simps)
  then have "gw_step e (Continue 0 t2) ?g2 = device_authenticated p ?a t2 (drop_task 0 ?g2)"
    by (simp add: nth_task_def del: gw_step.simps(8))
  moreover have "map_get (gw_sockets (drop_task 0 ?g2)) p \<noteq> None"
    using assms(3) by (auto simp: drop_task_def g2(2) listening_def simp del: gw_step.simps split: option.splits)
  ultimately show ?thesis
    using device_authenticated_stands [of p ?a t2 "drop_task 0 ?g2"] device_authenticated_device [of "drop_task 0 ?g2" p ?a t2]
    by (simp del: gw_step.simps)
qed

definition enroll_body :: json where
  "enroll_body = JObj [(''enrollmentCode'', JStr ''000000000011111111112222''), (''serialNumber'', JStr ''sn-2''),
     (''agentVersion'', JStr ''1''), (''capabilities'', JObj [])]"

definition enroll_random :: "nat \<Rightarrow> nat list" where
  "enroll_random n = replicate n 0"

definition enroll_env :: gateway_env where
  "enroll_env = demo_env\<lparr>ge_hmac256 := (\<lambda>k s. if s = ''000000000011111111112222'' then ''QUJE'' else ''QUJF'')\<rparr>"

definition enroll_gateway :: gateway where
  "enroll_gateway = gw_run enroll_env [Connected 1] (start_gateway (demo_db\<lparr>db_tokens := [\<lparr>et_id = ''t'', et_carId = ''car'',
     et_tokenHash = ''QUJE'', et_expiresAt = 5000, et_consumedAt = None, et_createdAt = 0\<rparr>]\<rparr>))"

abbreviation enroll_result :: "enroll_reply \<times> fleet_db" where
  "enroll_result \<equiv> post_enroll enroll_env enroll_random enroll_body 1000 ''dev2'' ''k2'' (gw_db enroll_gateway)"

definition enroll_message :: "json option" where
  "enroll_message = Some (client_json (DeviceAuthenticate ''dev2'' (replicate 43 CHR ''A'') ''1'' None))"

theorem enrolled_device_authenticates_witness:
  "map_get (gw_devices (gw_run enroll_env [Message 1 enroll_message 2000, Perform 0, Continue 0 3000]
     (enroll_gateway\<lparr>gw_db := snd enroll_result\<rparr>))) ''dev2'' = Some 1"
proof -
  have "fst enroll_result = Enrolled ''dev2'' ''car'' (replicate 43 CHR ''A'') ''u''" by code_simp
  then have post: "enroll_result = (Enrolled ''dev2'' ''car'' (replicate 43 CHR ''A'') ''u'', snd enroll_result)"
    by (metis prod.collapse)
  have here: "listening enroll_gateway 1" "device_of enroll_gateway 1 = None" "session_of enroll_gateway 1 = None"
      "gw_tasks enroll_gateway = []" by code_simp+
  have message: "Option.bind enroll_message (GatewayClientMessageSchema (ge_uuid enroll_env)) =
      Some (DeviceAuthenticate ''dev2'' (replicate 43 CHR ''A'') ''1'' None)" by code_simp
  have "''car'' \<noteq> []" by simp
  from enrolled_device_authenticates [OF post this here message, of 2000 3000] show ?thesis
    unfolding Let_def by blast
qed

end
