(* ===== verification/ViewerPresence.thy ===== *)
theory ViewerPresence
  imports SessionRegistry
begin

section \<open>The viewers of the home page\<close>

text \<open>
  \<open>apps/gateway/src/viewer-presence.ts\<close> and the lines of \<open>server.ts\<close> that use it: sockets of home pages
  are counted, every change of the count is sent to all of them, and a socket that leaves a ping
  unanswered is closed. Sets keep the order of insertion. Which sockets are open does not change
  while a handler runs; sending and pinging may throw, each call anew: the arguments say where.
  After the shutdown the library takes no more connections and the timer is off; the runs here
  allow both at any time, so what holds of them holds of the process. The lists \<open>vw_seen\<close>,
  \<open>vw_sent\<close> and \<open>vw_closed\<close> only record what happened.
\<close>

text \<open>\<open>throws n p\<close>: in the \<open>n\<close>-th round sending to \<open>p\<close> throws. Every message carries the count.\<close>

function viewer_broadcast ::
  "(peer \<Rightarrow> bool) \<Rightarrow> (nat \<Rightarrow> peer \<Rightarrow> bool) \<Rightarrow> nat \<Rightarrow> peer list \<Rightarrow> (peer \<times> nat) list \<times> peer list" where
  "viewer_broadcast opened throws n sockets =
     (let here = filter opened sockets;
          kept = filter (\<lambda>p. \<not> throws n p) here;
          sent = map (\<lambda>p. (p, length here)) kept
      in if kept = here then (sent, kept)
         else (case viewer_broadcast opened throws (Suc n) kept of (later, rest) \<Rightarrow> (sent @ later, rest)))"
  by pat_completeness auto
termination
proof (relation "measure (\<lambda>(opened, throws, n, sockets). length sockets)", goal_cases)
  case (2 opened throws n sockets here kept sent)
  have "length kept < length here"
    using 2 by (metis (no_types, lifting) filter_id_conv length_filter_less)
  also have "length here \<le> length sockets" using 2 by simp
  finally show ?case by simp
qed simp

declare viewer_broadcast.simps [simp del]

text \<open>Adding to a set.\<close>

definition set_add :: "'a \<Rightarrow> 'a list \<Rightarrow> 'a list" where
  "set_add x xs = (if x \<in> set xs then xs else xs @ [x])"

record viewers =
  vw_sockets :: "peer list"
  vw_alive :: "peer list"
  vw_counted :: "peer list"
  vw_detached :: "peer list"
  vw_open :: "peer list"
  vw_seen :: "peer list"
  vw_sent :: "(peer \<times> nat) list"
  vw_closed :: "(peer \<times> int) list"

definition no_viewers :: viewers where
  "no_viewers = \<lparr>vw_sockets = [], vw_alive = [], vw_counted = [], vw_detached = [], vw_open = [], vw_seen = [], vw_sent = [], vw_closed = []\<rparr>"

definition viewer_count :: "viewers \<Rightarrow> nat" where
  "viewer_count v = length (vw_counted v)"

definition broadcast_count :: "(nat \<Rightarrow> peer \<Rightarrow> bool) \<Rightarrow> viewers \<Rightarrow> viewers" where
  "broadcast_count throws v =
     (case viewer_broadcast (\<lambda>p. p \<in> set (vw_open v)) throws 0 (vw_counted v) of
        (sent, counted) \<Rightarrow> v\<lparr>vw_counted := counted, vw_sent := vw_sent v @ sent\<rparr>)"

definition viewer_attach :: "(nat \<Rightarrow> peer \<Rightarrow> bool) \<Rightarrow> peer \<Rightarrow> viewers \<Rightarrow> viewers" where
  "viewer_attach throws p v =
     (if p \<notin> set (vw_open v) then v else broadcast_count throws (v\<lparr>vw_counted := set_add p (vw_counted v)\<rparr>))"

text \<open>The function \<open>attach\<close> returns, called when the socket closes.\<close>

definition viewer_detach :: "(nat \<Rightarrow> peer \<Rightarrow> bool) \<Rightarrow> peer \<Rightarrow> viewers \<Rightarrow> viewers" where
  "viewer_detach throws p v =
     (if p \<in> set (vw_detached v) then v
      else
        let v1 = v\<lparr>vw_detached := p # vw_detached v\<rparr> in
        if p \<notin> set (vw_counted v1) then v1 else broadcast_count throws (v1\<lparr>vw_counted := removeAll p (vw_counted v1)\<rparr>))"

definition viewer_close :: "peer \<Rightarrow> int \<Rightarrow> viewers \<Rightarrow> viewers" where
  "viewer_close p code v =
     (if p \<in> set (vw_open v) then v\<lparr>vw_open := removeAll p (vw_open v), vw_closed := vw_closed v @ [(p, code)]\<rparr> else v)"

text \<open>\<open>fails\<close>: the sockets on which the ping throws.\<close>

fun sweepViewerPings :: "peer list \<Rightarrow> peer list \<Rightarrow> viewers \<Rightarrow> viewers" where
  "sweepViewerPings fails [] v = v"
| "sweepViewerPings fails (p # ps) v =
     (if p \<notin> set (vw_alive v) then sweepViewerPings fails ps (viewer_close p 4408 v)
      else
        let v1 = v\<lparr>vw_alive := removeAll p (vw_alive v)\<rparr> in
        sweepViewerPings fails ps (if p \<in> set fails then viewer_close p 4408 v1 else v1))"

datatype upgrade_reply = Upgraded | Rejected int

text \<open>A socket is a new one for every connection.\<close>

definition viewer_upgrade ::
  "string \<Rightarrow> nat \<Rightarrow> string option \<Rightarrow> peer \<Rightarrow> (nat \<Rightarrow> peer \<Rightarrow> bool) \<Rightarrow> viewers \<Rightarrow> upgrade_reply \<times> viewers" where
  "viewer_upgrade viewerOrigin capacity origin p throws v =
     (if origin \<noteq> Some viewerOrigin then (Rejected 403, v)
      else if capacity \<le> length (vw_sockets v) then (Rejected 503, v)
      else (Upgraded, viewer_attach throws p
        (v\<lparr>vw_open := p # vw_open v, vw_seen := p # vw_seen v, vw_sockets := set_add p (vw_sockets v), vw_alive := set_add p (vw_alive v)\<rparr>)))"

definition viewer_closed :: "(nat \<Rightarrow> peer \<Rightarrow> bool) \<Rightarrow> peer \<Rightarrow> viewers \<Rightarrow> viewers" where
  "viewer_closed throws p v = viewer_detach throws p
     (v\<lparr>vw_open := removeAll p (vw_open v), vw_sockets := removeAll p (vw_sockets v), vw_alive := removeAll p (vw_alive v)\<rparr>)"

definition viewer_pong :: "peer \<Rightarrow> viewers \<Rightarrow> viewers" where
  "viewer_pong p v = v\<lparr>vw_alive := set_add p (vw_alive v)\<rparr>"

definition shutdown_viewers :: "viewers \<Rightarrow> viewers" where
  "shutdown_viewers v = foldl (\<lambda>v p. viewer_close p 1001 v) v (vw_sockets v)"

datatype viewer_event =
    Viewer_upgrade "string option" peer "nat \<Rightarrow> peer \<Rightarrow> bool"
  | Viewer_message peer
  | Viewer_pong peer
  | Viewer_closed peer "nat \<Rightarrow> peer \<Rightarrow> bool"
  | Viewer_timer "peer list"
  | Viewer_shutdown

fun viewer_step :: "string \<Rightarrow> nat \<Rightarrow> viewers \<Rightarrow> viewer_event \<Rightarrow> viewers" where
  "viewer_step o' c v (Viewer_upgrade origin p throws) = (if p \<in> set (vw_seen v) then v else snd (viewer_upgrade o' c origin p throws v))"
| "viewer_step o' c v (Viewer_message p) = (if p \<in> set (vw_sockets v) then viewer_close p 4400 v else v)"
| "viewer_step o' c v (Viewer_pong p) = (if p \<in> set (vw_sockets v) then viewer_pong p v else v)"
| "viewer_step o' c v (Viewer_closed p throws) = (if p \<in> set (vw_sockets v) then viewer_closed throws p v else v)"
| "viewer_step o' c v (Viewer_timer fails) = sweepViewerPings fails (vw_sockets v) v"
| "viewer_step o' c v Viewer_shutdown = shutdown_viewers v"

definition viewer_run :: "string \<Rightarrow> nat \<Rightarrow> viewer_event list \<Rightarrow> viewers" where
  "viewer_run o' c evs = foldl (viewer_step o' c) no_viewers evs"

subsection \<open>Everyone is told how many there are\<close>

text \<open>The number a socket was told last.\<close>

definition told :: "(peer \<times> nat) list \<Rightarrow> peer \<Rightarrow> nat option" where
  "told sent p = map_of (rev sent) p"

lemma told_append: "told (a @ b) p = (case told b p of Some n \<Rightarrow> Some n | None \<Rightarrow> told a p)"
  by (simp add: told_def map_add_def split: option.split)

lemma told_all: "p \<in> set ps \<Longrightarrow> told (map (\<lambda>p. (p, n)) ps) p = Some n"
  by (induction ps rule: rev_induct) (auto simp: told_def)

lemma broadcast_tells:
  "viewer_broadcast opened throws n sockets = (sent, rest) \<Longrightarrow>
   set rest \<subseteq> {p \<in> set sockets. opened p} \<and> (distinct sockets \<longrightarrow> distinct rest)
   \<and> (\<forall>p \<in> set rest. told sent p = Some (length rest))"
proof (induction opened throws n sockets arbitrary: sent rest rule: viewer_broadcast.induct)
  case (1 opened throws n sockets)
  define here where "here = filter opened sockets"
  define kept where "kept = filter (\<lambda>p. \<not> throws n p) here"
  have step: "viewer_broadcast opened throws n sockets =
      (if kept = here then (map (\<lambda>p. (p, length here)) kept, kept)
       else (case viewer_broadcast opened throws (Suc n) kept of (later, rest) \<Rightarrow> (map (\<lambda>p. (p, length here)) kept @ later, rest)))"
    by (subst viewer_broadcast.simps) (simp add: here_def kept_def Let_def)
  show ?case
  proof (cases "kept = here")
    case True
    then have "viewer_broadcast opened throws n sockets = (map (\<lambda>p. (p, length here)) here, here)" using step by simp
    from this [unfolded "1.prems"] have "sent = map (\<lambda>p. (p, length here)) here" "rest = here" by (simp_all only: prod.inject)
    then show ?thesis using told_all [of _ here "length here"] by (auto simp: here_def)
  next
    case False
    obtain later rest' where rec: "viewer_broadcast opened throws (Suc n) kept = (later, rest')"
      by (cases "viewer_broadcast opened throws (Suc n) kept")
    then have sent: "sent = map (\<lambda>p. (p, length here)) kept @ later" "rest = rest'"
      using "1.prems" step False by simp_all
    have IH: "set rest' \<subseteq> {p \<in> set kept. opened p} \<and> (distinct kept \<longrightarrow> distinct rest')
        \<and> (\<forall>p \<in> set rest'. told later p = Some (length rest'))"
      by (rule "1.IH" [OF here_def kept_def refl False rec])
    then show ?thesis using sent by (auto simp: told_append kept_def here_def)
  qed
qed

text \<open>Everyone counted is connected and was told the present number last; no more than allowed.\<close>

definition viewers_ok :: "nat \<Rightarrow> viewers \<Rightarrow> bool" where
  "viewers_ok c v = (distinct (vw_sockets v) \<and> length (vw_sockets v) \<le> c \<and> set (vw_sockets v) \<union> set (vw_detached v) \<subseteq> set (vw_seen v)
     \<and> set (vw_sockets v) \<inter> set (vw_detached v) = {} \<and> distinct (vw_counted v) \<and> set (vw_counted v) \<subseteq> set (vw_sockets v)
     \<and> (\<forall>p \<in> set (vw_counted v). told (vw_sent v) p = Some (viewer_count v)))"

lemma viewers_ok_new: "viewers_ok c no_viewers"
  by (simp add: viewers_ok_def no_viewers_def)

lemma broadcast_count_ok:
  assumes "distinct (vw_sockets v)" "length (vw_sockets v) \<le> c" "set (vw_sockets v) \<union> set (vw_detached v) \<subseteq> set (vw_seen v)"
    and "set (vw_sockets v) \<inter> set (vw_detached v) = {}" and "distinct (vw_counted v)" "set (vw_counted v) \<subseteq> set (vw_sockets v)"
  shows "viewers_ok c (broadcast_count throws v)"
proof -
  obtain sent rest where b: "viewer_broadcast (\<lambda>p. p \<in> set (vw_open v)) throws 0 (vw_counted v) = (sent, rest)"
    by (cases "viewer_broadcast (\<lambda>p. p \<in> set (vw_open v)) throws 0 (vw_counted v)")
  show ?thesis
    using broadcast_tells [OF b] assms by (auto simp: broadcast_count_def b viewers_ok_def viewer_count_def told_append)
qed

lemma viewer_close_frame [simp]:
  "vw_sockets (viewer_close p k v) = vw_sockets v" "vw_seen (viewer_close p k v) = vw_seen v"
  "vw_counted (viewer_close p k v) = vw_counted v" "vw_sent (viewer_close p k v) = vw_sent v"
  "vw_alive (viewer_close p k v) = vw_alive v" "vw_detached (viewer_close p k v) = vw_detached v" "viewers_ok c (viewer_close p k v) = viewers_ok c v"
  by (simp_all add: viewer_close_def viewers_ok_def viewer_count_def)

lemma sweep_frame [simp]:
  "vw_sockets (sweepViewerPings fails ps v) = vw_sockets v" "viewers_ok c (sweepViewerPings fails ps v) = viewers_ok c v"
  by (induction fails ps v rule: sweepViewerPings.induct) (simp_all add: Let_def viewers_ok_def viewer_count_def)

lemma shutdown_frame [simp]: "viewers_ok c (shutdown_viewers v) = viewers_ok c v"
proof -
  have "viewers_ok c (foldl (\<lambda>v p. viewer_close p k v) w ps) = viewers_ok c w" for k w and ps :: "peer list"
    by (induction ps arbitrary: w) simp_all
  then show ?thesis by (simp add: shutdown_viewers_def)
qed

lemma alive_frame [simp]: "viewers_ok c (v\<lparr>vw_alive := ps\<rparr>) = viewers_ok c v"
  by (simp add: viewers_ok_def viewer_count_def)

lemma viewers_ok_step: "viewers_ok c v \<Longrightarrow> viewers_ok c (viewer_step o' c v ev)"
proof (cases ev)
  case (Viewer_upgrade origin p throws)
  assume ok: "viewers_ok c v"
  let ?v = "v\<lparr>vw_open := p # vw_open v, vw_seen := p # vw_seen v, vw_sockets := set_add p (vw_sockets v), vw_alive := set_add p (vw_alive v)\<rparr>"
  have "viewers_ok c (viewer_attach throws p ?v)" if "p \<notin> set (vw_seen v)" "length (vw_sockets v) < c"
  proof -
    have "viewers_ok c (broadcast_count throws (?v\<lparr>vw_counted := set_add p (vw_counted v)\<rparr>))"
      by (rule broadcast_count_ok) (use ok that in \<open>auto simp: viewers_ok_def set_add_def\<close>)
    then show ?thesis by (simp add: viewer_attach_def)
  qed
  then show ?thesis using ok Viewer_upgrade by (simp add: viewer_upgrade_def)
next
  case (Viewer_closed p throws)
  assume ok: "viewers_ok c v"
  let ?v = "v\<lparr>vw_open := removeAll p (vw_open v), vw_sockets := removeAll p (vw_sockets v), vw_alive := removeAll p (vw_alive v)\<rparr>"
  have short: "length (removeAll p (vw_sockets v)) \<le> c"
    using ok le_trans [OF length_removeAll_less_eq] by (auto simp: viewers_ok_def)
  have told: "p \<in> set (vw_sockets v) \<Longrightarrow> viewers_ok c (broadcast_count throws (?v\<lparr>vw_detached := p # vw_detached v, vw_counted := removeAll p (vw_counted v)\<rparr>))"
    by (rule broadcast_count_ok) (use ok short in \<open>auto simp: viewers_ok_def distinct_removeAll\<close>)
  have same: "viewers_ok c (?v\<lparr>vw_detached := ds\<rparr>)" if "p \<notin> set (vw_counted v)" "p \<in> set (vw_sockets v)" "ds = vw_detached v \<or> ds = p # vw_detached v" for ds
    using ok short that by (auto simp: viewers_ok_def viewer_count_def distinct_removeAll)
  show ?thesis
  proof (cases "p \<in> set (vw_sockets v)")
    case False
    then show ?thesis using ok Viewer_closed by simp
  next
    case True
    show ?thesis
    proof (cases "p \<in> set (vw_counted v)")
      case False
      then show ?thesis using True Viewer_closed same [of "vw_detached v"] same [of "p # vw_detached v"]
        by (simp add: viewer_closed_def viewer_detach_def)
    next
      case counted: True
      then have "p \<notin> set (vw_detached v)" using ok True by (auto simp: viewers_ok_def)
      then show ?thesis using counted True Viewer_closed told by (simp add: viewer_closed_def viewer_detach_def)
    qed
  qed
qed (simp_all add: viewer_pong_def)

theorem viewers_told_true_number: "viewers_ok c (viewer_run o' c evs)"
proof -
  have "viewers_ok c (foldl (viewer_step o' c) v evs)" if "viewers_ok c v" for v
    using that by (induction evs arbitrary: v) (simp_all add: viewers_ok_step)
  then show ?thesis by (simp add: viewer_run_def viewers_ok_new)
qed

subsection \<open>Silent viewers are closed\<close>

definition listed :: "viewers \<Rightarrow> bool" where
  "listed v = (set (vw_open v) \<subseteq> set (vw_sockets v) \<and> set (vw_alive v) \<subseteq> set (vw_sockets v) \<and> set (vw_sockets v) \<subseteq> set (vw_seen v))"

lemma listed_close: "listed v \<Longrightarrow> listed (viewer_close p k v)"
  by (auto simp: listed_def viewer_close_def)

lemma listed_sweep: "listed v \<Longrightarrow> listed (sweepViewerPings fails ps v)"
proof (induction fails ps v rule: sweepViewerPings.induct)
  case (2 fails p ps v)
  have "listed (v\<lparr>vw_alive := removeAll p (vw_alive v)\<rparr>)" using "2.prems" by (auto simp: listed_def)
  then show ?case using 2 by (simp add: Let_def listed_close)
qed simp

lemma broadcast_frame [simp]:
  "vw_open (broadcast_count t v) = vw_open v" "vw_alive (broadcast_count t v) = vw_alive v"
  "vw_sockets (broadcast_count t v) = vw_sockets v" "vw_seen (broadcast_count t v) = vw_seen v"
  by (simp_all add: broadcast_count_def split: prod.split)

lemma attach_frame [simp]:
  "vw_open (viewer_attach t p v) = vw_open v" "vw_alive (viewer_attach t p v) = vw_alive v"
  "vw_sockets (viewer_attach t p v) = vw_sockets v" "vw_seen (viewer_attach t p v) = vw_seen v"
  "vw_open (viewer_detach t p v) = vw_open v" "vw_alive (viewer_detach t p v) = vw_alive v"
  "vw_sockets (viewer_detach t p v) = vw_sockets v" "vw_seen (viewer_detach t p v) = vw_seen v"
  by (simp_all add: viewer_attach_def viewer_detach_def Let_def)

lemma listed_shutdown: "listed v \<Longrightarrow> listed (shutdown_viewers v)"
proof -
  have "listed (foldl (\<lambda>v p. viewer_close p k v) w ps)" if "listed w" for k w and ps :: "peer list"
    using that by (induction ps arbitrary: w) (simp_all add: listed_close)
  then show "listed v \<Longrightarrow> ?thesis" by (simp add: shutdown_viewers_def)
qed

lemma listed_step: "listed v \<Longrightarrow> listed (viewer_step o' c v ev)"
proof (cases ev)
  case (Viewer_upgrade origin p throws)
  assume "listed v"
  then show ?thesis by (auto simp: Viewer_upgrade listed_def viewer_upgrade_def set_add_def)
next
  case (Viewer_closed p throws)
  assume "listed v"
  then show ?thesis by (auto simp: Viewer_closed listed_def viewer_closed_def)
next
  case (Viewer_pong p)
  assume "listed v"
  then show ?thesis by (auto simp: Viewer_pong listed_def viewer_pong_def set_add_def)
qed (simp_all add: listed_close listed_sweep listed_shutdown)

lemma sweep_alive: "set (vw_alive (sweepViewerPings fails ps v)) = set (vw_alive v) - set ps"
  by (induction fails ps v rule: sweepViewerPings.induct) (auto simp: Let_def)

lemma sweep_seen [simp]: "vw_seen (sweepViewerPings fails ps v) = vw_seen v"
  by (induction fails ps v rule: sweepViewerPings.induct) (simp_all add: Let_def)

lemma close_closes: "p \<notin> set (vw_open v) \<Longrightarrow> p \<notin> set (vw_open (viewer_close q k v))"
  by (simp add: viewer_close_def)

lemma sweep_keeps_shut: "p \<notin> set (vw_open v) \<Longrightarrow> p \<notin> set (vw_open (sweepViewerPings fails ps v))"
  by (induction fails ps v rule: sweepViewerPings.induct) (simp_all add: Let_def close_closes)

lemma sweep_closes: "p \<in> set ps \<Longrightarrow> p \<notin> set (vw_alive v) \<Longrightarrow> p \<notin> set (vw_open (sweepViewerPings fails ps v))"
proof (induction fails ps v rule: sweepViewerPings.induct)
  case (2 fails q ps v)
  show ?case
  proof (cases "q = p")
    case True
    have "p \<notin> set (vw_open (viewer_close p 4408 v))" by (simp add: viewer_close_def)
    then show ?thesis using "2.prems" True by (simp add: sweep_keeps_shut)
  next
    case False
    then show ?thesis using 2 by (auto simp: Let_def)
  qed
qed simp

lemma quiet_step:
  assumes "p \<in> set (vw_seen v)" "p \<notin> set (vw_alive v)" "ev \<noteq> Viewer_pong p"
  shows "p \<in> set (vw_seen (viewer_step o' c v ev)) \<and> p \<notin> set (vw_alive (viewer_step o' c v ev))"
proof (cases ev)
  case (Viewer_upgrade origin q throws)
  then show ?thesis using assms by (auto simp: viewer_upgrade_def set_add_def)
next
  case Viewer_shutdown
  have "vw_seen (foldl (\<lambda>v p. viewer_close p k v) w ps) = vw_seen w \<and> vw_alive (foldl (\<lambda>v p. viewer_close p k v) w ps) = vw_alive w"
    for k w and ps :: "peer list"
    by (induction ps arbitrary: w) simp_all
  then show ?thesis using Viewer_shutdown assms by (simp add: shutdown_viewers_def)
qed (use assms in \<open>auto simp: viewer_closed_def viewer_pong_def set_add_def sweep_alive\<close>)

text \<open>
  a viewer that answers no ping is closed by the second timer after it connected, whatever
  else happens, or was closed before.
\<close>

theorem silent_viewer_is_closed:
  assumes "p \<in> set (vw_seen (viewer_run o' c evs))" "Viewer_pong p \<notin> set later"
  shows "p \<notin> set (vw_open (viewer_run o' c (evs @ [Viewer_timer f1] @ later @ [Viewer_timer f2])))"
proof -
  have run: "listed (foldl (viewer_step o' c) v es)" if "listed v" for v es
    using that by (induction es arbitrary: v) (simp_all add: listed_step)
  let ?v = "viewer_step o' c (viewer_run o' c evs) (Viewer_timer f1)"
  have l: "listed (viewer_run o' c evs)" unfolding viewer_run_def by (rule run) (simp add: listed_def no_viewers_def)
  then have "p \<in> set (vw_seen ?v) \<and> p \<notin> set (vw_alive ?v)" using assms(1) by (auto simp: sweep_alive listed_def)
  then have "p \<in> set (vw_seen (foldl (viewer_step o' c) ?v later)) \<and> p \<notin> set (vw_alive (foldl (viewer_step o' c) ?v later))"
    using assms(2)
  proof (induction later rule: rev_induct)
    case (snoc ev es)
    then show ?case
      using quiet_step [of p "foldl (viewer_step o' c) ?v es" ev o' c] by (simp del: viewer_step.simps) metis
  qed simp
  moreover have "listed (foldl (viewer_step o' c) ?v later)" by (rule run [OF listed_step [OF l]])
  moreover have "p \<notin> set (vw_open (viewer_step o' c w (Viewer_timer f2)))" if "listed w" "p \<notin> set (vw_alive w)" for w
  proof (cases "p \<in> set (vw_sockets w)")
    case True
    then show ?thesis using sweep_closes that by simp
  next
    case False
    then have "p \<notin> set (vw_open w)" using that by (auto simp: listed_def)
    then show ?thesis using sweep_keeps_shut by simp
  qed
  ultimately have "p \<notin> set (vw_open (viewer_step o' c (foldl (viewer_step o' c) ?v later) (Viewer_timer f2)))" by blast
  then show ?thesis by (simp add: viewer_run_def)
qed

end
