(* ===== verification/KeyboardDrive.thy ===== *)
theory KeyboardDrive
  imports JsNumber
begin

section \<open>Driving with the keyboard\<close>

text \<open>
  \<open>apps/web/app/keyboard-control.ts\<close> and \<open>keyboard-drive-model.ts\<close>: the keys held down, the
  intent they stand for, and the model that turns the intent into axis values over time: a
  turn taken at speed grows over up to 600 milliseconds, a held reverse steps down after 500.
  A \<open>Set\<close> of key codes is a list without repetition. The model's clock never takes a value
  that is not finite, so its instants are rationals.
\<close>

subsection \<open>Keys and intents\<close>

datatype drive_key = Key_W | Key_A | Key_S | Key_D | Key_NITRO

record control_intent =
  kc_steering :: int
  kc_throttle :: int
  kc_nitro :: bool

definition CODE_TO_KEY :: "(string \<times> drive_key) list" where
  "CODE_TO_KEY =
     [(''KeyW'', Key_W), (''ArrowUp'', Key_W), (''KeyA'', Key_A), (''ArrowLeft'', Key_A),
      (''KeyS'', Key_S), (''ArrowDown'', Key_S), (''KeyD'', Key_D), (''ArrowRight'', Key_D),
      (''KeyN'', Key_NITRO)]"

definition controlKeyForCode :: "string \<Rightarrow> drive_key option" where
  "controlKeyForCode code = map_get CODE_TO_KEY code"

definition updatePressedKeys :: "string list \<Rightarrow> string \<Rightarrow> bool \<Rightarrow> string list" where
  "updatePressedKeys current code pressed =
     (if pressed then (if list_ex (\<lambda>c. c = code) current then current else current @ [code])
      else removeAll code current)"

definition isDriveKeyActive :: "string list \<Rightarrow> drive_key \<Rightarrow> bool" where
  "isDriveKeyActive pressed k = list_ex (\<lambda>code. controlKeyForCode code = Some k) pressed"

definition controlIntentFromPressedKeys :: "string list \<Rightarrow> control_intent" where
  "controlIntentFromPressedKeys pressed =
     (let has = (\<lambda>k. list_ex (\<lambda>code. controlKeyForCode code = Some k) pressed);
          left = has Key_A; right = has Key_D; forward = has Key_W; rev = has Key_S
      in \<lparr>kc_steering = (if left = right then 0 else if left then - 1 else 1),
          kc_throttle = (if forward = rev then 0 else if forward then 1 else - 1),
          kc_nitro = (forward \<and> \<not> rev \<and> has Key_NITRO)\<rparr>)"

subsection \<open>The model over time\<close>

record drive_output =
  do_steering :: rat
  do_throttle :: rat
  do_nitro :: bool

record keyboard_model =
  km_intent :: control_intent
  km_forwardStartedAt :: "rat option"
  km_reverseStartedAt :: "rat option"
  km_turnStartedAt :: "rat option"
  km_turnDurationMs :: rat
  km_lastNowMs :: rat

definition neutral_intent :: control_intent where
  "neutral_intent = \<lparr>kc_steering = 0, kc_throttle = 0, kc_nitro = False\<rparr>"

definition new_keyboard_model :: keyboard_model where
  "new_keyboard_model =
     \<lparr>km_intent = neutral_intent, km_forwardStartedAt = None, km_reverseStartedAt = None,
      km_turnStartedAt = None, km_turnDurationMs = 0, km_lastNowMs = 0\<rparr>"

definition advanceClock :: "jsnum \<Rightarrow> keyboard_model \<Rightarrow> rat \<times> keyboard_model" where
  "advanceClock nowMs m =
     (let m' = (case nowMs of Fin t \<Rightarrow> m\<lparr>km_lastNowMs := max (km_lastNowMs m) t\<rparr> | _ \<Rightarrow> m)
      in (km_lastNowMs m', m'))"

definition keyboard_sample :: "jsnum \<Rightarrow> keyboard_model \<Rightarrow> drive_output \<times> keyboard_model" where
  "keyboard_sample nowMs m =
     (let (t, m1) = advanceClock nowMs m;
          throttle = (case km_reverseStartedAt m1 of
              Some r \<Rightarrow> if t - r \<ge> 500 then - 2 / 5 else of_int (kc_throttle (km_intent m1))
            | None \<Rightarrow> of_int (kc_throttle (km_intent m1)));
          progress = (case km_turnStartedAt m1 of
              Some s \<Rightarrow> if km_turnDurationMs m1 > 0
                then min 1 (max 0 ((t - s) / km_turnDurationMs m1)) else 1
            | None \<Rightarrow> 1);
          steering = (if progress = 0 then 0 else of_int (kc_steering (km_intent m1)) * progress)
      in (\<lparr>do_steering = steering, do_throttle = throttle, do_nitro = kc_nitro (km_intent m1)\<rparr>, m1))"

definition keyboard_hold :: "control_intent \<Rightarrow> rat \<Rightarrow> keyboard_model \<Rightarrow> keyboard_model" where
  "keyboard_hold i t m =
     (let m2 = (if kc_throttle i \<noteq> 1 then m\<lparr>km_forwardStartedAt := None\<rparr>
                else if kc_throttle (km_intent m) \<noteq> 1 then m\<lparr>km_forwardStartedAt := Some t\<rparr> else m);
          m3 = (if kc_throttle i \<noteq> - 1 then m2\<lparr>km_reverseStartedAt := None\<rparr>
                else if kc_throttle (km_intent m2) \<noteq> - 1 then m2\<lparr>km_reverseStartedAt := Some t\<rparr> else m2);
          m4 = (if kc_steering i \<noteq> kc_steering (km_intent m3) then
                  m3\<lparr>km_turnStartedAt := (if kc_steering i = 0 then None else Some t),
                     km_turnDurationMs := (case km_forwardStartedAt m3 of None \<Rightarrow> 0
                       | Some f \<Rightarrow> (if kc_nitro i then 600 else 450) * min 1 (max 0 ((t - f) / 1000)))\<rparr>
                else if kc_throttle i \<noteq> 1 then m3\<lparr>km_turnDurationMs := 0\<rparr> else m3)
      in m4\<lparr>km_intent := i\<rparr>)"

definition keyboard_update :: "string list \<Rightarrow> jsnum \<Rightarrow> keyboard_model \<Rightarrow> drive_output \<times> keyboard_model" where
  "keyboard_update pressed nowMs m =
     (let (t, m1) = advanceClock nowMs m
      in keyboard_sample (Fin t) (keyboard_hold (controlIntentFromPressedKeys pressed) t m1))"

definition keyboard_reset :: "keyboard_model \<Rightarrow> keyboard_model" where
  "keyboard_reset m =
     m\<lparr>km_intent := neutral_intent, km_forwardStartedAt := None, km_reverseStartedAt := None,
       km_turnStartedAt := None, km_turnDurationMs := 0, km_lastNowMs := 0\<rparr>"

datatype keyboard_call = Key_update "string list" jsnum | Key_sample jsnum | Key_reset

fun keyboard_step :: "keyboard_model \<times> drive_output list \<Rightarrow> keyboard_call \<Rightarrow> keyboard_model \<times> drive_output list" where
  "keyboard_step (m, os) (Key_update pressed t) = (let (o1, m') = keyboard_update pressed t m in (m', os @ [o1]))"
| "keyboard_step (m, os) (Key_sample t) = (let (o1, m') = keyboard_sample t m in (m', os @ [o1]))"
| "keyboard_step (m, os) Key_reset = (keyboard_reset m, os)"

definition keyboard_run :: "keyboard_call list \<Rightarrow> keyboard_model \<times> drive_output list" where
  "keyboard_run = foldl keyboard_step (new_keyboard_model, [])"

subsection \<open>The documented curve\<close>

text \<open>
  \<open>docs/keyboard-arcade-controls.md\<close> describes the output from the history of the keys. A
  history is the list of intents with the instants they began at, the latest first, since
  the last reset. \<open>held_since P h\<close> is the instant from which \<open>P\<close> has held of every intent up
  to now.
\<close>

type_synonym key_history = "(rat \<times> control_intent) list"

fun held_since :: "(control_intent \<Rightarrow> bool) \<Rightarrow> key_history \<Rightarrow> rat option" where
  "held_since P [] = None"
| "held_since P ((t, i) # h) =
     (if P i then (case held_since P h of None \<Rightarrow> Some t | Some s \<Rightarrow> Some s) else None)"

definition going :: "int \<Rightarrow> control_intent \<Rightarrow> bool" where
  "going d i = (kc_throttle i = d)"

definition turning :: "int \<Rightarrow> control_intent \<Rightarrow> bool" where
  "turning d i = (kc_steering i = d)"

text \<open>
  The time a turn takes: by the time gas had been held when the turn began, none once gas is
  released during it.
\<close>

fun full_turn_ms :: "int \<Rightarrow> key_history \<Rightarrow> rat" where
  "full_turn_ms d [] = 0"
| "full_turn_ms d ((t, i) # h) =
     (if held_since (turning d) h = None then
        (case held_since (going 1) ((t, i) # h) of None \<Rightarrow> 0
         | Some f \<Rightarrow> (if kc_nitro i then 600 else 450) * min 1 (max 0 ((t - f) / 1000)))
      else if kc_throttle i \<noteq> 1 then 0 else full_turn_ms d h)"

definition documented_output :: "key_history \<Rightarrow> rat \<Rightarrow> drive_output" where
  "documented_output h now =
     (let i = (case h of [] \<Rightarrow> neutral_intent | (t, i) # h' \<Rightarrow> i); d = kc_steering i;
          full = full_turn_ms d h
      in \<lparr>do_steering = (case held_since (turning d) h of
              Some s \<Rightarrow> if full > 0 then of_int d * min 1 (max 0 ((now - s) / full)) else of_int d
            | None \<Rightarrow> of_int d),
          do_throttle = (case held_since (going (- 1)) h of
              Some r \<Rightarrow> if now - r < 500 then - 1 else - 2 / 5
            | None \<Rightarrow> of_int (kc_throttle i)),
          do_nitro = kc_nitro i\<rparr>)"

definition clock_at :: "rat \<Rightarrow> jsnum \<Rightarrow> rat" where
  "clock_at before now = (case now of Fin t \<Rightarrow> max before t | _ \<Rightarrow> before)"

fun documented_step :: "(rat \<times> key_history) \<times> drive_output list \<Rightarrow> keyboard_call \<Rightarrow> (rat \<times> key_history) \<times> drive_output list" where
  "documented_step ((c, h), os) (Key_update pressed t) =
     (let c' = clock_at c t; h' = (c', controlIntentFromPressedKeys pressed) # h
      in ((c', h'), os @ [documented_output h' c']))"
| "documented_step ((c, h), os) (Key_sample t) =
     (let c' = clock_at c t in ((c', h), os @ [documented_output h c']))"
| "documented_step ((c, h), os) Key_reset = ((0, []), os)"

definition documented_run :: "keyboard_call list \<Rightarrow> (rat \<times> key_history) \<times> drive_output list" where
  "documented_run = foldl documented_step ((0, []), [])"

subsection \<open>The model follows the curve\<close>

text \<open>
  The relation between the model's fields and the history: each field is what the history
  says.
\<close>

definition latest_intent :: "key_history \<Rightarrow> control_intent" where
  "latest_intent h = (case h of [] \<Rightarrow> neutral_intent | (t, i) # h' \<Rightarrow> i)"

definition model_matches :: "keyboard_model \<Rightarrow> rat \<times> key_history \<Rightarrow> bool" where
  "model_matches m ch \<longleftrightarrow> (let (c, h) = ch; d = kc_steering (latest_intent h) in
     km_lastNowMs m = c \<and> km_intent m = latest_intent h
     \<and> km_forwardStartedAt m = held_since (going 1) h
     \<and> km_reverseStartedAt m = held_since (going (- 1)) h
     \<and> (d \<noteq> 0 \<longrightarrow> km_turnStartedAt m = held_since (turning d) h \<and> km_turnDurationMs m = full_turn_ms d h)
     \<and> (d = 0 \<longrightarrow> km_turnStartedAt m = None))"

lemma intent_ranges:
  "kc_steering (controlIntentFromPressedKeys p) \<in> {- 1, 0, 1}"
  "kc_throttle (controlIntentFromPressedKeys p) \<in> {- 1, 0, 1}"
  "kc_nitro (controlIntentFromPressedKeys p) \<Longrightarrow> kc_throttle (controlIntentFromPressedKeys p) = 1"
  by (auto simp: controlIntentFromPressedKeys_def Let_def)

lemma held_none:
  "held_since P h = None \<longleftrightarrow> (case h of [] \<Rightarrow> True | (t, i) # h' \<Rightarrow> \<not> P i)"
  by (cases h) (auto split: option.splits)

lemma advance_clock: "advanceClock t m = (clock_at (km_lastNowMs m) t, m\<lparr>km_lastNowMs := clock_at (km_lastNowMs m) t\<rparr>)"
  by (cases t) (auto simp: advanceClock_def clock_at_def)

lemma clock_again [simp]: "clock_at c (Fin (clock_at c t)) = clock_at c t" "clock_at c (Fin c) = c"
  by (cases t) (auto simp: clock_at_def)

lemma held_none_latest:
  "P neutral_intent = False \<Longrightarrow> held_since P h = None \<longleftrightarrow> \<not> P (latest_intent h)"
  by (auto simp: held_none latest_intent_def split: list.splits)

lemma held_going: "d \<noteq> 0 \<Longrightarrow> held_since (going d) h = None \<longleftrightarrow> kc_throttle (latest_intent h) \<noteq> d"
  by (subst held_none_latest) (auto simp: going_def neutral_intent_def)

lemma held_turning: "d \<noteq> 0 \<Longrightarrow> held_since (turning d) h = None \<longleftrightarrow> kc_steering (latest_intent h) \<noteq> d"
  by (subst held_none_latest) (auto simp: turning_def neutral_intent_def)

lemma sample_matches:
  assumes "model_matches m (c, h)" and "\<And>i. i \<in> snd ` set h \<Longrightarrow> kc_throttle i \<in> {- 1, 0, 1}"
  shows "keyboard_sample t m = (documented_output h (clock_at c t), m\<lparr>km_lastNowMs := clock_at c t\<rparr>)
    \<and> model_matches (m\<lparr>km_lastNowMs := clock_at c t\<rparr>) (clock_at c t, h)"
proof -
  let ?i = "latest_intent h" and ?d = "kc_steering (latest_intent h)"
  have rev: "held_since (going (- 1)) h \<noteq> None \<Longrightarrow> kc_throttle ?i = - 1" using held_going [of "- 1" h] by auto
  have turn: "?d \<noteq> 0 \<Longrightarrow> held_since (turning ?d) h \<noteq> None" using held_turning [of ?d h] by blast
  have i: "(case h of [] \<Rightarrow> neutral_intent | (t, i) # h' \<Rightarrow> i) = ?i" by (simp add: latest_intent_def)
  have out: "fst (keyboard_sample t m) = documented_output h (clock_at c t)"
  proof (cases "?d = 0")
    case True
    then show ?thesis using assms rev
      by (auto simp: keyboard_sample_def advance_clock model_matches_def documented_output_def Let_def i
          split: option.splits)
  next
    case False
    then show ?thesis using assms rev turn
      by (auto simp: keyboard_sample_def advance_clock model_matches_def documented_output_def Let_def i
          split: option.splits)
  qed
  show ?thesis using out assms(1)
    by (auto simp: keyboard_sample_def advance_clock model_matches_def Let_def prod_eq_iff)
qed

lemma hold_matches:
  assumes m: "model_matches m (c, h)"
  shows "model_matches (keyboard_hold i c m) (c, (c, i) # h)"
proof -
  have fwd: "held_since (going 1) h = None \<longleftrightarrow> kc_throttle (latest_intent h) \<noteq> 1"
    and rev: "held_since (going (- 1)) h = None \<longleftrightarrow> kc_throttle (latest_intent h) \<noteq> - 1"
    by (rule held_going; simp)+
  have turn: "d \<noteq> 0 \<Longrightarrow> held_since (turning d) h = None \<longleftrightarrow> kc_steering (latest_intent h) \<noteq> d" for d
    by (rule held_turning)
  have i: "latest_intent ((c, i) # h) = i" by (simp add: latest_intent_def)
  have f1: "km_forwardStartedAt (keyboard_hold i c m) = held_since (going 1) ((c, i) # h)"
    using m fwd by (auto simp: keyboard_hold_def model_matches_def Let_def going_def split: option.splits)
  have r1: "km_reverseStartedAt (keyboard_hold i c m) = held_since (going (- 1)) ((c, i) # h)"
    using m rev by (auto simp: keyboard_hold_def model_matches_def Let_def going_def split: option.splits)
  have t0: "kc_steering i = 0 \<Longrightarrow> km_turnStartedAt (keyboard_hold i c m) = None"
    using m by (auto simp: keyboard_hold_def model_matches_def Let_def)
  have t1: "km_turnStartedAt (keyboard_hold i c m) = held_since (turning (kc_steering i)) ((c, i) # h)"
    if "kc_steering i \<noteq> 0"
    using m turn [OF that] that
    by (cases "held_since (turning (kc_steering i)) h") (auto simp: keyboard_hold_def model_matches_def Let_def turning_def)
  have t2: "km_turnDurationMs (keyboard_hold i c m) = full_turn_ms (kc_steering i) ((c, i) # h)"
    if "kc_steering i \<noteq> 0"
  proof (cases "kc_steering i = kc_steering (latest_intent h)")
    case True
    then show ?thesis using m turn that
      by (auto simp: keyboard_hold_def model_matches_def Let_def split: option.splits)
  next
    case False
    then have "km_turnDurationMs (keyboard_hold i c m) = (case km_forwardStartedAt (keyboard_hold i c m) of None \<Rightarrow> 0
        | Some f \<Rightarrow> (if kc_nitro i then 600 else 450) * min 1 (max 0 ((c - f) / 1000)))"
      using m by (auto simp: keyboard_hold_def model_matches_def Let_def)
    then show ?thesis using False turn [OF that] by (simp add: f1 del: held_since.simps)
  qed
  have "km_intent (keyboard_hold i c m) = i" "km_lastNowMs (keyboard_hold i c m) = c"
    using m by (auto simp: keyboard_hold_def model_matches_def Let_def)
  then show ?thesis using f1 r1 t0 t1 t2 by (simp add: model_matches_def i del: held_since.simps full_turn_ms.simps)
qed

definition throttles_ok :: "key_history \<Rightarrow> bool" where
  "throttles_ok h = list_all (\<lambda>(t, i). kc_throttle i \<in> {- 1, 0, 1}) h"

lemma keyboard_step_follows:
  assumes m: "model_matches m (c, h)" and h: "throttles_ok h"
  shows "\<exists>m' c' h'. keyboard_step (m, os) k = (m', snd (documented_step ((c, h), os) k))
    \<and> fst (documented_step ((c, h), os) k) = (c', h') \<and> model_matches m' (c', h') \<and> throttles_ok h'"
proof (cases k)
  case (Key_update p t)
  let ?c = "clock_at c t" and ?i = "controlIntentFromPressedKeys p"
  have c: "km_lastNowMs m = c" using m by (simp add: model_matches_def Let_def)
  have "model_matches (m\<lparr>km_lastNowMs := ?c\<rparr>) (?c, h)" using m by (simp add: model_matches_def Let_def)
  from hold_matches [OF this, of ?i]
  have hold: "model_matches (keyboard_hold ?i ?c (m\<lparr>km_lastNowMs := ?c\<rparr>)) (?c, (?c, ?i) # h)" .
  have ok: "throttles_ok ((?c, ?i) # h)" using h intent_ranges(2) [of p] by (simp add: throttles_ok_def)
  then have "j \<in> snd ` set ((?c, ?i) # h) \<Longrightarrow> kc_throttle j \<in> {- 1, 0, 1}" for j
    by (auto simp: throttles_ok_def list_all_iff)
  from sample_matches [OF hold this, of "Fin ?c"] ok show ?thesis
    by (auto simp: Key_update keyboard_update_def advance_clock c Let_def)
next
  case (Key_sample t)
  have "j \<in> snd ` set h \<Longrightarrow> kc_throttle j \<in> {- 1, 0, 1}" for j using h by (auto simp: throttles_ok_def list_all_iff)
  from sample_matches [OF m this, of t] h show ?thesis by (auto simp: Key_sample Let_def)
next
  case Key_reset
  then show ?thesis
    by (auto simp: keyboard_reset_def model_matches_def latest_intent_def neutral_intent_def throttles_ok_def)
qed

text \<open>
  Property C38: For every sequence of key changes, samples and resets, at any instants, finite or not and in
  any order, the model's outputs are those the documented curve gives from the history of the
  intents alone: a turn grows linearly over 450 (with nitro 600) milliseconds scaled by how
  long gas had been held when it began, at once without gas or after gas is released, a
  reverse steps down to 40 percent after 500 milliseconds.
\<close>

theorem keyboard_follows_documented_curve:
  "snd (keyboard_run calls) = snd (documented_run calls)"
proof -
  have "\<exists>m c h. keyboard_run calls = (m, snd (documented_run calls)) \<and> fst (documented_run calls) = (c, h)
      \<and> model_matches m (c, h) \<and> throttles_ok h"
  proof (induction calls rule: rev_induct)
    case Nil
    show ?case
      by (simp add: keyboard_run_def documented_run_def new_keyboard_model_def model_matches_def latest_intent_def
          neutral_intent_def throttles_ok_def)
  next
    case (snoc k calls)
    then obtain m c h where r: "keyboard_run calls = (m, snd (documented_run calls))"
      "documented_run calls = ((c, h), snd (documented_run calls))" "model_matches m (c, h)" "throttles_ok h"
      by (metis prod.collapse)
    have "keyboard_run (calls @ [k]) = keyboard_step (keyboard_run calls) k"
      "documented_run (calls @ [k]) = documented_step (documented_run calls) k"
      by (simp_all add: keyboard_run_def documented_run_def)
    with keyboard_step_follows [OF r(3,4), of "snd (documented_run calls)" k] show ?case
      by (metis r(1,2))
  qed
  then show ?thesis by auto
qed

end
