(* ===== verification/ControlLoop.thy ===== *)
theory ControlLoop
  imports JsNumber
begin

section \<open>The control loop of the browser\<close>

text \<open>
  \<open>apps/web/app/control-loop.ts\<close> and \<open>normalizeSteeringTrim\<close> of \<open>steering-trim.ts\<close>: the class
  \<open>BrowserControlLoop\<close> that sends the driver's input to the car fifty times a second. Its
  private fields are a record; \<open>cl_log\<close> collects what left the loop, the oldest first. The two
  data channels are the browser's: their state, the bytes they hold back and whether a coming
  \<open>send\<close> throws change with the events of the environment; a successful \<open>send\<close> adds the
  length of the message to \<open>bufferedAmount\<close>. The callback \<open>onArmedChange\<close> is an entry of the
  log; it does not call the loop. Axes are finite after \<open>normalizedAxis\<close>, hence rationals.
\<close>

record data_channel =
  dc_readyState :: string
  dc_bufferedAmount :: nat
  dc_faults :: "bool list"

record control_sample =
  cs_steering :: "jsnum option"
  cs_throttle :: "jsnum option"
  cs_nitro :: "bool option"

record drive_command =
  dr_v :: nat
  dr_sessionId :: ident
  dr_sequence :: nat
  dr_steering :: int
  dr_throttle :: int
  dr_nitro :: bool
  dr_armed :: bool
  dr_steeringTrimPercent :: "int option"

datatype control_message =
    Arm_message ident
  | Neutral_message ident string
  | Intent_message drive_command

datatype loop_output =
    Reliable_sent control_message
  | Fast_sent drive_command
  | Posted string drive_command
  | Armed_change bool

record control_loop =
  cl_sessionId :: ident
  cl_protocolVersion :: nat
  cl_fast :: "data_channel option"
  cl_reliable :: "data_channel option"
  cl_listening :: bool
  cl_timer :: bool
  cl_sequence :: nat
  cl_steering :: rat
  cl_throttle :: rat
  cl_nitro :: bool
  cl_steeringTrimPercent :: int
  cl_armRequested :: bool
  cl_armed :: bool
  cl_congestedAt :: "rat option"
  cl_inputProvider :: bool
  cl_log :: "loop_output list"

text \<open>
  What a handler meets: two readings of \<open>performance.now()\<close>, the answer of the input provider
  (\<open>None\<close> when it throws), the configured origin of the edge and the length of a message's JSON
  text.
\<close>

record surroundings =
  su_now :: rat
  su_later :: rat
  su_provided :: "control_sample option"
  su_edgeOrigin :: "string option"
  su_size :: "control_message \<Rightarrow> nat"

subsection \<open>Numbers\<close>

definition normalizeSteeringTrim :: "jsnum \<Rightarrow> string + int" where
  "normalizeSteeringTrim v =
     (case v of Fin a \<Rightarrow> Inr (max (- 20) (min 20 \<lfloor>a + 1 / 2\<rfloor>)) | _ \<Rightarrow> Inl ''Steering trim must be finite'')"

definition normalizedAxis :: "jsnum \<Rightarrow> rat" where
  "normalizedAxis v = (case v of Fin a \<Rightarrow> max (- 1) (min 1 a) | _ \<Rightarrow> 0)"

definition discreteAxis :: "rat \<Rightarrow> int" where
  "discreteAxis v = (if v = 0 then 0 else if v < 0 then - 1 else 1)"

definition encodeAxis :: "rat \<Rightarrow> bool \<Rightarrow> int" where
  "encodeAxis v proportional =
     (if proportional then \<lfloor>normalizedAxis (Fin v) * 1000 + 1 / 2\<rfloor> else discreteAxis v)"

subsection \<open>The private methods\<close>

definition new_control_loop :: "ident \<Rightarrow> nat \<Rightarrow> control_loop" where
  "new_control_loop sessionId version =
     \<lparr>cl_sessionId = sessionId, cl_protocolVersion = version, cl_fast = None, cl_reliable = None,
      cl_listening = False, cl_timer = False, cl_sequence = 0, cl_steering = 0, cl_throttle = 0,
      cl_nitro = False, cl_steeringTrimPercent = 0, cl_armRequested = False, cl_armed = False,
      cl_congestedAt = None, cl_inputProvider = False, cl_log = []\<rparr>"

definition loop_emit :: "loop_output \<Rightarrow> control_loop \<Rightarrow> control_loop" where
  "loop_emit w l = l\<lparr>cl_log := cl_log l @ [w]\<rparr>"

definition channel_open :: "data_channel option \<Rightarrow> bool" where
  "channel_open c = (case c of Some d \<Rightarrow> dc_readyState d = ''open'' | None \<Rightarrow> False)"

definition channel_buffered :: "data_channel option \<Rightarrow> nat" where
  "channel_buffered c = (case c of Some d \<Rightarrow> dc_bufferedAmount d | None \<Rightarrow> 0)"

text \<open>One call of \<open>send\<close>: whether it throws, and the channel afterwards.\<close>

definition channel_send :: "nat \<Rightarrow> data_channel \<Rightarrow> bool \<times> data_channel" where
  "channel_send bytes d =
     (case dc_faults d of
        True # fs \<Rightarrow> (True, d\<lparr>dc_faults := fs\<rparr>)
      | fs \<Rightarrow> (False, d\<lparr>dc_faults := tl fs, dc_bufferedAmount := dc_bufferedAmount d + bytes\<rparr>))"

definition send_on_reliable :: "surroundings \<Rightarrow> control_message \<Rightarrow> control_loop \<Rightarrow> bool \<times> control_loop" where
  "send_on_reliable E m l = (case cl_reliable l of
       None \<Rightarrow> (True, l)
     | Some d \<Rightarrow> (let (threw, d') = channel_send (su_size E m) d; l' = l\<lparr>cl_reliable := Some d'\<rparr>
                 in if threw then (True, l') else (False, loop_emit (Reliable_sent m) l')))"

definition send_on_fast :: "surroundings \<Rightarrow> drive_command \<Rightarrow> control_loop \<Rightarrow> bool \<times> control_loop" where
  "send_on_fast E c l = (case cl_fast l of
       None \<Rightarrow> (True, l)
     | Some d \<Rightarrow> (let (threw, d') = channel_send (su_size E (Intent_message c)) d; l' = l\<lparr>cl_fast := Some d'\<rparr>
                 in if threw then (True, l') else (False, loop_emit (Fast_sent c) l')))"

definition setArmed :: "bool \<Rightarrow> control_loop \<Rightarrow> control_loop" where
  "setArmed armed l =
     (if cl_armed l = armed then l else loop_emit (Armed_change armed) (l\<lparr>cl_armed := armed\<rparr>))"

definition transportFailed :: "surroundings \<Rightarrow> string \<Rightarrow> control_loop \<Rightarrow> control_loop" where
  "transportFailed E reason l =
     (let l1 = setArmed False (l\<lparr>cl_armRequested := False, cl_inputProvider := False, cl_steering := 0,
                                 cl_throttle := 0, cl_nitro := False\<rparr>)
      in if channel_open (cl_reliable l1) \<and> channel_buffered (cl_reliable l1) = 0
         then snd (send_on_reliable E (Neutral_message (cl_sessionId l1) reason) l1) else l1)"

definition sendReliable :: "surroundings \<Rightarrow> control_message \<Rightarrow> control_loop \<Rightarrow> bool \<times> control_loop" where
  "sendReliable E m l =
     (if channel_open (cl_reliable l) \<and> \<not> channel_buffered (cl_reliable l) > 0 then
        (let (threw, l') = send_on_reliable E m l
         in if threw then (False, transportFailed E ''control_send_failed'' l') else (True, l'))
      else (False, l))"

definition tryArm :: "surroundings \<Rightarrow> control_loop \<Rightarrow> control_loop" where
  "tryArm E l =
     (if \<not> cl_armRequested l \<or> cl_armed l \<or> \<not> channel_open (cl_fast l) \<or> \<not> channel_open (cl_reliable l)
         \<or> channel_buffered (cl_fast l) > 0 \<or> channel_buffered (cl_reliable l) > 0 then l
      else (let (sent, l') = sendReliable E (Arm_message (cl_sessionId l)) l
            in if sent then setArmed True l' else l'))"

definition applyInput :: "control_sample \<Rightarrow> control_loop \<Rightarrow> control_loop" where
  "applyInput i l =
     l\<lparr>cl_steering := normalizedAxis (case cs_steering i of Some v \<Rightarrow> v | None \<Rightarrow> Fin (cl_steering l)),
       cl_throttle := normalizedAxis (case cs_throttle i of Some v \<Rightarrow> v | None \<Rightarrow> Fin (cl_throttle l)),
       cl_nitro := (case cs_nitro i of Some b \<Rightarrow> b | None \<Rightarrow> cl_nitro l)\<rparr>"

definition loop_command :: "control_loop \<Rightarrow> drive_command" where
  "loop_command l =
     (let proportional = (cl_protocolVersion l = 5)
      in \<lparr>dr_v = (if cl_protocolVersion l \<ge> 4 then cl_protocolVersion l else 3),
          dr_sessionId = cl_sessionId l,
          dr_sequence = cl_sequence l,
          dr_steering = (if cl_armed l then encodeAxis (cl_steering l) proportional else 0),
          dr_throttle = (if cl_armed l then encodeAxis (cl_throttle l) proportional else 0),
          dr_nitro = (cl_armed l \<and> cl_nitro l),
          dr_armed = cl_armed l,
          dr_steeringTrimPercent =
            (if cl_protocolVersion l \<ge> 4 then Some (cl_steeringTrimPercent l) else None)\<rparr>)"

definition transmit :: "surroundings \<Rightarrow> control_loop \<Rightarrow> control_loop" where
  "transmit E l0 =
     (let l = l0\<lparr>cl_sequence := cl_sequence l0 + 1\<rparr>; c = loop_command l in
      if channel_open (cl_fast l) then
        (let (threw, l') = send_on_fast E c l
         in if threw then transportFailed E ''control_send_failed'' l' else l')
      else if cl_fast l \<noteq> None then l
      else (case su_edgeOrigin E of
          None \<Rightarrow> l
        | Some e \<Rightarrow> if e = [] then l else loop_emit (Posted (e @ ''/v1/edge/control'') c) l))"

definition sendLatest :: "surroundings \<Rightarrow> control_loop \<Rightarrow> control_loop" where
  "sendLatest E l =
     (if channel_open (cl_fast l) \<and> channel_buffered (cl_fast l) > 0 then
        (let since = (case cl_congestedAt l of None \<Rightarrow> su_now E | Some t \<Rightarrow> t);
             l1 = l\<lparr>cl_congestedAt := Some since\<rparr>
         in if cl_armed l1 \<and> su_later E - since \<ge> 200
            then transportFailed E ''control_channel_congested'' l1 else l1)
      else
        (let l1 = l\<lparr>cl_congestedAt := None\<rparr> in
         if cl_armed l1 \<and> cl_inputProvider l1 then
           (case su_provided E of None \<Rightarrow> l1 | Some i \<Rightarrow> transmit E (applyInput i l1))
         else transmit E l1))"

subsection \<open>The public methods\<close>

definition loop_neutral :: "surroundings \<Rightarrow> string \<Rightarrow> control_loop \<Rightarrow> control_loop" where
  "loop_neutral E reason l =
     (let l1 = l\<lparr>cl_inputProvider := False, cl_steering := 0, cl_throttle := 0, cl_nitro := False\<rparr>
      in sendLatest E (snd (sendReliable E (Neutral_message (cl_sessionId l1) reason) l1)))"

definition loop_setInput :: "control_sample \<Rightarrow> control_loop \<Rightarrow> control_loop" where
  "loop_setInput i l = applyInput i (l\<lparr>cl_inputProvider := False\<rparr>)"

definition loop_setInputProvider :: "bool \<Rightarrow> control_loop \<Rightarrow> control_loop" where
  "loop_setInputProvider given l = l\<lparr>cl_inputProvider := given\<rparr>"

definition loop_setSteeringTrim :: "jsnum \<Rightarrow> control_loop \<Rightarrow> control_loop" where
  "loop_setSteeringTrim v l = (case normalizeSteeringTrim v of
       Inl e \<Rightarrow> l | Inr t \<Rightarrow> l\<lparr>cl_steeringTrimPercent := t\<rparr>)"

definition loop_arm :: "surroundings \<Rightarrow> control_loop \<Rightarrow> control_loop" where
  "loop_arm E l = tryArm E (l\<lparr>cl_armRequested := True\<rparr>)"

definition loop_disarm :: "surroundings \<Rightarrow> string \<Rightarrow> control_loop \<Rightarrow> control_loop" where
  "loop_disarm E reason l = loop_neutral E reason (setArmed False (l\<lparr>cl_armRequested := False\<rparr>))"

definition loop_start :: "control_loop \<Rightarrow> control_loop" where
  "loop_start l = l\<lparr>cl_timer := True\<rparr>"

definition loop_stop :: "surroundings \<Rightarrow> control_loop \<Rightarrow> control_loop" where
  "loop_stop E l =
     (loop_neutral E ''control_loop_stopped''
        (setArmed False (l\<lparr>cl_timer := False, cl_armRequested := False\<rparr>)))\<lparr>cl_listening := False\<rparr>"

definition bindChannels :: "surroundings \<Rightarrow> data_channel \<Rightarrow> data_channel \<Rightarrow> control_loop \<Rightarrow> control_loop" where
  "bindChannels E fast reliable l =
     tryArm E (l\<lparr>cl_fast := Some fast, cl_reliable := Some reliable, cl_listening := True\<rparr>)"

subsection \<open>Runs\<close>

text \<open>
  A run calls the methods and delivers the browser's events in any order: the timer, the
  events of the channels, and changes of a channel's state and buffer that come without one.
  The loop hears the channels it is bound to until \<open>stop\<close>; the constructor's version is 3, 4
  or 5.
\<close>

datatype loop_event =
    Bind data_channel data_channel
  | Set_input control_sample
  | Set_provider bool
  | Set_trim jsnum
  | Arm
  | Disarm string
  | Start
  | Neutral string
  | Stop
  | Timer
  | Channel_opens
  | Channel_closes
  | Channels_change "data_channel option" "data_channel option"

definition channels_change :: "data_channel option \<Rightarrow> data_channel option \<Rightarrow> control_loop \<Rightarrow> control_loop" where
  "channels_change f r l =
     l\<lparr>cl_fast := (if cl_fast l = None then None else case f of None \<Rightarrow> cl_fast l | Some d \<Rightarrow> Some d),
       cl_reliable := (if cl_reliable l = None then None else case r of None \<Rightarrow> cl_reliable l | Some d \<Rightarrow> Some d)\<rparr>"

fun loop_step :: "control_loop \<Rightarrow> surroundings \<times> loop_event \<Rightarrow> control_loop" where
  "loop_step l (E, Bind f r) = bindChannels E f r l"
| "loop_step l (E, Set_input i) = loop_setInput i l"
| "loop_step l (E, Set_provider b) = loop_setInputProvider b l"
| "loop_step l (E, Set_trim v) = loop_setSteeringTrim v l"
| "loop_step l (E, Arm) = loop_arm E l"
| "loop_step l (E, Disarm reason) = loop_disarm E reason l"
| "loop_step l (E, Start) = loop_start l"
| "loop_step l (E, Neutral reason) = loop_neutral E reason l"
| "loop_step l (E, Stop) = loop_stop E l"
| "loop_step l (E, Timer) = (if cl_timer l then sendLatest E l else l)"
| "loop_step l (E, Channel_opens) = (if cl_listening l then tryArm E l else l)"
| "loop_step l (E, Channel_closes) = (if cl_listening l then transportFailed E ''control_channel_closed'' l else l)"
| "loop_step l (E, Channels_change f r) = channels_change f r l"

definition loop_run :: "control_loop \<Rightarrow> (surroundings \<times> loop_event) list \<Rightarrow> control_loop" where
  "loop_run = foldl loop_step"

subsection \<open>What leaves the loop\<close>

definition commands :: "loop_output list \<Rightarrow> drive_command list" where
  "commands lg = concat (map (\<lambda>w. case w of Fast_sent c \<Rightarrow> [c] | Posted e c \<Rightarrow> [c] | _ \<Rightarrow> []) lg)"

definition armed_after :: "loop_output list \<Rightarrow> bool" where
  "armed_after lg = foldl (\<lambda>a w. case w of Armed_change b \<Rightarrow> b | _ \<Rightarrow> a) False lg"

definition neutral_command :: "drive_command \<Rightarrow> bool" where
  "neutral_command c = (\<not> dr_armed c \<and> dr_steering c = 0 \<and> dr_throttle c = 0 \<and> \<not> dr_nitro c)"

text \<open>
  A command fits its protocol: the axes are thousandths in version 5 and signs before, the trim
  is sent from version 4 on, within twenty percent.
\<close>

definition command_fits :: "nat \<Rightarrow> ident \<Rightarrow> drive_command \<Rightarrow> bool" where
  "command_fits v sid c =
     (let limit = (if v = 5 then 1000 else 1) in
      dr_sessionId c = sid \<and> dr_v c = max 3 v
      \<and> \<bar>dr_steering c\<bar> \<le> limit \<and> \<bar>dr_throttle c\<bar> \<le> limit
      \<and> (case dr_steeringTrimPercent c of None \<Rightarrow> v < 4 | Some t \<Rightarrow> 4 \<le> v \<and> - 20 \<le> t \<and> t \<le> 20))"

text \<open>What may follow the outputs so far.\<close>

definition output_ok :: "nat \<Rightarrow> ident \<Rightarrow> loop_output list \<Rightarrow> loop_output \<Rightarrow> bool" where
  "output_ok v sid before w =
     (case w of
        Fast_sent c \<Rightarrow> command_fits v sid c \<and> dr_armed c = armed_after before \<and> (dr_armed c \<or> neutral_command c)
      | Posted e c \<Rightarrow> command_fits v sid c \<and> dr_armed c = armed_after before \<and> (dr_armed c \<or> neutral_command c)
      | Armed_change b \<Rightarrow> b \<noteq> armed_after before
          \<and> (\<not> b \<or> (before \<noteq> [] \<and> last before = Reliable_sent (Arm_message sid)))
      | Reliable_sent m \<Rightarrow> (case m of Arm_message i \<Rightarrow> i = sid \<and> \<not> armed_after before
          | Neutral_message i r \<Rightarrow> i = sid | Intent_message c \<Rightarrow> False))"

definition log_ok :: "nat \<Rightarrow> ident \<Rightarrow> loop_output list \<Rightarrow> bool" where
  "log_ok v sid lg =
     ((\<forall>i < length lg. output_ok v sid (take i lg) (lg ! i))
      \<and> sorted_wrt (<) (map dr_sequence (commands lg)))"

definition loop_inv :: "nat \<Rightarrow> ident \<Rightarrow> control_loop \<Rightarrow> bool" where
  "loop_inv v sid l \<longleftrightarrow> cl_protocolVersion l = v \<and> cl_sessionId l = sid \<and> log_ok v sid (cl_log l)
     \<and> armed_after (cl_log l) = cl_armed l
     \<and> (\<forall>c \<in> set (commands (cl_log l)). dr_sequence c \<le> cl_sequence l)
     \<and> \<bar>cl_steering l\<bar> \<le> 1 \<and> \<bar>cl_throttle l\<bar> \<le> 1
     \<and> - 20 \<le> cl_steeringTrimPercent l \<and> cl_steeringTrimPercent l \<le> 20"

lemma commands_simps [simp]:
  "commands [] = []" "commands (xs @ ys) = commands xs @ commands ys"
  "commands [Fast_sent c] = [c]" "commands [Posted e c] = [c]" "commands [Armed_change b] = []"
  "commands [Reliable_sent m] = []"
  by (auto simp: commands_def)

lemma armed_after_simps [simp]:
  "armed_after [] = False" "armed_after (xs @ [Armed_change b]) = b" "armed_after (xs @ [Fast_sent c]) = armed_after xs"
  "armed_after (xs @ [Posted e c]) = armed_after xs" "armed_after (xs @ [Reliable_sent m]) = armed_after xs"
  by (auto simp: armed_after_def)

lemma log_ok_snoc:
  "log_ok v sid (xs @ [w]) \<longleftrightarrow> log_ok v sid xs \<and> output_ok v sid xs w
    \<and> (\<forall>c \<in> set (commands [w]). \<forall>d \<in> set (commands xs). dr_sequence d < dr_sequence c)"
proof -
  have one: "sorted_wrt (<) (map dr_sequence (commands [w]))"
    by (cases w) auto
  have "(\<forall>i < length (xs @ [w]). output_ok v sid (take i (xs @ [w])) ((xs @ [w]) ! i))
    \<longleftrightarrow> (\<forall>i < length xs. output_ok v sid (take i xs) (xs ! i)) \<and> output_ok v sid xs w"
    by (auto simp: less_Suc_eq nth_append)
  with one show ?thesis
    unfolding log_ok_def commands_simps(2) map_append sorted_wrt_append by auto
qed

lemma axis_bound: "\<bar>normalizedAxis v\<bar> \<le> 1"
  by (cases v) (auto simp: normalizedAxis_def)

lemma encode_bound:
  "\<bar>encodeAxis v p\<bar> \<le> (if p then 1000 else 1)"
proof (cases p)
  case True
  have "- 1 \<le> normalizedAxis (Fin v)" "normalizedAxis (Fin v) \<le> 1" using axis_bound [of "Fin v"] by linarith+
  then have "- 1000 \<le> \<lfloor>normalizedAxis (Fin v) * 1000 + 1 / 2\<rfloor>" "\<lfloor>normalizedAxis (Fin v) * 1000 + 1 / 2\<rfloor> \<le> 1000"
    by (auto simp: le_floor_iff floor_le_iff)
  then show ?thesis using True unfolding encodeAxis_def if_P [OF True] abs_le_iff by linarith
qed (simp add: encodeAxis_def discreteAxis_def)

subsection \<open>Every method keeps the invariant\<close>

lemma inv_setArmed_off: "loop_inv v sid l \<Longrightarrow> loop_inv v sid (setArmed False l)"
  by (auto simp: loop_inv_def setArmed_def loop_emit_def log_ok_snoc output_ok_def)

lemma armed_setArmed [simp]: "cl_armed (setArmed b l) = b"
  by (auto simp: setArmed_def loop_emit_def)

lemma inv_reliable:
  assumes "loop_inv v sid l" "output_ok v sid (cl_log l) (Reliable_sent m)"
  shows "loop_inv v sid (snd (send_on_reliable E m l))"
  using assms by (auto simp: loop_inv_def send_on_reliable_def loop_emit_def log_ok_snoc Let_def split: option.splits prod.splits)

lemma neutral_ok [simp]: "output_ok v sid lg (Reliable_sent (Neutral_message sid reason))"
  by (simp add: output_ok_def)

lemma inv_quiet:
  assumes "loop_inv v sid l" "cl_protocolVersion l' = cl_protocolVersion l" "cl_sessionId l' = cl_sessionId l"
    "cl_log l' = cl_log l" "cl_armed l' = cl_armed l" "cl_sequence l \<le> cl_sequence l'"
    "\<bar>cl_steering l'\<bar> \<le> 1" "\<bar>cl_throttle l'\<bar> \<le> 1" "- 20 \<le> cl_steeringTrimPercent l'" "cl_steeringTrimPercent l' \<le> 20"
  shows "loop_inv v sid l'"
  using assms by (fastforce simp: loop_inv_def)

lemma inv_fields:
  "loop_inv v sid l \<Longrightarrow> cl_sessionId l = sid" "loop_inv v sid l \<Longrightarrow> cl_protocolVersion l = v"
  "loop_inv v sid l \<Longrightarrow> \<bar>cl_steering l\<bar> \<le> 1" "loop_inv v sid l \<Longrightarrow> \<bar>cl_throttle l\<bar> \<le> 1"
  "loop_inv v sid l \<Longrightarrow> - 20 \<le> cl_steeringTrimPercent l" "loop_inv v sid l \<Longrightarrow> cl_steeringTrimPercent l \<le> 20"
  by (auto simp: loop_inv_def)

lemma inv_transportFailed: "loop_inv v sid l \<Longrightarrow> loop_inv v sid (transportFailed E reason l)"
proof -
  assume l: "loop_inv v sid l"
  let ?l = "setArmed False (l\<lparr>cl_armRequested := False, cl_inputProvider := False, cl_steering := 0,
    cl_throttle := 0, cl_nitro := False\<rparr>)"
  have "loop_inv v sid ?l"
    by (rule inv_setArmed_off, rule inv_quiet [OF l]) (auto simp: inv_fields [OF l])
  then show ?thesis using inv_reliable [of v sid ?l "Neutral_message sid reason" E]
    by (auto simp: transportFailed_def Let_def inv_fields)
qed

lemma send_fails: "fst (send_on_reliable E m l) \<Longrightarrow> cl_log (snd (send_on_reliable E m l)) = cl_log l"
  by (auto simp: send_on_reliable_def channel_send_def Let_def split: option.splits list.splits bool.splits)

lemma inv_sendReliable:
  assumes "loop_inv v sid l" "output_ok v sid (cl_log l) (Reliable_sent m)"
  shows "loop_inv v sid (snd (sendReliable E m l))"
  using inv_reliable [OF assms, of E] assms(1) by (auto simp: sendReliable_def Let_def inv_transportFailed split: prod.splits)

lemma inv_tryArm:
  assumes l: "loop_inv v sid l"
  shows "loop_inv v sid (tryArm E l)"
proof (cases "cl_armed l")
  case False
  have sid: "cl_sessionId l = sid" using l by (rule inv_fields)
  have ok: "output_ok v sid (cl_log l) (Reliable_sent (Arm_message sid))"
    using l False by (simp add: loop_inv_def output_ok_def)
  obtain sent l' where s: "sendReliable E (Arm_message sid) l = (sent, l')" by (rule prod.exhaust)
  have l': "loop_inv v sid l'" using inv_sendReliable [OF l ok, of E] s by simp
  have "sent \<Longrightarrow> cl_log l' \<noteq> [] \<and> last (cl_log l') = Reliable_sent (Arm_message sid) \<and> cl_armed l' = cl_armed l"
    using s by (auto simp: sendReliable_def send_on_reliable_def loop_emit_def Let_def split: if_splits prod.splits option.splits)
  then have "sent \<Longrightarrow> loop_inv v sid (setArmed True l')"
    using l' False by (auto simp: loop_inv_def setArmed_def loop_emit_def log_ok_snoc output_ok_def)
  then show ?thesis using l l' by (simp add: tryArm_def s sid)
qed (simp add: tryArm_def l)

lemma command_ok:
  assumes "loop_inv v sid l"
  shows "command_fits v sid (loop_command l) \<and> dr_armed (loop_command l) = cl_armed l
    \<and> (dr_armed (loop_command l) \<or> neutral_command (loop_command l)) \<and> dr_sequence (loop_command l) = cl_sequence l"
  using assms encode_bound [of _ "v = 5"]
  by (auto simp: loop_inv_def command_fits_def loop_command_def neutral_command_def Let_def)

lemma inv_transmit:
  assumes l: "loop_inv v sid l"
  shows "loop_inv v sid (transmit E l)"
proof -
  let ?l = "l\<lparr>cl_sequence := cl_sequence l + 1\<rparr>"
  have l1: "loop_inv v sid ?l" by (rule inv_quiet [OF l]) (auto simp: inv_fields [OF l])
  have new: "\<forall>d \<in> set (commands (cl_log ?l)). dr_sequence d < cl_sequence ?l"
    using l by (auto simp: loop_inv_def)
  note c = command_ok [OF l1]
  have posted: "loop_inv v sid (loop_emit (Posted e (loop_command ?l)) ?l)" for e
    using l1 c new by (auto simp: loop_inv_def loop_emit_def log_ok_snoc output_ok_def)
  have fast: "loop_inv v sid (snd (send_on_fast E (loop_command ?l) ?l))"
    using l1 c new by (auto simp: loop_inv_def send_on_fast_def loop_emit_def log_ok_snoc output_ok_def Let_def
        split: option.splits prod.splits)
  show ?thesis using fast posted l1
    by (auto simp: transmit_def Let_def inv_transportFailed split: prod.splits option.splits)
qed

lemma inv_applyInput: "loop_inv v sid l \<Longrightarrow> loop_inv v sid (applyInput i l)"
  by (rule inv_quiet) (auto simp: applyInput_def axis_bound inv_fields)

lemma inv_sendLatest:
  assumes l: "loop_inv v sid l"
  shows "loop_inv v sid (sendLatest E l)"
proof -
  have "loop_inv v sid (l\<lparr>cl_congestedAt := t\<rparr>)" for t
    by (rule inv_quiet [OF l]) (auto simp: inv_fields [OF l])
  then show ?thesis
    by (auto simp: sendLatest_def Let_def intro!: inv_transportFailed inv_transmit inv_applyInput split: option.splits)
qed

lemma inv_neutral:
  assumes l: "loop_inv v sid l"
  shows "loop_inv v sid (loop_neutral E reason l)"
proof -
  have "loop_inv v sid (l\<lparr>cl_inputProvider := False, cl_steering := 0, cl_throttle := 0, cl_nitro := False\<rparr>)"
    by (rule inv_quiet [OF l]) (auto simp: inv_fields [OF l])
  then show ?thesis
    unfolding loop_neutral_def Let_def by (intro inv_sendLatest inv_sendReliable) (auto simp: inv_fields)
qed

lemma inv_step [inv_steps]:
  assumes l: "loop_inv v sid l"
  shows "loop_inv v sid (loop_step l ev)"
proof -
  obtain E e where ev: "ev = (E, e)" by (rule prod.exhaust)
  note quiet = inv_quiet [OF l]
  have trim: "normalizeSteeringTrim x = Inr t \<Longrightarrow> - 20 \<le> t \<and> t \<le> 20" for x t
    by (auto simp: normalizeSteeringTrim_def split: jsnum.splits)
  show ?thesis
  proof (cases e)
    case (Bind f r)
    then show ?thesis by (simp add: ev bindChannels_def) (intro inv_tryArm quiet; simp add: inv_fields [OF l])
  next
    case (Set_input i)
    then show ?thesis by (simp add: ev loop_setInput_def) (intro inv_applyInput quiet; simp add: inv_fields [OF l])
  next
    case (Set_trim x)
    then show ?thesis using trim [of x] l
      by (auto simp: ev loop_setSteeringTrim_def inv_fields [OF l] intro!: quiet split: sum.splits)
  next
    case Arm
    then show ?thesis by (simp add: ev loop_arm_def) (intro inv_tryArm quiet; simp add: inv_fields [OF l])
  next
    case (Disarm reason)
    then show ?thesis
      by (simp add: ev loop_disarm_def) (intro inv_neutral inv_setArmed_off quiet; simp add: inv_fields [OF l])
  next
    case Stop
    have "loop_inv v sid (loop_neutral E ''control_loop_stopped''
        (setArmed False (l\<lparr>cl_timer := False, cl_armRequested := False\<rparr>)))"
      by (intro inv_neutral inv_setArmed_off quiet; simp add: inv_fields [OF l])
    then show ?thesis using Stop by (simp add: ev loop_stop_def loop_inv_def)
  next
    case (Channels_change f r)
    show ?thesis unfolding ev Channels_change loop_step.simps channels_change_def
      by (rule quiet) (simp_all add: inv_fields [OF l])
  qed (use l in \<open>auto simp: ev loop_setInputProvider_def loop_start_def inv_neutral inv_sendLatest inv_tryArm
      inv_transportFailed inv_fields intro!: quiet\<close>)
qed

lemma inv_run: "loop_inv v sid l \<Longrightarrow> loop_inv v sid (loop_run l evs)"
  by (induction evs arbitrary: l) (simp_all add: loop_run_def inv_step)

lemma inv_new: "loop_inv v sid (new_control_loop sid v)"
  by (simp add: loop_inv_def new_control_loop_def log_ok_def)

subsection \<open>Resting until armed again\<close>

definition harmless :: "loop_output \<Rightarrow> bool" where
  "harmless w = (case w of
       Fast_sent c \<Rightarrow> neutral_command c
     | Posted e c \<Rightarrow> neutral_command c
     | Reliable_sent (Neutral_message i r) \<Rightarrow> True
     | _ \<Rightarrow> False)"

definition resting :: "control_loop \<Rightarrow> bool" where
  "resting l = (\<not> cl_armRequested l \<and> \<not> cl_armed l)"

definition rests :: "control_loop \<Rightarrow> control_loop \<Rightarrow> bool" where
  "rests l l' = (resting l' \<and> (\<exists>ws. cl_log l' = cl_log l @ ws \<and> list_all harmless ws))"

lemma rests_same: "resting l' \<Longrightarrow> cl_log l' = cl_log l \<Longrightarrow> rests l l'"
  by (simp add: rests_def)

lemma rests_trans: "rests l l1 \<Longrightarrow> rests l1 l2 \<Longrightarrow> rests l l2"
  by (force simp: rests_def)

lemma rests_from: "rests l1 l2 \<Longrightarrow> cl_log l1 = cl_log l \<Longrightarrow> rests l l2"
  by (simp add: rests_def)

lemma rests_neutral: "resting l \<Longrightarrow> rests l (snd (send_on_reliable E (Neutral_message i r) l))"
  by (auto simp: rests_def resting_def send_on_reliable_def loop_emit_def harmless_def Let_def
      split: option.splits prod.splits)

lemma rests_transportFailed:
  assumes "resting l"
  shows "rests l (transportFailed E reason l)"
proof -
  let ?l = "l\<lparr>cl_armRequested := False, cl_inputProvider := False, cl_steering := 0, cl_throttle := 0, cl_nitro := False\<rparr>"
  have r: "resting ?l" and same: "setArmed False ?l = ?l" using assms by (auto simp: resting_def setArmed_def)
  have "rests ?l (transportFailed E reason l)" unfolding transportFailed_def Let_def same
    using rests_neutral [OF r] rests_same [OF r] by simp
  then show ?thesis by (rule rests_from) simp
qed

lemma rests_sendReliable:
  assumes "resting l"
  shows "rests l (snd (sendReliable E (Neutral_message i r) l))"
proof -
  obtain threw l' where s: "send_on_reliable E (Neutral_message i r) l = (threw, l')" by (rule prod.exhaust)
  have l': "rests l l'" using rests_neutral [OF assms, of E i r] s by simp
  then have "resting l'" by (simp add: rests_def)
  with l' have "rests l (transportFailed E r l')" for r by (blast intro: rests_trans rests_transportFailed)
  then show ?thesis using l' assms by (simp add: sendReliable_def s rests_same)
qed

lemma rests_transmit:
  assumes "resting l"
  shows "rests l (transmit E l)"
proof -
  define L where "L = l\<lparr>cl_sequence := cl_sequence l + 1\<rparr>"
  define c where "c = loop_command L"
  have L: "resting L" "cl_log L = cl_log l" using assms by (auto simp: L_def resting_def)
  have c: "neutral_command c" using L(1)
    by (simp add: c_def neutral_command_def loop_command_def resting_def Let_def)
  obtain threw l' where s: "send_on_fast E c L = (threw, l')" by (rule prod.exhaust)
  have fast: "rests L l'"
    using L c s by (auto simp: send_on_fast_def rests_def resting_def loop_emit_def harmless_def Let_def
        split: option.splits prod.splits if_splits)
  moreover have "rests L (transportFailed E r l')" for r
  proof -
    have "resting l'" using fast by (simp add: rests_def)
    with fast show ?thesis by (blast intro: rests_trans rests_transportFailed)
  qed
  moreover have "rests L (loop_emit (Posted e c) L)" for e
    using L c by (simp add: rests_def resting_def loop_emit_def harmless_def)
  moreover have "rests L L" using L by (simp add: rests_same)
  ultimately have "rests L (transmit E l)"
    unfolding transmit_def Let_def L_def [symmetric] c_def [symmetric] s by (simp split: option.split)
  then show ?thesis using L(2) by (rule rests_from)
qed

lemma rests_sendLatest: "resting l \<Longrightarrow> rests l (sendLatest E l)"
  by (auto simp: sendLatest_def Let_def resting_def intro!: rests_same rests_from [OF rests_transmit])

lemma rests_loop_neutral:
  assumes "resting l"
  shows "rests l (loop_neutral E reason l)"
proof -
  let ?l = "l\<lparr>cl_inputProvider := False, cl_steering := 0, cl_throttle := 0, cl_nitro := False\<rparr>"
  have r: "resting ?l" using assms by (simp add: resting_def)
  have "rests ?l (snd (sendReliable E (Neutral_message (cl_sessionId ?l) reason) ?l))"
    using r by (rule rests_sendReliable)
  from rests_trans [OF this rests_sendLatest] this
  show ?thesis unfolding loop_neutral_def Let_def rests_def [of ?l] by (simp add: rests_def)
qed

lemma resting_tryArm: "resting l \<Longrightarrow> tryArm E l = l"
  by (simp add: resting_def tryArm_def)

lemma rests_step:
  assumes r: "resting l" and e: "snd ev \<noteq> Arm"
  shows "rests l (loop_step l ev)"
proof -
  obtain E e where ev: "ev = (E, e)" by (rule prod.exhaust)
  have off: "setArmed False (l\<lparr>cl_armRequested := False\<rparr>) = l\<lparr>cl_armRequested := False\<rparr>"
    "setArmed False (l\<lparr>cl_timer := False, cl_armRequested := False\<rparr>) = l\<lparr>cl_timer := False, cl_armRequested := False\<rparr>"
    using r by (auto simp: setArmed_def resting_def)
  show ?thesis
  proof (cases e)
    case (Bind f r')
    have "tryArm E (l\<lparr>cl_fast := Some f, cl_reliable := Some r', cl_listening := True\<rparr>)
      = l\<lparr>cl_fast := Some f, cl_reliable := Some r', cl_listening := True\<rparr>"
      using r by (intro resting_tryArm) (simp add: resting_def)
    then show ?thesis using r by (simp add: ev Bind bindChannels_def resting_def rests_same)
  next
    case (Disarm reason)
    have "rests (l\<lparr>cl_armRequested := False\<rparr>) (loop_step l ev)"
      unfolding ev Disarm loop_step.simps loop_disarm_def off
      using r by (intro rests_loop_neutral) (simp add: resting_def)
    then show ?thesis by (rule rests_from) simp
  next
    case Stop
    have "rests (l\<lparr>cl_timer := False, cl_armRequested := False\<rparr>) (loop_neutral E ''control_loop_stopped''
        (l\<lparr>cl_timer := False, cl_armRequested := False\<rparr>))"
      using r by (intro rests_loop_neutral) (simp add: resting_def)
    then show ?thesis unfolding ev Stop loop_step.simps loop_stop_def off by (simp add: rests_def resting_def)
  next
    case Arm
    then show ?thesis using e ev by simp
  qed (use r in \<open>auto simp: ev resting_tryArm rests_sendLatest rests_loop_neutral rests_transportFailed
      loop_setInput_def applyInput_def loop_setInputProvider_def loop_setSteeringTrim_def loop_start_def
      channels_change_def resting_def intro!: rests_same split: sum.splits\<close>)
qed

lemma rests_run:
  assumes "resting l" "\<forall>ev \<in> set evs. snd ev \<noteq> Arm"
  shows "rests l (loop_run l evs)"
  using assms
proof (induction evs arbitrary: l)
  case Nil
  then show ?case by (simp add: loop_run_def rests_same)
next
  case (Cons ev evs)
  have "rests l (loop_step l ev)" using Cons.prems by (intro rests_step) auto
  moreover from this have "rests (loop_step l ev) (loop_run (loop_step l ev) evs)"
    using Cons by (simp add: rests_def)
  ultimately show ?case by (auto simp: loop_run_def intro: rests_trans)
qed

text \<open>
  Property C39: Whatever the driver, the network and the timer do: the loop's messages are an \<open>arm\<close> directly
  before it becomes armed, commands that say whether it is armed, neutral commands while it is
  not, axes and trim within the bounds of the protocol version, and sequence numbers that grow
  strictly.
\<close>

theorem control_log_well_formed:
  "log_ok v sid (cl_log (loop_run (new_control_loop sid v) evs))"
  using inv_run [OF inv_new, of v sid evs] by (simp add: loop_inv_def)

text \<open>
  Once a loop has been disarmed or stopped, or a channel it listens to has closed or failed,
  nothing but neutral messages leaves it, whatever input, channels, timers and network changes
  follow, until \<open>arm\<close> is called again.
\<close>

theorem disarmed_loop_stays_neutral:
  assumes "(\<exists>reason. e = Disarm reason) \<or> e = Stop \<or> (e = Channel_closes \<and> cl_listening l)"
    and "\<forall>ev \<in> set later. snd ev \<noteq> Arm"
  shows "\<not> cl_armed (loop_run (loop_step l (E, e)) later)
    \<and> (\<exists>ws. cl_log (loop_run (loop_step l (E, e)) later) = cl_log (loop_step l (E, e)) @ ws \<and> list_all harmless ws)"
proof -
  have set: "resting (setArmed False (l'\<lparr>cl_armRequested := False\<rparr>))" for l'
    by (simp add: resting_def) (simp add: setArmed_def loop_emit_def)
  have fail: "resting (transportFailed E r l)" for r
  proof -
    let ?l = "setArmed False (l\<lparr>cl_armRequested := False, cl_inputProvider := False, cl_steering := 0,
      cl_throttle := 0, cl_nitro := False\<rparr>)"
    have "resting ?l" by (simp add: resting_def) (simp add: setArmed_def loop_emit_def)
    with rests_neutral [OF this] show ?thesis unfolding transportFailed_def Let_def by (simp add: rests_def)
  qed
  have stop: "resting (setArmed False (l\<lparr>cl_timer := False, cl_armRequested := False\<rparr>))"
    using set [of "l\<lparr>cl_timer := False\<rparr>"] by simp
  have "resting (loop_step l (E, e))"
    using assms(1) rests_loop_neutral [OF set, where E = E] rests_loop_neutral [OF stop, of E] fail
    by (auto simp: loop_disarm_def loop_stop_def rests_def) (simp add: resting_def)
  from rests_run [OF this assms(2)] show ?thesis by (simp add: rests_def resting_def)
qed

subsection \<open>A backed up channel\<close>

definition backed_up :: "control_loop \<Rightarrow> bool" where
  "backed_up l = (channel_open (cl_fast l) \<and> channel_buffered (cl_fast l) > 0)"

text \<open>The events that leave the fast channel open and backed up.\<close>

definition keeps_backlog :: "surroundings \<times> loop_event \<Rightarrow> bool" where
  "keeps_backlog ev = (case snd ev of
       Bind f r \<Rightarrow> False
     | Channels_change f r \<Rightarrow> (case f of None \<Rightarrow> True
         | Some d \<Rightarrow> dc_readyState d = ''open'' \<and> dc_bufferedAmount d > 0)
     | _ \<Rightarrow> True)"

definition stalls :: "control_loop \<Rightarrow> control_loop \<Rightarrow> bool" where
  "stalls l l' = (backed_up l' \<and> commands (cl_log l') = commands (cl_log l)
     \<and> (cl_armed l' \<longrightarrow> cl_armed l \<and> (cl_timer l \<longrightarrow> cl_timer l')
        \<and> (\<forall>t. cl_congestedAt l = Some t \<longrightarrow> cl_congestedAt l' = Some t)))"

lemma stalls_trans: "stalls l l1 \<Longrightarrow> stalls l1 l2 \<Longrightarrow> stalls l l2"
  by (auto simp: stalls_def)

lemma stalls_reliable: "backed_up l \<Longrightarrow> stalls l (snd (send_on_reliable E m l))"
  by (auto simp: stalls_def backed_up_def send_on_reliable_def loop_emit_def Let_def split: option.splits prod.splits)

lemma stalls_setArmed: "backed_up l \<Longrightarrow> stalls l (setArmed False l)"
  by (auto simp: stalls_def backed_up_def setArmed_def loop_emit_def)

lemma stalls_transportFailed:
  assumes "backed_up l"
  shows "stalls l (transportFailed E reason l) \<and> \<not> cl_armed (transportFailed E reason l)"
proof -
  define L where "L = setArmed False (l\<lparr>cl_armRequested := False, cl_inputProvider := False, cl_steering := 0,
    cl_throttle := 0, cl_nitro := False\<rparr>)"
  have L: "stalls l L" "\<not> cl_armed L"
    using assms by (simp_all add: L_def stalls_def backed_up_def) (simp_all add: setArmed_def loop_emit_def)
  then have "stalls l (snd (send_on_reliable E m L))" for m
    by (blast intro: stalls_trans stalls_reliable dest: stalls_def [THEN iffD1])
  moreover have "\<not> cl_armed (snd (send_on_reliable E m L))" for m
    using L(2) by (simp add: send_on_reliable_def loop_emit_def Let_def split: option.splits prod.splits)
  ultimately show ?thesis using L unfolding transportFailed_def Let_def L_def [symmetric] by simp
qed

lemma stalls_sendReliable:
  assumes "backed_up l"
  shows "stalls l (snd (sendReliable E m l))"
proof -
  obtain threw l' where s: "send_on_reliable E m l = (threw, l')" by (rule prod.exhaust)
  have l': "stalls l l'" using stalls_reliable [OF assms, of E m] s by simp
  then have "stalls l (transportFailed E r l')" for r
  proof -
    have "backed_up l'" using l' by (simp add: stalls_def)
    with l' show ?thesis by (blast intro: stalls_trans stalls_transportFailed [THEN conjunct1])
  qed
  then show ?thesis using l' assms by (simp add: sendReliable_def s) (simp add: stalls_def)
qed

lemma stalls_sendLatest:
  assumes "backed_up l"
  shows "stalls l (sendLatest E l)"
    "cl_armed (sendLatest E l) \<Longrightarrow>
      (let since = (case cl_congestedAt l of None \<Rightarrow> su_now E | Some t \<Rightarrow> t)
       in cl_congestedAt (sendLatest E l) = Some since \<and> su_later E - since < 200)"
proof -
  define since where "since = (case cl_congestedAt l of None \<Rightarrow> su_now E | Some t \<Rightarrow> t)"
  define L where "L = l\<lparr>cl_congestedAt := Some since\<rparr>"
  have L: "backed_up L" "stalls l L" "cl_congestedAt L = Some since"
    using assms by (auto simp: L_def since_def backed_up_def stalls_def)
  have s: "sendLatest E l = (if cl_armed L \<and> su_later E - since \<ge> 200
      then transportFailed E ''control_channel_congested'' L else L)"
    using assms by (simp add: sendLatest_def backed_up_def since_def L_def Let_def)
  show "stalls l (sendLatest E l)"
    using L stalls_transportFailed [OF L(1)] by (auto simp: s intro: stalls_trans)
  show "let since = (case cl_congestedAt l of None \<Rightarrow> su_now E | Some t \<Rightarrow> t)
      in cl_congestedAt (sendLatest E l) = Some since \<and> su_later E - since < 200" if "cl_armed (sendLatest E l)"
    using that L(3) stalls_transportFailed [OF L(1)] by (auto simp: s since_def [symmetric] Let_def split: if_splits)
qed

lemma stalls_neutral:
  assumes "backed_up l"
  shows "stalls l (loop_neutral E reason l)"
proof -
  define L where "L = l\<lparr>cl_inputProvider := False, cl_steering := 0, cl_throttle := 0, cl_nitro := False\<rparr>"
  have L: "stalls l L" "backed_up L" using assms by (auto simp: L_def stalls_def backed_up_def)
  have r: "stalls L (snd (sendReliable E m L))" for m using L(2) by (rule stalls_sendReliable)
  then have "backed_up (snd (sendReliable E m L))" for m by (simp add: stalls_def)
  with L(1) r show ?thesis unfolding loop_neutral_def Let_def L_def [symmetric]
    by (blast intro: stalls_trans stalls_sendLatest)
qed

lemma backed_up_tryArm: "backed_up l \<Longrightarrow> tryArm E l = l"
  by (simp add: backed_up_def tryArm_def)

lemma stalls_step:
  assumes b: "backed_up l" and k: "keeps_backlog ev"
  shows "stalls l (loop_step l ev)"
proof -
  obtain E e where ev: "ev = (E, e)" by (rule prod.exhaust)
  have frame: "stalls l l'" if "cl_fast l' = cl_fast l" "cl_log l' = cl_log l" "cl_armed l' = cl_armed l"
    "cl_timer l' = cl_timer l \<or> cl_timer l'" "cl_congestedAt l' = cl_congestedAt l" for l'
    using b that by (auto simp: stalls_def backed_up_def)
  show ?thesis
  proof (cases e)
    case (Disarm reason)
    define L where "L = setArmed False (l\<lparr>cl_armRequested := False\<rparr>)"
    have "stalls l L" using b by (auto simp: L_def stalls_def backed_up_def setArmed_def loop_emit_def)
    moreover from this have "stalls L (loop_neutral E reason L)" by (intro stalls_neutral) (simp add: stalls_def)
    ultimately show ?thesis by (auto simp: ev Disarm loop_disarm_def L_def [symmetric] intro: stalls_trans)
  next
    case Stop
    define L where "L = setArmed False (l\<lparr>cl_timer := False, cl_armRequested := False\<rparr>)"
    have "stalls l L" using b by (auto simp: L_def stalls_def backed_up_def setArmed_def loop_emit_def)
    moreover from this have "stalls L (loop_neutral E r L)" for r by (intro stalls_neutral) (simp add: stalls_def)
    ultimately have "stalls l (loop_neutral E r L)" for r by (blast intro: stalls_trans)
    then have "stalls l ((loop_neutral E ''control_loop_stopped'' L)\<lparr>cl_listening := False\<rparr>)"
      by (simp add: stalls_def backed_up_def)
    then show ?thesis by (simp add: ev Stop loop_stop_def L_def)
  next
    case Arm
    have "backed_up (l\<lparr>cl_armRequested := True\<rparr>)" using b by (simp add: backed_up_def)
    then show ?thesis by (simp add: ev Arm loop_arm_def backed_up_tryArm frame)
  next
    case (Channels_change f r)
    then show ?thesis using b k
      by (auto simp: ev keeps_backlog_def channels_change_def stalls_def backed_up_def channel_open_def
          channel_buffered_def split: option.splits)
  next
    case (Bind f r)
    then show ?thesis using k by (simp add: ev keeps_backlog_def)
  qed (use b in \<open>auto simp: ev backed_up_tryArm stalls_sendLatest stalls_neutral stalls_transportFailed
      loop_setInput_def applyInput_def loop_setInputProvider_def loop_setSteeringTrim_def loop_start_def
      intro!: frame split: sum.splits\<close>)
qed

lemma stalls_run:
  assumes "backed_up l" "\<forall>ev \<in> set evs. keeps_backlog ev"
  shows "stalls l (loop_run l evs)"
  using assms
proof (induction evs arbitrary: l)
  case Nil
  then show ?case by (simp add: loop_run_def stalls_def)
next
  case (Cons ev evs)
  have "stalls l (loop_step l ev)" using Cons.prems by (intro stalls_step) auto
  moreover from this have "stalls (loop_step l ev) (loop_run (loop_step l ev) evs)"
    using Cons by (simp add: stalls_def)
  ultimately show ?case by (auto simp: loop_run_def intro: stalls_trans)
qed

text \<open>
  Property C40: While the fast channel stays backed up no command leaves the loop, and the tick that comes
  200 milliseconds or more after the first one leaves it disarmed, whatever happens in between.
\<close>

theorem congested_loop_disarms:
  assumes "backed_up l" "cl_timer l" "\<forall>ev \<in> set between. keeps_backlog ev"
    and "case cl_congestedAt l of None \<Rightarrow> True | Some t \<Rightarrow> t \<le> su_now E1"
    and "su_now E1 + 200 \<le> su_later E2"
  shows "\<not> cl_armed (loop_run l ((E1, Timer) # between @ [(E2, Timer)]))
    \<and> commands (cl_log (loop_run l ((E1, Timer) # between @ [(E2, Timer)]))) = commands (cl_log l)"
proof -
  let ?l1 = "loop_step l (E1, Timer)" and ?l2 = "loop_run (loop_step l (E1, Timer)) between"
  have run: "loop_run l ((E1, Timer) # between @ [(E2, Timer)]) = loop_step ?l2 (E2, Timer)"
    by (simp add: loop_run_def)
  have s1: "stalls l ?l1" using assms(1) by (intro stalls_step) (simp_all add: keeps_backlog_def)
  then have s2: "stalls ?l1 ?l2" using assms(3) by (intro stalls_run) (simp_all add: stalls_def)
  then have b2: "backed_up ?l2" by (simp add: stalls_def)
  then have s3: "stalls ?l2 (loop_step ?l2 (E2, Timer))" by (intro stalls_step) (simp_all add: keeps_backlog_def)
  have "\<not> cl_armed (loop_step ?l2 (E2, Timer))"
  proof
    assume a: "cl_armed (loop_step ?l2 (E2, Timer))"
    then have a2: "cl_armed ?l2" "cl_armed ?l1" using s2 s3 by (auto simp: stalls_def)
    obtain t where t: "cl_congestedAt ?l1 = Some t" "t \<le> su_now E1"
      using stalls_sendLatest(2) [OF assms(1), of E1] a2(2) assms(2,4) by (auto simp: Let_def split: option.splits)
    have timer: "cl_timer ?l2" "cl_congestedAt ?l2 = Some t"
      using s1 s2 a2 t(1) assms(2) by (auto simp: stalls_def)
    then have "su_later E2 - t < 200"
      using stalls_sendLatest(2) [OF b2, of E2] a by (auto simp: Let_def)
    then show False using t(2) assms(5) by linarith
  qed
  then show ?thesis using s1 s2 s3 unfolding run by (simp add: stalls_def)
qed

subsection \<open>A loop without channels\<close>

definition unbound :: "control_loop \<Rightarrow> bool" where
  "unbound l = (cl_fast l = None \<and> cl_reliable l = None \<and> \<not> cl_armed l \<and> list_all harmless (cl_log l))"

lemma unbound_sendLatest: "unbound l \<Longrightarrow> unbound (sendLatest E l)"
  by (auto simp: sendLatest_def transmit_def unbound_def channel_open_def loop_emit_def harmless_def
      neutral_command_def loop_command_def Let_def split: option.splits)

lemma unbound_neutral: "unbound l \<Longrightarrow> unbound (loop_neutral E reason l)"
  unfolding loop_neutral_def Let_def
  by (rule unbound_sendLatest) (simp add: sendReliable_def channel_open_def unbound_def)

lemma unbound_step:
  assumes "unbound l" "\<forall>f r. snd ev \<noteq> Bind f r"
  shows "unbound (loop_step l ev)"
proof -
  obtain E e where ev: "ev = (E, e)" by (rule prod.exhaust)
  have off: "unbound l \<Longrightarrow> unbound (setArmed False (l\<lparr>cl_timer := t, cl_armRequested := False\<rparr>))"
    "unbound (setArmed False (l\<lparr>cl_armRequested := False\<rparr>))" for t
    using assms by (auto simp: unbound_def setArmed_def)
  have stop: "unbound (loop_stop E l)"
    using unbound_neutral [OF off(1) [OF assms(1)], of E] by (simp add: loop_stop_def unbound_def)
  show ?thesis
    using assms off stop by (cases e)
      (auto simp: ev unbound_sendLatest unbound_neutral loop_disarm_def, auto simp: unbound_def tryArm_def
        channel_open_def loop_setInput_def applyInput_def loop_setInputProvider_def loop_setSteeringTrim_def
        loop_start_def loop_arm_def transportFailed_def setArmed_def channels_change_def split: sum.splits)
qed

text \<open>
  A loop no channels are bound to never drives: whatever keys are pressed and however often it
  is armed, what it posts to the edge over HTTP are neutral commands that say it is not armed.
\<close>

theorem unbound_loop_never_drives:
  assumes "\<forall>ev \<in> set evs. \<forall>f r. snd ev \<noteq> Bind f r"
  shows "list_all harmless (cl_log (loop_run (new_control_loop sid v) evs))"
proof -
  have "unbound l \<Longrightarrow> unbound (loop_run l evs)" for l
    using assms by (induction evs arbitrary: l) (simp_all add: loop_run_def unbound_step)
  moreover have "unbound (new_control_loop sid v)" by (simp add: unbound_def new_control_loop_def)
  ultimately show ?thesis by (simp add: unbound_def)
qed

subsection \<open>Concrete loops\<close>

definition sample_surroundings :: "rat \<Rightarrow> surroundings" where
  "sample_surroundings t =
     \<lparr>su_now = t, su_later = t, su_provided = None, su_edgeOrigin = Some ''http://localhost:3002'',
      su_size = (\<lambda>m. 120)\<rparr>"

definition open_channel :: "nat \<Rightarrow> data_channel" where
  "open_channel n = \<lparr>dc_readyState = ''open'', dc_bufferedAmount = n, dc_faults = []\<rparr>"

definition full_speed :: control_sample where
  "full_speed = \<lparr>cs_steering = Some (Fin (1 / 2)), cs_throttle = Some (Fin 1), cs_nitro = Some True\<rparr>"

definition driving_loop :: control_loop where
  "driving_loop = loop_run (new_control_loop ''s'' 5)
     [(sample_surroundings 0, Bind (open_channel 0) (open_channel 0)), (sample_surroundings 1, Arm),
      (sample_surroundings 2, Start), (sample_surroundings 3, Set_input full_speed),
      (sample_surroundings 20, Timer)]"

definition drives_first :: bool where
  "drives_first = (cl_armed driving_loop \<and> backed_up driving_loop \<and> cl_timer driving_loop
     \<and> cl_congestedAt driving_loop = None
     \<and> map (\<lambda>c. (dr_sequence c, dr_steering c, dr_throttle c, dr_nitro c, dr_armed c)) (commands (cl_log driving_loop))
       = [(1, 500, 1000, True, True)])"

lemma drives_first: drives_first
  by code_simp

theorem disarmed_loop_stays_neutral_witness:
  "drives_first \<and> \<not> cl_armed (loop_run (loop_step driving_loop (sample_surroundings 30, Stop))
       [(sample_surroundings 31, Set_input full_speed), (sample_surroundings 40, Channel_opens)])"
  using disarmed_loop_stays_neutral [of Stop driving_loop "[(sample_surroundings 31, Set_input full_speed),
      (sample_surroundings 40, Channel_opens)]" "sample_surroundings 30"] drives_first by simp

theorem congested_loop_disarms_witness:
  "drives_first \<and> \<not> cl_armed (loop_run driving_loop
       ((sample_surroundings 40, Timer) # [(sample_surroundings 60, Timer)] @ [(sample_surroundings 240, Timer)]))"
  using congested_loop_disarms [of driving_loop "[(sample_surroundings 60, Timer)]" "sample_surroundings 40"
      "sample_surroundings 240"] drives_first
  by (simp add: drives_first_def keeps_backlog_def sample_surroundings_def)

theorem unbound_loop_never_drives_witness:
  "list_all harmless (cl_log (loop_run (new_control_loop ''s'' 3)
     [(sample_surroundings 0, Start), (sample_surroundings 1, Arm), (sample_surroundings 2, Set_input full_speed),
      (sample_surroundings 20, Timer)]))"
  by (rule unbound_loop_never_drives) simp

end
