(* ===== verification/VideoSafety.thy ===== *)
theory VideoSafety
  imports JsNumber
begin

section \<open>Watching the camera video\<close>

text \<open>
  \<open>apps/web/app/ride-video-safety.ts\<close>: the class \<open>RideVideoSafety\<close> that tells whether the
  picture the driver sees still moves. What a handler reads of the page and of the video
  element is the record \<open>video_page\<close>, one reading for a handler; the callback \<open>onFreshness\<close> is
  the list of values a method publishes, oldest first. Streams are identifiers.
\<close>

record video_page =
  vp_now :: rat
  vp_srcObject :: "ident option"
  vp_visible :: bool
  vp_readyState :: nat
  vp_paused :: bool
  vp_ended :: bool
  vp_videoWidth :: nat
  vp_videoHeight :: nat
  vp_currentTime :: jsnum
  vp_frameCallbacks :: bool
  vp_playbackQuality :: "(jsnum \<times> jsnum) option"
  vp_webkitDecodedFrameCount :: "jsnum option"

record video_safety =
  vs_stream :: "ident option"
  vs_generation :: nat
  vs_closed :: bool
  vs_fresh :: bool
  vs_lastFrameAt :: "rat option"
  vs_lastFrameCount :: "jsnum option"
  vs_lastPresentedFrames :: "jsnum option"
  vs_lastMediaTime :: jsnum
  vs_frameCallback :: "nat option"
  vs_pollTimer :: bool
  vs_freezeTimer :: bool

definition VIDEO_FREEZE_TIMEOUT_MS :: rat where
  "VIDEO_FREEZE_TIMEOUT_MS = 1000"

definition new_video_safety :: video_safety where
  "new_video_safety =
     \<lparr>vs_stream = None, vs_generation = 0, vs_closed = False, vs_fresh = False, vs_lastFrameAt = None,
      vs_lastFrameCount = None, vs_lastPresentedFrames = None, vs_lastMediaTime = js_int 0,
      vs_frameCallback = None, vs_pollTimer = False, vs_freezeTimer = False\<rparr>"

definition video_ready :: "video_page \<Rightarrow> video_safety \<Rightarrow> bool" where
  "video_ready P v =
     (vs_stream v \<noteq> None \<and> vp_srcObject P = vs_stream v \<and> vp_visible P \<and> vp_readyState P \<ge> 2
      \<and> \<not> vp_paused P \<and> \<not> vp_ended P \<and> vp_videoWidth P > 0 \<and> vp_videoHeight P > 0)"

definition isFresh :: "video_page \<Rightarrow> video_safety \<Rightarrow> bool" where
  "isFresh P v =
     (\<not> vs_closed v \<and> video_ready P v
      \<and> (case vs_lastFrameAt v of None \<Rightarrow> False | Some t \<Rightarrow> vp_now P - t < VIDEO_FREEZE_TIMEOUT_MS))"

definition finite_count :: "jsnum \<Rightarrow> bool" where
  "finite_count x = (js_finite x \<and> js_le (js_int 0) x)"

definition frameCount :: "video_page \<Rightarrow> jsnum option" where
  "frameCount P =
     (let decoded = (case vp_webkitDecodedFrameCount P of None \<Rightarrow> None
            | Some n \<Rightarrow> if finite_count n then Some n else None)
      in case vp_playbackQuality P of
           None \<Rightarrow> decoded
         | Some (shown, dropped) \<Rightarrow>
             (let displayed = js_sub shown dropped in if finite_count displayed then Some displayed else decoded))"

definition resetFallbackBaseline :: "video_page \<Rightarrow> video_safety \<Rightarrow> video_safety" where
  "resetFallbackBaseline P v = v\<lparr>vs_lastFrameCount := frameCount P, vs_lastMediaTime := vp_currentTime P\<rparr>"

definition noteFrame :: "video_page \<Rightarrow> video_safety \<Rightarrow> video_safety" where
  "noteFrame P v = v\<lparr>vs_lastFrameAt := Some (vp_now P), vs_freezeTimer := True\<rparr>"

definition publish :: "bool \<Rightarrow> video_safety \<Rightarrow> video_safety \<times> bool list" where
  "publish fresh v = (if vs_fresh v = fresh then (v, []) else (v\<lparr>vs_fresh := fresh\<rparr>, [fresh]))"

definition cancelWatch :: "video_safety \<Rightarrow> video_safety" where
  "cancelWatch v =
     v\<lparr>vs_generation := vs_generation v + 1, vs_frameCallback := None, vs_pollTimer := False, vs_freezeTimer := False\<rparr>"

definition requestFrame :: "video_page \<Rightarrow> nat \<Rightarrow> video_safety \<Rightarrow> video_safety" where
  "requestFrame P g v =
     (if vs_closed v \<or> g \<noteq> vs_generation v \<or> \<not> vp_frameCallbacks P then v
      else v\<lparr>vs_frameCallback := Some g\<rparr>)"

text \<open>
  \<open>watch\<close>: the check of \<open>closed\<close> and the generation after \<open>publish(false)\<close> guards against a
  callback that closes the watch or watches another stream; the callback of the ride screen
  does neither.
\<close>

definition watch :: "video_page \<Rightarrow> ident \<Rightarrow> video_safety \<Rightarrow> video_safety \<times> bool list" where
  "watch P stream v =
     (if vs_closed v \<or> vs_stream v = Some stream then (v, [])
      else
        (let v1 = (cancelWatch v)\<lparr>vs_stream := Some stream, vs_lastFrameAt := None, vs_lastPresentedFrames := None\<rparr>;
             (v2, told) = publish False (resetFallbackBaseline P v1)
         in ((requestFrame P (vs_generation v2) v2)\<lparr>vs_pollTimer := True\<rparr>, told)))"

text \<open>
  The check of a browser without frame callbacks: the count of frames, or the media time, has
  grown.
\<close>

definition fallback_progressed :: "video_page \<Rightarrow> video_safety \<Rightarrow> bool" where
  "fallback_progressed P v = (case frameCount P of
       None \<Rightarrow> js_finite (vp_currentTime P) \<and> js_lt (vs_lastMediaTime v) (vp_currentTime P)
     | Some n \<Rightarrow> (case vs_lastFrameCount v of None \<Rightarrow> False | Some k \<Rightarrow> js_lt k n))"

definition check :: "video_page \<Rightarrow> video_safety \<Rightarrow> video_safety \<times> bool list" where
  "check P v =
     (if vs_closed v \<or> vs_stream v = None then (v, [])
      else
        (let v1 = (if \<not> video_ready P v then resetFallbackBaseline P (v\<lparr>vs_lastFrameAt := None\<rparr>)
                   else if \<not> vp_frameCallbacks P then
                     (let progressed = fallback_progressed P v;
                          v2 = v\<lparr>vs_lastFrameCount := frameCount P, vs_lastMediaTime := vp_currentTime P\<rparr>
                      in if progressed then noteFrame P v2 else v2)
                   else v)
         in publish (isFresh P v1) v1))"

text \<open>The callback a frame request of generation \<open>g\<close> leaves behind.\<close>

definition on_video_frame :: "video_page \<Rightarrow> nat \<Rightarrow> jsnum \<Rightarrow> video_safety \<Rightarrow> video_safety \<times> bool list" where
  "on_video_frame P g presentedFrames v =
     (if vs_closed v \<or> g \<noteq> vs_generation v then (v, [])
      else
        (let v1 = v\<lparr>vs_frameCallback := None\<rparr>;
             newer = (case vs_lastPresentedFrames v1 of None \<Rightarrow> True | Some n \<Rightarrow> js_lt n presentedFrames);
             v2 = (if video_ready P v1 \<and> newer then noteFrame P v1 else v1);
             v3 = v2\<lparr>vs_lastPresentedFrames := Some presentedFrames\<rparr>;
             (v4, told) = publish (isFresh P v3) v3
         in (requestFrame P g v4, told)))"

definition close_video_safety :: "video_safety \<Rightarrow> video_safety" where
  "close_video_safety v =
     (if vs_closed v then v else (cancelWatch (v\<lparr>vs_closed := True\<rparr>))\<lparr>vs_stream := None\<rparr>)"

subsection \<open>Runs\<close>

datatype video_event =
    Watch ident
  | Check
  | Video_frame nat jsnum
  | Close_video

fun video_step :: "video_page \<Rightarrow> video_event \<Rightarrow> video_safety \<Rightarrow> video_safety \<times> bool list" where
  "video_step P (Watch s) v = watch P s v"
| "video_step P Check v = check P v"
| "video_step P (Video_frame g n) v = on_video_frame P g n v"
| "video_step P Close_video v = (close_video_safety v, [])"

text \<open>
  The invariant that ties what was published to the frame that was noted: a picture published
  as fresh has a watched stream, and a noted frame that was not published as fresh means that
  a published \<open>False\<close> came after it.
\<close>

definition video_inv :: "video_safety \<Rightarrow> bool" where
  "video_inv v \<longleftrightarrow> (vs_fresh v \<and> \<not> vs_closed v \<longrightarrow> vs_stream v \<noteq> None)
     \<and> (vs_lastFrameAt v \<noteq> None \<and> \<not> vs_closed v \<longrightarrow> vs_stream v \<noteq> None)"

lemma video_inv_new: "video_inv new_video_safety"
  by (simp add: video_inv_def new_video_safety_def)

definition video_next :: "video_page \<Rightarrow> video_safety \<Rightarrow> video_safety \<Rightarrow> bool list \<Rightarrow> bool" where
  "video_next P v v' told \<longleftrightarrow> video_inv v' \<and> vs_closed v' = vs_closed v
     \<and> (told = [] \<longrightarrow> vs_fresh v' = vs_fresh v)
     \<and> (told \<noteq> [] \<longrightarrow> told = [vs_fresh v'] \<and> \<not> vs_closed v')
     \<and> (told = [True] \<longrightarrow> isFresh P v')
     \<and> (vs_lastFrameAt v' \<noteq> None \<longrightarrow> vs_lastFrameAt v = None \<longrightarrow> vs_fresh v')"

lemma published_next:
  assumes "publish (isFresh P v1) v1 = (v', told)" "\<not> vs_closed v1" "vs_stream v1 \<noteq> None" "vs_fresh v1 = vs_fresh v"
    and "vs_closed v1 = vs_closed v" and "vs_lastFrameAt v1 \<noteq> None \<longrightarrow> vs_lastFrameAt v = None \<longrightarrow> isFresh P v1"
  shows "video_next P v v' told"
proof -
  have v': "v' = v1\<lparr>vs_fresh := isFresh P v1\<rparr>" "told = (if vs_fresh v = isFresh P v1 then [] else [isFresh P v1])"
    using assms(1,4) by (auto simp: publish_def split: if_splits)
  have "isFresh P v' = isFresh P v1" by (simp add: v' isFresh_def video_ready_def)
  then show ?thesis using assms(2-6) by (simp add: video_next_def v' video_inv_def)
qed

lemma watch_next:
  assumes "watch P s v = (v', told)" "video_inv v"
  shows "video_next P v v' told"
  using assms by (simp add: watch_def publish_def cancelWatch_def resetFallbackBaseline_def requestFrame_def
      Let_def video_next_def video_inv_def split: if_splits) (auto simp: video_inv_def)

lemma check_next:
  assumes "check P v = (v', told)" "video_inv v"
  shows "video_next P v v' told"
proof (cases "vs_closed v \<or> vs_stream v = None")
  case True
  then show ?thesis using assms by (auto simp: check_def video_next_def)
next
  case False
  define v1 where "v1 = (if \<not> video_ready P v then resetFallbackBaseline P (v\<lparr>vs_lastFrameAt := None\<rparr>)
    else if \<not> vp_frameCallbacks P then
      (let progressed = fallback_progressed P v;
           v2 = v\<lparr>vs_lastFrameCount := frameCount P, vs_lastMediaTime := vp_currentTime P\<rparr>
       in if progressed then noteFrame P v2 else v2)
    else v)"
  have p: "publish (isFresh P v1) v1 = (v', told)"
    using assms(1) False by (simp add: check_def v1_def Let_def)
  have v1: "vs_closed v1 = vs_closed v" "vs_stream v1 = vs_stream v" "vs_fresh v1 = vs_fresh v"
    by (auto simp: v1_def resetFallbackBaseline_def noteFrame_def Let_def)
  have "vs_lastFrameAt v1 \<noteq> None \<longrightarrow> vs_lastFrameAt v = None \<longrightarrow> isFresh P v1"
    using False by (auto simp: v1_def resetFallbackBaseline_def noteFrame_def Let_def isFresh_def video_ready_def
        VIDEO_FREEZE_TIMEOUT_MS_def)
  then show ?thesis using published_next [OF p] v1 False by simp
qed

lemma frame_next:
  assumes "on_video_frame P g n v = (v', told)" "video_inv v"
  shows "video_next P v v' told"
proof (cases "vs_closed v \<or> g \<noteq> vs_generation v")
  case True
  then show ?thesis using assms by (auto simp: on_video_frame_def video_next_def)
next
  case False
  define v3 where "v3 = (let v1 = v\<lparr>vs_frameCallback := None\<rparr>;
      newer = (case vs_lastPresentedFrames v1 of None \<Rightarrow> True | Some k \<Rightarrow> js_lt k n)
    in (if video_ready P v1 \<and> newer then noteFrame P v1 else v1)\<lparr>vs_lastPresentedFrames := Some n\<rparr>)"
  obtain v4 where p: "publish (isFresh P v3) v3 = (v4, told)" "v' = requestFrame P g v4"
    using assms(1) False by (auto simp: on_video_frame_def v3_def Let_def split: prod.splits if_splits)
  have v3: "vs_closed v3 = vs_closed v" "vs_stream v3 = vs_stream v" "vs_fresh v3 = vs_fresh v"
    by (auto simp: v3_def noteFrame_def Let_def)
  have last: "vs_lastFrameAt v3 \<noteq> None \<longrightarrow> vs_lastFrameAt v = None \<longrightarrow> isFresh P v3"
    using False by (auto simp: v3_def noteFrame_def Let_def isFresh_def video_ready_def VIDEO_FREEZE_TIMEOUT_MS_def)
  have same: "vs_closed v' = vs_closed v4" "vs_stream v' = vs_stream v4" "vs_fresh v' = vs_fresh v4"
    "vs_lastFrameAt v' = vs_lastFrameAt v4" by (auto simp: p(2) requestFrame_def)
  show ?thesis
  proof (cases "vs_stream v = None")
    case True
    have "\<not> isFresh P v3" using v3 True by (simp add: isFresh_def video_ready_def)
    moreover have "\<not> vs_fresh v" "vs_lastFrameAt v = None" using assms(2) True False by (auto simp: video_inv_def)
    ultimately show ?thesis using p last v3 same True
      by (auto simp: publish_def video_next_def video_inv_def)
  next
    case stream: False
    have "video_next P v v4 told" using published_next [OF p(1)] v3 stream last False by simp
    then show ?thesis using same False by (simp add: video_next_def video_inv_def isFresh_def video_ready_def)
  qed
qed

lemma video_step_next:
  assumes "video_step P e v = (v', told)" "video_inv v" "e \<noteq> Close_video"
  shows "video_next P v v' told"
  using assms by (cases e) (simp_all add: watch_next check_next frame_next)

text \<open>A check without progress finds a picture that has not moved for a second stale.\<close>

definition picture_stands :: "video_page \<Rightarrow> video_safety \<Rightarrow> bool" where
  "picture_stands P v =
     ((vp_frameCallbacks P \<or> \<not> fallback_progressed P v)
      \<and> (case vs_lastFrameAt v of None \<Rightarrow> True | Some t \<Rightarrow> t + 1000 \<le> vp_now P))"

lemma standing_picture_is_stale:
  assumes "picture_stands P v" "video_inv v" "\<not> vs_closed v" "check P v = (v', told)"
  shows "\<not> vs_fresh v' \<and> (vs_fresh v \<longrightarrow> told = [False])"
proof (cases "vs_stream v = None")
  case True
  then show ?thesis using assms by (simp add: check_def video_inv_def)
next
  case False
  then show ?thesis using assms
    by (auto simp: check_def picture_stands_def publish_def isFresh_def video_ready_def resetFallbackBaseline_def
        VIDEO_FREEZE_TIMEOUT_MS_def Let_def split: if_splits option.splits)
qed

end
