(* ===== verification/RidePage.thy ===== *)
theory RidePage
  imports KeyboardDrive ControlLoop VideoSafety
begin

section \<open>The page a ride is driven from\<close>

text \<open>
  \<open>apps/web/app/real-ride-screen.tsx\<close> with the class \<open>RideConnectionAttempt\<close> of
  \<open>ride-connection-attempt.ts\<close>, the saving of the trim in \<open>steering-trim.ts\<close> and
  \<open>session-countdown.ts\<close>. One record holds the references and states of the screen and the
  private fields of the attempt it owns; the control loop, the keyboard model and the watch of
  the video are the objects of their theories. A handler is a function on the record; a
  callback runs where the code calls it. The gateway client, the browser and the driver are the
  events. The record is one connection attempt: a retry closes it and starts another page.
  Rendering, sound and the display of statistics are left out.
\<close>

record stored_session =
  st_sessionId :: ident
  st_expiresAt :: jsnum
  st_steeringTrimPercent :: jsnum
  st_controlProtocolVersion :: nat

record log_entry =
  le_time :: string
  le_code :: string
  le_message :: string
  le_tone :: string

datatype page_output =
    Client_closed string
  | Navigate string
  | Save_trim ident int

record ride_page =
  ra_active :: bool
  ra_ready :: bool
  ra_connectedRoute :: "string option"
  ra_videoLoadedData :: bool
  ra_activeStep :: nat
  ra_entries :: "log_entry list"
  ra_client :: bool
  ra_loop :: bool
  ra_timeout :: bool
  ra_hasBatteryTelemetry :: bool
  ra_creating :: bool
  rp_loop :: "control_loop option"
  rp_safety :: video_safety
  rp_session :: "stored_session option"
  rp_loopRef :: bool
  rp_readyLoop :: bool
  rp_armed :: bool
  rp_videoPaused :: bool
  rp_videoFresh :: bool
  rp_pressed :: "string list"
  rp_control :: control_intent
  rp_keyboard :: "keyboard_model option"
  rp_status :: string
  rp_state :: string
  rp_error :: "string option"
  rp_battery :: "jsnum option \<times> jsnum option"
  rp_trimPercent :: jsnum
  rp_trimStatus :: string
  rp_trimTimer :: "(nat \<times> int) option"
  rp_trimRevision :: nat
  rp_trimSaves :: "(nat \<times> int) list"
  rp_remaining :: int
  cd_expiresAt :: jsnum
  cd_running :: bool
  cd_expired :: bool
  rp_out :: "page_output list"

text \<open>What a handler reads of its surroundings.\<close>

record moment =
  mo_loop :: surroundings
  mo_video :: video_page
  mo_time :: string
  mo_date :: int

definition blank_page :: ride_page where
  "blank_page =
     \<lparr>ra_active = False, ra_ready = False, ra_connectedRoute = None, ra_videoLoadedData = False,
      ra_activeStep = 0, ra_entries = [], ra_client = False, ra_loop = False, ra_timeout = False,
      ra_hasBatteryTelemetry = False, ra_creating = False, rp_loop = None, rp_safety = new_video_safety,
      rp_session = None, rp_loopRef = False, rp_readyLoop = False, rp_armed = False, rp_videoPaused = False,
      rp_videoFresh = False, rp_pressed = [], rp_control = neutral_intent, rp_keyboard = None,
      rp_status = ''connecting'', rp_state = ''CONNECTING'', rp_error = None, rp_battery = (None, None),
      rp_trimPercent = js_int 0, rp_trimStatus = ''saved'', rp_trimTimer = None, rp_trimRevision = 0,
      rp_trimSaves = [], rp_remaining = 0, cd_expiresAt = NaN, cd_running = False, cd_expired = False, rp_out = []\<rparr>"

definition NEUTRAL_CONTROL :: control_sample where
  "NEUTRAL_CONTROL = \<lparr>cs_steering = Some (Fin 0), cs_throttle = Some (Fin 0), cs_nitro = Some False\<rparr>"

definition emit :: "page_output \<Rightarrow> ride_page \<Rightarrow> ride_page" where
  "emit w p = p\<lparr>rp_out := rp_out p @ [w]\<rparr>"

subsection \<open>Calls of the control loop\<close>

definition reset_keys :: "ride_page \<Rightarrow> ride_page" where
  "reset_keys p =
     p\<lparr>rp_keyboard := map_option keyboard_reset (rp_keyboard p), rp_pressed := [], rp_control := neutral_intent\<rparr>"

text \<open>The callback \<open>onArmedChange\<close> the screen gives to the loop.\<close>

definition on_armed_change :: "ride_page \<Rightarrow> bool \<Rightarrow> ride_page" where
  "on_armed_change p armed = (let p1 = p\<lparr>rp_armed := armed\<rparr> in if armed then p1 else reset_keys p1)"

definition armed_changes :: "loop_output list \<Rightarrow> bool list" where
  "armed_changes ws = concat (map (\<lambda>w. case w of Armed_change b \<Rightarrow> [b] | _ \<Rightarrow> []) ws)"

text \<open>A call of the loop object, with the callbacks it makes.\<close>

definition loop_do :: "surroundings \<Rightarrow> loop_event \<Rightarrow> ride_page \<Rightarrow> ride_page" where
  "loop_do E e p = (case rp_loop p of
       None \<Rightarrow> p
     | Some l \<Rightarrow> (let l' = loop_step l (E, e)
                 in foldl on_armed_change (p\<lparr>rp_loop := Some l'\<rparr>)
                      (armed_changes (drop (length (cl_log l)) (cl_log l')))))"

text \<open>\<open>loopRef.current?\<close>\<close>

definition loopRef_do :: "surroundings \<Rightarrow> loop_event \<Rightarrow> ride_page \<Rightarrow> ride_page" where
  "loopRef_do E e p = (if rp_loopRef p then loop_do E e p else p)"

definition pauseForVideo :: "moment \<Rightarrow> ride_page \<Rightarrow> ride_page" where
  "pauseForVideo M p =
     loopRef_do (mo_loop M) (Disarm ''camera video stopped updating'')
       (loopRef_do (mo_loop M) (Set_input NEUTRAL_CONTROL) (reset_keys (p\<lparr>rp_videoPaused := True\<rparr>)))"

subsection \<open>The connection attempt\<close>

definition progressDetails :: "(string \<times> nat \<times> string \<times> string) list" where
  "progressDetails =
     [(''gateway.connecting'', 1, ''NET'', ''Connecting to RC Mania gateway''),
      (''gateway.connected'', 2, ''NET'', ''Gateway connected''),
      (''session.started'', 3, ''SESSION'', ''Drive session started''),
      (''webrtc.offer-sent'', 4, ''WEBRTC'', ''Camera connection requested''),
      (''webrtc.answer-applied'', 5, ''WEBRTC'', ''Camera response received''),
      (''webrtc.direct'', 6, ''WEBRTC'', ''Direct connection established''),
      (''webrtc.turn'', 6, ''WEBRTC'', ''TURN fallback connection established''),
      (''webrtc.connected'', 6, ''WEBRTC'', ''WebRTC connection established''),
      (''video.track-received'', 7, ''VIDEO'', ''Camera stream received'')]"

definition on_snapshot :: "string \<Rightarrow> string \<Rightarrow> ride_page \<Rightarrow> ride_page" where
  "on_snapshot status errorMessage p =
     (let p1 = p\<lparr>rp_status := status\<rparr>
      in if status = ''failed'' then
           p1\<lparr>rp_safety := close_video_safety (rp_safety p1), rp_videoFresh := False,
              rp_state := ''DISCONNECTED'', rp_error := Some errorMessage\<rparr>
         else p1)"

definition append_entry :: "moment \<Rightarrow> string \<Rightarrow> string \<Rightarrow> string \<Rightarrow> string \<Rightarrow> string \<Rightarrow> ride_page \<Rightarrow> ride_page" where
  "append_entry M code message tone status errorMessage p =
     on_snapshot status errorMessage
       (p\<lparr>ra_entries := ra_entries p @ [\<lparr>le_time = mo_time M, le_code = code, le_message = message, le_tone = tone\<rparr>]\<rparr>)"

definition clearBatteryTelemetry :: "ride_page \<Rightarrow> ride_page" where
  "clearBatteryTelemetry p =
     (if ra_hasBatteryTelemetry p then p\<lparr>ra_hasBatteryTelemetry := False, rp_battery := (None, None)\<rparr> else p)"

definition shut_channel :: "data_channel \<Rightarrow> data_channel" where
  "shut_channel d = d\<lparr>dc_readyState := ''closing''\<rparr>"

text \<open>\<open>client.close(reason)\<close>: it closes the channels the loop is bound to.\<close>

definition client_close :: "string \<Rightarrow> ride_page \<Rightarrow> ride_page" where
  "client_close reason p =
     emit (Client_closed reason)
       (p\<lparr>rp_loop := map_option (\<lambda>l. channels_change (map_option shut_channel (cl_fast l))
                                  (map_option shut_channel (cl_reliable l)) l) (rp_loop p)\<rparr>)"

definition teardown :: "moment \<Rightarrow> string \<Rightarrow> ride_page \<Rightarrow> ride_page" where
  "teardown M reason p =
     (let p1 = clearBatteryTelemetry (p\<lparr>ra_loop := False, ra_client := False\<rparr>);
          p2 = (if ra_loop p then loop_do (mo_loop M) Stop (loop_do (mo_loop M) (Disarm reason) p1) else p1)
      in if ra_client p then client_close reason p2 else p2)"

definition attempt_fail :: "moment \<Rightarrow> string \<Rightarrow> ride_page \<Rightarrow> ride_page" where
  "attempt_fail M message p =
     (if \<not> ra_active p then p
      else append_entry M ''ERROR'' message ''danger'' ''failed'' message
             (teardown M ''connection failed'' (p\<lparr>ra_active := False, ra_ready := False, ra_timeout := False\<rparr>)))"

definition attempt_close :: "moment \<Rightarrow> string \<Rightarrow> ride_page \<Rightarrow> ride_page" where
  "attempt_close M reason p =
     (if \<not> ra_active p \<and> \<not> ra_client p \<and> \<not> ra_loop p then p
      else teardown M reason (p\<lparr>ra_active := False, ra_timeout := False\<rparr>))"

definition handleProgress :: "moment \<Rightarrow> string \<Rightarrow> ride_page \<Rightarrow> ride_page" where
  "handleProgress M progress p =
     (if \<not> ra_active p \<or> ra_ready p then p
      else (case map_get progressDetails progress of
          None \<Rightarrow> p
        | Some (step, code, message) \<Rightarrow>
            append_entry M code message ''default'' ''connecting'' []
              (p\<lparr>ra_activeStep := max (ra_activeStep p) step\<rparr>)))"

definition canArmControls :: "moment \<Rightarrow> ride_page \<Rightarrow> bool" where
  "canArmControls M p = (\<not> rp_videoPaused p \<and> isFresh (mo_video M) (rp_safety p))"

definition session_trim :: "ride_page \<Rightarrow> jsnum" where
  "session_trim p = (case rp_session p of None \<Rightarrow> js_int 0 | Some s \<Rightarrow> st_steeringTrimPercent s)"

definition on_ready :: "moment \<Rightarrow> string \<Rightarrow> ride_page \<Rightarrow> ride_page" where
  "on_ready M route p =
     (let p1 = (loop_do (mo_loop M) (Set_trim (session_trim p)) p)\<lparr>rp_loopRef := True\<rparr>;
          p2 = (if rp_videoPaused p1 \<or> \<not> isFresh (mo_video M) (rp_safety p1) then pauseForVideo M p1 else p1)
      in p2\<lparr>rp_readyLoop := True, rp_state := route, rp_error := None\<rparr>)"

definition tryReady :: "moment \<Rightarrow> ride_page \<Rightarrow> ride_page" where
  "tryReady M p = (case ra_connectedRoute p of
       None \<Rightarrow> p
     | Some route \<Rightarrow>
         if \<not> ra_active p \<or> ra_ready p \<or> \<not> ra_videoLoadedData p \<or> \<not> ra_loop p then p
         else (let p1 = append_entry M ''READY'' ''Camera ready'' ''success'' ''connected'' []
                          (p\<lparr>ra_ready := True, ra_timeout := False, ra_activeStep := 7\<rparr>);
                   p2 = loop_do (mo_loop M) Start p1;
                   p3 = (if canArmControls M p2 then loop_do (mo_loop M) Arm p2 else p2)
               in on_ready M route p3))"

definition markVideoLoadedData :: "moment \<Rightarrow> ride_page \<Rightarrow> ride_page" where
  "markVideoLoadedData M p =
     (if \<not> ra_active p \<or> ra_ready p \<or> ra_videoLoadedData p then p
      else tryReady M (append_entry M ''VIDEO'' ''First camera frame decoded'' ''success'' ''connecting'' []
             (p\<lparr>ra_videoLoadedData := True, ra_activeStep := max (ra_activeStep p) 7\<rparr>)))"

definition attempt_start :: "moment \<Rightarrow> ride_page \<Rightarrow> ride_page" where
  "attempt_start M p =
     (if ra_active p then p
      else (append_entry M ''SESSION'' ''Creating drive session'' ''default'' ''connecting'' []
              (p\<lparr>ra_active := True\<rparr>))\<lparr>ra_timeout := True, ra_creating := True\<rparr>)"

text \<open>
  The continuation of \<open>start\<close>: the session has been created, the client connects with the
  given result, an error or the channels, if it has any.
\<close>

definition on_session :: "stored_session \<Rightarrow> ride_page \<Rightarrow> ride_page" where
  "on_session s p =
     p\<lparr>rp_session := Some s, rp_trimPercent := st_steeringTrimPercent s, rp_trimStatus := ''saved''\<rparr>"

definition session_created :: "moment \<Rightarrow> stored_session \<Rightarrow> string + (data_channel \<times> data_channel) option \<Rightarrow> ride_page \<Rightarrow> ride_page" where
  "session_created M s outcome p0 =
     (if \<not> ra_active p0 then p0
      else (let p = on_session s p0 in
        case normalizeSteeringTrim (st_steeringTrimPercent s) of
          Inl e \<Rightarrow> attempt_fail M e p
        | Inr t \<Rightarrow>
           (let l = loop_setSteeringTrim (st_steeringTrimPercent s)
                      (new_control_loop (st_sessionId s) (st_controlProtocolVersion s));
                p1 = handleProgress M ''gateway.connecting''
                       (p\<lparr>ra_client := True, ra_loop := True, rp_loop := Some l\<rparr>)
            in case outcome of
                 Inl e \<Rightarrow> attempt_fail M e p1
               | Inr None \<Rightarrow> attempt_fail M ''Control channels could not be created'' p1
               | Inr (Some (fast, reliable)) \<Rightarrow> loop_do (mo_loop M) (Bind fast reliable) p1)))"

subsection \<open>The video\<close>

text \<open>The callback \<open>onFreshness\<close> the screen gives to the watch.\<close>

definition on_freshness :: "moment \<Rightarrow> ride_page \<Rightarrow> bool \<Rightarrow> ride_page" where
  "on_freshness M p fresh =
     (let p1 = p\<lparr>rp_videoFresh := fresh\<rparr>
      in if fresh then markVideoLoadedData M p1 else pauseForVideo M p1)"

definition video_do :: "moment \<Rightarrow> video_event \<Rightarrow> ride_page \<Rightarrow> ride_page" where
  "video_do M e p =
     (let (v, told) = video_step (mo_video M) e (rp_safety p)
      in foldl (on_freshness M) (p\<lparr>rp_safety := v\<rparr>) told)"

subsection \<open>What the gateway client reports\<close>

definition client_state :: "moment \<Rightarrow> string \<Rightarrow> ride_page \<Rightarrow> ride_page" where
  "client_state M s p =
     (if \<not> ra_active p then p
      else if s = ''DIRECT'' \<or> s = ''TURN'' \<or> s = ''CONNECTED'' then tryReady M (p\<lparr>ra_connectedRoute := Some s\<rparr>)
      else if s = ''DISCONNECTED'' then attempt_fail M ''Camera connection was interrupted'' (clearBatteryTelemetry p)
      else p)"

definition client_stream :: "moment \<Rightarrow> ident \<Rightarrow> ride_page \<Rightarrow> ride_page" where
  "client_stream M s p = (if ra_active p then video_do M (Watch s) p else p)"

definition client_telemetry :: "jsnum option \<Rightarrow> jsnum option \<Rightarrow> ride_page \<Rightarrow> ride_page" where
  "client_telemetry voltage percent p =
     (if \<not> ra_active p then p
      else p\<lparr>ra_hasBatteryTelemetry := (voltage \<noteq> None \<or> percent \<noteq> None), rp_battery := (voltage, percent)\<rparr>)"

definition client_error :: "moment \<Rightarrow> string \<Rightarrow> ride_page \<Rightarrow> ride_page" where
  "client_error M message p = attempt_fail M message (clearBatteryTelemetry p)"

subsection \<open>The driver's input\<close>

definition intent_sample :: "control_intent \<Rightarrow> control_sample" where
  "intent_sample i =
     \<lparr>cs_steering = Some (js_int (kc_steering i)), cs_throttle = Some (js_int (kc_throttle i)),
      cs_nitro = Some (kc_nitro i)\<rparr>"

definition output_sample :: "drive_output \<Rightarrow> control_sample" where
  "output_sample o1 =
     \<lparr>cs_steering = Some (Fin (do_steering o1)), cs_throttle = Some (Fin (do_throttle o1)),
      cs_nitro = Some (do_nitro o1)\<rparr>"

definition session_proportional :: "ride_page \<Rightarrow> bool" where
  "session_proportional p = (case rp_session p of None \<Rightarrow> False | Some s \<Rightarrow> st_controlProtocolVersion s = 5)"

text \<open>The listeners of the keyboard stand while the record has a keyboard model.\<close>

definition keyboard_effect :: "ride_page \<Rightarrow> ride_page" where
  "keyboard_effect p =
     (if rp_readyLoop p \<and> rp_keyboard p = None then p\<lparr>rp_keyboard := Some new_keyboard_model\<rparr> else p)"

definition applyPressedKeys :: "moment \<Rightarrow> string list \<Rightarrow> ride_page \<Rightarrow> ride_page" where
  "applyPressedKeys M keys p =
     (let E = mo_loop M; i = controlIntentFromPressedKeys keys; p1 = p\<lparr>rp_pressed := keys, rp_control := i\<rparr>
      in if session_proportional p then
           (case rp_keyboard p1 of
              None \<Rightarrow> p1
            | Some k \<Rightarrow>
               (let (o1, k') = keyboard_update keys (Fin (su_now E)) k;
                    p2 = loop_do E (Set_input (output_sample o1)) (p1\<lparr>rp_keyboard := Some k'\<rparr>)
                in if keys \<noteq> [] then loop_do E (Set_provider True) p2 else p2))
         else loop_do E (Set_input (intent_sample i)) p1)"

definition neutralize :: "moment \<Rightarrow> string \<Rightarrow> ride_page \<Rightarrow> ride_page" where
  "neutralize M reason p =
     loop_do (mo_loop M) (Disarm reason)
       (applyPressedKeys M [] (p\<lparr>rp_keyboard := map_option keyboard_reset (rp_keyboard p)\<rparr>))"

definition on_focus :: "moment \<Rightarrow> ride_page \<Rightarrow> ride_page" where
  "on_focus M p =
     (if \<not> rp_videoPaused p \<and> isFresh (mo_video M) (rp_safety p) then loop_do (mo_loop M) Arm p else p)"

definition on_visibility :: "moment \<Rightarrow> ride_page \<Rightarrow> ride_page" where
  "on_visibility M p =
     (if \<not> vp_visible (mo_video M) then neutralize M ''browser hidden'' p else on_focus M p)"

definition on_key :: "moment \<Rightarrow> string \<Rightarrow> bool \<Rightarrow> bool \<Rightarrow> ride_page \<Rightarrow> ride_page" where
  "on_key M code again pressed p =
     (if controlKeyForCode code = None then p
      else if pressed \<and> (again \<or> list_ex (\<lambda>c. c = code) (rp_pressed p)) then p
      else if \<not> pressed \<and> \<not> list_ex (\<lambda>c. c = code) (rp_pressed p) then p
      else if rp_videoPaused p \<or> \<not> isFresh (mo_video M) (rp_safety p) then pauseForVideo M p
      else (let p1 = (if pressed \<and> \<not> rp_armed p then loop_do (mo_loop M) Arm p else p)
            in applyPressedKeys M (updatePressedKeys (rp_pressed p1) code pressed) p1))"

definition applyMobileInput :: "moment \<Rightarrow> control_sample \<Rightarrow> ride_page \<Rightarrow> ride_page" where
  "applyMobileInput M input p =
     (let E = mo_loop M in
      if \<not> rp_armed p \<or> rp_videoPaused p \<or> \<not> isFresh (mo_video M) (rp_safety p) then
        (let p1 = loopRef_do E (Set_input NEUTRAL_CONTROL) p
         in if rp_armed p1 then pauseForVideo M p1 else p1)
      else
        (let p1 = p\<lparr>rp_keyboard := map_option keyboard_reset (rp_keyboard p)\<rparr>;
             p2 = (if rp_pressed p1 \<noteq> [] then p1\<lparr>rp_pressed := [], rp_control := neutral_intent\<rparr> else p1)
         in loopRef_do E (Set_input input) p2))"

text \<open>
  The button \<open>RESUME CONTROLS\<close> is shown while the ride is connected and not armed, and enabled
  while the last published freshness is true.
\<close>

definition on_resume :: "moment \<Rightarrow> ride_page \<Rightarrow> ride_page" where
  "on_resume M p =
     (if rp_status p \<noteq> ''connected'' \<or> rp_armed p \<or> \<not> rp_videoFresh p then p
      else if \<not> isFresh (mo_video M) (rp_safety p) then pauseForVideo M p
      else loopRef_do (mo_loop M) Arm
             (loopRef_do (mo_loop M) (Set_input NEUTRAL_CONTROL) (p\<lparr>rp_videoPaused := False\<rparr>)))"

text \<open>A tick of the loop's timer: an input provider samples the keyboard model.\<close>

definition loop_samples :: "control_loop \<Rightarrow> bool" where
  "loop_samples l =
     (cl_timer l \<and> cl_armed l \<and> cl_inputProvider l
      \<and> \<not> (channel_open (cl_fast l) \<and> channel_buffered (cl_fast l) > 0))"

definition loop_timer :: "moment \<Rightarrow> ride_page \<Rightarrow> ride_page" where
  "loop_timer M p =
     (let E = mo_loop M in
      case (rp_loop p, rp_keyboard p) of
        (Some l, Some k) \<Rightarrow>
          if loop_samples l then
            (let (o1, k') = keyboard_sample (Fin (su_now E)) k
             in loop_do (E\<lparr>su_provided := Some (output_sample o1)\<rparr>) Timer (p\<lparr>rp_keyboard := Some k'\<rparr>))
          else loop_do E Timer p
      | _ \<Rightarrow> loop_do E Timer p)"

subsection \<open>The steering trim\<close>

definition updateSteeringTrim :: "moment \<Rightarrow> jsnum \<Rightarrow> ride_page \<Rightarrow> ride_page" where
  "updateSteeringTrim M v p = (case normalizeSteeringTrim v of
       Inl e \<Rightarrow> p
     | Inr t \<Rightarrow>
        (let p1 = loopRef_do (mo_loop M) (Set_trim (js_int t)) (p\<lparr>rp_trimPercent := js_int t\<rparr>)
         in if rp_session p1 = None then p1
            else p1\<lparr>rp_trimRevision := rp_trimRevision p1 + 1, rp_trimStatus := ''saving'',
                    rp_trimTimer := Some (rp_trimRevision p1 + 1, t)\<rparr>))"

definition trim_timer :: "ride_page \<Rightarrow> ride_page" where
  "trim_timer p = (case (rp_trimTimer p, rp_session p) of
       (Some (revision, t), Some s) \<Rightarrow>
         emit (Save_trim (st_sessionId s) t)
           (p\<lparr>rp_trimTimer := None, rp_trimSaves := rp_trimSaves p @ [(revision, t)]\<rparr>)
     | _ \<Rightarrow> p)"

text \<open>
  What the request brings: nothing, a status that is not a success, a body that is not JSON, or
  a body whose field \<open>steeringTrimPercent\<close> is the given number, if it is one.
\<close>

datatype trim_response = Request_failed | Response_not_ok | Response_not_json | Response_body "jsnum option"

definition saved_trim :: "trim_response \<Rightarrow> string + jsnum" where
  "saved_trim r = (case r of
       Request_failed \<Rightarrow> Inl ''fetch failed''
     | Response_not_ok \<Rightarrow> Inl ''Could not save steering trim''
     | Response_not_json \<Rightarrow> Inl ''Steering trim response was invalid''
     | Response_body None \<Rightarrow> Inl ''Steering trim response was invalid''
     | Response_body (Some v) \<Rightarrow> (case normalizeSteeringTrim v of
          Inl e \<Rightarrow> Inl e
        | Inr t \<Rightarrow> if js_int t \<noteq> v then Inl ''Steering trim response was invalid'' else Inr v))"

definition trim_answered :: "nat \<Rightarrow> trim_response \<Rightarrow> ride_page \<Rightarrow> ride_page" where
  "trim_answered i r p0 =
     (if i \<ge> length (rp_trimSaves p0) then p0
      else (let (revision, t) = rp_trimSaves p0 ! i;
                p = p0\<lparr>rp_trimSaves := take i (rp_trimSaves p0) @ drop (i + 1) (rp_trimSaves p0)\<rparr>
            in if rp_trimRevision p \<noteq> revision then p
               else (case saved_trim r of
                   Inl e \<Rightarrow> p\<lparr>rp_trimStatus := ''not-saved''\<rparr>
                 | Inr v \<Rightarrow> p\<lparr>rp_trimPercent := v, rp_trimStatus := ''saved''\<rparr>)))"

subsection \<open>The end of a ride\<close>

definition remainingSessionSeconds :: "jsnum \<Rightarrow> int \<Rightarrow> int" where
  "remainingSessionSeconds expiresAt now = (case expiresAt of
       Fin e \<Rightarrow> max 0 \<lceil>(e - of_int now) / 1000\<rceil> | _ \<Rightarrow> 0)"

definition close_safety :: "ride_page \<Rightarrow> ride_page" where
  "close_safety p = p\<lparr>rp_safety := close_video_safety (rp_safety p)\<rparr>"

definition on_expire :: "moment \<Rightarrow> ride_page \<Rightarrow> ride_page" where
  "on_expire M p =
     (let E = mo_loop M in
      emit (Navigate ''/pricing'')
        (attempt_close M ''session expired''
          (loopRef_do E (Disarm ''session expired'')
            (loopRef_do E (Set_input NEUTRAL_CONTROL) (reset_keys (close_safety p))))))"

definition countdown_tick :: "moment \<Rightarrow> ride_page \<Rightarrow> ride_page" where
  "countdown_tick M p =
     (let remaining = remainingSessionSeconds (cd_expiresAt p) (mo_date M); p1 = p\<lparr>rp_remaining := remaining\<rparr>
      in if remaining > 0 \<or> cd_expired p1 then p1
         else on_expire M (p1\<lparr>cd_expired := True, cd_running := False\<rparr>))"

definition countdown_start :: "moment \<Rightarrow> jsnum \<Rightarrow> ride_page \<Rightarrow> ride_page" where
  "countdown_start M expiresAt p =
     (let p1 = countdown_tick M (p\<lparr>cd_running := False, cd_expiresAt := expiresAt, cd_expired := False\<rparr>)
      in if \<not> cd_expired p1 then p1\<lparr>cd_running := True\<rparr> else p1)"

text \<open>The effect of a new session: the countdown starts.\<close>

definition countdown_effect :: "moment \<Rightarrow> ride_page \<Rightarrow> ride_page" where
  "countdown_effect M p = (case rp_session p of
       None \<Rightarrow> p\<lparr>rp_remaining := 0\<rparr> | Some s \<Rightarrow> countdown_start M (st_expiresAt s) p)"

definition end_ride :: "moment \<Rightarrow> ride_page \<Rightarrow> ride_page" where
  "end_ride M p =
     emit (Navigate ''/queue'')
       (attempt_close M ''operator ended ride''
         (loopRef_do (mo_loop M) (Disarm ''operator ended ride'') (close_safety p)))"

definition retryConnection :: "moment \<Rightarrow> ride_page \<Rightarrow> ride_page" where
  "retryConnection M p = attempt_close M ''retrying connection'' (close_safety p)"

definition returnToQueue :: "moment \<Rightarrow> ride_page \<Rightarrow> ride_page" where
  "returnToQueue M p = emit (Navigate ''/queue'') (attempt_close M ''returning to queue'' (close_safety p))"

text \<open>Leaving the page runs the clean-ups of its effects, in the order of the effects.\<close>

definition keyboard_cleanup :: "moment \<Rightarrow> ride_page \<Rightarrow> ride_page" where
  "keyboard_cleanup M p =
     (if rp_keyboard p = None then p
      else (applyPressedKeys M [] (p\<lparr>rp_keyboard := map_option keyboard_reset (rp_keyboard p)\<rparr>))
             \<lparr>rp_keyboard := None, rp_readyLoop := False\<rparr>)"

definition unmount :: "moment \<Rightarrow> ride_page \<Rightarrow> ride_page" where
  "unmount M p =
     keyboard_cleanup M
       ((attempt_close M ''ride connection replaced'' (close_safety p))
          \<lparr>cd_running := False, rp_trimTimer := None, rp_trimRevision := rp_trimRevision p + 1\<rparr>)"

subsection \<open>Runs\<close>

datatype page_event =
    Session_created stored_session "string + (data_channel \<times> data_channel) option"
  | Session_failed string
  | Connection_timeout
  | Client_state string
  | Client_progress string
  | Client_stream ident
  | Client_telemetry "jsnum option" "jsnum option"
  | Client_error string
  | Playback_error string
  | Video_check
  | Video_presents nat jsnum
  | Keyboard_effect
  | Key string bool bool
  | Blur
  | Focus
  | Visibility
  | Mobile_input control_sample
  | Resume
  | Loop_timer
  | Network loop_event
  | Trim_input jsnum
  | Trim_timer
  | Trim_answer nat trim_response
  | Countdown_effect
  | Countdown_tick
  | End_ride
  | Retry_ride
  | Return_to_queue
  | Unmount

text \<open>The events of the network that reach the loop by itself.\<close>

definition network_do :: "surroundings \<Rightarrow> loop_event \<Rightarrow> ride_page \<Rightarrow> ride_page" where
  "network_do E e p = (case e of
       Channel_opens \<Rightarrow> loop_do E e p
     | Channel_closes \<Rightarrow> loop_do E e p
     | Channels_change f r \<Rightarrow> loop_do E e p
     | _ \<Rightarrow> p)"

definition hears_keys :: "ride_page \<Rightarrow> bool" where
  "hears_keys p = (rp_keyboard p \<noteq> None)"

fun page_step :: "ride_page \<Rightarrow> moment \<times> page_event \<Rightarrow> ride_page" where
  "page_step p (M, Session_created s c) =
     (if ra_creating p then session_created M s c (p\<lparr>ra_creating := False\<rparr>) else p)"
| "page_step p (M, Session_failed e) =
     (if ra_creating p then attempt_fail M e (p\<lparr>ra_creating := False\<rparr>) else p)"
| "page_step p (M, Connection_timeout) =
     (if ra_timeout p then attempt_fail M ''Camera connection timed out'' p else p)"
| "page_step p (M, Client_state s) = client_state M s p"
| "page_step p (M, Client_progress s) = handleProgress M s p"
| "page_step p (M, Client_stream s) = client_stream M s p"
| "page_step p (M, Client_telemetry v c) = client_telemetry v c p"
| "page_step p (M, Client_error e) = client_error M e p"
| "page_step p (M, Playback_error e) = attempt_fail M e p"
| "page_step p (M, Video_check) = video_do M Check p"
| "page_step p (M, Video_presents g n) = video_do M (Video_frame g n) p"
| "page_step p (M, Keyboard_effect) = keyboard_effect p"
| "page_step p (M, Key code again pressed) = (if hears_keys p then on_key M code again pressed p else p)"
| "page_step p (M, Blur) = (if hears_keys p then neutralize M ''browser focus lost'' p else p)"
| "page_step p (M, Focus) = (if hears_keys p then on_focus M p else p)"
| "page_step p (M, Visibility) = (if hears_keys p then on_visibility M p else p)"
| "page_step p (M, Mobile_input i) = applyMobileInput M i p"
| "page_step p (M, Resume) = on_resume M p"
| "page_step p (M, Loop_timer) = loop_timer M p"
| "page_step p (M, Network e) = network_do (mo_loop M) e p"
| "page_step p (M, Trim_input v) = updateSteeringTrim M v p"
| "page_step p (M, Trim_timer) = trim_timer p"
| "page_step p (M, Trim_answer i r) = trim_answered i r p"
| "page_step p (M, Countdown_effect) = countdown_effect M p"
| "page_step p (M, Countdown_tick) = (if cd_running p then countdown_tick M p else p)"
| "page_step p (M, End_ride) = end_ride M p"
| "page_step p (M, Retry_ride) = retryConnection M p"
| "page_step p (M, Return_to_queue) = returnToQueue M p"
| "page_step p (M, Unmount) = unmount M p"

definition page_run :: "ride_page \<Rightarrow> (moment \<times> page_event) list \<Rightarrow> ride_page" where
  "page_run = foldl page_step"

text \<open>The page as it is mounted: its connection attempt starts.\<close>

definition mounted_page :: "moment \<Rightarrow> ride_page" where
  "mounted_page M = attempt_start M blank_page"

lemma page_run_simps [simp]:
  "page_run p [] = p" "page_run p (e # es) = page_run (page_step p e) es"
  "page_run p (es @ fs) = page_run (page_run p es) fs"
  by (simp_all add: page_run_def)

end
