(* ===== verification/RideDrive.thy ===== *)
theory RideDrive
  imports RidePage
begin

section \<open>When the car of a page can be driven\<close>

text \<open>
  Lemmas and properties of the page of \<open>RidePage\<close>: what a call of the loop leaves alone, the
  invariant that ties an armed loop to a ready connection and a moving picture, and what
  leaves the loop once the picture stands or the ride is over.
\<close>

subsection \<open>Armed and requested\<close>

text \<open>A step that arms nothing: the loop's two flags stay, or both fall.\<close>

definition tame :: "control_loop \<Rightarrow> control_loop \<Rightarrow> bool" where
  "tame l l' = ((cl_armed l' = cl_armed l \<and> cl_armRequested l' = cl_armRequested l)
     \<or> (\<not> cl_armed l' \<and> \<not> cl_armRequested l'))"

lemma tame_refl: "tame l l"
  by (simp add: tame_def)

lemma tame_trans: "tame l l1 \<Longrightarrow> tame l1 l2 \<Longrightarrow> tame l l2"
  by (auto simp: tame_def)

lemma tame_reliable: "tame l (snd (send_on_reliable E m l))"
  by (auto simp: tame_def send_on_reliable_def loop_emit_def Let_def split: option.splits prod.splits)

lemma tame_fast: "tame l (snd (send_on_fast E c l))"
  by (auto simp: tame_def send_on_fast_def loop_emit_def Let_def split: option.splits prod.splits)

lemma failed_flags: "\<not> cl_armed (transportFailed E r l) \<and> \<not> cl_armRequested (transportFailed E r l)"
proof -
  define L where "L = setArmed False (l\<lparr>cl_armRequested := False, cl_inputProvider := False, cl_steering := 0,
    cl_throttle := 0, cl_nitro := False\<rparr>)"
  have "\<not> cl_armed L \<and> \<not> cl_armRequested L" by (simp add: L_def) (simp add: setArmed_def loop_emit_def)
  then show ?thesis using tame_reliable [of L E "Neutral_message (cl_sessionId L) r"]
    unfolding transportFailed_def Let_def L_def [symmetric] by (auto simp: tame_def)
qed

lemma tame_failed: "tame l (transportFailed E r l')"
  using failed_flags by (simp add: tame_def)

lemma tame_sendReliable: "tame l (snd (sendReliable E m l))"
proof -
  obtain threw l' where s: "send_on_reliable E m l = (threw, l')" by (rule prod.exhaust)
  then have "tame l l'" using tame_reliable [of l E m] by simp
  then show ?thesis using tame_failed [of l E] tame_refl by (simp add: sendReliable_def s)
qed

lemma tame_transmit: "tame l (transmit E l)"
proof -
  define L where "L = l\<lparr>cl_sequence := cl_sequence l + 1\<rparr>"
  have L: "tame l L" by (simp add: L_def tame_def)
  then have "tame l (snd (send_on_fast E c L))" for c by (rule tame_trans) (rule tame_fast)
  moreover have "tame l (loop_emit w L)" for w using L by (simp add: tame_def loop_emit_def)
  ultimately show ?thesis using L tame_failed
    unfolding transmit_def Let_def L_def [symmetric] by (simp add: case_prod_beta split: option.split)
qed

lemma tame_sendLatest: "tame l (sendLatest E l)"
proof -
  have t: "tame l (l\<lparr>cl_congestedAt := t\<rparr>)" "tame l (applyInput i (l\<lparr>cl_congestedAt := t\<rparr>))" for t i
    by (simp_all add: tame_def applyInput_def)
  have "tame l (transmit E (l\<lparr>cl_congestedAt := t\<rparr>))" "tame l (transmit E (applyInput i (l\<lparr>cl_congestedAt := t\<rparr>)))" for t i
    by (rule tame_trans [OF _ tame_transmit], rule t)+
  with t(1) tame_failed show ?thesis unfolding sendLatest_def Let_def by (simp split: option.split)
qed

lemma tame_neutral: "tame l (loop_neutral E r l)"
proof -
  define L where "L = l\<lparr>cl_inputProvider := False, cl_steering := 0, cl_throttle := 0, cl_nitro := False\<rparr>"
  have "tame l L" by (simp add: L_def tame_def)
  then show ?thesis unfolding loop_neutral_def Let_def L_def [symmetric]
    by (rule tame_trans [OF tame_trans [OF _ tame_sendReliable] tame_sendLatest])
qed

lemma rests_after:
  "\<not> cl_armed (loop_disarm E r l) \<and> \<not> cl_armRequested (loop_disarm E r l)"
  "\<not> cl_armed (loop_stop E l) \<and> \<not> cl_armRequested (loop_stop E l)"
proof -
  have off: "\<not> cl_armed (setArmed False (l'\<lparr>cl_armRequested := False\<rparr>))
      \<and> \<not> cl_armRequested (setArmed False (l'\<lparr>cl_armRequested := False\<rparr>))" for l'
    by (simp add: setArmed_def loop_emit_def)
  show "\<not> cl_armed (loop_disarm E r l) \<and> \<not> cl_armRequested (loop_disarm E r l)"
    using off [of l] tame_neutral [of _ E r] unfolding loop_disarm_def tame_def by metis
  show "\<not> cl_armed (loop_stop E l) \<and> \<not> cl_armRequested (loop_stop E l)"
    using off [of "l\<lparr>cl_timer := False\<rparr>"] tame_neutral [of _ E "''control_loop_stopped''"]
    unfolding loop_stop_def tame_def by (simp, metis)
qed

text \<open>What a step may do to the two flags.\<close>

lemma tryArm_flags:
  "tame l (tryArm E l) \<or> (cl_armed (tryArm E l) \<and> cl_armRequested (tryArm E l) \<and> cl_armRequested l)"
proof -
  obtain sent l' where s: "sendReliable E (Arm_message (cl_sessionId l)) l = (sent, l')" by (rule prod.exhaust)
  have l': "tame l l'" using tame_sendReliable [of l E "Arm_message (cl_sessionId l)"] s by simp
  have "sent \<Longrightarrow> cl_armRequested l' = cl_armRequested l"
    using s by (auto simp: sendReliable_def send_on_reliable_def loop_emit_def Let_def
        split: if_splits option.splits prod.splits)
  then show ?thesis using l' tame_refl by (auto simp: tryArm_def s) (auto simp: setArmed_def loop_emit_def)
qed

lemma step_flags:
  assumes "e \<noteq> Arm"
  shows "tame l (loop_step l (E, e))
    \<or> (cl_armed (loop_step l (E, e)) \<and> cl_armRequested (loop_step l (E, e)) \<and> cl_armRequested l)"
proof (cases e)
  case (Bind f r)
  let ?l = "l\<lparr>cl_fast := Some f, cl_reliable := Some r, cl_listening := True\<rparr>"
  have "tame l ?l" "cl_armRequested ?l = cl_armRequested l" by (simp_all add: tame_def)
  then show ?thesis using tryArm_flags [of ?l E] by (auto simp: Bind bindChannels_def intro: tame_trans)
next
  case Channel_opens
  then show ?thesis using tryArm_flags [of l E] tame_refl by simp
next
  case (Disarm r)
  then show ?thesis using rests_after(1) [of E r l] by (simp add: tame_def)
next
  case Stop
  then show ?thesis using rests_after(2) [of E l] by (simp add: tame_def)
next
  case Timer
  then show ?thesis using tame_sendLatest tame_refl by simp
next
  case (Neutral r)
  then show ?thesis using tame_neutral by simp
next
  case Channel_closes
  then show ?thesis using tame_failed tame_refl by simp
qed (use assms in \<open>auto simp: tame_def loop_setInput_def applyInput_def loop_setInputProvider_def
    loop_setSteeringTrim_def loop_start_def channels_change_def split: sum.splits\<close>)

definition flags_ok :: "control_loop \<Rightarrow> bool" where
  "flags_ok l = (cl_armed l \<longrightarrow> cl_armRequested l)"

lemma flags_step: "flags_ok l \<Longrightarrow> flags_ok (loop_step l (E, e))"
proof (cases "e = Arm")
  case True
  let ?l = "l\<lparr>cl_armRequested := True\<rparr>"
  show ?thesis using tryArm_flags [of ?l E] True by (auto simp: flags_ok_def tame_def loop_arm_def)
qed (use step_flags [of e l E] in \<open>auto simp: flags_ok_def tame_def\<close>)

lemma request_step: "e \<noteq> Arm \<Longrightarrow> cl_armRequested (loop_step l (E, e)) \<Longrightarrow> cl_armRequested l"
  using step_flags [of e l E] by (auto simp: tame_def)

subsection \<open>What a call of the loop leaves alone\<close>

lemma armed_changes_shape:
  "\<exists>a k ps c. foldl on_armed_change p bs = p\<lparr>rp_armed := a, rp_keyboard := k, rp_pressed := ps, rp_control := c\<rparr>
    \<and> (k = None \<longleftrightarrow> rp_keyboard p = None)"
proof (induction bs arbitrary: p)
  case Nil
  show ?case by (intro exI [of _ "rp_armed p"] exI [of _ "rp_keyboard p"] exI [of _ "rp_pressed p"] exI [of _ "rp_control p"]) simp
next
  case (Cons b bs)
  from Cons [of "on_armed_change p b"] show ?case
    by (cases b) (auto simp: on_armed_change_def reset_keys_def Let_def)
qed

lemma loop_do_shape:
  "\<exists>a k ps c. loop_do E e p = p\<lparr>rp_loop := map_option (\<lambda>l. loop_step l (E, e)) (rp_loop p), rp_armed := a,
      rp_keyboard := k, rp_pressed := ps, rp_control := c\<rparr> \<and> (k = None \<longleftrightarrow> rp_keyboard p = None)"
proof (cases "rp_loop p")
  case None
  then show ?thesis
    by (intro exI [of _ "rp_armed p"] exI [of _ "rp_keyboard p"] exI [of _ "rp_pressed p"] exI [of _ "rp_control p"])
      (simp add: loop_do_def)
next
  case (Some l)
  from armed_changes_shape [of "p\<lparr>rp_loop := Some (loop_step l (E, e))\<rparr>"
      "armed_changes (drop (length (cl_log l)) (cl_log (loop_step l (E, e))))"] Some
  show ?thesis by (auto simp: loop_do_def Let_def)
qed

lemma loop_do_fields [simp]:
  "ra_active (loop_do E e p) = ra_active p" "ra_ready (loop_do E e p) = ra_ready p" "ra_connectedRoute (loop_do E e p) = ra_connectedRoute p"
  "ra_videoLoadedData (loop_do E e p) = ra_videoLoadedData p" "ra_activeStep (loop_do E e p) = ra_activeStep p" "ra_entries (loop_do E e p) = ra_entries p"
  "ra_client (loop_do E e p) = ra_client p" "ra_loop (loop_do E e p) = ra_loop p" "ra_timeout (loop_do E e p) = ra_timeout p"
  "ra_hasBatteryTelemetry (loop_do E e p) = ra_hasBatteryTelemetry p" "ra_creating (loop_do E e p) = ra_creating p" "rp_safety (loop_do E e p) = rp_safety p"
  "rp_session (loop_do E e p) = rp_session p" "rp_loopRef (loop_do E e p) = rp_loopRef p" "rp_readyLoop (loop_do E e p) = rp_readyLoop p"
  "rp_videoPaused (loop_do E e p) = rp_videoPaused p" "rp_videoFresh (loop_do E e p) = rp_videoFresh p" "rp_status (loop_do E e p) = rp_status p"
  "rp_state (loop_do E e p) = rp_state p" "rp_error (loop_do E e p) = rp_error p" "rp_battery (loop_do E e p) = rp_battery p"
  "rp_trimPercent (loop_do E e p) = rp_trimPercent p" "rp_trimStatus (loop_do E e p) = rp_trimStatus p" "rp_trimTimer (loop_do E e p) = rp_trimTimer p"
  "rp_trimRevision (loop_do E e p) = rp_trimRevision p" "rp_trimSaves (loop_do E e p) = rp_trimSaves p" "rp_remaining (loop_do E e p) = rp_remaining p"
  "cd_expiresAt (loop_do E e p) = cd_expiresAt p" "cd_running (loop_do E e p) = cd_running p" "cd_expired (loop_do E e p) = cd_expired p"
  "rp_out (loop_do E e p) = rp_out p"
  "rp_loop (loop_do E e p) = map_option (\<lambda>l. loop_step l (E, e)) (rp_loop p)"
  "hears_keys (loop_do E e p) = hears_keys p"
  using loop_do_shape [of E e p] by (auto simp: hears_keys_def)

lemma hears_keys_updates [simp]:
  "hears_keys (ra_active_update f1 p) = hears_keys p" "hears_keys (ra_ready_update f2 p) = hears_keys p"
  "hears_keys (ra_connectedRoute_update f3 p) = hears_keys p" "hears_keys (ra_videoLoadedData_update f4 p) = hears_keys p"
  "hears_keys (ra_activeStep_update f5 p) = hears_keys p" "hears_keys (ra_entries_update f6 p) = hears_keys p"
  "hears_keys (ra_client_update f7 p) = hears_keys p" "hears_keys (ra_loop_update f8 p) = hears_keys p"
  "hears_keys (ra_timeout_update f9 p) = hears_keys p" "hears_keys (ra_hasBatteryTelemetry_update f10 p) = hears_keys p"
  "hears_keys (ra_creating_update f11 p) = hears_keys p" "hears_keys (rp_loop_update f12 p) = hears_keys p"
  "hears_keys (rp_safety_update f13 p) = hears_keys p" "hears_keys (rp_session_update f14 p) = hears_keys p"
  "hears_keys (rp_loopRef_update f15 p) = hears_keys p" "hears_keys (rp_readyLoop_update f16 p) = hears_keys p"
  "hears_keys (rp_armed_update f17 p) = hears_keys p" "hears_keys (rp_videoPaused_update f18 p) = hears_keys p"
  "hears_keys (rp_videoFresh_update f19 p) = hears_keys p" "hears_keys (rp_pressed_update f20 p) = hears_keys p"
  "hears_keys (rp_control_update f21 p) = hears_keys p" "hears_keys (rp_status_update f22 p) = hears_keys p"
  "hears_keys (rp_state_update f23 p) = hears_keys p" "hears_keys (rp_error_update f24 p) = hears_keys p"
  "hears_keys (rp_battery_update f25 p) = hears_keys p" "hears_keys (rp_trimPercent_update f26 p) = hears_keys p"
  "hears_keys (rp_trimStatus_update f27 p) = hears_keys p" "hears_keys (rp_trimTimer_update f28 p) = hears_keys p"
  "hears_keys (rp_trimRevision_update f29 p) = hears_keys p" "hears_keys (rp_trimSaves_update f30 p) = hears_keys p"
  "hears_keys (rp_remaining_update f31 p) = hears_keys p" "hears_keys (cd_expiresAt_update f32 p) = hears_keys p"
  "hears_keys (cd_running_update f33 p) = hears_keys p" "hears_keys (cd_expired_update f34 p) = hears_keys p"
  "hears_keys (rp_out_update f35 p) = hears_keys p"
  "hears_keys (rp_keyboard_update (map_option g) p) = hears_keys p"
  "hears_keys (rp_keyboard_update (\<lambda>x. map_option g (rp_keyboard p)) p) = hears_keys p"
  by (simp_all add: hears_keys_def)

lemma reset_keys_fields [simp]:
  "ra_active (reset_keys p) = ra_active p" "ra_ready (reset_keys p) = ra_ready p" "ra_connectedRoute (reset_keys p) = ra_connectedRoute p"
  "ra_videoLoadedData (reset_keys p) = ra_videoLoadedData p" "ra_activeStep (reset_keys p) = ra_activeStep p" "ra_entries (reset_keys p) = ra_entries p"
  "ra_client (reset_keys p) = ra_client p" "ra_loop (reset_keys p) = ra_loop p" "ra_timeout (reset_keys p) = ra_timeout p"
  "ra_hasBatteryTelemetry (reset_keys p) = ra_hasBatteryTelemetry p" "ra_creating (reset_keys p) = ra_creating p" "rp_safety (reset_keys p) = rp_safety p"
  "rp_session (reset_keys p) = rp_session p" "rp_loopRef (reset_keys p) = rp_loopRef p" "rp_readyLoop (reset_keys p) = rp_readyLoop p"
  "rp_videoPaused (reset_keys p) = rp_videoPaused p" "rp_videoFresh (reset_keys p) = rp_videoFresh p" "rp_status (reset_keys p) = rp_status p"
  "rp_state (reset_keys p) = rp_state p" "rp_error (reset_keys p) = rp_error p" "rp_battery (reset_keys p) = rp_battery p"
  "rp_trimPercent (reset_keys p) = rp_trimPercent p" "rp_trimStatus (reset_keys p) = rp_trimStatus p" "rp_trimTimer (reset_keys p) = rp_trimTimer p"
  "rp_trimRevision (reset_keys p) = rp_trimRevision p" "rp_trimSaves (reset_keys p) = rp_trimSaves p" "rp_remaining (reset_keys p) = rp_remaining p"
  "cd_expiresAt (reset_keys p) = cd_expiresAt p" "cd_running (reset_keys p) = cd_running p" "cd_expired (reset_keys p) = cd_expired p"
  "rp_out (reset_keys p) = rp_out p" "rp_loop (reset_keys p) = rp_loop p"
  "hears_keys (reset_keys p) = hears_keys p"
  by (simp_all add: reset_keys_def hears_keys_def)

lemma loopRef_do_fields [simp]:
  "ra_active (loopRef_do E e p) = ra_active p" "ra_ready (loopRef_do E e p) = ra_ready p" "ra_connectedRoute (loopRef_do E e p) = ra_connectedRoute p"
  "ra_videoLoadedData (loopRef_do E e p) = ra_videoLoadedData p" "ra_activeStep (loopRef_do E e p) = ra_activeStep p" "ra_entries (loopRef_do E e p) = ra_entries p"
  "ra_client (loopRef_do E e p) = ra_client p" "ra_loop (loopRef_do E e p) = ra_loop p" "ra_timeout (loopRef_do E e p) = ra_timeout p"
  "ra_hasBatteryTelemetry (loopRef_do E e p) = ra_hasBatteryTelemetry p" "ra_creating (loopRef_do E e p) = ra_creating p" "rp_safety (loopRef_do E e p) = rp_safety p"
  "rp_session (loopRef_do E e p) = rp_session p" "rp_loopRef (loopRef_do E e p) = rp_loopRef p" "rp_readyLoop (loopRef_do E e p) = rp_readyLoop p"
  "rp_videoPaused (loopRef_do E e p) = rp_videoPaused p" "rp_videoFresh (loopRef_do E e p) = rp_videoFresh p" "rp_status (loopRef_do E e p) = rp_status p"
  "rp_state (loopRef_do E e p) = rp_state p" "rp_error (loopRef_do E e p) = rp_error p" "rp_battery (loopRef_do E e p) = rp_battery p"
  "rp_trimPercent (loopRef_do E e p) = rp_trimPercent p" "rp_trimStatus (loopRef_do E e p) = rp_trimStatus p" "rp_trimTimer (loopRef_do E e p) = rp_trimTimer p"
  "rp_trimRevision (loopRef_do E e p) = rp_trimRevision p" "rp_trimSaves (loopRef_do E e p) = rp_trimSaves p" "rp_remaining (loopRef_do E e p) = rp_remaining p"
  "cd_expiresAt (loopRef_do E e p) = cd_expiresAt p" "cd_running (loopRef_do E e p) = cd_running p" "cd_expired (loopRef_do E e p) = cd_expired p"
  "rp_out (loopRef_do E e p) = rp_out p"
  "rp_loop (loopRef_do E e p) = (if rp_loopRef p then map_option (\<lambda>l. loop_step l (E, e)) (rp_loop p) else rp_loop p)"
  "hears_keys (loopRef_do E e p) = hears_keys p"
  by (simp_all add: loopRef_do_def)

subsection \<open>The invariant of the page\<close>

definition may_drive :: "ride_page \<Rightarrow> bool" where
  "may_drive p =
     (\<not> rp_videoPaused p \<and> \<not> vs_closed (rp_safety p) \<and> vs_fresh (rp_safety p)
      \<and> ra_active p \<and> ra_ready p \<and> ra_loop p \<and> ra_connectedRoute p \<noteq> None \<and> ra_videoLoadedData p \<and> rp_loopRef p)"

definition page_base :: "ride_page \<Rightarrow> bool" where
  "page_base p \<longleftrightarrow> video_inv (rp_safety p)
     \<and> (\<not> vs_closed (rp_safety p) \<longrightarrow> rp_videoFresh p = vs_fresh (rp_safety p))
     \<and> (rp_loopRef p \<and> \<not> vs_closed (rp_safety p) \<longrightarrow>
          ra_active p \<and> ra_ready p \<and> ra_loop p \<and> ra_connectedRoute p \<noteq> None \<and> ra_videoLoadedData p)
     \<and> (hears_keys p \<or> rp_readyLoop p \<longrightarrow> rp_loopRef p)
     \<and> (rp_loop p = None \<longrightarrow> \<not> ra_loop p \<and> \<not> rp_loopRef p)
     \<and> (ra_creating p \<longrightarrow> rp_loop p = None)"

definition page_inv :: "ride_page \<Rightarrow> bool" where
  "page_inv p \<longleftrightarrow> page_base p
     \<and> (\<not> vs_closed (rp_safety p) \<and> \<not> rp_videoPaused p \<and> vs_lastFrameAt (rp_safety p) \<noteq> None \<longrightarrow> vs_fresh (rp_safety p))
     \<and> (\<forall>l. rp_loop p = Some l \<longrightarrow> flags_ok l \<and> (cl_armRequested l \<longrightarrow> may_drive p))"

lemma may_drive_loop_do [simp]:
  "may_drive (loop_do E e p) = may_drive p" "may_drive (loopRef_do E e p) = may_drive p"
  by (simp_all add: may_drive_def)

lemma base_loop_do [simp]:
  "page_base (loop_do E e p) = page_base p" "page_base (loopRef_do E e p) = page_base p"
  by (simp_all add: page_base_def split: if_splits)

lemma inv_loop_do: "page_inv p \<Longrightarrow> e \<noteq> Arm \<Longrightarrow> page_inv (loop_do E e p)"
  by (auto simp: page_inv_def flags_step dest: request_step simp del: loop_step.simps)

lemma inv_loopRef_do: "page_inv p \<Longrightarrow> e \<noteq> Arm \<Longrightarrow> page_inv (loopRef_do E e p)"
  by (simp add: loopRef_do_def inv_loop_do)

lemma inv_arm: "page_inv p \<Longrightarrow> may_drive p \<Longrightarrow> page_inv (loop_do E Arm p)"
  by (auto simp: page_inv_def flags_step simp del: loop_step.simps)

text \<open>A loop that cannot be asked to arm keeps the invariant whatever becomes of the page.\<close>

lemma inv_quiet_loop:
  assumes "page_base p" "\<And>l. rp_loop p = Some l \<Longrightarrow> flags_ok l \<and> \<not> cl_armRequested l"
    and "\<not> vs_closed (rp_safety p) \<and> \<not> rp_videoPaused p \<and> vs_lastFrameAt (rp_safety p) \<noteq> None \<longrightarrow> vs_fresh (rp_safety p)"
  shows "page_inv p"
  using assms by (simp add: page_inv_def)

lemma disarmed_step:
  "flags_ok (loop_step l (E, Disarm r)) \<and> \<not> cl_armRequested (loop_step l (E, Disarm r))"
  "flags_ok (loop_step l (E, Stop)) \<and> \<not> cl_armRequested (loop_step l (E, Stop))"
  using rests_after by (simp_all add: flags_ok_def)

lemma inv_pause:
  assumes "page_base p" "\<And>l. rp_loop p = Some l \<Longrightarrow> flags_ok l \<and> (cl_armRequested l \<longrightarrow> rp_loopRef p)"
  shows "page_inv (pauseForVideo M p)"
proof (rule inv_quiet_loop)
  show "page_base (pauseForVideo M p)"
    using assms(1) by (simp add: pauseForVideo_def) (simp add: page_base_def)
  show "flags_ok l \<and> \<not> cl_armRequested l" if "rp_loop (pauseForVideo M p) = Some l" for l
    using that assms(2) disarmed_step(1)
    by (auto simp: pauseForVideo_def simp del: loop_step.simps split: if_splits)
qed (simp add: pauseForVideo_def)

lemma pause_fields [simp]:
  "rp_safety (pauseForVideo M p) = rp_safety p" "rp_videoPaused (pauseForVideo M p)"
  "rp_loopRef (pauseForVideo M p) = rp_loopRef p"
  by (simp_all add: pauseForVideo_def)

lemma inv_pause': "page_inv p \<Longrightarrow> page_inv (pauseForVideo M p)"
  by (rule inv_pause) (auto simp: page_inv_def may_drive_def)

lemma inv_base: "page_inv p \<Longrightarrow> page_base p"
  by (simp add: page_inv_def)

lemma inv_frame:
  assumes "page_inv p" "rp_loop p' = rp_loop p" "rp_safety p' = rp_safety p" "rp_videoPaused p' = rp_videoPaused p"
    "rp_videoFresh p' = rp_videoFresh p" "rp_loopRef p' = rp_loopRef p" "ra_active p' = ra_active p"
    "ra_ready p' = ra_ready p" "ra_loop p' = ra_loop p" "ra_connectedRoute p' \<noteq> None \<or> ra_connectedRoute p = None"
    "ra_videoLoadedData p' \<or> \<not> ra_videoLoadedData p" "hears_keys p' \<or> rp_readyLoop p' \<longrightarrow> rp_loopRef p'"
    "ra_creating p' \<longrightarrow> ra_creating p"
  shows "page_inv p'"
  proof -
  have "may_drive p \<Longrightarrow> may_drive p'" using assms(2-) by (auto simp: may_drive_def)
  moreover have "page_base p'" using assms(2-) inv_base [OF assms(1)] unfolding page_base_def by auto
  ultimately show ?thesis using assms(1-4) by (simp add: page_inv_def)
qed

lemma drive_when_fresh:
  "page_inv p \<Longrightarrow> rp_loopRef p \<Longrightarrow> \<not> rp_videoPaused p \<Longrightarrow> isFresh P (rp_safety p) \<Longrightarrow> may_drive p"
  by (auto simp: page_inv_def page_base_def may_drive_def isFresh_def split: option.splits)

subsection \<open>The attempt\<close>

lemma append_entry_other:
  "status \<noteq> ''failed'' \<Longrightarrow> append_entry M c m t status e p =
     p\<lparr>ra_entries := ra_entries p @ [\<lparr>le_time = mo_time M, le_code = c, le_message = m, le_tone = t\<rparr>], rp_status := status\<rparr>"
  by (simp add: append_entry_def on_snapshot_def Let_def)

lemma channels_change_flags [simp]:
  "cl_armed (channels_change f r l) = cl_armed l" "cl_armRequested (channels_change f r l) = cl_armRequested l"
  "flags_ok (channels_change f r l) = flags_ok l"
  by (simp_all add: channels_change_def flags_ok_def)

lemma teardown_fields [simp]:
  "rp_safety (teardown M r p) = rp_safety p" "ra_active (teardown M r p) = ra_active p" "\<not> ra_loop (teardown M r p)"
  "rp_loopRef (teardown M r p) = rp_loopRef p" "rp_videoPaused (teardown M r p) = rp_videoPaused p"
  "rp_readyLoop (teardown M r p) = rp_readyLoop p" "hears_keys (teardown M r p) = hears_keys p"
  "rp_loop (teardown M r p) = None \<longleftrightarrow> rp_loop p = None" "ra_creating (teardown M r p) = ra_creating p"
  "rp_videoFresh (teardown M r p) = rp_videoFresh p"
  by (simp_all add: teardown_def client_close_def emit_def clearBatteryTelemetry_def Let_def)

lemma teardown_loop:
  assumes "rp_loop (teardown M r p) = Some l" "\<And>l. rp_loop p = Some l \<Longrightarrow> flags_ok l \<and> (cl_armRequested l \<longrightarrow> ra_loop p)"
  shows "flags_ok l \<and> \<not> cl_armRequested l"
  using assms disarmed_step(2)
  by (auto simp: teardown_def client_close_def emit_def clearBatteryTelemetry_def Let_def
      simp del: loop_step.simps split: if_splits)

text \<open>Once the watch is closed and nothing can arm, the invariant asks little.\<close>

lemma inv_over:
  assumes "vs_closed (rp_safety p)" "\<And>l. rp_loop p = Some l \<Longrightarrow> flags_ok l \<and> \<not> cl_armRequested l"
    "hears_keys p \<or> rp_readyLoop p \<longrightarrow> rp_loopRef p" "rp_loop p = None \<longrightarrow> \<not> ra_loop p \<and> \<not> rp_loopRef p"
    "ra_creating p \<longrightarrow> rp_loop p = None"
  shows "page_inv p"
  using assms by (simp add: page_inv_def page_base_def video_inv_def)

lemma closed_close [simp]: "vs_closed (close_video_safety v)"
  by (simp add: close_video_safety_def cancelWatch_def)

lemma inv_fail:
  assumes "page_inv p"
  shows "page_inv (attempt_fail M m p)"
proof (cases "ra_active p")
  case True
  let ?q = "p\<lparr>ra_active := False, ra_ready := False, ra_timeout := False\<rparr>"
  have "flags_ok l \<and> \<not> cl_armRequested l" if "rp_loop (teardown M ''connection failed'' ?q) = Some l" for l
    using that by (rule teardown_loop) (use assms in \<open>auto simp: page_inv_def may_drive_def\<close>)
  then show ?thesis using True inv_base [OF assms]
    by (intro inv_over) (auto simp: attempt_fail_def append_entry_def on_snapshot_def page_base_def Let_def)
qed (simp add: attempt_fail_def assms)

lemma inv_close:
  assumes "page_inv p" "vs_closed (rp_safety p)"
  shows "page_inv (attempt_close M r p)"
proof -
  let ?q = "p\<lparr>ra_active := False, ra_timeout := False\<rparr>"
  have "flags_ok l \<and> \<not> cl_armRequested l" if "rp_loop (teardown M r ?q) = Some l" for l
    using that by (rule teardown_loop) (use assms in \<open>auto simp: page_inv_def may_drive_def\<close>)
  then show ?thesis using assms(2) inv_base [OF assms(1)]
    by (cases "\<not> ra_active p \<and> \<not> ra_client p \<and> \<not> ra_loop p")
      (use assms(1) in \<open>auto simp: attempt_close_def page_base_def intro!: inv_over\<close>)
qed

lemma inv_tryReady:
  assumes inv: "page_inv p"
  shows "page_inv (tryReady M p)"
proof (cases "ra_connectedRoute p = None \<or> \<not> ra_active p \<or> ra_ready p \<or> \<not> ra_videoLoadedData p \<or> \<not> ra_loop p")
  case True
  then show ?thesis using inv by (auto simp: tryReady_def split: option.splits)
next
  case False
  then obtain route where route: "ra_connectedRoute p = Some route" by auto
  obtain l where l: "rp_loop p = Some l" using False inv_base [OF inv] by (auto simp: page_base_def)
  have req: "flags_ok l" "\<not> cl_armRequested l" using inv l False by (auto simp: page_inv_def may_drive_def)
  define p2 where "p2 = loop_do (mo_loop M) Start (append_entry M ''READY'' ''Camera ready'' ''success'' ''connected'' []
    (p\<lparr>ra_ready := True, ra_timeout := False, ra_activeStep := 7\<rparr>))"
  define p3 where "p3 = (if canArmControls M p2 then loop_do (mo_loop M) Arm p2 else p2)"
  define p4 where "p4 = (loop_do (mo_loop M) (Set_trim (session_trim p3)) p3)\<lparr>rp_loopRef := True\<rparr>"
  have p2: "rp_loop p2 = Some (loop_step l (mo_loop M, Start))" "rp_safety p2 = rp_safety p"
    "rp_videoPaused p2 = rp_videoPaused p" "page_base (p2\<lparr>rp_loopRef := True\<rparr>)"
    "ra_active p2" "ra_ready p2" "ra_loop p2" "ra_videoLoadedData p2" "ra_connectedRoute p2 = Some route"
    using False l route inv_base [OF inv] by (auto simp: p2_def append_entry_other page_base_def)
  define A where "A = canArmControls M p2"
  have A: "A \<Longrightarrow> \<not> rp_videoPaused p \<and> \<not> vs_closed (rp_safety p) \<and> vs_fresh (rp_safety p)"
    using inv by (auto simp: A_def canArmControls_def p2 isFresh_def page_inv_def split: option.splits)
  have same: "rp_safety p4 = rp_safety p" "rp_videoPaused p4 = rp_videoPaused p" "rp_loopRef p4"
    "ra_active p4" "ra_ready p4" "ra_loop p4" "ra_videoLoadedData p4" "ra_connectedRoute p4 = Some route"
    by (simp_all add: p4_def p3_def p2)
  have base: "page_base p4" using p2(4) by (simp add: p4_def p3_def page_base_def split: if_splits)
  have loop: "flags_ok k \<and> (cl_armRequested k \<longrightarrow> A)" if "rp_loop p4 = Some k" for k
  proof -
    let ?l1 = "loop_step l (mo_loop M, Start)"
    have l1: "flags_ok ?l1" "\<not> cl_armRequested ?l1" using flags_step [OF req(1)] req(2) request_step by blast+
    have k: "k = loop_step (if A then loop_step ?l1 (mo_loop M, Arm) else ?l1) (mo_loop M, Set_trim (session_trim p3))"
      using that by (simp add: p4_def p3_def p2 A_def del: loop_step.simps split: if_splits)
    show ?thesis unfolding k using flags_step [OF flags_step [OF l1(1)]] flags_step [OF l1(1)] request_step l1(2)
      by (cases A) (simp_all del: loop_step.simps, blast)
  qed
  have C: "\<not> vs_closed (rp_safety p4) \<and> \<not> rp_videoPaused p4 \<and> vs_lastFrameAt (rp_safety p4) \<noteq> None \<longrightarrow> vs_fresh (rp_safety p4)"
    using inv by (auto simp: same page_inv_def)
  define p5 where "p5 = (if rp_videoPaused p4 \<or> \<not> isFresh (mo_video M) (rp_safety p4) then pauseForVideo M p4 else p4)"
  have p5: "page_inv p5" "rp_loopRef p5"
  proof -
    have "page_inv (pauseForVideo M p4)" using base loop same by (intro inv_pause) auto
    moreover have "page_inv p4"
      using base loop C A same by (auto simp: page_inv_def may_drive_def)
    ultimately show "page_inv p5" by (simp add: p5_def)
    show "rp_loopRef p5" using same by (simp add: p5_def)
  qed
  have "tryReady M p = p5\<lparr>rp_readyLoop := True, rp_state := route, rp_error := None\<rparr>"
    using False unfolding tryReady_def route option.case on_ready_def Let_def p2_def [symmetric] p3_def [symmetric]
      p4_def [symmetric] p5_def [symmetric] by simp
  then show ?thesis using p5 by (auto intro!: inv_frame [OF p5(1)])
qed

lemma inv_listening: "page_inv p \<Longrightarrow> hears_keys p \<or> rp_readyLoop p \<Longrightarrow> rp_loopRef p"
  by (auto simp: page_inv_def page_base_def)

lemma inv_plain:
  assumes "page_inv p" "rp_loop p' = rp_loop p" "rp_safety p' = rp_safety p" "rp_videoPaused p' = rp_videoPaused p"
    "rp_videoFresh p' = rp_videoFresh p" "rp_loopRef p' = rp_loopRef p" "ra_active p' = ra_active p"
    "ra_ready p' = ra_ready p" "ra_loop p' = ra_loop p" "ra_connectedRoute p' = ra_connectedRoute p"
    "ra_videoLoadedData p' = ra_videoLoadedData p" "hears_keys p' = hears_keys p" "rp_readyLoop p' = rp_readyLoop p"
    "ra_creating p' = ra_creating p"
  shows "page_inv p'"
  by (rule inv_frame [OF assms(1)]) (use assms inv_listening [OF assms(1)] in auto)

lemma inv_updates:
  assumes "page_inv p"
  shows "page_inv (rp_out_update f p)" "page_inv (cd_running_update g p)"
  by (rule inv_plain [OF assms]; simp)+

lemma inv_mark:
  assumes inv: "page_inv p"
  shows "page_inv (markVideoLoadedData M p)"
proof -
  have "page_inv (append_entry M ''VIDEO'' ''First camera frame decoded'' ''success'' ''connecting'' []
      (p\<lparr>ra_videoLoadedData := True, ra_activeStep := max (ra_activeStep p) 7\<rparr>))"
    by (rule inv_frame [OF inv]) (use inv_listening [OF inv] in \<open>auto simp: append_entry_other\<close>)
  with inv show ?thesis by (simp add: markVideoLoadedData_def inv_tryReady)
qed

lemma inv_video_do:
  assumes inv: "page_inv p" and e: "e \<noteq> Close_video"
  shows "page_inv (video_do M e p)"
proof -
  obtain v told where s: "video_step (mo_video M) e (rp_safety p) = (v, told)" by (rule prod.exhaust)
  have "video_inv (rp_safety p)" using inv by (simp add: page_inv_def page_base_def)
  from video_step_next [OF s this e] have n: "video_inv v" "vs_closed v = vs_closed (rp_safety p)"
    "told = [] \<Longrightarrow> vs_fresh v = vs_fresh (rp_safety p)" "told \<noteq> [] \<Longrightarrow> told = [vs_fresh v] \<and> \<not> vs_closed v"
    "vs_lastFrameAt v \<noteq> None \<Longrightarrow> vs_lastFrameAt (rp_safety p) = None \<Longrightarrow> vs_fresh v"
    by (auto simp: video_next_def)
  let ?p = "p\<lparr>rp_safety := v\<rparr>"
  show ?thesis
  proof (cases "told = []")
    case True
    have "page_base ?p" using inv_base [OF inv] n(1-3) True by (auto simp: page_base_def)
    moreover have "may_drive ?p = may_drive p" using n(2,3) True by (simp add: may_drive_def)
    ultimately have "page_inv ?p" using inv n(2,3,5) True by (auto simp: page_inv_def)
    then show ?thesis by (simp add: video_do_def s True)
  next
    case False
    with n(4) have told: "told = [vs_fresh v]" "\<not> vs_closed v" by auto
    let ?q = "p\<lparr>rp_safety := v, rp_videoFresh := vs_fresh v\<rparr>"
    have base: "page_base ?q" using inv_base [OF inv] n(1,2) told(2) by (auto simp: page_base_def)
    show ?thesis
    proof (cases "vs_fresh v")
      case True
      have "may_drive p \<Longrightarrow> may_drive ?q" using True told(2) by (auto simp: may_drive_def)
      then have "page_inv ?q" using inv base True by (auto simp: page_inv_def)
      then show ?thesis using True by (simp add: video_do_def s told on_freshness_def inv_mark)
    next
      case False
      have "page_inv (pauseForVideo M ?q)"
        using base by (rule inv_pause) (use inv in \<open>auto simp: page_inv_def may_drive_def\<close>)
      then show ?thesis using False by (simp add: video_do_def s told on_freshness_def)
    qed
  qed
qed

lemma inv_battery:
  assumes inv: "page_inv p"
  shows "page_inv (clearBatteryTelemetry p)"
  by (cases "ra_hasBatteryTelemetry p")
    (use inv inv_listening [OF inv] in \<open>auto simp: clearBatteryTelemetry_def intro!: inv_frame [OF inv]\<close>)

lemma inv_progress:
  assumes inv: "page_inv p"
  shows "page_inv (handleProgress M s p)"
proof -
  have "page_inv (append_entry M c m ''default'' ''connecting'' [] (p\<lparr>ra_activeStep := k\<rparr>))" for c m k
    by (rule inv_frame [OF inv]) (use inv_listening [OF inv] in \<open>auto simp: append_entry_other\<close>)
  then show ?thesis using inv by (simp add: handleProgress_def split: option.split)
qed

lemma inv_created:
  assumes inv: "page_inv p" and c: "rp_loop p = None" "\<not> ra_creating p"
  shows "page_inv (session_created M s outcome p)"
proof -
  have on: "page_inv (on_session s p)"
    by (rule inv_frame [OF inv]) (use inv_listening [OF inv] in \<open>auto simp: on_session_def\<close>)
  define l where "l = loop_setSteeringTrim (st_steeringTrimPercent s) (new_control_loop (st_sessionId s) (st_controlProtocolVersion s))"
  have l: "flags_ok l \<and> \<not> cl_armRequested l"
    by (simp add: l_def flags_ok_def loop_setSteeringTrim_def new_control_loop_def split: sum.split)
  have "page_base ((on_session s p)\<lparr>ra_client := True, ra_loop := True, rp_loop := Some l\<rparr>)"
    using inv_base [OF inv] c by (auto simp: page_base_def on_session_def)
  moreover have "\<not> rp_loopRef p" using inv_base [OF inv] c by (simp add: page_base_def)
  ultimately have "page_inv ((on_session s p)\<lparr>ra_client := True, ra_loop := True, rp_loop := Some l\<rparr>)"
    using l inv by (auto simp: page_inv_def on_session_def)
  then have "page_inv (handleProgress M ''gateway.connecting''
      ((on_session s p)\<lparr>ra_client := True, ra_loop := True, rp_loop := Some l\<rparr>))" by (rule inv_progress)
  then show ?thesis using inv on
    unfolding session_created_def Let_def l_def [symmetric]
    by (auto intro: inv_fail inv_loop_do split: sum.split option.split)
qed

subsection \<open>The other handlers\<close>

lemma inv_keys:
  assumes inv: "page_inv p"
  shows "page_inv (applyPressedKeys M ks p)"
proof -
  note ref = inv_listening [OF inv]
  have p1: "page_inv (p\<lparr>rp_pressed := ks, rp_control := i\<rparr>)" for i
    by (rule inv_frame [OF inv]) (use ref in auto)
  have p2: "page_inv (p\<lparr>rp_pressed := ks, rp_control := i, rp_keyboard := Some k\<rparr>)" if "rp_keyboard p \<noteq> None" for i k
    by (rule inv_frame [OF inv]) (use ref that in \<open>auto simp: hears_keys_def\<close>)
  show ?thesis
  proof (cases "session_proportional p")
    case True
    then show ?thesis using p1 p2
      by (auto simp: applyPressedKeys_def Let_def intro!: inv_loop_do split: option.split prod.split)
  next
    case False
    then show ?thesis using p1 by (auto simp: applyPressedKeys_def Let_def intro!: inv_loop_do)
  qed
qed

lemma inv_reset_keyboard:
  assumes inv: "page_inv p"
  shows "page_inv (p\<lparr>rp_keyboard := map_option g (rp_keyboard p)\<rparr>)"
  by (rule inv_frame [OF inv]) (use inv_listening [OF inv] in \<open>auto simp: hears_keys_def\<close>)

lemma inv_neutralize: "page_inv p \<Longrightarrow> page_inv (neutralize M r p)"
  by (simp add: neutralize_def inv_loop_do inv_keys inv_reset_keyboard)

lemma inv_focus: "page_inv p \<Longrightarrow> hears_keys p \<Longrightarrow> page_inv (on_focus M p)"
  by (auto simp: on_focus_def intro: inv_arm drive_when_fresh inv_listening)

lemma inv_key:
  assumes inv: "page_inv p" and li: "hears_keys p"
  shows "page_inv (on_key M c again pressed p)"
proof -
  have "page_inv (loop_do (mo_loop M) Arm p)" if "\<not> (rp_videoPaused p \<or> \<not> isFresh (mo_video M) (rp_safety p))"
    using that inv li by (auto intro: inv_arm drive_when_fresh inv_listening)
  then show ?thesis using inv
    by (simp add: on_key_def Let_def inv_pause' inv_keys)
qed

lemma inv_mobile:
  assumes inv: "page_inv p"
  shows "page_inv (applyMobileInput M i p)"
proof -
  let ?p = "p\<lparr>rp_keyboard := map_option keyboard_reset (rp_keyboard p)\<rparr>"
  have p1: "page_inv ?p" using inv by (rule inv_reset_keyboard)
  moreover have "page_inv (?p\<lparr>rp_pressed := [], rp_control := neutral_intent\<rparr>)"
    by (rule inv_frame [OF p1]) (use inv_listening [OF p1] in auto)
  ultimately show ?thesis using inv
    by (simp add: applyMobileInput_def Let_def inv_loopRef_do inv_pause')
qed

lemma inv_resume:
  assumes inv: "page_inv p"
  shows "page_inv (on_resume M p)"
proof (cases "rp_status p \<noteq> ''connected'' \<or> rp_armed p \<or> \<not> rp_videoFresh p \<or> \<not> isFresh (mo_video M) (rp_safety p)")
  case True
  then show ?thesis using inv by (auto simp: on_resume_def inv_pause')
next
  case False
  let ?p = "p\<lparr>rp_videoPaused := False\<rparr>"
  have fresh: "vs_fresh (rp_safety p)" "\<not> vs_closed (rp_safety p)"
    using inv False by (auto simp: page_inv_def page_base_def isFresh_def)
  have "page_base ?p" using inv_base [OF inv] by (simp add: page_base_def)
  moreover have "may_drive p \<Longrightarrow> may_drive ?p" by (simp add: may_drive_def)
  ultimately have "page_inv ?p" using inv fresh by (auto simp: page_inv_def)
  then have p1: "page_inv (loopRef_do (mo_loop M) (Set_input NEUTRAL_CONTROL) ?p)" by (rule inv_loopRef_do) simp
  have "page_inv (loopRef_do (mo_loop M) Arm (loopRef_do (mo_loop M) (Set_input NEUTRAL_CONTROL) ?p))"
  proof (cases "rp_loopRef p")
    case True
    then show ?thesis using p1 False
      by (simp add: loopRef_do_def [of _ Arm]) (intro inv_arm p1 drive_when_fresh [where P = "mo_video M"]; simp)
  qed (use p1 in \<open>simp add: loopRef_do_def\<close>)
  then show ?thesis using False by (simp add: on_resume_def)
qed

lemma inv_timer:
  assumes inv: "page_inv p"
  shows "page_inv (loop_timer M p)"
proof -
  have "page_inv (p\<lparr>rp_keyboard := Some k'\<rparr>)" if "rp_keyboard p = Some k" for k k'
    by (rule inv_frame [OF inv]) (use inv_listening [OF inv] that in \<open>auto simp: hears_keys_def\<close>)
  then show ?thesis using inv
    by (auto simp: loop_timer_def Let_def intro!: inv_loop_do split: option.split prod.split)
qed

lemma inv_network: "page_inv p \<Longrightarrow> page_inv (network_do E e p)"
  by (auto simp: network_do_def inv_loop_do split: loop_event.split)

lemma inv_trim_input:
  assumes inv: "page_inv p"
  shows "page_inv (updateSteeringTrim M v p)"
proof -
  have p1: "page_inv (loopRef_do (mo_loop M) (Set_trim (js_int t)) (p\<lparr>rp_trimPercent := js_int t\<rparr>))" for t
    by (intro inv_loopRef_do inv_plain [OF inv]) simp_all
  then have "page_inv ((loopRef_do (mo_loop M) (Set_trim (js_int t)) (p\<lparr>rp_trimPercent := js_int t\<rparr>))
      \<lparr>rp_trimRevision := n, rp_trimStatus := st, rp_trimTimer := tm\<rparr>)" for t n st tm
    by (rule inv_plain) simp_all
  with p1 inv show ?thesis by (simp add: updateSteeringTrim_def Let_def split: sum.split)
qed

text \<open>Closing the watch and then the attempt; the loop may be called in between.\<close>

lemma inv_end:
  assumes inv: "page_inv p" and q: "rp_safety q = close_video_safety (rp_safety p)"
    and loop: "\<And>l. rp_loop q = Some l \<Longrightarrow> flags_ok l \<and> (cl_armRequested l \<longrightarrow> ra_loop q)"
    and rest: "hears_keys q \<or> rp_readyLoop q \<longrightarrow> rp_loopRef q" "rp_loop q = None \<longrightarrow> \<not> ra_loop q \<and> \<not> rp_loopRef q"
      "ra_creating q \<longrightarrow> rp_loop q = None"
  shows "page_inv (attempt_close M r q)"
proof -
  let ?q = "q\<lparr>ra_active := False, ra_timeout := False\<rparr>"
  have "flags_ok l \<and> \<not> cl_armRequested l" if "rp_loop (teardown M r ?q) = Some l" for l
    using that by (rule teardown_loop) (use loop in simp)
  then show ?thesis
    by (cases "\<not> ra_active q \<and> \<not> ra_client q \<and> \<not> ra_loop q")
      (use loop rest q in \<open>auto simp: attempt_close_def intro!: inv_over\<close>)
qed

lemma inv_end_plain:
  assumes inv: "page_inv p"
  shows "page_inv (attempt_close M r (close_safety p))"
  by (rule inv_end [OF inv]) (use inv in \<open>auto simp: close_safety_def page_inv_def page_base_def may_drive_def\<close>)

lemma loopRef_keeps:
  assumes "\<And>l. rp_loop p = Some l \<Longrightarrow> flags_ok l \<and> (cl_armRequested l \<longrightarrow> b)" "rp_loop (loopRef_do E e p) = Some l" "e \<noteq> Arm"
  shows "flags_ok l \<and> (cl_armRequested l \<longrightarrow> b)"
  using assms flags_step request_step
  by (auto simp del: loop_step.simps split: if_splits)

lemma inv_expire:
  assumes inv: "page_inv p"
  shows "page_inv (on_expire M p)"
proof -
  have loop: "rp_loop (reset_keys (close_safety p)) = Some l \<Longrightarrow> flags_ok l \<and> (cl_armRequested l \<longrightarrow> ra_loop p)" for l
    using inv by (auto simp: close_safety_def page_inv_def may_drive_def)
  have "page_inv (attempt_close M ''session expired''
          (loopRef_do (mo_loop M) (Disarm ''session expired'')
            (loopRef_do (mo_loop M) (Set_input NEUTRAL_CONTROL) (reset_keys (close_safety p)))))"
  proof (rule inv_end [OF inv])
    show "flags_ok l \<and> (cl_armRequested l \<longrightarrow> ra_loop
        (loopRef_do (mo_loop M) (Disarm ''session expired'')
          (loopRef_do (mo_loop M) (Set_input NEUTRAL_CONTROL) (reset_keys (close_safety p)))))"
      if "rp_loop (loopRef_do (mo_loop M) (Disarm ''session expired'')
          (loopRef_do (mo_loop M) (Set_input NEUTRAL_CONTROL) (reset_keys (close_safety p)))) = Some l" for l
    proof -
      have "flags_ok k \<and> (cl_armRequested k \<longrightarrow> ra_loop p)"
        if "rp_loop (loopRef_do (mo_loop M) (Set_input NEUTRAL_CONTROL) (reset_keys (close_safety p))) = Some k" for k
        using loop that by (rule loopRef_keeps) simp_all
      then have "flags_ok l \<and> (cl_armRequested l \<longrightarrow> ra_loop p)" using that by (rule loopRef_keeps) simp_all
      then show ?thesis by (simp add: close_safety_def)
    qed
  qed (use inv_base [OF inv] in \<open>auto simp: close_safety_def page_base_def split: if_splits\<close>)
  then show ?thesis by (auto simp: on_expire_def emit_def Let_def intro: inv_plain)
qed

lemma inv_end_ride:
  assumes inv: "page_inv p"
  shows "page_inv (end_ride M p)"
proof -
  have loop: "rp_loop (close_safety p) = Some l \<Longrightarrow> flags_ok l \<and> (cl_armRequested l \<longrightarrow> ra_loop p)" for l
    using inv by (auto simp: close_safety_def page_inv_def may_drive_def)
  have "page_inv (attempt_close M ''operator ended ride''
      (loopRef_do (mo_loop M) (Disarm ''operator ended ride'') (close_safety p)))"
  proof (rule inv_end [OF inv])
    show "flags_ok l \<and> (cl_armRequested l \<longrightarrow> ra_loop (loopRef_do (mo_loop M) (Disarm ''operator ended ride'') (close_safety p)))"
      if "rp_loop (loopRef_do (mo_loop M) (Disarm ''operator ended ride'') (close_safety p)) = Some l" for l
    proof -
      have "flags_ok l \<and> (cl_armRequested l \<longrightarrow> ra_loop p)" using loop that by (rule loopRef_keeps) simp_all
      then show ?thesis by (simp add: close_safety_def)
    qed
  qed (use inv_base [OF inv] in \<open>auto simp: close_safety_def page_base_def split: if_splits\<close>)
  then show ?thesis by (auto simp: end_ride_def emit_def intro: inv_plain)
qed

lemma inv_tick:
  assumes inv: "page_inv p"
  shows "page_inv (countdown_tick M p)"
proof -
  have "page_inv (p\<lparr>rp_remaining := r\<rparr>)" "page_inv (p\<lparr>rp_remaining := r, cd_expired := True, cd_running := False\<rparr>)" for r
    by (rule inv_plain [OF inv]; simp)+
  then show ?thesis by (simp add: countdown_tick_def Let_def inv_expire)
qed

lemma inv_countdown:
  assumes inv: "page_inv p"
  shows "page_inv (countdown_effect M p)"
proof -
  have "page_inv (countdown_tick M (p\<lparr>cd_running := False, cd_expiresAt := e, cd_expired := False\<rparr>))" for e
    by (intro inv_tick inv_plain [OF inv]) simp_all
  then have "page_inv (countdown_start M e p)" for e
    by (simp add: countdown_start_def Let_def inv_updates)
  moreover have "page_inv (p\<lparr>rp_remaining := 0\<rparr>)" by (rule inv_plain [OF inv]) simp_all
  ultimately show ?thesis by (simp add: countdown_effect_def split: option.split)
qed

lemma inv_unmount:
  assumes inv: "page_inv p"
  shows "page_inv (unmount M p)"
proof -
  have "page_inv ((attempt_close M ''ride connection replaced'' (close_safety p))
      \<lparr>cd_running := False, rp_trimTimer := None, rp_trimRevision := rp_trimRevision p + 1\<rparr>)" (is "page_inv ?q")
    by (rule inv_plain [OF inv_end_plain [OF inv]]) simp_all
  then have "page_inv (applyPressedKeys M [] (?q\<lparr>rp_keyboard := map_option keyboard_reset (rp_keyboard ?q)\<rparr>))"
    by (intro inv_keys inv_reset_keyboard)
  then have "page_inv ((applyPressedKeys M [] (?q\<lparr>rp_keyboard := map_option keyboard_reset (rp_keyboard ?q)\<rparr>))
      \<lparr>rp_keyboard := None, rp_readyLoop := False\<rparr>)"
    by (rule inv_frame) (auto simp: hears_keys_def)
  with \<open>page_inv ?q\<close> show ?thesis by (simp add: unmount_def keyboard_cleanup_def)
qed

lemma inv_page_step [inv_steps]:
  assumes inv: "page_inv p"
  shows "page_inv (page_step p ev)"
proof -
  obtain M e where ev: "ev = (M, e)" by (rule prod.exhaust)
  have created: "page_inv (p\<lparr>ra_creating := False\<rparr>)" by (rule inv_frame [OF inv]) (use inv_listening [OF inv] in auto)
  have c0: "ra_creating p \<Longrightarrow> rp_loop p = None" using inv_base [OF inv] by (simp add: page_base_def)
  show ?thesis
  proof (cases e)
    case (Session_created s c)
    then show ?thesis using inv created c0 by (simp add: ev inv_created)
  next
    case (Client_state s)
    have "page_inv (p\<lparr>ra_connectedRoute := Some s\<rparr>)" by (rule inv_frame [OF inv]) (use inv_listening [OF inv] in auto)
    then show ?thesis using inv
      by (auto simp: ev Client_state client_state_def intro!: inv_tryReady inv_fail inv_battery)
  next
    case (Client_telemetry v c)
    then show ?thesis using inv by (auto simp: ev client_telemetry_def intro: inv_plain)
  next
    case Keyboard_effect
    have "rp_readyLoop p \<Longrightarrow> page_inv (p\<lparr>rp_keyboard := Some k\<rparr>)" for k
      by (rule inv_frame [OF inv]) (use inv_listening [OF inv] in auto)
    then show ?thesis using inv by (simp add: ev Keyboard_effect keyboard_effect_def)
  next
    case Trim_timer
    then show ?thesis using inv by (auto simp: ev trim_timer_def emit_def intro: inv_plain split: option.split)
  next
    case (Trim_answer i r)
    then show ?thesis using inv
      by (auto simp: ev trim_answered_def Let_def intro: inv_plain split: prod.split sum.split)
  next
    case Return_to_queue
    then show ?thesis using inv_end_plain [OF inv]
      by (simp add: ev returnToQueue_def emit_def inv_updates)
  qed (use inv created in \<open>auto simp: ev inv_fail inv_progress client_stream_def client_error_def inv_battery inv_video_do
      inv_key inv_neutralize inv_focus on_visibility_def inv_mobile inv_resume inv_timer inv_network inv_trim_input
      inv_countdown inv_tick inv_end_ride retryConnection_def inv_end_plain inv_unmount\<close>)
qed

lemma inv_page_run: "page_inv p \<Longrightarrow> page_inv (page_run p evs)"
  by (induction evs arbitrary: p) (simp_all add: inv_page_step)

lemma inv_mounted: "page_inv (mounted_page M)"
  by (simp add: mounted_page_def attempt_start_def blank_page_def append_entry_other page_inv_def page_base_def
      video_inv_new hears_keys_def) (simp add: new_video_safety_def)

subsection \<open>A page that stays still\<close>

definition drives :: "ride_page \<Rightarrow> bool" where
  "drives p = (case rp_loop p of None \<Rightarrow> False | Some l \<Rightarrow> cl_armed l)"

definition barred :: "ride_page \<Rightarrow> bool" where
  "barred p = (rp_videoPaused p \<or> vs_closed (rp_safety p))"

text \<open>
  The step leaves a resting loop resting, with harmless messages only, and does not lift what
  bars the page from arming.
\<close>

definition still :: "ride_page \<Rightarrow> ride_page \<Rightarrow> bool" where
  "still p p' = ((\<forall>l. rp_loop p = Some l \<and> resting l \<longrightarrow> (\<exists>l'. rp_loop p' = Some l' \<and> rests l l'))
     \<and> (rp_videoPaused p \<longrightarrow> rp_videoPaused p') \<and> (vs_closed (rp_safety p) \<longrightarrow> vs_closed (rp_safety p')))"

lemma still_trans: "still p p1 \<Longrightarrow> still p1 p2 \<Longrightarrow> still p p2"
  unfolding still_def by (metis rests_def rests_trans)

lemma still_same:
  assumes "rp_loop p' = rp_loop p" "rp_videoPaused p \<longrightarrow> rp_videoPaused p'" "vs_closed (rp_safety p) \<longrightarrow> vs_closed (rp_safety p')"
  shows "still p p'"
  using assms by (auto simp: still_def rests_same)

lemma still_refl: "still p p"
  by (rule still_same) auto

lemma still_barred: "still p p' \<Longrightarrow> barred p \<Longrightarrow> barred p'"
  by (auto simp: still_def barred_def)

lemma still_loop_do: "e \<noteq> Arm \<Longrightarrow> still p (loop_do E e p)"
  using rests_step [of _ "(E, e)"] by (auto simp: still_def simp del: loop_step.simps)

lemma still_loopRef_do: "e \<noteq> Arm \<Longrightarrow> still p (loopRef_do E e p)"
  by (simp add: loopRef_do_def still_loop_do still_refl)

text \<open>A change of the record, then a call; and the other way round.\<close>

lemma still_then: "still q p' \<Longrightarrow> rp_loop q = rp_loop p \<Longrightarrow> rp_videoPaused p \<longrightarrow> rp_videoPaused q
    \<Longrightarrow> vs_closed (rp_safety p) \<longrightarrow> vs_closed (rp_safety q) \<Longrightarrow> still p p'"
  by (rule still_trans [OF still_same])

lemma still_after: "still p q \<Longrightarrow> rp_loop p' = rp_loop q \<Longrightarrow> rp_videoPaused q \<longrightarrow> rp_videoPaused p'
    \<Longrightarrow> vs_closed (rp_safety q) \<longrightarrow> vs_closed (rp_safety p') \<Longrightarrow> still p p'"
  by (rule still_trans [OF _ still_same])

lemma still_pause: "still p (pauseForVideo M p)"
  unfolding pauseForVideo_def
  by (rule still_then [OF still_trans [OF still_loopRef_do still_loopRef_do]]) simp_all

lemma still_teardown: "still p (teardown M r p)"
proof -
  define p1 where "p1 = clearBatteryTelemetry (p\<lparr>ra_loop := False, ra_client := False\<rparr>)"
  have p1: "still p p1" by (rule still_same) (simp_all add: p1_def clearBatteryTelemetry_def)
  define p2 where "p2 = (if ra_loop p then loop_do (mo_loop M) Stop (loop_do (mo_loop M) (Disarm r) p1) else p1)"
  have "still p1 (loop_do (mo_loop M) Stop (loop_do (mo_loop M) (Disarm r) p1))"
    by (rule still_trans [OF still_loop_do still_loop_do]) simp_all
  with p1 have p2: "still p p2" by (auto simp: p2_def intro: still_trans)
  have "resting l \<Longrightarrow> rests l (channels_change f g l)" for l f g
    by (rule rests_same) (simp_all add: resting_def, simp add: channels_change_def)
  then have "still p2 (client_close r p2)" by (auto simp: still_def client_close_def emit_def)
  with p2 show ?thesis unfolding teardown_def Let_def p1_def [symmetric] p2_def [symmetric]
    by (auto intro: still_trans)
qed

lemma still_append: "still p (append_entry M c m t s e p)"
  by (rule still_same) (auto simp: append_entry_def on_snapshot_def Let_def)

lemma still_fail: "still p (attempt_fail M m p)"
proof (cases "ra_active p")
  case True
  have "still p (teardown M ''connection failed'' (p\<lparr>ra_active := False, ra_ready := False, ra_timeout := False\<rparr>))"
    by (rule still_then [OF still_teardown]) simp_all
  then show ?thesis using True by (auto simp: attempt_fail_def intro: still_trans still_append)
qed (simp add: attempt_fail_def still_refl)

lemma still_close: "still p (attempt_close M r p)"
proof -
  have "still p (teardown M r (p\<lparr>ra_active := False, ra_timeout := False\<rparr>))"
    by (rule still_then [OF still_teardown]) simp_all
  then show ?thesis by (auto simp: attempt_close_def still_refl)
qed

lemma still_ready: "still p (on_ready M route p)"
proof -
  define q where "q = (loop_do (mo_loop M) (Set_trim (session_trim p)) p)\<lparr>rp_loopRef := True\<rparr>"
  have q: "still p q" unfolding q_def
    by (rule still_after [OF still_loop_do [of "Set_trim (session_trim p)" p "mo_loop M"]]) simp_all
  have "still p (if rp_videoPaused q \<or> \<not> isFresh (mo_video M) (rp_safety q) then pauseForVideo M q else q)"
    using q by (auto intro: still_trans still_pause)
  then show ?thesis unfolding on_ready_def Let_def q_def [symmetric] by (rule still_after) simp_all
qed

lemma still_tryReady:
  assumes "barred p"
  shows "still p (tryReady M p)"
proof -
  let ?a = "append_entry M ''READY'' ''Camera ready'' ''success'' ''connected'' []
    (p\<lparr>ra_ready := True, ra_timeout := False, ra_activeStep := 7\<rparr>)"
  have a: "still p ?a" by (rule still_then [OF still_append]) simp_all
  then have q: "still p (loop_do (mo_loop M) Start ?a)" by (rule still_trans) (rule still_loop_do, simp)
  then have "barred (loop_do (mo_loop M) Start ?a)" using assms by (rule still_barred)
  then have "\<not> canArmControls M (loop_do (mo_loop M) Start ?a)" by (auto simp: barred_def canArmControls_def isFresh_def)
  then show ?thesis using q
    by (auto simp: tryReady_def Let_def still_refl intro: still_trans still_ready split: option.split)
qed

lemma still_mark: "barred p \<Longrightarrow> still p (markVideoLoadedData M p)"
proof -
  assume b: "barred p"
  let ?a = "append_entry M ''VIDEO'' ''First camera frame decoded'' ''success'' ''connecting'' []
    (p\<lparr>ra_videoLoadedData := True, ra_activeStep := max (ra_activeStep p) 7\<rparr>)"
  have "still p ?a" by (rule still_then [OF still_append]) simp_all
  moreover from this have "barred ?a" using b by (rule still_barred)
  ultimately show ?thesis by (auto simp: markVideoLoadedData_def still_refl intro: still_trans still_tryReady)
qed

lemma still_video:
  assumes b: "barred p" and inv: "page_inv p" and e: "e \<noteq> Close_video"
  shows "still p (video_do M e p)"
proof -
  obtain v told where s: "video_step (mo_video M) e (rp_safety p) = (v, told)" by (rule prod.exhaust)
  have "video_inv (rp_safety p)" using inv by (simp add: page_inv_def page_base_def)
  from video_step_next [OF s this e] have n: "vs_closed v = vs_closed (rp_safety p)" by (simp add: video_next_def)
  have p1: "still p (p\<lparr>rp_safety := v\<rparr>)" using n by (intro still_same) simp_all
  have told: "still q (on_freshness M q f)" if "barred q" for q f
  proof -
    have "still q (q\<lparr>rp_videoFresh := f\<rparr>)" by (rule still_same) simp_all
    moreover from this have "barred (q\<lparr>rp_videoFresh := f\<rparr>)" using that by (rule still_barred)
    ultimately show ?thesis
      by (auto simp: on_freshness_def Let_def intro: still_trans [OF _ still_mark] still_trans [OF _ still_pause])
  qed
  have "still q (foldl (on_freshness M) q told)" if "barred q" for q
    using that
  proof (induction told arbitrary: q)
    case (Cons f told)
    then show ?case using told [OF Cons.prems, of f] by (auto intro: still_trans still_barred)
  qed (simp add: still_refl)
  then show ?thesis using p1 still_barred [OF p1 b] by (auto simp: video_do_def s intro: still_trans)
qed

lemma still_progress: "still p (handleProgress M s p)"
  by (rule still_same) (auto simp: handleProgress_def append_entry_other split: option.split)

lemma still_battery: "still p (clearBatteryTelemetry p)"
  by (rule still_same) (auto simp: clearBatteryTelemetry_def)

lemma still_keys: "still p (applyPressedKeys M ks p)"
proof -
  let ?i = "controlIntentFromPressedKeys ks"
  have two: "still p (loop_do E (Set_input j) (p\<lparr>rp_pressed := ks, rp_control := ?i, rp_keyboard := Some k\<rparr>))" for E j k
    by (rule still_then [OF still_loop_do]) simp_all
  moreover have "still p (loop_do E2 (Set_provider True)
      (loop_do E (Set_input j) (p\<lparr>rp_pressed := ks, rp_control := ?i, rp_keyboard := Some k\<rparr>)))" for E E2 j k
    by (rule still_trans [OF two still_loop_do]) simp
  moreover have "still p (loop_do E (Set_input i) (p\<lparr>rp_pressed := ks, rp_control := ?i\<rparr>))" for E i
    by (rule still_then [OF still_loop_do]) simp_all
  moreover have "still p (p\<lparr>rp_pressed := ks, rp_control := ?i\<rparr>)" by (rule still_same) simp_all
  ultimately show ?thesis
    using two unfolding applyPressedKeys_def Let_def by (auto split: option.split prod.split)
qed

lemma still_neutralize: "still p (neutralize M r p)"
proof -
  have "still p (applyPressedKeys M [] (p\<lparr>rp_keyboard := map_option keyboard_reset (rp_keyboard p)\<rparr>))"
    by (rule still_then [OF still_keys]) simp_all
  then show ?thesis unfolding neutralize_def by (rule still_trans) (rule still_loop_do, simp)
qed

lemma still_focus: "barred p \<Longrightarrow> still p (on_focus M p)"
  by (auto simp: on_focus_def barred_def isFresh_def still_refl)

lemma still_key: "barred p \<Longrightarrow> still p (on_key M c again pressed p)"
  by (auto simp: on_key_def barred_def isFresh_def still_refl still_pause)

lemma still_mobile: "barred p \<Longrightarrow> still p (applyMobileInput M i p)"
  by (auto simp: applyMobileInput_def barred_def isFresh_def Let_def still_loopRef_do
      intro: still_trans [OF still_loopRef_do still_pause])

lemma still_timer: "still p (loop_timer M p)"
proof -
  have "still p (loop_do E Timer (p\<lparr>rp_keyboard := Some k\<rparr>))" for E k
    by (rule still_then [OF still_loop_do]) simp_all
  then show ?thesis by (simp add: loop_timer_def Let_def still_loop_do split: option.split prod.split)
qed

lemma still_network: "still p (network_do E e p)"
  by (auto simp: network_do_def still_loop_do still_refl split: loop_event.split)

lemma still_trim: "still p (updateSteeringTrim M v p)"
proof -
  have q: "still p (loopRef_do (mo_loop M) (Set_trim (js_int t)) (p\<lparr>rp_trimPercent := js_int t\<rparr>))" for t
    by (rule still_then [OF still_loopRef_do]) simp_all
  have "still p ((loopRef_do (mo_loop M) (Set_trim (js_int t)) (p\<lparr>rp_trimPercent := js_int t\<rparr>))
      \<lparr>rp_trimRevision := n, rp_trimStatus := st, rp_trimTimer := tm\<rparr>)" for t n st tm
    by (rule still_after [OF q]) simp_all
  with q show ?thesis by (simp add: updateSteeringTrim_def Let_def still_refl split: sum.split)
qed

lemma still_out: "still p q \<Longrightarrow> still p (emit w q)"
  by (rule still_after [where q = q]) (simp_all add: emit_def)

lemma still_close_safety: "still p (close_safety p)"
  by (rule still_same) (simp_all add: close_safety_def)

lemma still_over: "still p (attempt_close M r (close_safety p))"
  by (rule still_trans [OF still_close_safety still_close])

lemma still_expire: "still p (on_expire M p)"
proof -
  have "still p (reset_keys (close_safety p))" by (rule still_after [OF still_close_safety]) simp_all
  then have "still p (loopRef_do (mo_loop M) (Disarm ''session expired'')
      (loopRef_do (mo_loop M) (Set_input NEUTRAL_CONTROL) (reset_keys (close_safety p))))"
    by (blast intro: still_trans still_loopRef_do loop_event.distinct)
  then show ?thesis unfolding on_expire_def Let_def by (intro still_out) (rule still_trans [OF _ still_close])
qed

lemma still_end: "still p (end_ride M p)"
proof -
  have "still p (loopRef_do (mo_loop M) (Disarm ''operator ended ride'') (close_safety p))"
    by (rule still_trans [OF still_close_safety still_loopRef_do]) simp
  then show ?thesis unfolding end_ride_def by (intro still_out) (rule still_trans [OF _ still_close])
qed

lemma still_tick: "still p (countdown_tick M p)"
proof -
  have "still p (on_expire M (p\<lparr>rp_remaining := r, cd_expired := True, cd_running := False\<rparr>))" for r
    by (rule still_then [OF still_expire]) simp_all
  moreover have "still p (p\<lparr>rp_remaining := r\<rparr>)" for r by (rule still_same) simp_all
  ultimately show ?thesis by (simp add: countdown_tick_def Let_def)
qed

lemma still_countdown: "still p (countdown_effect M p)"
proof -
  have t: "still p (countdown_tick M (p\<lparr>cd_running := False, cd_expiresAt := e, cd_expired := False\<rparr>))" for e
    by (rule still_then [OF still_tick]) simp_all
  have "still p ((countdown_tick M (p\<lparr>cd_running := False, cd_expiresAt := e, cd_expired := False\<rparr>))\<lparr>cd_running := True\<rparr>)" for e
    by (rule still_after [OF t [of e]]) simp_all
  moreover have "still p (p\<lparr>rp_remaining := 0\<rparr>)" by (rule still_same) simp_all
  ultimately show ?thesis using t by (simp add: countdown_effect_def countdown_start_def Let_def split: option.split)
qed

lemma still_unmount: "still p (unmount M p)"
proof -
  define q where "q = (attempt_close M ''ride connection replaced'' (close_safety p))
      \<lparr>cd_running := False, rp_trimTimer := None, rp_trimRevision := rp_trimRevision p + 1\<rparr>"
  have q: "still p q" unfolding q_def
    by (rule still_after [OF still_over [of p M "''ride connection replaced''"]]) simp_all
  have k: "still q (applyPressedKeys M [] (q\<lparr>rp_keyboard := map_option keyboard_reset (rp_keyboard q)\<rparr>))"
    by (rule still_then [OF still_keys]) simp_all
  have "still q ((applyPressedKeys M [] (q\<lparr>rp_keyboard := map_option keyboard_reset (rp_keyboard q)\<rparr>))
      \<lparr>rp_keyboard := None, rp_readyLoop := False\<rparr>)" by (rule still_after [OF k]) simp_all
  with q show ?thesis unfolding unmount_def q_def [symmetric] keyboard_cleanup_def by (auto intro: still_trans)
qed

lemma still_step:
  assumes inv: "page_inv p" and b: "barred p" and e: "snd ev = Resume \<Longrightarrow> vs_closed (rp_safety p)"
  shows "still p (page_step p ev)"
proof -
  obtain M e where ev: "ev = (M, e)" by (rule prod.exhaust)
  have created: "still p (p\<lparr>ra_creating := False\<rparr>)" by (rule still_same) simp_all
  show ?thesis
  proof (cases e)
    case (Session_created s c)
    have "rp_loop p = None" if "ra_creating p" using inv that by (simp add: page_inv_def page_base_def)
    moreover have "rp_videoPaused (session_created M s c q) = rp_videoPaused q
        \<and> (vs_closed (rp_safety q) \<longrightarrow> vs_closed (rp_safety (session_created M s c q)))" for q
      by (auto simp: session_created_def on_session_def attempt_fail_def handleProgress_def append_entry_def
          on_snapshot_def Let_def split: sum.split option.split)
    ultimately show ?thesis by (cases "ra_creating p") (auto simp: ev Session_created still_refl, simp add: still_def)
  next
    case (Session_failed m)
    then show ?thesis using created still_refl by (auto simp: ev intro: still_trans still_fail)
  next
    case (Client_state s)
    have "still p (p\<lparr>ra_connectedRoute := Some s\<rparr>)" by (rule still_same) simp_all
    then have "still p (tryReady M (p\<lparr>ra_connectedRoute := Some s\<rparr>))"
      using b by (blast intro: still_trans still_tryReady still_barred)
    then show ?thesis using still_trans [OF still_battery still_fail]
      by (simp add: ev Client_state client_state_def still_refl)
  next
    case Resume
    then show ?thesis using e by (auto simp: ev on_resume_def isFresh_def still_refl still_pause)
  next
    case (Client_telemetry v c)
    then show ?thesis by (intro still_same) (simp_all add: ev client_telemetry_def)
  next
    case Keyboard_effect
    then show ?thesis by (intro still_same) (simp_all add: ev keyboard_effect_def)
  next
    case Trim_timer
    then show ?thesis by (intro still_same) (auto simp: ev trim_timer_def emit_def split: option.split)
  next
    case (Trim_answer i r)
    then show ?thesis by (intro still_same) (auto simp: ev trim_answered_def Let_def split: prod.split sum.split)
  next
    case (Client_error m)
    then show ?thesis using still_trans [OF still_battery still_fail] by (simp add: ev client_error_def)
  qed (use b inv in \<open>auto simp: ev still_refl still_fail still_progress client_stream_def still_video still_key
      still_neutralize still_focus on_visibility_def still_mobile still_timer still_network still_trim
      still_countdown still_tick still_end retryConnection_def returnToQueue_def still_over still_out still_unmount\<close>)
qed

text \<open>From a barred page with a resting loop nothing but harmless messages leaves.\<close>

definition silent_from :: "ride_page \<Rightarrow> ride_page \<Rightarrow> bool" where
  "silent_from p p' = (\<not> drives p' \<and> (case rp_loop p of None \<Rightarrow> True
     | Some l \<Rightarrow> (case rp_loop p' of None \<Rightarrow> False
         | Some l' \<Rightarrow> (\<exists>ws. cl_log l' = cl_log l @ ws \<and> list_all harmless ws))))"

lemma barred_rests:
  assumes "page_inv p" "barred p" "rp_loop p = Some l"
  shows "resting l"
  using assms by (auto simp: page_inv_def flags_ok_def barred_def may_drive_def resting_def)

lemma barred_run:
  assumes "page_inv p" "barred p" "\<forall>ev \<in> set evs. snd ev = Resume \<longrightarrow> vs_closed (rp_safety p)"
  shows "still p (page_run p evs) \<and> page_inv (page_run p evs) \<and> barred (page_run p evs)"
  using assms
proof (induction evs arbitrary: p)
  case (Cons ev evs)
  have s: "still p (page_step p ev)" using Cons.prems by (intro still_step) auto
  have "still (page_step p ev) (page_run (page_step p ev) evs) \<and> page_inv (page_run (page_step p ev) evs)
      \<and> barred (page_run (page_step p ev) evs)"
  proof (rule Cons.IH)
    show "page_inv (page_step p ev)" using Cons.prems by (intro inv_page_step)
    show "barred (page_step p ev)" using s Cons.prems(2) by (rule still_barred)
    show "\<forall>x \<in> set evs. snd x = Resume \<longrightarrow> vs_closed (rp_safety (page_step p ev))"
      using Cons.prems(3) s by (auto simp: still_def)
  qed
  then show ?case using s by (auto intro: still_trans)
qed (simp add: still_refl)

lemma barred_silent:
  assumes "page_inv p" "barred p" "\<forall>ev \<in> set evs. snd ev = Resume \<longrightarrow> vs_closed (rp_safety p)"
  shows "silent_from p (page_run p evs)"
proof -
  note r = barred_run [OF assms]
  have "\<not> drives (page_run p evs)"
    using barred_rests r by (auto simp: drives_def resting_def split: option.split)
  moreover have "\<exists>l'. rp_loop (page_run p evs) = Some l' \<and> (\<exists>ws. cl_log l' = cl_log l @ ws \<and> list_all harmless ws)"
    if "rp_loop p = Some l" for l
    using r barred_rests [OF assms(1,2) that] that by (auto simp: still_def rests_def)
  ultimately show ?thesis by (auto simp: silent_from_def split: option.split)
qed

lemma driving_live: "page_inv p \<Longrightarrow> drives p \<Longrightarrow> may_drive p"
  by (auto simp: page_inv_def drives_def flags_ok_def split: option.splits)

text \<open>
  Property C6: The car of a page can only be driven while its ride is live: in every reachable state, an
  armed loop means that the connection attempt is active and ready, a route to the car is
  connected, a frame of the camera has been decoded, the picture was last published as fresh,
  and the controls are not paused.
\<close>

theorem driving_needs_live_ride:
  assumes "drives (page_run (mounted_page M) evs)"
  shows "may_drive (page_run (mounted_page M) evs)"
  using inv_page_run [OF inv_mounted] assms by (rule driving_live)

text \<open>
  Property C7: A car that is being driven stops when the picture stands: the check that comes a second after
  the last frame leaves the loop unarmed, and until the driver resumes, nothing but neutral
  messages leaves the page, whatever keys, gestures, network and video events follow.
\<close>

theorem standing_picture_stops_the_car:
  assumes "drives (page_run (mounted_page M0) before)"
    and "picture_stands (mo_video M) (rp_safety (page_run (mounted_page M0) before))"
    and "\<forall>ev \<in> set later. snd ev \<noteq> Resume"
  shows "silent_from (page_step (page_run (mounted_page M0) before) (M, Video_check))
    (page_run (page_step (page_run (mounted_page M0) before) (M, Video_check)) later)"
proof -
  let ?p = "page_run (mounted_page M0) before"
  have inv: "page_inv ?p" using inv_page_run [OF inv_mounted] .
  have live: "vs_fresh (rp_safety ?p)" "\<not> vs_closed (rp_safety ?p)"
    using driving_live [OF inv assms(1)] by (auto simp: may_drive_def)
  obtain v told where c: "check (mo_video M) (rp_safety ?p) = (v, told)" by (rule prod.exhaust)
  have "told = [False]"
    using standing_picture_is_stale [OF assms(2) _ live(2) c] inv live(1) by (simp add: page_inv_def page_base_def)
  then have "rp_videoPaused (page_step ?p (M, Video_check))"
    by (simp add: video_do_def c on_freshness_def)
  then have b: "barred (page_step ?p (M, Video_check))" by (simp add: barred_def)
  show ?thesis by (rule barred_silent [OF inv_page_step [OF inv] b]) (use assms(3) in auto)
qed

text \<open>The events that end a ride.\<close>

fun ends_ride :: "ride_page \<Rightarrow> moment \<Rightarrow> page_event \<Rightarrow> bool" where
  "ends_ride p M (Client_state s) = (s = ''DISCONNECTED'')"
| "ends_ride p M (Client_error e) = True"
| "ends_ride p M (Playback_error e) = True"
| "ends_ride p M Connection_timeout = ra_timeout p"
| "ends_ride p M Countdown_tick =
     (cd_running p \<and> \<not> cd_expired p \<and> remainingSessionSeconds (cd_expiresAt p) (mo_date M) \<le> 0)"
| "ends_ride p M End_ride = True"
| "ends_ride p M Retry_ride = True"
| "ends_ride p M Return_to_queue = True"
| "ends_ride p M Unmount = True"
| "ends_ride p M e = False"

lemma fail_closes: "ra_active p \<Longrightarrow> vs_closed (rp_safety (attempt_fail M m p))"
  by (simp add: attempt_fail_def append_entry_def on_snapshot_def Let_def)

lemma close_keeps_closed: "vs_closed (rp_safety p) \<Longrightarrow> vs_closed (rp_safety (attempt_close M r p))"
  using still_close [of p M r] by (simp add: still_def)

lemma ended_is_closed:
  assumes "ends_ride p M e" "ra_active p"
  shows "vs_closed (rp_safety (page_step p (M, e)))"
proof -
  have b: "ra_active (clearBatteryTelemetry p)" using assms(2) by (simp add: clearBatteryTelemetry_def)
  have k: "rp_safety (keyboard_cleanup M q) = rp_safety q" for q
    by (auto simp: keyboard_cleanup_def applyPressedKeys_def Let_def split: option.split prod.split)
  have closed: "vs_closed (rp_safety (close_safety q))" for q by (simp add: close_safety_def)
  show ?thesis using assms b fail_closes
    by (cases e) (auto simp: client_state_def client_error_def countdown_tick_def on_expire_def end_ride_def
        retryConnection_def returnToQueue_def unmount_def emit_def Let_def k closed intro!: close_keeps_closed)
qed

text \<open>
  Property C8: When the connection fails or times out, the session's time is over, or the driver ends the
  ride, retries or leaves the page, the ride stays over: no event that follows, a press on
  resume included, makes anything but neutral messages leave the loop.
\<close>

theorem ended_ride_stays_neutral:
  assumes "ra_active (page_run (mounted_page M0) before)" "ends_ride (page_run (mounted_page M0) before) M e"
  shows "silent_from (page_step (page_run (mounted_page M0) before) (M, e))
    (page_run (page_step (page_run (mounted_page M0) before) (M, e)) later)"
proof -
  let ?p = "page_run (mounted_page M0) before"
  have inv: "page_inv (page_step ?p (M, e))" using inv_page_step [OF inv_page_run [OF inv_mounted]] .
  have "vs_closed (rp_safety (page_step ?p (M, e)))" using assms by (intro ended_is_closed)
  then show ?thesis by (intro barred_silent [OF inv]) (simp_all add: barred_def)
qed

subsection \<open>A concrete ride\<close>

definition demo_video :: "rat \<Rightarrow> video_page" where
  "demo_video t =
     \<lparr>vp_now = t, vp_srcObject = Some ''cam'', vp_visible = True, vp_readyState = 4, vp_paused = False,
      vp_ended = False, vp_videoWidth = 1280, vp_videoHeight = 720, vp_currentTime = Fin (t / 1000),
      vp_frameCallbacks = True, vp_playbackQuality = None, vp_webkitDecodedFrameCount = None\<rparr>"

definition demo_moment :: "rat \<Rightarrow> moment" where
  "demo_moment t =
     \<lparr>mo_loop = sample_surroundings t, mo_video = demo_video t, mo_time = ''12:00:00'', mo_date = \<lfloor>t\<rfloor>\<rparr>"

definition demo_stored :: stored_session where
  "demo_stored =
     \<lparr>st_sessionId = ''s'', st_expiresAt = js_int 120000, st_steeringTrimPercent = js_int 3,
      st_controlProtocolVersion = 5\<rparr>"

definition demo_ride :: "(moment \<times> page_event) list" where
  "demo_ride =
     [(demo_moment 1, Session_created demo_stored (Inr (Some (open_channel 0, open_channel 0)))),
      (demo_moment 2, Countdown_effect), (demo_moment 3, Client_stream ''cam''),
      (demo_moment 4, Video_presents 1 (js_int 1)), (demo_moment 5, Client_state ''DIRECT''),
      (demo_moment 6, Keyboard_effect), (demo_moment 7, Key ''KeyW'' False True),
      (demo_moment 20, Loop_timer)]"

definition demo_page :: ride_page where
  "demo_page = page_run (mounted_page (demo_moment 0)) demo_ride"

definition demo_drives :: bool where
  "demo_drives = (drives demo_page \<and> picture_stands (demo_video 1004) (rp_safety demo_page) \<and> ra_active demo_page
     \<and> cd_running demo_page \<and> \<not> cd_expired demo_page \<and> remainingSessionSeconds (cd_expiresAt demo_page) 120000 \<le> 0
     \<and> (case rp_loop demo_page of None \<Rightarrow> False | Some l \<Rightarrow>
         map (\<lambda>c. (dr_steering c, dr_throttle c, dr_armed c, dr_steeringTrimPercent c)) (commands (cl_log l))
           = [(0, 1000, True, Some 3)]))"

lemma demo_drives: demo_drives
  by code_simp

theorem driving_needs_live_ride_witness:
  "may_drive (page_run (mounted_page (demo_moment 0)) demo_ride)"
  by (rule driving_needs_live_ride) (use demo_drives in \<open>simp add: demo_drives_def demo_page_def\<close>)

theorem standing_picture_stops_the_car_witness:
  "silent_from (page_step (page_run (mounted_page (demo_moment 0)) demo_ride) (demo_moment 1004, Video_check))
     (page_run (page_step (page_run (mounted_page (demo_moment 0)) demo_ride) (demo_moment 1004, Video_check))
        [(demo_moment 1010, Key ''KeyW'' False True), (demo_moment 1020, Focus), (demo_moment 1040, Loop_timer)])"
  by (rule standing_picture_stops_the_car)
    (use demo_drives in \<open>simp_all add: demo_drives_def demo_page_def demo_moment_def\<close>)

theorem ended_ride_stays_neutral_witness:
  "silent_from (page_step (page_run (mounted_page (demo_moment 0)) demo_ride) (demo_moment 120000, Countdown_tick))
     (page_run (page_step (page_run (mounted_page (demo_moment 0)) demo_ride) (demo_moment 120000, Countdown_tick))
        [(demo_moment 120001, Video_presents 1 (js_int 2)), (demo_moment 120002, Resume)])"
  by (rule ended_ride_stays_neutral)
    (use demo_drives in \<open>simp_all add: demo_drives_def demo_page_def demo_moment_def\<close>)

end
