(* ===== verification/Spec2Isabelle.thy ===== *)
theory Spec2Isabelle
  imports StateMachine Rides RideQueue Ledger EdgeApp SessionRegistry Fleet AccountFlows GatewayLife ViewerPresence RideDrive
begin

text \<open>
  A verification development for the RC Racing platform: people queue on a web site for a model
  car, are given a drive, and steer the car from the browser over a direct connection that a
  gateway sets up.

  The program's parts and how they meet.

  The packages hold what the applications share. \<open>packages/contracts\<close> has the messages and
  snapshots, \<open>packages/domain\<close> the state machines of cars and rides, the ride orchestrator, a fair
  queue and a ledger of bought time, \<open>packages/device-auth\<close> the secrets, tickets and relay
  credentials, \<open>packages/database\<close> the tables. The web application (\<open>apps/web\<close>) has the account
  service, the live queue and the start of a drive on the server, and the ride page in the
  browser. The gateway (\<open>apps/gateway\<close>) authenticates devices and browsers on WebSockets, keeps the
  registry of sessions and relays their signalling; it works on the same tables as the web
  application. The edge (\<open>apps/edge\<close>) is an HTTP process on the car with a safety gate in front
  of the actuators and an outbox of events.

  Vocabulary. \<open>Prelude\<close> has results that may throw, insertion-ordered maps with the laws a client
  relies on (locale \<open>keyed_store\<close>), and lists; \<open>JsNumber\<close> the numbers of the language, not-a-number
  and infinities included, and JSON values; \<open>Logs\<close> the contract of the logs that callers append to
  under an idempotency key (locales \<open>idempotent_log\<close>, \<open>numbered_log\<close>), interpreted by the state machine,
  the ledger and the outbox.

  Domain. \<open>Contracts\<close> is \<open>contracts/src/index.ts\<close>, \<open>StateMachine\<close> is \<open>state-machine.ts\<close>, \<open>Rides\<close> is
  \<open>rides.ts\<close>, \<open>RideQueue\<close> is \<open>queue.ts\<close>, \<open>Ledger\<close> is \<open>ledger.ts\<close>: a record per class, a function per
  method, a method that throws returns what it had assigned. The lemmas are invariants kept by
  every method, lifted to runs of any calls, and the exact outcome of the methods that matter.

  Edge. \<open>EdgeSafety\<close> is \<open>safety.ts\<close>, \<open>EdgeOutbox\<close> is \<open>outbox.ts\<close> over the rows of its table, \<open>EdgeApp\<close>
  the routes of \<open>main.ts\<close> over both.

  Tables and their clients. \<open>Database\<close> and \<open>AccountTables\<close> are the rows and unique constraints of
  \<open>schema.ts\<close> that the code uses. \<open>GatewayStore\<close> is \<open>postgres-store.ts\<close>, \<open>LiveQueue\<close> is
  \<open>live-queue-store.ts\<close>, \<open>DriveSessions\<close> and \<open>DeviceUpdates\<close> the stores of those names; \<open>Fleet\<close> makes
  every one of their operations a step on the shared tables and proves what holds of all runs:
  no car is given twice, queue entries and sessions agree, sessions only go forward, tokens and
  updates work once. \<open>AccountStore\<close> and \<open>AuthStore\<close> are \<open>postgres-account-store.ts\<close>,
  \<open>postgres-auth-store.ts\<close> and \<open>adapter.ts\<close>, \<open>Accounts\<close> their runs. \<open>AccountService\<close> has the requests and
  deliveries of \<open>account-service.ts\<close> as programs that make one store call at a time, \<open>AccountFlows\<close>
  runs any number of them interleaved call by call.

  Gateway. \<open>DeviceGateway\<close> is \<open>device-gateway.ts\<close>, the parsers of messages beside a table of the
  protocol they are proved to accept exactly, and the messages the browser writes.
  \<open>SessionRegistry\<close> is \<open>sessions.ts\<close>, \<open>DeviceAuth\<close> is \<open>device-auth/src/index.ts\<close>, \<open>GatewayConfig\<close> is \<open>config.ts\<close>
  with its twin in \<open>drive-session-ticket.ts\<close>. \<open>GatewayServer\<close> is \<open>server.ts\<close> and \<open>presence.ts\<close>: every await
  of a handler is a pending call, and a run is any order of messages, closings, timers, answers
  and failures of the store and operations of the web application. \<open>GatewayRun\<close> has the lemmas
  about one step and the invariant of runs (\<open>gw_ok\<close>, which also remembers the messages received),
  \<open>GatewayLife\<close> those about time: pending work drains, silence is noticed; and the properties.
  \<open>ViewerPresence\<close> is \<open>viewer-presence.ts\<close> with the viewer sockets of \<open>server.ts\<close>: everyone counted was
  told the present number last, and a viewer that answers no ping is closed.

  Ride page. \<open>KeyboardDrive\<close> is \<open>keyboard-drive-model.ts\<close> with an independent curve over the history
  of keys it is proved to follow, \<open>ControlLoop\<close> is \<open>control-loop.ts\<close>, \<open>VideoSafety\<close> is
  \<open>ride-video-safety.ts\<close>, \<open>RidePage\<close> the handlers of \<open>real-ride-screen.tsx\<close> and
  \<open>ride-connection-attempt.ts\<close> that drive the three, \<open>RideDrive\<close> the invariant of the page: when the car
  can be driven, what stops it, and that it then stays neutral.

  Conventions and bounds. Dates are valid instants in milliseconds, ISO texts stand for their
  instants. Finite numbers are rationals and their arithmetic is exact where the language
  computes in doubles; where a number may be missing, infinite or not a number the functions
  of \<open>JsNumber\<close> keep those cases. Texts are ASCII, so lower case and NFKC are those of ASCII texts.
  Identifiers, clocks, random bytes, digests, the printer and reader of JSON of other parts and the
  reader of URLs are arguments; what is assumed of them is a hypothesis with a name in the
  theorem that needs it, and its witness uses concrete functions. A handler reads its clock
  once. \<open>limit 1\<close> and the first row of an answer take the order the rows are stored in. All loops
  are structural or have measures; the one search along cyclic error causes terminates because
  causes already seen are skipped. Runs are over lists of any length, so no fuel is chosen.

  What is assumed of time. A method of a store whose code issues several statements without a
  transaction is one step here (\<open>setPresenceState\<close>, \<open>recordHeartbeat\<close>, \<open>markDeviceOffline\<close>,
  \<open>authenticateDevice\<close> and the updates of the login adapter): other operations come before or after
  it, never between. \<open>late_update_revives_account\<close> in \<open>Accounts\<close> shows what the two statements of
  \<open>updateUser\<close> do when a deletion falls between them. Transactions are serial. The time an offer
  of \<open>queue.ts\<close> stays open and the windows of the rate limits are within the range of dates, as
  all callers have them. The digest of a password comes with the salt of its call, from the
  environment of the program that hashes it. A page of \<open>RidePage\<close> is one attempt to connect; a
  retry starts the next one as another page.

  Not modelled, because it has no logic of its own here or depends on services that are not
  under \<open>src\<close>: billing, its webhooks and worker; the simulation fixture of the API application; HTTP
  routes and forms in front of the services that are modelled; the login library's configuration
  and the texts of mails; the browser's display of the number of viewers; the choice of the video's quality and its
  statistics; sound, touch and tilt input; rendering of all screens; reading the environment of
  the other processes; tests, build and infrastructure. The manifest lists every one of these.
\<close>

end
